(* ===== verification/Prelude.thy ===== *)
theory Prelude imports Main "HOL-Library.Word" begin

text \<open>
  The vocabulary every component shares: the C++ integer types as words, the ways a C++
  operation can fail as values of one type \<open>fault\<close>, sequencing of operations that can
  fail, unsigned 64-bit subtraction, memory blocks with bounds-checked copies, and the
  generic lemmas on lists that the components use.
\<close>

unbundle bit_operations_syntax

section \<open>Integer types\<close>

type_synonym u8 = "8 word"
type_synonym u16 = "16 word"
type_synonym u32 = "32 word"
type_synonym u64 = "64 word"

lemma unat_bound: "unat (w :: 'a::len word) < 2 ^ LENGTH('a)"
  by simp

lemma unat_u8: "unat (b :: u8) < 256"
  using unat_bound [of b] by simp

section \<open>Failures\<close>

text \<open>
  Exceptions (\<open>std::out_of_range\<close>, \<open>std::invalid_argument\<close>, \<open>std::length_error\<close>,
  \<open>std::logic_error\<close>, and those of conversions), the program's own \<open>EASY_ASSERT\<close>, the end of the program by
  \<open>abort\<close> or an exception nobody catches, and the undefined behaviours the code can run into, among
  them the release or destruction of a lock that must not be, are the constructors of one type. An operation that can fail returns
  \<open>fault + 'a\<close>; \<open>Inl\<close> ends it.
\<close>

datatype fault =
    OutOfRange | InvalidArgument | LengthError | LogicError | BadConversion
  | AssertFail | Terminate | UseAfterFree | NotHeld | LockBusy
  | NullDeref | OutOfBounds | DivByZero | EndDeref | ShiftRange

definition bindE :: "'e + 'a \<Rightarrow> ('a \<Rightarrow> 'e + 'b) \<Rightarrow> 'e + 'b" where
  "bindE m f = (case m of Inl e \<Rightarrow> Inl e | Inr x \<Rightarrow> f x)"

definition guardE :: "bool \<Rightarrow> 'e \<Rightarrow> 'e + 'a \<Rightarrow> 'e + 'a" where
  "guardE c e m = (if c then m else Inl e)"

named_theorems faults \<open>rules for operations that can fail\<close>

lemma bindE_simps [simp]:
  "bindE (Inl e) f = Inl e"
  "bindE (Inr x) f = f x"
  by (simp_all add: bindE_def)

lemma bindE_cong [fundef_cong]:
  "m = m' \<Longrightarrow> (\<And>x. m' = Inr x \<Longrightarrow> f x = g x) \<Longrightarrow> bindE m f = bindE m' g"
  by (cases m') (auto simp: bindE_def)

lemma bindE_eq_Inr [faults]: "bindE m f = Inr y \<longleftrightarrow> (\<exists>x. m = Inr x \<and> f x = Inr y)"
  by (cases m) auto

lemma bindE_eq_Inl [faults]:
  "bindE m f = Inl e \<longleftrightarrow> m = Inl e \<or> (\<exists>x. m = Inr x \<and> f x = Inl e)"
  by (cases m) auto

lemma bindE_assoc: "bindE (bindE m f) g = bindE m (\<lambda>x. bindE (f x) g)"
  by (cases m) auto

lemma guardE_simps [simp]:
  "guardE True e m = m"
  "guardE False e m = Inl e"
  by (simp_all add: guardE_def)

lemma guardE_eq_Inr [faults]: "guardE c e m = Inr y \<longleftrightarrow> c \<and> m = Inr y"
  by (simp add: guardE_def)

text \<open>A loop that stops at the first failure.\<close>

fun mapE :: "('a \<Rightarrow> 'e + 'b) \<Rightarrow> 'a list \<Rightarrow> 'e + 'b list" where
  "mapE f [] = Inr []"
| "mapE f (x # xs) = bindE (f x) (\<lambda>y. bindE (mapE f xs) (\<lambda>ys. Inr (y # ys)))"

lemma mapE_ok: "(\<And>x. x \<in> set xs \<Longrightarrow> f x = Inr (g x)) \<Longrightarrow> mapE f xs = Inr (map g xs)"
  by (induction xs) auto

lemma mapE_map: "mapE f (map g xs) = mapE (\<lambda>x. f (g x)) xs"
  by (induction xs) auto

section \<open>Unsigned 64-bit subtraction\<close>

text \<open>
  Sizes are \<open>size_t\<close>. They are modelled as naturals below \<open>2 ^ 64\<close>, and subtraction,
  the operation that can leave that range in this program, is written with its wrap-around.
\<close>

definition sub64 :: "nat \<Rightarrow> nat \<Rightarrow> nat" where
  "sub64 a b = (if b \<le> a then a - b else 2 ^ 64 + a - b)"

lemma sub64_le [simp]: "b \<le> a \<Longrightarrow> sub64 a b = a - b"
  by (simp add: sub64_def)

lemma sub64_word:
  "a < 2 ^ 64 \<Longrightarrow> b < 2 ^ 64 \<Longrightarrow> sub64 a b = unat ((of_nat a :: u64) - of_nat b)"
  by (auto simp: sub64_def unat_sub_if' unat_of_nat take_bit_eq_mod)

section \<open>Memory blocks\<close>

definition memcpy_out :: "u8 list \<Rightarrow> nat \<Rightarrow> nat \<Rightarrow> fault + u8 list" where
  "memcpy_out blk off n =
     (if off + n \<le> length blk then Inr (take n (drop off blk)) else Inl OutOfBounds)"

definition memcpy_in :: "u8 list \<Rightarrow> nat \<Rightarrow> u8 list \<Rightarrow> fault + u8 list" where
  "memcpy_in blk off bs =
     (if off + length bs \<le> length blk
      then Inr (take off blk @ bs @ drop (off + length bs) blk) else Inl OutOfBounds)"

lemma memcpy_out_ok [simp]:
  "off + n \<le> length blk \<Longrightarrow> memcpy_out blk off n = Inr (take n (drop off blk))"
  by (simp add: memcpy_out_def)

lemma memcpy_in_ok [simp]:
  "off + length bs \<le> length blk \<Longrightarrow>
   memcpy_in blk off bs = Inr (take off blk @ bs @ drop (off + length bs) blk)"
  by (simp add: memcpy_in_def)

text \<open>A list with the elements from \<open>p\<close> on overwritten by \<open>bs\<close>.\<close>

definition overwrite :: "nat \<Rightarrow> 'a list \<Rightarrow> 'a list \<Rightarrow> 'a list" where
  "overwrite p bs xs = take p xs @ bs @ drop (p + length bs) xs"

lemma length_overwrite [simp]:
  "p + length bs \<le> length xs \<Longrightarrow> length (overwrite p bs xs) = length xs"
  by (simp add: overwrite_def)

lemma overwrite_nil [simp]: "overwrite p [] xs = xs"
  by (simp add: overwrite_def)

lemma take_drop_overwrite:
  "p \<le> length xs \<Longrightarrow> take (length bs) (drop p (overwrite p bs xs)) = bs"
  by (simp add: overwrite_def)

lemma take_overwrite:
  "p \<le> length xs \<Longrightarrow> take p (overwrite p bs xs) = take p xs"
  by (simp add: overwrite_def)

lemma take_overwrite_end:
  "p \<le> length xs \<Longrightarrow> take (p + length bs) (overwrite p bs xs) = take p xs @ bs"
  by (simp add: overwrite_def)

lemma overwrite_overwrite:
  "p \<le> length xs \<Longrightarrow>
   overwrite (p + length bs) cs (overwrite p bs xs) = overwrite p (bs @ cs) xs"
  by (simp add: overwrite_def ac_simps)

lemma drop_overwrite:
  "p \<le> length xs \<Longrightarrow> drop p (overwrite p bs xs) = bs @ drop (p + length bs) xs"
  by (simp add: overwrite_def)

lemma drop_overwrite_end:
  "p \<le> length xs \<Longrightarrow> drop (p + length bs) (overwrite p bs xs) = drop (p + length bs) xs"
  by (simp add: overwrite_def)

lemma concat_map_if: "concat (map (\<lambda>x. if P x then [f x] else []) xs) = map f (filter P xs)"
  by (induction xs) auto

section \<open>Lists of equal blocks\<close>

text \<open>\<open>blocks k xss\<close>: every block of \<open>xss\<close> has length \<open>k\<close>.\<close>

definition blocks :: "nat \<Rightarrow> 'a list list \<Rightarrow> bool" where
  "blocks k xss \<longleftrightarrow> (\<forall>xs \<in> set xss. length xs = k)"

lemma blocks_simps [simp]:
  "blocks k []"
  "blocks k (xs # xss) \<longleftrightarrow> length xs = k \<and> blocks k xss"
  "blocks k (xss @ yss) \<longleftrightarrow> blocks k xss \<and> blocks k yss"
  by (auto simp: blocks_def)

lemma blocks_nth [simp]: "blocks k xss \<Longrightarrow> i < length xss \<Longrightarrow> length (xss ! i) = k"
  by (simp add: blocks_def)

lemma blocks_take [simp]: "blocks k xss \<Longrightarrow> blocks k (take n xss)"
  by (auto simp: blocks_def dest: in_set_takeD)

lemma blocks_drop [simp]: "blocks k xss \<Longrightarrow> blocks k (drop n xss)"
  by (auto simp: blocks_def dest: in_set_dropD)

lemma length_concat_blocks: "blocks k xss \<Longrightarrow> length (concat xss) = k * length xss"
  by (induction xss) auto

lemma drop_concat_blocks:
  "blocks k xss \<Longrightarrow> drop (k * i) (concat xss) = concat (drop i xss)"
proof (induction i arbitrary: xss)
  case 0
  then show ?case by simp
next
  case (Suc i)
  then show ?case
    by (cases xss) (auto simp: algebra_simps simp flip: drop_drop)
qed

lemma take_concat_blocks:
  "blocks k xss \<Longrightarrow> take (k * i) (concat xss) = concat (take i xss)"
proof (induction i arbitrary: xss)
  case 0
  then show ?case by simp
next
  case (Suc i)
  then show ?case
    by (cases xss) (auto simp: algebra_simps)
qed

text \<open>From a block boundary on, the concatenation is the block and then the rest.\<close>

lemma drop_concat_block:
  assumes "blocks k xss" and "i < length xss"
  shows "drop (k * i + n) (concat xss) = drop n (xss ! i @ concat (drop (Suc i) xss))"
proof -
  have "drop (k * i) (concat xss) = xss ! i @ concat (drop (Suc i) xss)"
    using assms by (simp add: drop_concat_blocks flip: Cons_nth_drop_Suc)
  then show ?thesis by (metis add.commute drop_drop)
qed

text \<open>Overwriting inside one block is overwriting the concatenation.\<close>

lemma concat_update_block:
  assumes "blocks k xss" and "i < length xss" and "n + length bs \<le> k"
  shows "concat (xss[i := overwrite n bs (xss ! i)]) = overwrite (k * i + n) bs (concat xss)"
proof -
  have len: "length (xss ! i) = k" using assms by simp
  have split: "concat xss = concat (take i xss) @ xss ! i @ concat (drop (Suc i) xss)"
    using assms(2) by (metis concat.simps(2) concat_append id_take_nth_drop)
  have pre: "length (concat (take i xss)) = k * i"
    using assms(1,2) by (simp add: length_concat_blocks [where k = k])
  show ?thesis
    using assms(2,3) len pre unfolding split
    by (simp add: overwrite_def upd_conv_take_nth_drop add.assoc)
qed


section \<open>Text\<close>

text \<open>A \<open>std::string\<close> is the list of its bytes; \<open>chars\<close> gives those of a literal.\<close>

type_synonym str = "u8 list"

definition chars :: "string \<Rightarrow> str" where
  "chars s = map of_char s"

definition slash :: u8 where "slash = 0x2F"

text \<open>Numbers as \<open>ostream\<close> prints them, in a base of at least 2; characters are bytes.\<close>

definition digit :: "nat \<Rightarrow> u8" where
  "digit d = (if d < 10 then of_nat (48 + d) else of_nat (87 + d))"

function show_nat :: "nat \<Rightarrow> nat \<Rightarrow> u8 list" where
  "show_nat base n =
     (if n < base \<or> base < 2 then [digit n] else show_nat base (n div base) @ [digit (n mod base)])"
  by pat_completeness auto
termination by (relation "measure snd") auto

declare show_nat.simps [simp del]

definition show_int :: "int \<Rightarrow> str" where
  "show_int x = (if x < 0 then 0x2D # show_nat 10 (nat (- x)) else show_nat 10 (nat x))"

text \<open>\<open>memchr\<close>: the position of the first occurrence.\<close>

fun memchr :: "str \<Rightarrow> u8 \<Rightarrow> nat option" where
  "memchr [] c = None"
| "memchr (x # xs) c = (if x = c then Some 0 else map_option Suc (memchr xs c))"

lemma memchr_none: "memchr xs c = None \<longleftrightarrow> c \<notin> set xs"
  by (induction xs) auto

lemma memchr_first: "c \<notin> set xs \<Longrightarrow> memchr (xs @ c # ys) c = Some (length xs)"
  by (induction xs) auto

section \<open>Tables indexed by a descriptor\<close>

text \<open>\<open>static_cast<size_t>(fd)\<close>, and the largest size a vector of pointers can have.\<close>

definition fd_index :: "int \<Rightarrow> nat" where
  "fd_index fd = nat (fd mod 2 ^ 64)"

definition max_size :: nat where "max_size = 2 ^ 60 - 1"

lemma fd_index_nonneg: "0 \<le> fd \<Longrightarrow> fd < 2 ^ 31 \<Longrightarrow> fd_index fd = nat fd"
  by (simp add: fd_index_def)

lemma fd_index_int: "i < 2 ^ 63 \<Longrightarrow> fd_index (int i) = i"
  by (simp add: fd_index_def)

end
