(* ===== verification/LogLevel.thy ===== *)
theory LogLevel imports Prelude begin

text \<open>
  \<open>easy/base/LogLevel.h\<close>, \<open>easy/base/LogLevel.cc\<close>: the levels, their order and their names. The
  levels are a linear order, as the values of the \<open>enum class\<close> are, with \<open>OFF\<close> at the bottom.
\<close>

datatype log_level = OFF | TRACE | DEBUG | INFO | WARN | ERROR | FATAL

fun level_value :: "log_level \<Rightarrow> nat" where
  "level_value OFF = 0"
| "level_value TRACE = 1"
| "level_value DEBUG = 2"
| "level_value INFO = 3"
| "level_value WARN = 4"
| "level_value ERROR = 5"
| "level_value FATAL = 6"

lemma level_value_inj: "level_value a = level_value b \<longleftrightarrow> a = b"
  by (cases a; cases b) simp_all

instantiation log_level :: linorder
begin

definition less_eq_log_level :: "log_level \<Rightarrow> log_level \<Rightarrow> bool" where
  "a \<le> b \<longleftrightarrow> level_value a \<le> level_value b"

definition less_log_level :: "log_level \<Rightarrow> log_level \<Rightarrow> bool" where
  "a < b \<longleftrightarrow> level_value a < level_value b"

instance
  by standard (auto simp: less_eq_log_level_def less_log_level_def level_value_inj)

end

lemmas level_order = less_eq_log_level_def less_log_level_def

lemma OFF_le [simp]: "OFF \<le> l"
  by (simp add: level_order)

fun level_toString :: "log_level \<Rightarrow> str" where
  "level_toString TRACE = chars ''TRACE''"
| "level_toString DEBUG = chars ''DEBUG''"
| "level_toString INFO = chars ''INFO''"
| "level_toString WARN = chars ''WARN''"
| "level_toString ERROR = chars ''ERROR''"
| "level_toString FATAL = chars ''FATAL''"
| "level_toString OFF = chars ''OFF''"

definition level_fromString :: "str \<Rightarrow> log_level" where
  "level_fromString s =
     (if s = chars ''trace'' then TRACE else if s = chars ''debug'' then DEBUG
      else if s = chars ''info'' then INFO else if s = chars ''warn'' then WARN
      else if s = chars ''error'' then ERROR else if s = chars ''fatal'' then FATAL
      else if s = chars ''TRACE'' then TRACE else if s = chars ''DEBUG'' then DEBUG
      else if s = chars ''INFO'' then INFO else if s = chars ''WARN'' then WARN
      else if s = chars ''ERROR'' then ERROR else if s = chars ''FATAL'' then FATAL else OFF)"

lemma level_roundtrip [simp]: "level_fromString (level_toString l) = l"
  by (cases l) (simp_all add: level_fromString_def chars_def)

end
