(* ===== verification/Timestamp.thy ===== *)
theory Timestamp imports Prelude "HOL-Library.Signed_Division" begin

text \<open>
  \<open>easy/base/Timestamp.h\<close>, \<open>easy/base/Timestamp.cc\<close>: points in time in microseconds and the
  arithmetic on them. An \<open>int64_t\<close> is an integer; a computation that can leave the range is
  reduced to it with \<open>to_i64\<close>.
\<close>

definition to_i64 :: "int \<Rightarrow> int" where
  "to_i64 x = signed_take_bit 63 x"

lemma to_i64_id: "- (2 ^ 63) \<le> x \<Longrightarrow> x < 2 ^ 63 \<Longrightarrow> to_i64 x = x"
  unfolding to_i64_def by (rule signed_take_bit_int_eq_self) simp_all

text \<open>A \<open>Timestamp\<close> is its \<open>microSecondsSinceEpoch_\<close>; the comparison operators compare it.\<close>

type_synonym timestamp = int

definition kMicroSecondsPerSecond :: int where "kMicroSecondsPerSecond = 1000 * 1000"
definition kMillisecondPerSeond :: int where "kMillisecondPerSeond = 1000"
definition kSecondsPerHour :: int where "kSecondsPerHour = 60 * 60"

lemmas time_constants =
  kMicroSecondsPerSecond_def kMillisecondPerSeond_def kSecondsPerHour_def

definition valid :: "timestamp \<Rightarrow> bool" where
  "valid t \<longleftrightarrow> 0 < t"

definition seconds :: "timestamp \<Rightarrow> int" where
  "seconds t = t sdiv kMicroSecondsPerSecond"

definition microSecondsRemainder :: "timestamp \<Rightarrow> int" where
  "microSecondsRemainder t = t smod kMicroSecondsPerSecond"

text \<open>\<open>Timestamp::now\<close> from the \<open>tv_sec\<close> and \<open>tv_usec\<close> that \<open>gettimeofday\<close> delivers.\<close>

definition Timestamp_now :: "int \<Rightarrow> int \<Rightarrow> timestamp" where
  "Timestamp_now tv_sec tv_usec = to_i64 (tv_sec * kMicroSecondsPerSecond + tv_usec)"

text \<open>Milliseconds.\<close>

definition timeDifference :: "timestamp \<Rightarrow> timestamp \<Rightarrow> int" where
  "timeDifference high low = to_i64 (high - low) sdiv kMillisecondPerSeond"

definition addTime :: "timestamp \<Rightarrow> int \<Rightarrow> timestamp" where
  "addTime t ms = to_i64 (t + to_i64 (ms * kMillisecondPerSeond))"

text \<open>Times and intervals for which nothing overflows: 2 to the 62 in microseconds.\<close>

definition in_range :: "timestamp \<Rightarrow> bool" where
  "in_range t \<longleftrightarrow> \<bar>t\<bar> < 2 ^ 62"

lemma addTime_exact: "in_range t \<Longrightarrow> in_range (ms * 1000) \<Longrightarrow> addTime t ms = t + ms * 1000"
  by (simp add: addTime_def in_range_def time_constants to_i64_id)

lemma sdiv_exact: "(a * k) sdiv k = a" if "0 < k" for a k :: int
  using that by (simp add: signed_divide_int_def sgn_mult abs_mult sgn_mult_abs)

lemma timeDifference_addTime:
  "in_range t \<Longrightarrow> in_range (ms * 1000) \<Longrightarrow> timeDifference (addTime t ms) t = ms"
  by (simp add: addTime_exact timeDifference_def in_range_def time_constants to_i64_id sdiv_exact)

lemma seconds_now:
  assumes "0 \<le> s" and "s < 2 ^ 42" and "0 \<le> us" and "us < 1000000"
  shows "seconds (Timestamp_now s us) = s" and "microSecondsRemainder (Timestamp_now s us) = us"
proof -
  have "Timestamp_now s us = s * 1000000 + us"
    using assms by (simp add: Timestamp_now_def time_constants to_i64_id)
  then show "seconds (Timestamp_now s us) = s" "microSecondsRemainder (Timestamp_now s us) = us"
    using assms by (simp_all add: seconds_def microSecondsRemainder_def time_constants
        signed_divide_int_def signed_modulo_int_def sgn_if)
qed

end
