(* ===== verification/LogFormatter.thy ===== *)
theory LogFormatter imports LogLevel Timestamp begin

text \<open>
  \<open>easy/base/LogRecord.h\<close>, \<open>LogRecord.cc\<close>, \<open>LogFormatter.h\<close>, \<open>LogFormatter.cc\<close>: a log record and the
  patterns that lay it out. \<open>strftime\<close> with the local time zone and \<open>vasprintf\<close> are arguments. The
  lemmas show what every pattern means and that the cached time text is the right one as long as
  one thread uses one date format whose texts fit the buffer of 32 bytes.
\<close>

section \<open>Records\<close>

text \<open>\<open>rec_logger\<close> is the address of the record's logger.\<close>

record log_record =
  rec_file :: str
  rec_line :: int
  rec_function :: str
  rec_elapse :: u32
  rec_threadId :: u32
  rec_fiberId :: u32
  rec_time :: timestamp
  rec_threadName :: str
  rec_content :: str
  rec_logger :: nat
  rec_level :: log_level

text \<open>What follows the last slash.\<close>

fun get_base_name :: "str \<Rightarrow> str" where
  "get_base_name [] = []"
| "get_base_name (c # cs) =
     (if slash \<in> set cs then get_base_name cs else if c = slash then cs else c # cs)"

definition new_LogRecord ::
    "nat \<Rightarrow> log_level \<Rightarrow> str \<Rightarrow> int \<Rightarrow> str \<Rightarrow> u32 \<Rightarrow> u32 \<Rightarrow> u32 \<Rightarrow> timestamp \<Rightarrow> str \<Rightarrow> log_record" where
  "new_LogRecord logger level filename line function elapse tid fid time tname =
     \<lparr>rec_file = get_base_name filename, rec_line = line, rec_function = function, rec_elapse = elapse,
      rec_threadId = tid, rec_fiberId = fid, rec_time = time, rec_threadName = tname, rec_content = [],
      rec_logger = logger, rec_level = level\<rparr>"

text \<open>\<open>LogRecord::format\<close> with the text \<open>vasprintf\<close> makes, \<open>None\<close> when it fails.\<close>

definition record_format :: "str option \<Rightarrow> log_record \<Rightarrow> log_record" where
  "record_format out r = (case out of None \<Rightarrow> r | Some s \<Rightarrow> r\<lparr>rec_content := rec_content r @ s\<rparr>)"

section \<open>Patterns\<close>

datatype format_unit =
    MessageUnit | LevelUnit | ElapseUnit | NameUnit | ThreadIdUnit | FiberIdUnit | ThreadNameUnit
  | DateTimeUnit str | FilenameUnit | LineUnit | FunctionUnit | NewLineUnit | StringUnit str | TabUnit | SpaceUnit

datatype status = UNIT | STRING

definition percent :: u8 where "percent = 0x25"
definition lbrace :: u8 where "lbrace = 0x7B"
definition rbrace :: u8 where "rbrace = 0x7D"

text \<open>The argument in braces at the start of a text, and what follows it.\<close>

definition braces :: "str \<Rightarrow> (str \<times> str) option" where
  "braces cs =
     (if cs \<noteq> [] \<and> hd cs = lbrace
      then (case memchr (tl cs) rbrace of
          None \<Rightarrow> None | Some k \<Rightarrow> Some (take k (tl cs), drop (k + 1) (tl cs)))
      else None)"

lemma braces_shorter: "braces cs = Some (b, rest) \<Longrightarrow> length rest < length cs"
  by (cases cs) (auto simp: braces_def split: if_splits option.splits)

text \<open>The loop over the pattern; a moved-from string is empty.\<close>

function split_pattern :: "status \<Rightarrow> str \<Rightarrow> (str \<times> str \<times> status) list" where
  "split_pattern st [] = []"
| "split_pattern STRING (c # cs) =
     (if c = percent then split_pattern UNIT cs else ([c], [], STRING) # split_pattern STRING cs)"
| "split_pattern UNIT (c # cs) =
     (case braces cs of
        None \<Rightarrow> ([c], [], UNIT) # split_pattern STRING cs
      | Some (b, rest) \<Rightarrow> ([c], b, UNIT) # split_pattern STRING rest)"
  by pat_completeness auto
termination
  by (relation "measure (length \<circ> snd)") (auto dest: braces_shorter)

definition s_format_units :: "str \<Rightarrow> str \<Rightarrow> format_unit option" where
  "s_format_units a b =
     (if a = chars ''m'' then Some MessageUnit else if a = chars ''p'' then Some LevelUnit
      else if a = chars ''r'' then Some ElapseUnit else if a = chars ''c'' then Some NameUnit
      else if a = chars ''t'' then Some ThreadIdUnit else if a = chars ''n'' then Some NewLineUnit
      else if a = chars ''d'' then Some (DateTimeUnit b) else if a = chars ''F'' then Some FilenameUnit
      else if a = chars ''f'' then Some FunctionUnit else if a = chars ''L'' then Some LineUnit
      else if a = chars ''T'' then Some TabUnit else if a = chars ''b'' then Some SpaceUnit
      else if a = chars ''C'' then Some FiberIdUnit else if a = chars ''N'' then Some ThreadNameUnit
      else None)"

text \<open>One element of \<open>units\<close>: the format unit, and whether it is an error.\<close>

fun compile_unit :: "str \<times> str \<times> status \<Rightarrow> format_unit \<times> bool" where
  "compile_unit (a, b, STRING) = (StringUnit a, False)"
| "compile_unit (a, b, UNIT) =
     (case s_format_units a b of
        None \<Rightarrow> (StringUnit (chars ''<<error_format %'' @ a @ chars ''>>''), True)
      | Some u \<Rightarrow> (u, False))"

record formatter =
  f_pattern :: str
  f_units :: "format_unit list"
  f_error :: bool

definition LogFormatter :: "str \<Rightarrow> formatter" where
  "LogFormatter pattern =
     (let us = map compile_unit (split_pattern STRING pattern) in
      \<lparr>f_pattern = pattern, f_units = map fst us, f_error = (\<exists>u \<in> set us. snd u)\<rparr>)"

section \<open>Formatting\<close>

text \<open>
  \<open>strftime(buf, n, fmt, localtime(s))\<close>: what the buffer of \<open>n\<close> bytes holds afterwards, up to the first null, when it held \<open>old\<close>
  before. A text that does not fit with its null leaves undefined contents.
\<close>

type_synonym strftime = "nat \<Rightarrow> str \<Rightarrow> int \<Rightarrow> str \<Rightarrow> str"

definition writes_dates :: "strftime \<Rightarrow> (str \<Rightarrow> int \<Rightarrow> str) \<Rightarrow> bool" where
  "writes_dates strftime expand \<longleftrightarrow> (\<forall>n fmt s old. length (expand fmt s) < n \<longrightarrow> strftime n fmt s old = expand fmt s)"

text \<open>The thread's buffer of 32 bytes for the text of the last second.\<close>

record time_cache =
  timeBuf :: str
  lastSecond :: int

definition no_time :: time_cache where
  "no_time = \<lparr>timeBuf = [], lastSecond = 0\<rparr>"

definition zero_padded :: "nat \<Rightarrow> str \<Rightarrow> str" where
  "zero_padded n s = replicate (n - length s) 0x30 @ s"

text \<open>\<open>.%06ld\<close>\<close>

definition micro_text :: "timestamp \<Rightarrow> str" where
  "micro_text t =
     (let us = microSecondsRemainder t in
      chars ''.'' @ (if us < 0 then chars ''-'' @ zero_padded 5 (show_nat 10 (nat (- us)))
                     else zero_padded 6 (show_nat 10 (nat us))))"

definition format_date :: "strftime \<Rightarrow> str \<Rightarrow> timestamp \<Rightarrow> time_cache \<Rightarrow> str \<times> time_cache" where
  "format_date strftime fmt t tc =
     (let s = seconds t in
      if lastSecond tc = s then (timeBuf tc @ micro_text t, tc)
      else let text = strftime 32 fmt s (timeBuf tc) in (text @ micro_text t, \<lparr>timeBuf = text, lastSecond = s\<rparr>))"

text \<open>What the units other than the date print; \<open>lname\<close> gives the name of a logger.\<close>

fun unit_text :: "(nat \<Rightarrow> str) \<Rightarrow> log_level \<Rightarrow> log_record \<Rightarrow> format_unit \<Rightarrow> str" where
  "unit_text lname level r MessageUnit = rec_content r"
| "unit_text lname level r LevelUnit = level_toString level"
| "unit_text lname level r ElapseUnit = show_nat 10 (unat (rec_elapse r))"
| "unit_text lname level r NameUnit = lname (rec_logger r)"
| "unit_text lname level r ThreadIdUnit = show_nat 10 (unat (rec_threadId r))"
| "unit_text lname level r FiberIdUnit = show_nat 10 (unat (rec_fiberId r))"
| "unit_text lname level r ThreadNameUnit = rec_threadName r"
| "unit_text lname level r FilenameUnit = rec_file r"
| "unit_text lname level r LineUnit = show_int (rec_line r)"
| "unit_text lname level r FunctionUnit = rec_function r"
| "unit_text lname level r NewLineUnit = [10]"
| "unit_text lname level r (StringUnit s) = s"
| "unit_text lname level r TabUnit = [9]"
| "unit_text lname level r SpaceUnit = [0x20]"
| "unit_text lname level r (DateTimeUnit fmt) = []"

definition format_unit ::
    "strftime \<Rightarrow> (nat \<Rightarrow> str) \<Rightarrow> log_level \<Rightarrow> log_record \<Rightarrow> format_unit \<Rightarrow> time_cache \<Rightarrow> str \<times> time_cache" where
  "format_unit strftime lname level r u tc =
     (case u of DateTimeUnit fmt \<Rightarrow> format_date strftime fmt (rec_time r) tc
        | _ \<Rightarrow> (unit_text lname level r u, tc))"

fun format_units ::
    "strftime \<Rightarrow> (nat \<Rightarrow> str) \<Rightarrow> format_unit list \<Rightarrow> log_level \<Rightarrow> log_record \<Rightarrow> time_cache \<Rightarrow>
     str \<times> time_cache" where
  "format_units strftime lname [] level r tc = ([], tc)"
| "format_units strftime lname (u # us) level r tc =
     (let (s, tc1) = format_unit strftime lname level r u tc;
          (rest, tc2) = format_units strftime lname us level r tc1 in (s @ rest, tc2))"

definition format where
  "format strftime lname f level r tc = format_units strftime lname (f_units f) level r tc"

section \<open>What a pattern means\<close>

text \<open>A pattern as the documentation of the units reads it, and its text.\<close>

datatype item = Lit u8 | Spec u8 | SpecArg u8 str

fun item_text :: "item \<Rightarrow> str" where
  "item_text (Lit c) = [c]"
| "item_text (Spec c) = [percent, c]"
| "item_text (SpecArg c b) = [percent, c, lbrace] @ b @ [rbrace]"

definition items_text :: "item list \<Rightarrow> str" where
  "items_text is = concat (map item_text is)"

lemma items_text_simps [simp]:
  "items_text [] = []" "items_text (i # is) = item_text i @ items_text is"
  by (simp_all add: items_text_def)

text \<open>
  A literal is no \<open>%\<close>, an argument has no closing brace, and a unit without an argument is not
  followed by what would be read as one.
\<close>

fun items_ok :: "item list \<Rightarrow> str \<Rightarrow> bool" where
  "items_ok [] end_text = True"
| "items_ok (Lit c # is) end_text \<longleftrightarrow> c \<noteq> percent \<and> items_ok is end_text"
| "items_ok (Spec c # is) end_text \<longleftrightarrow> braces (items_text is @ end_text) = None \<and> items_ok is end_text"
| "items_ok (SpecArg c b # is) end_text \<longleftrightarrow> rbrace \<notin> set b \<and> items_ok is end_text"

fun item_unit :: "item \<Rightarrow> format_unit \<times> bool" where
  "item_unit (Lit c) = (StringUnit [c], False)"
| "item_unit (Spec c) = compile_unit ([c], [], UNIT)"
| "item_unit (SpecArg c b) = compile_unit ([c], b, UNIT)"

lemma braces_arg: "rbrace \<notin> set b \<Longrightarrow> braces (lbrace # b @ rbrace # rest) = Some (b, rest)"
  by (simp add: braces_def memchr_first)

lemma split_items:
  assumes "items_ok is e" and "e = [] \<or> e = [percent]"
  shows "map compile_unit (split_pattern STRING (items_text is @ e)) = map item_unit is"
  using assms(1)
proof (induction "is")
  case Nil
  then show ?case using assms(2) by auto
next
  case (Cons i "is")
  then show ?case by (cases i) (auto simp: braces_arg)
qed

lemma memchr_SomeD: "memchr xs c = Some k \<Longrightarrow> xs = take k xs @ c # drop (k + 1) xs \<and> c \<notin> set (take k xs)"
  by (induction xs arbitrary: k) (auto split: if_splits)

lemma braces_someD: "braces cs = Some (b, rest) \<Longrightarrow> cs = lbrace # b @ rbrace # rest \<and> rbrace \<notin> set b"
  by (cases cs) (auto simp: braces_def dest: memchr_SomeD split: if_splits option.splits)

text \<open>Every text is the text of such a pattern, but for a \<open>%\<close> at the end.\<close>

lemma items_cover: "\<exists>is e. items_ok is e \<and> (e = [] \<or> e = [percent]) \<and> cs = items_text is @ e"
proof (induction cs rule: length_induct)
  case (1 cs)
  consider (nil) "cs = []" | (lit) c ds where "cs = c # ds" "c \<noteq> percent"
    | (last) "cs = [percent]" | (spec) c ds where "cs = percent # c # ds" "braces ds = None"
    | (arg) c b ds where "cs = percent # c # lbrace # b @ rbrace # ds" "rbrace \<notin> set b"
    by (metis braces_someD list.exhaust option.exhaust surj_pair)
  then show ?case
  proof cases
    case nil
    then show ?thesis by (intro exI [of _ "[]"]) simp
  next
    case (lit c ds)
    then obtain "is" e where "items_ok is e" "e = [] \<or> e = [percent]" "ds = items_text is @ e"
      using 1 [rule_format, of ds] by auto
    then show ?thesis using lit by (intro exI [of _ "Lit c # is"] exI [of _ e]) simp
  next
    case last
    then show ?thesis by (auto intro!: exI [of _ "[] :: item list"])
  next
    case (spec c ds)
    then obtain "is" e where "items_ok is e" "e = [] \<or> e = [percent]" "ds = items_text is @ e"
      using 1 [rule_format, of ds] by auto
    then show ?thesis using spec by (intro exI [of _ "Spec c # is"] exI [of _ e]) simp
  next
    case (arg c b ds)
    then obtain "is" e where "items_ok is e" "e = [] \<or> e = [percent]" "ds = items_text is @ e"
      using 1 [rule_format, of ds] by auto
    then show ?thesis using arg by (intro exI [of _ "SpecArg c b # is"] exI [of _ e]) simp
  qed
qed

section \<open>Properties\<close>

text \<open>
  C37. What a pattern means: every pattern is, but for a \<open>%\<close> at its end, which is ignored, a
  sequence of literals, \<open>%x\<close> and \<open>%x{...}\<close>, and compiling gives one unit for each, in order: the
  literal, or the unit of the letter with the argument. It is an error exactly when some letter is
  unknown, as the \<open>%\<close> of \<open>%%\<close> is.
\<close>

theorem pattern_meaning:
  "(\<exists>is e. items_ok is e \<and> (e = [] \<or> e = [percent]) \<and> pattern = items_text is @ e)
   \<and> (\<forall>is e. items_ok is e \<and> (e = [] \<or> e = [percent]) \<and> pattern = items_text is @ e \<longrightarrow>
        f_units (LogFormatter pattern) = map (fst \<circ> item_unit) is
        \<and> (f_error (LogFormatter pattern) \<longleftrightarrow>
             (\<exists>c b. (Spec c \<in> set is \<or> SpecArg c b \<in> set is) \<and> s_format_units [c] b = None)))"
proof (intro conjI allI impI; (elim conjE)?)
  show "\<exists>is e. items_ok is e \<and> (e = [] \<or> e = [percent]) \<and> pattern = items_text is @ e"
    by (rule items_cover)
next
  fix "is" e
  assume a: "items_ok is e" "e = [] \<or> e = [percent]" "pattern = items_text is @ e"
  note units = split_items [OF a(1,2)]
  show "f_units (LogFormatter pattern) = map (fst \<circ> item_unit) is"
    using units a(3) by (simp add: LogFormatter_def Let_def)
  have "\<exists>unknown. \<forall>c b. s_format_units [c] b = None \<longleftrightarrow> unknown c"
    by (intro exI [of _ "\<lambda>c. s_format_units [c] [] = None"]) (auto simp: s_format_units_def)
  then obtain unknown where known: "\<And>c b. s_format_units [c] b = None \<longleftrightarrow> unknown c" by blast
  have "snd (item_unit i) \<longleftrightarrow>
      (\<exists>c b. (i = Spec c \<or> i = SpecArg c b) \<and> s_format_units [c] b = None)" for i
    using known by (cases i) (auto simp: option.case_eq_if)
  then show "f_error (LogFormatter pattern) \<longleftrightarrow>
      (\<exists>c b. (Spec c \<in> set is \<or> SpecArg c b \<in> set is) \<and> s_format_units [c] b = None)"
    using units a(3) by (auto simp: LogFormatter_def Let_def)
qed

theorem pattern_meaning_witness:
  "f_units (LogFormatter (items_text [SpecArg 0x64 [percent, 0x59], Lit 0x20, Spec 0x6D]))
     = [DateTimeUnit [percent, 0x59], StringUnit [0x20], MessageUnit]"
proof -
  let ?is = "[SpecArg 0x64 [percent, 0x59], Lit 0x20, Spec 0x6D]"
  have "items_ok ?is []" by (simp add: percent_def rbrace_def braces_def)
  moreover have "map (fst \<circ> item_unit) ?is = [DateTimeUnit [percent, 0x59], StringUnit [0x20], MessageUnit]"
    by (simp add: s_format_units_def chars_def)
  ultimately show ?thesis
    using pattern_meaning [of "items_text ?is"] by (metis append_Nil2)
qed

text \<open>The reference: every date is formatted from the record's own time, in full; \<open>expand\<close> gives the text of a time in a format.\<close>

fun direct_text :: "(str \<Rightarrow> int \<Rightarrow> str) \<Rightarrow> (nat \<Rightarrow> str) \<Rightarrow> log_level \<Rightarrow> log_record \<Rightarrow> format_unit \<Rightarrow> str" where
  "direct_text expand lname level r (DateTimeUnit fmt) =
     expand fmt (seconds (rec_time r)) @ micro_text (rec_time r)"
| "direct_text expand lname level r u = unit_text lname level r u"

text \<open>What the cache has to be for a date of the second \<open>s\<close> to come out right, and what it is after one did.\<close>

definition ready :: "strftime \<Rightarrow> (str \<Rightarrow> int \<Rightarrow> str) \<Rightarrow> str \<Rightarrow> int \<Rightarrow> time_cache \<Rightarrow> bool" where
  "ready strftime expand fmt s tc \<longleftrightarrow>
     (if lastSecond tc = s then timeBuf tc else strftime 32 fmt s (timeBuf tc)) = expand fmt s"

definition cached :: "(str \<Rightarrow> int \<Rightarrow> str) \<Rightarrow> str \<Rightarrow> time_cache \<Rightarrow> bool" where
  "cached expand fmt tc \<longleftrightarrow> tc = no_time \<or> timeBuf tc = expand fmt (lastSecond tc)"

lemma cached_ready:
  assumes "cached expand fmt tc" and "s \<noteq> 0" and "writes_dates strftime expand" and "length (expand fmt s) < 32"
  shows "ready strftime expand fmt s tc"
  using assms by (auto simp: ready_def cached_def writes_dates_def no_time_def)

lemma format_unit_direct:
  assumes "\<forall>fmt'. u = DateTimeUnit fmt' \<longrightarrow> fmt' = fmt" and "ready strftime expand fmt (seconds (rec_time r)) tc"
  shows "\<exists>tc'. format_unit strftime lname level r u tc = (direct_text expand lname level r u, tc')
    \<and> ready strftime expand fmt (seconds (rec_time r)) tc' \<and> (cached expand fmt tc \<longrightarrow> cached expand fmt tc')"
proof (cases "u = DateTimeUnit fmt")
  case True
  then show ?thesis
    using assms(2) by (auto simp: format_unit_def format_date_def Let_def cached_def ready_def)
next
  case False
  then show ?thesis using assms by (cases u) (simp_all add: format_unit_def)
qed

lemma format_units_direct:
  assumes "\<forall>fmt'. DateTimeUnit fmt' \<in> set us \<longrightarrow> fmt' = fmt" and "ready strftime expand fmt (seconds (rec_time r)) tc"
  shows "\<exists>tc'. format_units strftime lname us level r tc = (concat (map (direct_text expand lname level r) us), tc')
    \<and> (cached expand fmt tc \<longrightarrow> cached expand fmt tc')"
  using assms
proof (induction us arbitrary: tc)
  case (Cons u us)
  then obtain tc1 where 1: "format_unit strftime lname level r u tc = (direct_text expand lname level r u, tc1)"
      "ready strftime expand fmt (seconds (rec_time r)) tc1" "cached expand fmt tc \<longrightarrow> cached expand fmt tc1"
    using format_unit_direct [OF _ Cons.prems(2)] by (metis list.set_intros(1))
  have "\<forall>fmt'. DateTimeUnit fmt' \<in> set us \<longrightarrow> fmt' = fmt" using Cons.prems(1) by simp
  from Cons.IH [OF this 1(2)] 1 show ?case by auto
qed simp

text \<open>The records one thread formats, one after the other.\<close>

fun format_all ::
    "strftime \<Rightarrow> (nat \<Rightarrow> str) \<Rightarrow> (formatter \<times> log_level \<times> log_record) list \<Rightarrow> time_cache \<Rightarrow> str list" where
  "format_all strftime lname [] tc = []"
| "format_all strftime lname ((f, level, r) # cs) tc =
     (let (s, tc1) = format strftime lname f level r tc in s # format_all strftime lname cs tc1)"

lemma format_all_direct:
  assumes "writes_dates strftime expand" and "\<forall>(f, level, r) \<in> set calls. (\<forall>fmt'. DateTimeUnit fmt' \<in> set (f_units f) \<longrightarrow> fmt' = fmt)
      \<and> seconds (rec_time r) \<noteq> 0 \<and> length (expand fmt (seconds (rec_time r))) < 32" and "cached expand fmt tc"
  shows "format_all strftime lname calls tc
    = map (\<lambda>(f, level, r). concat (map (direct_text expand lname level r) (f_units f))) calls"
  using assms(2,3)
proof (induction calls arbitrary: tc)
  case (Cons c calls)
  obtain f level r where c: "c = (f, level, r)" by (cases c)
  have "ready strftime expand fmt (seconds (rec_time r)) tc"
    using Cons.prems c by (intro cached_ready [OF _ _ assms(1)]) auto
  then obtain tc1 where "format_units strftime lname (f_units f) level r tc
      = (concat (map (direct_text expand lname level r) (f_units f)), tc1)" "cached expand fmt tc1"
    using format_units_direct [of "f_units f" fmt strftime expand r tc lname level] Cons.prems c by auto
  then show ?case using Cons c by (simp add: format_def)
qed simp

text \<open>
  C38. The time cache is invisible to a thread that uses one date format, as long as no record is of the second 0 of the epoch
  and every date text fits the buffer, which has room for 31 characters: every record is printed
  as if its date were formatted anew. The cache is per thread and not per format, though: of two
  dates with different formats in one record the second prints the text of the first. A first record of the second 0 is
  printed with an empty date, which the untouched cache holds for that second; and of a date text that does not fit, what is printed is what \<open>strftime\<close> happens
  to leave in the buffer.
\<close>

theorem date_cache_transparent:
  assumes "writes_dates strftime expand" and "\<forall>(f, level, r) \<in> set calls. (\<forall>fmt'. DateTimeUnit fmt' \<in> set (f_units f) \<longrightarrow> fmt' = fmt)
      \<and> seconds (rec_time r) \<noteq> 0 \<and> length (expand fmt (seconds (rec_time r))) < 32"
  shows "format_all strftime lname calls no_time
      = map (\<lambda>(f, level, r). concat (map (direct_text expand lname level r) (f_units f))) calls
    \<and> (seconds (rec_time r) \<noteq> 0 \<and> length (expand a (seconds (rec_time r))) < 32 \<longrightarrow>
        fst (format_units strftime lname [DateTimeUnit a, DateTimeUnit b] level r no_time)
        = direct_text expand lname level r (DateTimeUnit a) @ direct_text expand lname level r (DateTimeUnit a))
    \<and> (seconds (rec_time r) = 0 \<longrightarrow> fst (format_units strftime lname [DateTimeUnit a] level r no_time) = micro_text (rec_time r))
    \<and> (seconds (rec_time r) \<noteq> 0 \<and> 32 \<le> length (expand a (seconds (rec_time r))) \<longrightarrow>
        fst (format_units strftime lname [DateTimeUnit a] level r no_time)
        = strftime 32 a (seconds (rec_time r)) [] @ micro_text (rec_time r))"
  using assms(1) format_all_direct [OF assms, of no_time lname]
  by (simp add: cached_def format_unit_def format_date_def Let_def no_time_def writes_dates_def)

definition example_record :: log_record where
  "example_record = new_LogRecord 1 INFO (chars ''src/main.cc'') 7 (chars ''main'') 0 1 0 5000042 []"

text \<open>A \<open>strftime\<close> that prints the format, and what was there before when there is no room.\<close>

definition example_strftime :: strftime where
  "example_strftime n fmt s old = (if length fmt < n then fmt else old)"

theorem date_cache_transparent_witness:
  "format_all example_strftime (\<lambda>_. []) [(LogFormatter [percent, 0x64], INFO, example_record)] no_time
     = [chars ''.000042'']"
proof -
  have units: "f_units (LogFormatter [percent, 0x64]) = [DateTimeUnit []]"
    by (simp add: LogFormatter_def braces_def s_format_units_def chars_def)
  have t: "seconds (rec_time example_record) = 5" "microSecondsRemainder (rec_time example_record) = 42"
    by (simp_all add: example_record_def new_LogRecord_def seconds_def microSecondsRemainder_def time_constants
        signed_divide_int_def signed_modulo_int_def)
  have "micro_text (rec_time example_record) = chars ''.000042''"
    by code_simp
  moreover have "writes_dates example_strftime (\<lambda>fmt s. fmt)" by (simp add: writes_dates_def example_strftime_def)
  ultimately show ?thesis
    using date_cache_transparent [of example_strftime "\<lambda>fmt s. fmt" "[(LogFormatter [percent, 0x64], INFO, example_record)]" "[]"
        "\<lambda>_. []"] units t by simp
qed

end
