(* ===== verification/FileUtil.thy ===== *)
theory FileUtil imports Prelude "HOL-Library.Sublist" begin

text \<open>
  \<open>easy/base/FileUtil.h\<close>, \<open>easy/base/FileUtil.cc\<close>: paths, directories and files. The system calls
  are the fields of \<open>os\<close>, functions of a kernel state \<open>'k\<close>; what \<open>readdir\<close> delivers is a tree. The
  lemmas show that \<open>Dirname\<close> and \<open>Basename\<close> split a path, that \<open>Mkdir\<close> makes every ancestor in
  order, and what \<open>Rm\<close> and \<open>Mv\<close> leave.
\<close>

section \<open>Paths\<close>

text \<open>\<open>std::string::rfind\<close>, \<open>None\<close> being \<open>npos\<close>.\<close>

fun rfind :: "str \<Rightarrow> u8 \<Rightarrow> nat option" where
  "rfind [] c = None"
| "rfind (x # xs) c =
     (case rfind xs c of Some k \<Rightarrow> Some (Suc k) | None \<Rightarrow> if x = c then Some 0 else None)"

definition Dirname :: "str \<Rightarrow> str" where
  "Dirname filename =
     (if filename = [] then chars ''.''
      else case rfind filename slash of
        Some k \<Rightarrow> if k = 0 then [slash] else take k filename
      | None \<Rightarrow> chars ''.'')"

definition Basename :: "str \<Rightarrow> str" where
  "Basename filename =
     (if filename = [] then filename
      else case rfind filename slash of None \<Rightarrow> filename | Some k \<Rightarrow> drop (k + 1) filename)"

text \<open>The characters \<open>c_str()\<close> shows to a C function.\<close>

definition c_str :: "str \<Rightarrow> str" where
  "c_str s = takeWhile (\<lambda>c. c \<noteq> 0) s"

section \<open>Making directories\<close>

record 'k os =
  os_lstat :: "str \<Rightarrow> 'k \<Rightarrow> bool"
  os_access :: "str \<Rightarrow> 'k \<Rightarrow> bool"
  os_mkdir :: "str \<Rightarrow> 'k \<Rightarrow> bool \<times> 'k"
  os_open :: "str \<Rightarrow> 'k \<Rightarrow> nat option \<times> 'k"

definition mkdir_unless :: "'k os \<Rightarrow> str \<Rightarrow> 'k \<Rightarrow> bool \<times> 'k" where
  "mkdir_unless s dirname k = (if os_access s dirname k then (True, k) else os_mkdir s dirname k)"

text \<open>The loop over the slashes: \<open>seen\<close> is what lies before \<open>ptr\<close>.\<close>

fun Mkdir_loop :: "'k os \<Rightarrow> str \<Rightarrow> str \<Rightarrow> 'k \<Rightarrow> bool \<times> 'k" where
  "Mkdir_loop s seen [] k = mkdir_unless s seen k"
| "Mkdir_loop s seen (c # cs) k =
     (if c = slash
      then (let (ok, k1) = mkdir_unless s seen k in
            if ok then Mkdir_loop s (seen @ [c]) cs k1 else (False, k1))
      else Mkdir_loop s (seen @ [c]) cs k)"

text \<open>The search starts behind the first character, which an empty path does not have.\<close>

definition Mkdir :: "'k os \<Rightarrow> str \<Rightarrow> 'k \<Rightarrow> fault + bool \<times> 'k" where
  "Mkdir s dirname k =
     (if os_lstat s (c_str dirname) k then Inr (True, k)
      else case c_str dirname of
        [] \<Rightarrow> Inl OutOfBounds
      | c # cs \<Rightarrow> Inr (Mkdir_loop s [c] cs k))"

section \<open>Streams\<close>

text \<open>
  A \<open>std::ofstream\<close>: the file it is connected to and its error state. Opening a connected one
  fails and leaves it connected.
\<close>

record ofstream =
  connected :: "nat option"
  failed :: bool

definition new_stream :: ofstream where
  "new_stream = \<lparr>connected = None, failed = False\<rparr>"

definition stream_open :: "'k os \<Rightarrow> str \<Rightarrow> ofstream \<Rightarrow> 'k \<Rightarrow> ofstream \<times> 'k" where
  "stream_open s filename st k =
     (if connected st \<noteq> None then (st\<lparr>failed := True\<rparr>, k)
      else case os_open s (c_str filename) k of
        (None, k1) \<Rightarrow> (st\<lparr>failed := True\<rparr>, k1)
      | (Some i, k1) \<Rightarrow> (\<lparr>connected = Some i, failed = False\<rparr>, k1))"

definition stream_close :: "ofstream \<Rightarrow> ofstream" where
  "stream_close st = (if connected st = None then st\<lparr>failed := True\<rparr> else st\<lparr>connected := None\<rparr>)"

definition OpenForWrite :: "'k os \<Rightarrow> str \<Rightarrow> ofstream \<Rightarrow> 'k \<Rightarrow> fault + bool \<times> ofstream \<times> 'k" where
  "OpenForWrite s filename st k =
     (let (st1, k1) = stream_open s filename st k in
      if connected st1 \<noteq> None then Inr (True, st1, k1)
      else bindE (Mkdir s (Dirname filename) k1) (\<lambda>(_, k2).
        let (st2, k3) = stream_open s filename st1 k2 in Inr (connected st2 \<noteq> None, st2, k3)))"

definition OpenForRead :: "'k os \<Rightarrow> str \<Rightarrow> ofstream \<Rightarrow> 'k \<Rightarrow> bool \<times> ofstream \<times> 'k" where
  "OpenForRead s filename st k =
     (let (st1, k1) = stream_open s filename st k in (connected st1 \<noteq> None, st1, k1))"

section \<open>Listing\<close>

text \<open>What a directory holds, as \<open>readdir\<close> delivers it; \<open>None\<close> is a directory that cannot be opened.\<close>

datatype dirent = RegFile str | SubDir str "dirent list option" | OtherFile str

definition dots :: "str set" where "dots = {chars ''.'', chars ''..''}"

fun list_entry :: "str \<Rightarrow> str \<Rightarrow> dirent \<Rightarrow> str list" where
  "list_entry path subfix (RegFile name) =
     (if subfix = [] then [path @ [slash] @ name]
      else if length name < length subfix then []
      else if drop (length name - length subfix) name = subfix then [path @ [slash] @ name]
      else [])"
| "list_entry path subfix (SubDir name sub) =
     (if name \<in> dots then []
      else case sub of None \<Rightarrow> [] | Some es \<Rightarrow> concat (map (list_entry (path @ [slash] @ name) subfix) es))"
| "list_entry path subfix (OtherFile name) = []"

definition ListAllFile :: "str list \<Rightarrow> str \<Rightarrow> str \<Rightarrow> dirent list option \<Rightarrow> str list" where
  "ListAllFile files path subfix dir =
     (case dir of None \<Rightarrow> files | Some es \<Rightarrow> files @ concat (map (list_entry path subfix) es))"

section \<open>Removing\<close>

text \<open>
  The mode bits of a file that is no directory and whether \<open>unlink\<close> succeeds; whether a directory
  can be opened and, once empty, be removed, and its entries without the two dots.
\<close>

datatype node = Leaf (mode: u32) (unlinks: bool) | Directory (opens: bool) (removes: bool) "(str \<times> node) list"

definition S_IFMT :: u32 where "S_IFMT = 0xF000"
definition S_IFDIR :: u32 where "S_IFDIR = 0x4000"

text \<open>\<open>lstat\<close> failing on a path is a node that is not there; \<open>Unlink\<close> then answers true.\<close>

definition Unlink :: "bool \<Rightarrow> node option \<Rightarrow> bool \<times> node option" where
  "Unlink exist n =
     (if \<not> exist \<and> n = None then (True, None)
      else case n of Some (Leaf m True) \<Rightarrow> (True, None) | _ \<Rightarrow> (False, n))"

fun Rm_node :: "node \<Rightarrow> bool \<times> node option" where
  "Rm_node (Leaf m u) =
     (if m AND S_IFDIR = 0 then Unlink False (Some (Leaf m u)) else (False, Some (Leaf m u)))"
| "Rm_node (Directory opn rmv es) =
     (if \<not> opn then (False, Some (Directory opn rmv es))
      else let rs = map (\<lambda>(name, n). (name, Rm_node n)) es;
               ret = (if rs = [] then True else fst (snd (last rs)));
               left = concat (map (\<lambda>(name, r). case snd r of None \<Rightarrow> [] | Some n \<Rightarrow> [(name, n)]) rs) in
        if left = [] \<and> rmv then (ret, None) else (False, Some (Directory opn rmv left)))"

type_synonym file_system = "str \<Rightarrow> node option"

definition Rm :: "str \<Rightarrow> file_system \<Rightarrow> bool \<times> file_system" where
  "Rm path fs =
     (case fs path of None \<Rightarrow> (True, fs)
      | Some n \<Rightarrow> let (ret, left) = Rm_node n in (ret, fs(path := left)))"

text \<open>\<open>rename\<close> and \<open>symlink\<close> are arguments.\<close>

definition Mv :: "(str \<Rightarrow> str \<Rightarrow> file_system \<Rightarrow> bool \<times> file_system) \<Rightarrow> str \<Rightarrow> str \<Rightarrow> file_system \<Rightarrow> bool \<times> file_system" where
  "Mv rename path_from path_to fs =
     (let (ok, fs1) = Rm path_to fs in if \<not> ok then (False, fs1) else rename path_from path_to fs1)"

definition Symlink :: "(str \<Rightarrow> str \<Rightarrow> file_system \<Rightarrow> bool \<times> file_system) \<Rightarrow> str \<Rightarrow> str \<Rightarrow> file_system \<Rightarrow> bool \<times> file_system" where
  "Symlink symlink path_from path_to fs =
     (let (ok, fs1) = Rm path_to fs in if \<not> ok then (False, fs1) else symlink path_from path_to fs1)"

definition Realpath :: "(str \<Rightarrow> bool) \<Rightarrow> (str \<Rightarrow> str option) \<Rightarrow> str \<Rightarrow> str \<Rightarrow> bool \<times> str" where
  "Realpath lstat realpath path rpath =
     (if \<not> lstat path then (False, rpath)
      else case realpath path of None \<Rightarrow> (False, rpath) | Some p \<Rightarrow> (True, p))"

section \<open>Process files\<close>

text \<open>\<open>atoi\<close> of a text: white space, a sign, digits; reduced to 32 bits.\<close>

fun digits_value :: "nat \<Rightarrow> str \<Rightarrow> nat" where
  "digits_value n [] = n"
| "digits_value n (c # cs) =
     (if 0x30 \<le> c \<and> c \<le> 0x39 then digits_value (n * 10 + unat (c - 0x30)) cs else n)"

definition atoi :: "str \<Rightarrow> int" where
  "atoi s =
     (let t = dropWhile (\<lambda>c. c \<in> {0x20, 9, 10, 11, 12, 13}) s;
          v = (if t \<noteq> [] \<and> hd t = 0x2D then - int (digits_value 0 (tl t))
               else if t \<noteq> [] \<and> hd t = 0x2B then int (digits_value 0 (tl t))
               else int (digits_value 0 t)) in
      signed_take_bit 31 v)"

text \<open>\<open>line\<close> is the first line of the file if it can be read, \<open>kill\<close> whether signal 0 can be sent.\<close>

definition IsRunningPidfile :: "bool \<Rightarrow> str option \<Rightarrow> (int \<Rightarrow> bool) \<Rightarrow> bool" where
  "IsRunningPidfile exists line kill =
     (if \<not> exists then False
      else case line of
        None \<Rightarrow> False
      | Some l \<Rightarrow>
          if l = [] then False
          else if atoi (c_str l) \<le> 1 then False
          else kill (atoi (c_str l)))"

section \<open>Lemmas\<close>

lemma rfind_None: "rfind xs c = None \<longleftrightarrow> c \<notin> set xs"
  by (induction xs) (auto split: option.splits)

lemma rfind_last: "c \<notin> set ys \<Longrightarrow> rfind (xs @ c # ys) c = Some (length xs)"
proof (induction xs)
  case Nil
  then have "rfind ys c = None" by (simp add: rfind_None)
  then show ?case by simp
qed simp

text \<open>A path and its last component: \<open>Dirname\<close> and \<open>Basename\<close> take it apart at the last slash.\<close>

lemma path_split:
  assumes "slash \<notin> set base"
  shows "Basename (dir @ [slash] @ base) = base"
    and "Dirname (dir @ [slash] @ base) = (if dir = [] then [slash] else dir)"
    and "Basename base = base" and "Dirname base = chars ''.''"
  using assms rfind_last [OF assms, of dir] rfind_None [of base slash]
  by (simp_all add: Basename_def Dirname_def)

text \<open>The paths \<open>Mkdir\<close> goes through: what lies before each slash but the first character, and all.\<close>

fun ancestors :: "str \<Rightarrow> str \<Rightarrow> str list" where
  "ancestors seen [] = [seen]"
| "ancestors seen (c # cs) = (if c = slash then seen # ancestors (seen @ [c]) cs else ancestors (seen @ [c]) cs)"

fun mkdir_each :: "'k os \<Rightarrow> str list \<Rightarrow> 'k \<Rightarrow> bool \<times> 'k" where
  "mkdir_each s [] k = (True, k)"
| "mkdir_each s (p # ps) k =
     (let (ok, k1) = mkdir_unless s p k in if ok then mkdir_each s ps k1 else (False, k1))"

lemma Mkdir_loop_each: "Mkdir_loop s seen cs k = mkdir_each s (ancestors seen cs) k"
  by (induction s seen cs k rule: Mkdir_loop.induct) (auto split: prod.splits)

lemma ancestors_append: "ancestors seen (xs @ slash # ys) = ancestors seen xs @ ancestors (seen @ xs @ [slash]) ys"
  by (induction xs arbitrary: seen) simp_all

lemma ancestors_no_slash: "slash \<notin> set xs \<Longrightarrow> ancestors seen xs = [seen @ xs]"
  by (induction xs arbitrary: seen) auto

text \<open>Directories are made where there are none, and never disappear.\<close>

definition directories_stay :: "'k os \<Rightarrow> bool" where
  "directories_stay s \<longleftrightarrow> (\<forall>p k k'. os_mkdir s p k = (True, k') \<longrightarrow> os_access s p k')
     \<and> (\<forall>p q k r k'. os_access s q k \<and> os_mkdir s p k = (r, k') \<longrightarrow> os_access s q k')"

lemma mkdir_each_keeps:
  assumes "directories_stay s" and "os_access s q k" and "mkdir_each s ps k = (r, k')"
  shows "os_access s q k'"
  using assms(2,3)
proof (induction ps arbitrary: k)
  case (Cons p ps)
  obtain ok k1 where p: "mkdir_unless s p k = (ok, k1)" by fastforce
  then have "os_access s q k1"
    using assms(1) Cons.prems(1) by (auto simp: mkdir_unless_def directories_stay_def split: if_splits)
  then show ?case using Cons p by (auto split: if_splits)
qed simp

lemma mkdir_each_makes:
  assumes "directories_stay s" and "mkdir_each s ps k = (True, k')"
  shows "\<forall>p \<in> set ps. os_access s p k'"
  using assms(2)
proof (induction ps arbitrary: k)
  case (Cons p ps)
  obtain ok k1 where p: "mkdir_unless s p k = (ok, k1)" by fastforce
  then have run: "ok" "mkdir_each s ps k1 = (True, k')" using Cons.prems by (auto split: if_splits)
  then have "os_access s p k1"
    using assms(1) p by (auto simp: mkdir_unless_def directories_stay_def split: if_splits)
  then show ?case
    using mkdir_each_keeps [OF assms(1) _ run(2)] Cons.IH [OF run(2)] by simp
qed simp

section \<open>Properties\<close>

text \<open>
  \<open>Mkdir\<close> makes the ancestors of a path one after the other: for a path that does not exist it
  makes what lies before each slash, in order from the top, and then the path, leaves out what is
  there and stops at the first that fails; when it answers true all of them are accessible. An
  empty path makes it search behind the end of its copy.
\<close>

theorem mkdir_ancestors:
  assumes "directories_stay s" and "\<not> os_lstat s path k" and "0 \<notin> set path"
  shows "if path = [] then Mkdir s path k = Inl OutOfBounds
    else Mkdir s path k = Inr (mkdir_each s (ancestors [hd path] (tl path)) k)
      \<and> (\<forall>k'. Mkdir s path k = Inr (True, k') \<longrightarrow>
           (\<forall>p \<in> set (ancestors [hd path] (tl path)). os_access s p k'))"
proof -
  have "takeWhile (\<lambda>c. c \<noteq> 0) path = path" using assms(3) by auto
  then have c: "c_str path = path" by (simp add: c_str_def)
  show ?thesis
  proof (cases path)
    case Nil
    then show ?thesis using assms(2) c by (simp add: Mkdir_def)
  next
    case (Cons x xs)
    then have run: "Mkdir s path k = Inr (mkdir_each s (ancestors [hd path] (tl path)) k)"
      using assms(2) c by (simp add: Mkdir_def Mkdir_loop_each)
    then show ?thesis using Cons mkdir_each_makes [OF assms(1)] by simp
  qed
qed

text \<open>A kernel whose state is the list of the paths that exist.\<close>

definition list_os :: "str list os" where
  "list_os = \<lparr>os_lstat = (\<lambda>p k. p \<in> set k), os_access = (\<lambda>p k. p \<in> set k),
     os_mkdir = (\<lambda>p k. if p \<in> set k then (False, k) else (True, k @ [p])), os_open = (\<lambda>p k. (Some 1, k))\<rparr>"

theorem mkdir_ancestors_witness:
  "Mkdir list_os [0x61, slash, 0x62, slash, 0x63] [[0x61]]
     = Inr (True, [[0x61], [0x61, slash, 0x62], [0x61, slash, 0x62, slash, 0x63]])"
proof -
  have "directories_stay list_os" by (auto simp: directories_stay_def list_os_def split: if_splits)
  moreover have "\<not> os_lstat list_os [0x61, slash, 0x62, slash, 0x63] [[0x61]]" by (simp add: list_os_def)
  moreover have "(0 :: u8) \<notin> set [0x61, slash, 0x62, slash, 0x63]" by (simp add: slash_def)
  ultimately have "Mkdir list_os [0x61, slash, 0x62, slash, 0x63] [[0x61]]
      = Inr (mkdir_each list_os (ancestors [hd [0x61, slash, 0x62, slash, 0x63]] (tl [0x61, slash, 0x62, slash, 0x63])) [[0x61]])"
    using mkdir_ancestors [of list_os "[0x61, slash, 0x62, slash, 0x63]" "[[0x61]]"] by simp
  also have "mkdir_each list_os (ancestors [hd [0x61, slash, 0x62, slash, 0x63]] (tl [0x61, slash, 0x62, slash, 0x63])) [[0x61]]
      = (True, [[0x61], [0x61, slash, 0x62], [0x61, slash, 0x62, slash, 0x63]])" by code_simp
  finally show ?thesis .
qed

text \<open>A removed node leaves nothing, and what cannot be removed is reported.\<close>

lemma Rm_node_left:
  assumes "Rm_node n = (ret, left)"
  shows "ret \<longleftrightarrow> left = None"
  using assms
proof (induction n arbitrary: ret left rule: Rm_node.induct)
  case (1 m u)
  then show ?case by (cases u) (auto simp: Unlink_def split: if_splits)
next
  case (2 opn rmv es)
  let ?rs = "map (\<lambda>(name, n). (name, Rm_node n)) es"
  have last: "fst (snd (last ?rs))"
    if "es \<noteq> []" "concat (map (\<lambda>(name, r). case snd r of None \<Rightarrow> [] | Some n \<Rightarrow> [(name, n)]) ?rs) = []" "opn"
  proof -
    obtain name n where l: "last es = (name, n)" by fastforce
    then have e: "(name, n) \<in> set es" using that(1) by (metis last_in_set)
    obtain r u where r: "Rm_node n = (r, u)" by fastforce
    have "u = None" using that(2) e r by (fastforce split: option.splits)
    then have "r" using 2(1) [OF _ e refl r] that(3) by simp
    then show ?thesis using l r that(1) by (simp add: last_map)
  qed
  show ?case
    using 2(2) last by (auto simp: Let_def split: if_splits)
qed

text \<open>
  \<open>Rm\<close> answers true exactly when the path is gone afterwards, however many entries failed, and
  touches no other path; a socket, whose mode shares a bit with a directory's, is never removed.
  \<open>Mv\<close> removes its target first, so moving a path onto itself loses it.
\<close>

theorem removal:
  assumes "\<forall>a b fs. fs a = None \<longrightarrow> rename a b fs = (False, fs)"
  shows "fst (Rm path fs) = (snd (Rm path fs) path = None)
    \<and> (\<forall>q. q \<noteq> path \<longrightarrow> snd (Rm path fs) q = fs q)
    \<and> (fs path = Some (Leaf 0xC1ED True) \<longrightarrow> Rm path fs = (False, fs))
    \<and> (fst (Rm path fs) \<longrightarrow> fst (Mv rename path path fs) = False \<and> snd (Mv rename path path fs) path = None)"
proof -
  have rm: "fst (Rm path fs) = (snd (Rm path fs) path = None)"
    using Rm_node_left by (auto simp: Rm_def split: option.splits prod.splits)
  moreover have "\<forall>q. q \<noteq> path \<longrightarrow> snd (Rm path fs) q = fs q"
    by (auto simp: Rm_def split: option.splits prod.splits)
  moreover have "fs path = Some (Leaf 0xC1ED True) \<Longrightarrow> Rm path fs = (False, fs)"
    by (auto simp: Rm_def S_IFDIR_def)
  moreover have "fst (Rm path fs) \<Longrightarrow> fst (Mv rename path path fs) = False \<and> snd (Mv rename path path fs) path = None"
    using rm assms by (auto simp: Mv_def split: prod.splits)
  ultimately show ?thesis by blast
qed

theorem removal_witness:
  "fst (Mv (\<lambda>a b fs. (False, fs)) [0x61] [0x61] (\<lambda>_. Some (Leaf 0x8000 True))) = False
   \<and> snd (Mv (\<lambda>a b fs. (False, fs)) [0x61] [0x61] (\<lambda>_. Some (Leaf 0x8000 True))) [0x61] = None"
proof -
  let ?fs = "\<lambda>_ :: str. Some (Leaf 0x8000 True)"
  have "fst (Rm [0x61] ?fs)" by (simp add: Rm_def S_IFDIR_def Unlink_def)
  moreover have "fst (Rm [0x61] ?fs) \<longrightarrow> fst (Mv (\<lambda>a b fs. (False, fs)) [0x61] [0x61] ?fs) = False
      \<and> snd (Mv (\<lambda>a b fs. (False, fs)) [0x61] [0x61] ?fs) [0x61] = None"
    by (rule removal [THEN conjunct2, THEN conjunct2, THEN conjunct2]) simp
  ultimately show ?thesis by (rule rev_mp)
qed

text \<open>The files below a directory, in the order of the listing, without regard to their names.\<close>

fun all_files :: "str \<Rightarrow> dirent \<Rightarrow> (str \<times> str) list" where
  "all_files path (RegFile name) = [(path @ [slash] @ name, name)]"
| "all_files path (SubDir name sub) =
     (if name \<in> dots then [] else case sub of None \<Rightarrow> [] | Some es \<Rightarrow> concat (map (all_files (path @ [slash] @ name)) es))"
| "all_files path (OtherFile name) = []"

lemma list_entry_filter:
  "list_entry path subfix e = map fst (filter (\<lambda>(p, name). suffix subfix name) (all_files path e))"
proof (induction path subfix e rule: list_entry.induct)
  case (1 path subfix name)
  have "suffix subfix name \<longleftrightarrow> length subfix \<le> length name \<and> drop (length name - length subfix) name = subfix"
    unfolding suffix_def by (metis append_take_drop_id length_append le_add2 append_eq_conv_conj
        add_diff_cancel_right')
  then show ?case by auto
next
  case (2 path subfix name sub)
  have each: "map (list_entry (path @ [slash] @ name) subfix) es
      = map (\<lambda>e. map fst (filter (\<lambda>(p, name). suffix subfix name) (all_files (path @ [slash] @ name) e))) es"
    if "name \<notin> dots" "sub = Some es" for es
    using 2 that by simp
  show ?case
  proof (cases "name \<in> dots \<or> sub = None")
    case False
    then obtain es where "name \<notin> dots" "sub = Some es" by auto
    then show ?thesis
      using each [of es] by (simp add: filter_concat map_concat comp_def del: append_Cons append_Nil append_assoc cong: map_cong)
  qed auto
qed simp

text \<open>\<open>ListAllFile\<close> lists the regular files at every depth whose names end in the suffix, in order.\<close>

theorem list_all_files:
  "ListAllFile files path subfix (Some es)
   = files @ map fst (filter (\<lambda>(p, name). suffix subfix name) (concat (map (all_files path) es)))"
  unfolding ListAllFile_def list_entry_filter [abs_def] by (simp add: filter_concat map_concat comp_def)

end
