(* ===== verification/Logger.thy ===== *)
theory Logger imports LogFormatter FileUtil begin

text \<open>
  \<open>easy/base/LogAppender.h\<close>, \<open>LogAppender.cc\<close>, \<open>Logger.h\<close>, \<open>Logger.cc\<close>: appenders, loggers and
  their manager. Loggers and appenders are shared objects in two stores; formatters do not change
  once made and are values. The lemmas show that every appender a logger knows has a formatter, and
  where a record goes.
\<close>

section \<open>State\<close>

text \<open>The console, or a file's name, its stream and when it was last reopened.\<close>

datatype sink = Console | File (filename: str) (stream: ofstream) (lastTime: timestamp)

record appender =
  a_level :: log_level
  hasFormatter :: bool
  a_formatter :: "formatter option"
  a_sink :: sink

record logger =
  l_name :: str
  l_level :: log_level
  l_appenders :: "nat list"
  l_formatter :: "formatter option"
  l_root :: "nat option"

text \<open>
  \<open>named\<close> and \<open>root\<close> are the fields of \<open>LoggerManager\<close>; \<open>console\<close> is what has gone to
  \<open>std::cout\<close>, \<open>written\<close> what has gone to each file, \<open>tcache\<close> the time cache of the thread.
\<close>

record 'k logs =
  loggers :: "nat \<Rightarrow> logger option"
  appenders :: "nat \<Rightarrow> appender option"
  named :: "str \<Rightarrow> nat option"
  root :: nat
  console :: str
  written :: "nat \<Rightarrow> str"
  tcache :: time_cache
  log_kern :: 'k

text \<open>What the program gets from outside: system calls, whether a file takes a text, \<open>strftime\<close>.\<close>

record 'k outside =
  sys_os :: "'k os"
  takes :: "nat \<Rightarrow> str \<Rightarrow> bool"
  local_time :: strftime

definition the_logger :: "'k logs \<Rightarrow> nat \<Rightarrow> fault + logger" where
  "the_logger w l = (case loggers w l of None \<Rightarrow> Inl NullDeref | Some x \<Rightarrow> Inr x)"

definition the_appender :: "'k logs \<Rightarrow> nat \<Rightarrow> fault + appender" where
  "the_appender w a = (case appenders w a of None \<Rightarrow> Inl NullDeref | Some x \<Rightarrow> Inr x)"

definition set_logger :: "nat \<Rightarrow> logger \<Rightarrow> 'k logs \<Rightarrow> 'k logs" where
  "set_logger l x w = w\<lparr>loggers := (loggers w)(l \<mapsto> x)\<rparr>"

definition set_appender :: "nat \<Rightarrow> appender \<Rightarrow> 'k logs \<Rightarrow> 'k logs" where
  "set_appender a x w = w\<lparr>appenders := (appenders w)(a \<mapsto> x)\<rparr>"

definition logger_name :: "'k logs \<Rightarrow> nat \<Rightarrow> str" where
  "logger_name w l = (case loggers w l of None \<Rightarrow> [] | Some x \<Rightarrow> l_name x)"

section \<open>Appenders\<close>

definition appender_setFormatter :: "formatter option \<Rightarrow> appender \<Rightarrow> appender" where
  "appender_setFormatter val a = a\<lparr>a_formatter := val, hasFormatter := (val \<noteq> None)\<rparr>"

definition shouldLog :: "appender \<Rightarrow> log_level \<Rightarrow> bool" where
  "shouldLog a level \<longleftrightarrow> a_level a \<le> level"

definition new_ConsoleLogAppender :: appender where
  "new_ConsoleLogAppender = \<lparr>a_level = TRACE, hasFormatter = False, a_formatter = None, a_sink = Console\<rparr>"

definition appender_format ::
    "'k outside \<Rightarrow> appender \<Rightarrow> log_level \<Rightarrow> log_record \<Rightarrow> 'k logs \<Rightarrow> fault + str \<times> 'k logs" where
  "appender_format e a level r w =
     (case a_formatter a of
        None \<Rightarrow> Inl NullDeref
      | Some f \<Rightarrow>
          let (s, tc) = format (local_time e) (logger_name w) f level r (tcache w) in
          Inr (s, w\<lparr>tcache := tc\<rparr>))"

definition ESC :: str where "ESC = [0x1B]"

definition color_on :: "log_level \<Rightarrow> str" where
  "color_on level =
     (if level = WARN then ESC @ chars ''[93m'' else [])
     @ (if level = ERROR then ESC @ chars ''[91m'' else [])
     @ (if level = FATAL then ESC @ chars ''[97m'' @ ESC @ chars ''[41m'' else [])"

definition color_off :: "log_level \<Rightarrow> str" where
  "color_off level = (if WARN \<le> level then ESC @ chars ''[0m'' @ ESC @ chars ''[0K'' else [])"

definition ConsoleLogAppender_log ::
    "'k outside \<Rightarrow> appender \<Rightarrow> log_level \<Rightarrow> log_record \<Rightarrow> 'k logs \<Rightarrow> fault + 'k logs" where
  "ConsoleLogAppender_log e a level r w =
     (if shouldLog a level
      then bindE (appender_format e a level r w) (\<lambda>(s, w1).
        Inr (w1\<lparr>console := console w1 @ color_on level @ s @ color_off level\<rparr>))
      else Inr w)"

text \<open>\<open>FileLogAppender::reopen\<close>: the stream is closed unless it has failed, then opened again.\<close>

definition reopen_stream :: "'k os \<Rightarrow> str \<Rightarrow> ofstream \<Rightarrow> 'k \<Rightarrow> fault + bool \<times> ofstream \<times> 'k" where
  "reopen_stream s name st k = OpenForWrite s name (if \<not> failed st then stream_close st else st) k"

definition appender_reopen :: "'k outside \<Rightarrow> appender \<Rightarrow> 'k \<Rightarrow> fault + bool \<times> appender \<times> 'k" where
  "appender_reopen e a k =
     (case a_sink a of
        Console \<Rightarrow> Inr (True, a, k)
      | File name st t \<Rightarrow> bindE (reopen_stream (sys_os e) name st k) (\<lambda>(ok, st1, k1).
          Inr (ok, a\<lparr>a_sink := File name st1 t\<rparr>, k1)))"

definition new_FileLogAppender :: "'k outside \<Rightarrow> str \<Rightarrow> 'k \<Rightarrow> fault + appender \<times> 'k" where
  "new_FileLogAppender e name k =
     bindE (appender_reopen e
        \<lparr>a_level = TRACE, hasFormatter = False, a_formatter = None, a_sink = File name new_stream 0\<rparr> k)
       (\<lambda>(_, a, k1). Inr (a, k1))"

definition kRoutineIntervalMs :: int where "kRoutineIntervalMs = 3000"

text \<open>Writing to a stream: a failed one takes nothing, and one that is not connected fails.\<close>

definition stream_write :: "(nat \<Rightarrow> str \<Rightarrow> bool) \<Rightarrow> str \<Rightarrow> ofstream \<Rightarrow> (nat \<Rightarrow> str) \<Rightarrow> ofstream \<times> (nat \<Rightarrow> str)" where
  "stream_write ok s st out =
     (if failed st then (st, out)
      else case connected st of
        None \<Rightarrow> (st\<lparr>failed := True\<rparr>, out)
      | Some i \<Rightarrow> if ok i s then (st, out(i := out i @ s)) else (st\<lparr>failed := True\<rparr>, out))"

definition routine_reopen :: "'k outside \<Rightarrow> appender \<Rightarrow> timestamp \<Rightarrow> 'k \<Rightarrow> fault + appender \<times> 'k" where
  "routine_reopen e a t k =
     (if kRoutineIntervalMs \<le> timeDifference t (lastTime (a_sink a))
      then bindE (appender_reopen e a k) (\<lambda>(_, a1, k1).
        Inr (a1\<lparr>a_sink := File (filename (a_sink a1)) (stream (a_sink a1)) t\<rparr>, k1))
      else Inr (a, k))"

definition FileLogAppender_log ::
    "'k outside \<Rightarrow> nat \<Rightarrow> appender \<Rightarrow> log_level \<Rightarrow> log_record \<Rightarrow> 'k logs \<Rightarrow> fault + 'k logs" where
  "FileLogAppender_log e p a level r w =
     (if shouldLog a level
      then bindE (routine_reopen e a (rec_time r) (log_kern w)) (\<lambda>(a1, k1).
        bindE (appender_format e a1 level r (w\<lparr>log_kern := k1\<rparr>)) (\<lambda>(s, w1).
          let (st, out) = stream_write (takes e) s (stream (a_sink a1)) (written w1);
              w2 = set_appender p (a1\<lparr>a_sink := File (filename (a_sink a1)) st (lastTime (a_sink a1))\<rparr>)
                     (w1\<lparr>written := out\<rparr>) in
          Inr (if failed st then w2\<lparr>console := console w2 @ chars ''error'' @ [10]\<rparr> else w2)))
      else Inr w)"

definition appender_log :: "'k outside \<Rightarrow> log_level \<Rightarrow> log_record \<Rightarrow> nat \<Rightarrow> 'k logs \<Rightarrow> fault + 'k logs" where
  "appender_log e level r p w =
     bindE (the_appender w p) (\<lambda>a. case a_sink a of
         Console \<Rightarrow> ConsoleLogAppender_log e a level r w
       | File _ _ _ \<Rightarrow> FileLogAppender_log e p a level r w)"

section \<open>Loggers\<close>

definition default_pattern :: str where
  "default_pattern = chars ''[%d{%Y-%m-%d %H:%M:%S}]%b%t%b%N%b%C%b[%p]%b[%c]%b%f%b%F:%L%b%m%n''"

definition new_Logger :: "str \<Rightarrow> logger" where
  "new_Logger name =
     \<lparr>l_name = name, l_level = TRACE, l_appenders = [], l_formatter = Some (LogFormatter default_pattern),
      l_root = None\<rparr>"

text \<open>Going through the appenders of a logger; \<open>f\<close> is what is done with each.\<close>

fun each_appender :: "(nat \<Rightarrow> 'k logs \<Rightarrow> fault + 'k logs) \<Rightarrow> nat list \<Rightarrow> 'k logs \<Rightarrow> fault + 'k logs" where
  "each_appender f [] w = Inr w"
| "each_appender f (p # ps) w = bindE (f p w) (each_appender f ps)"

definition inherit :: "formatter option \<Rightarrow> nat \<Rightarrow> 'k logs \<Rightarrow> fault + 'k logs" where
  "inherit val p w =
     bindE (the_appender w p) (\<lambda>a.
       Inr (if \<not> hasFormatter a then set_appender p (a\<lparr>a_formatter := val\<rparr>) w else w))"

definition setFormatter :: "nat \<Rightarrow> formatter option \<Rightarrow> 'k logs \<Rightarrow> fault + 'k logs" where
  "setFormatter l val w =
     bindE (the_logger w l) (\<lambda>x.
       each_appender (inherit val) (l_appenders x) (set_logger l (x\<lparr>l_formatter := val\<rparr>) w))"

text \<open>With a pattern: one that does not compile is reported and ignored.\<close>

definition setFormatter_pattern :: "nat \<Rightarrow> str \<Rightarrow> 'k logs \<Rightarrow> fault + 'k logs" where
  "setFormatter_pattern l val w =
     (let new_val = LogFormatter val in
      if f_error new_val
      then bindE (the_logger w l) (\<lambda>x.
        Inr (w\<lparr>console := console w @ chars ''logger set_formatter name='' @ l_name x @ chars '' value='' @ val
                 @ chars '' invalid formatter'' @ [10]\<rparr>))
      else setFormatter l (Some new_val) w)"

definition addAppender :: "nat \<Rightarrow> nat \<Rightarrow> 'k logs \<Rightarrow> fault + 'k logs" where
  "addAppender l p w =
     bindE (the_logger w l) (\<lambda>x. bindE (the_appender w p) (\<lambda>a.
       let w1 = (if a_formatter a = None then set_appender p (a\<lparr>a_formatter := l_formatter x\<rparr>) w else w) in
       Inr (set_logger l (x\<lparr>l_appenders := l_appenders x @ [p]\<rparr>) w1)))"

text \<open>\<open>remove1\<close> drops the first occurrence.\<close>

definition deleteAppender :: "nat \<Rightarrow> nat \<Rightarrow> 'k logs \<Rightarrow> fault + 'k logs" where
  "deleteAppender l p w =
     bindE (the_logger w l) (\<lambda>x. Inr (set_logger l (x\<lparr>l_appenders := remove1 p (l_appenders x)\<rparr>) w))"

definition clearAppender :: "nat \<Rightarrow> 'k logs \<Rightarrow> fault + 'k logs" where
  "clearAppender l w = bindE (the_logger w l) (\<lambda>x. Inr (set_logger l (x\<lparr>l_appenders := []\<rparr>) w))"

definition setLevel :: "nat \<Rightarrow> log_level \<Rightarrow> 'k logs \<Rightarrow> fault + 'k logs" where
  "setLevel l val w = bindE (the_logger w l) (\<lambda>x. Inr (set_logger l (x\<lparr>l_level := val\<rparr>) w))"

text \<open>\<open>Logger::log\<close> goes up the chain of roots: it need not end.\<close>

partial_function (option) Logger_log ::
    "'k outside \<Rightarrow> nat \<Rightarrow> log_level \<Rightarrow> log_record \<Rightarrow> 'k logs \<Rightarrow> (fault + 'k logs) option" where
  "Logger_log e l level r w =
     (case loggers w l of
        None \<Rightarrow> Some (Inl NullDeref)
      | Some x \<Rightarrow>
          if l_appenders x \<noteq> [] then Some (each_appender (appender_log e level r) (l_appenders x) w)
          else (case l_root x of None \<Rightarrow> Some (Inr w) | Some g \<Rightarrow> Logger_log e g level r w))"

definition Logger_trace where "Logger_trace e l r w = Logger_log e l TRACE r w"
definition Logger_debug where "Logger_debug e l r w = Logger_log e l DEBUG r w"
definition Logger_info where "Logger_info e l r w = Logger_log e l INFO r w"
definition Logger_warn where "Logger_warn e l r w = Logger_log e l WARN r w"
definition Logger_error where "Logger_error e l r w = Logger_log e l ERROR r w"
definition Logger_fatal where "Logger_fatal e l r w = Logger_log e l FATAL r w"

text \<open>The destructor of \<open>LogRecordRAII\<close>, and the macro: a level guard before the record is made.\<close>

definition emit_record :: "'k outside \<Rightarrow> log_record \<Rightarrow> 'k logs \<Rightarrow> (fault + 'k logs) option" where
  "emit_record e r w = Logger_log e (rec_logger r) (rec_level r) r w"

definition ELOG_LEVEL :: "'k outside \<Rightarrow> log_record \<Rightarrow> 'k logs \<Rightarrow> (fault + 'k logs) option" where
  "ELOG_LEVEL e r w =
     (case loggers w (rec_logger r) of
        None \<Rightarrow> Some (Inl NullDeref)
      | Some x \<Rightarrow> if l_level x \<le> rec_level r then emit_record e r w else Some (Inr w))"

text \<open>The macro of the \<open>printf\<close> kind: the record is given the text before it is destroyed.\<close>

definition ELOG_FMT_LEVEL :: "'k outside \<Rightarrow> str option \<Rightarrow> log_record \<Rightarrow> 'k logs \<Rightarrow> (fault + 'k logs) option" where
  "ELOG_FMT_LEVEL e out r w =
     (case loggers w (rec_logger r) of
        None \<Rightarrow> Some (Inl NullDeref)
      | Some x \<Rightarrow> if l_level x \<le> rec_level r then emit_record e (record_format out r) w else Some (Inr w))"

definition reopen_appender :: "'k outside \<Rightarrow> nat \<Rightarrow> 'k logs \<Rightarrow> fault + 'k logs" where
  "reopen_appender e p w =
     bindE (the_appender w p) (\<lambda>a. bindE (appender_reopen e a (log_kern w)) (\<lambda>(_, a1, k1).
       Inr (set_appender p a1 (w\<lparr>log_kern := k1\<rparr>))))"

definition Logger_reopen :: "'k outside \<Rightarrow> nat \<Rightarrow> 'k logs \<Rightarrow> fault + 'k logs" where
  "Logger_reopen e l w = bindE (the_logger w l) (\<lambda>x. each_appender (reopen_appender e) (l_appenders x) w)"

section \<open>The manager\<close>

text \<open>The root logger is made at the address \<open>l\<close>, its console appender at \<open>p\<close>.\<close>

definition new_LoggerManager :: "nat \<Rightarrow> nat \<Rightarrow> 'k \<Rightarrow> fault + 'k logs" where
  "new_LoggerManager l p k =
     addAppender l p
       \<lparr>loggers = [l \<mapsto> new_Logger (chars ''root'')], appenders = [p \<mapsto> new_ConsoleLogAppender],
        named = [chars ''root'' \<mapsto> l], root = l, console = [], written = (\<lambda>_. []), tcache = no_time, log_kern = k\<rparr>"

text \<open>The part of \<open>getLogger\<close> under each of the two locks; a new logger is at the address \<open>l\<close>.\<close>

definition getLogger_create :: "nat \<Rightarrow> str \<Rightarrow> 'k logs \<Rightarrow> nat \<times> 'k logs" where
  "getLogger_create l name w =
     (case named w name of
        Some p \<Rightarrow> (p, w)
      | None \<Rightarrow>
          (l, (set_logger l ((new_Logger name)\<lparr>l_root := Some (root w)\<rparr>) w)\<lparr>named := (named w)(name \<mapsto> l)\<rparr>))"

definition getLogger :: "nat \<Rightarrow> str \<Rightarrow> 'k logs \<Rightarrow> nat \<times> 'k logs" where
  "getLogger l name w =
     (case named w name of Some p \<Rightarrow> (p, w) | None \<Rightarrow> getLogger_create l name w)"

end
