(* ===== verification/LogDispatch.thy ===== *)
theory LogDispatch imports Logger begin

text \<open>
  Properties of the loggers and appenders of \<open>easy/base/Logger.cc\<close> and \<open>LogAppender.cc\<close>: the invariant of the
  two stores, with the part of it that holds while nobody passes a null formatter (every appender a logger knows has a formatter),
  when logging ends without a fault, and what reaches the console.
\<close>

section \<open>Well-formed logs\<close>

fun sink_ok :: "sink \<Rightarrow> bool" where
  "sink_ok Console = True"
| "sink_ok (File name st t) = (0 \<notin> set name)"

text \<open>
  \<open>strict\<close> is whether no null formatter has ever been passed to a \<open>setFormatter\<close>: the invariant then has
  a formatter for every logger and every appender a logger knows.
\<close>

definition logger_ok :: "bool \<Rightarrow> 'k logs \<Rightarrow> logger \<Rightarrow> bool" where
  "logger_ok strict w x \<longleftrightarrow> (strict \<longrightarrow> l_formatter x \<noteq> None) \<and> (l_root x = None \<or> l_root x = Some (root w))
     \<and> (\<forall>p \<in> set (l_appenders x). \<exists>a. appenders w p = Some a \<and> (strict \<longrightarrow> a_formatter a \<noteq> None))"

definition logs_wired :: "bool \<Rightarrow> 'k logs \<Rightarrow> bool" where
  "logs_wired strict w \<longleftrightarrow> (\<forall>l x. loggers w l = Some x \<longrightarrow> logger_ok strict w x)
     \<and> (\<exists>x. loggers w (root w) = Some x \<and> l_root x = None)
     \<and> (\<forall>name l. named w name = Some l \<longrightarrow> (\<exists>x. loggers w l = Some x \<and> l_name x = name))
     \<and> (\<forall>p a. appenders w p = Some a \<longrightarrow> sink_ok (a_sink a) \<and> (hasFormatter a \<longrightarrow> a_formatter a \<noteq> None))"

definition logs_ok :: "'k logs \<Rightarrow> bool" where
  "logs_ok w \<longleftrightarrow> logs_wired True w"

text \<open>What writing leaves alone: only streams, files, the console and the cache change.\<close>

definition layout :: "appender \<Rightarrow> formatter option \<times> bool \<times> log_level \<times> bool" where
  "layout a = (a_formatter a, hasFormatter a, a_level a, sink_ok (a_sink a))"

definition same_layout :: "'k logs \<Rightarrow> 'k logs \<Rightarrow> bool" where
  "same_layout w w' \<longleftrightarrow> loggers w' = loggers w \<and> named w' = named w \<and> root w' = root w
     \<and> map_option layout \<circ> appenders w' = map_option layout \<circ> appenders w"

lemma same_layout_refl [simp]: "same_layout w w"
  by (simp add: same_layout_def)

lemma same_layout_trans: "same_layout a b \<Longrightarrow> same_layout b c \<Longrightarrow> same_layout a c"
  by (simp add: same_layout_def)

lemma same_layout_appender:
  assumes "same_layout w w'" and "appenders w p = Some a"
  obtains b where "appenders w' p = Some b" and "layout b = layout a"
proof -
  have "map_option layout (appenders w' p) = map_option layout (appenders w p)"
    using assms(1) unfolding same_layout_def by (metis comp_apply)
  then show ?thesis using assms(2) that by (cases "appenders w' p") auto
qed

lemma same_layout_sym: "same_layout w w' \<Longrightarrow> same_layout w' w"
  by (simp add: same_layout_def)

lemma same_layout_wired:
  assumes "same_layout w w'" and "logs_wired strict w"
  shows "logs_wired strict w'"
  unfolding logs_wired_def
proof (intro conjI allI impI)
  note eq = assms(1) [unfolded same_layout_def]
  show "logger_ok strict w' x" if "loggers w' l = Some x" for l x
  proof -
    have x: "logger_ok strict w x" using that eq assms(2) by (simp add: logs_wired_def)
    have "\<exists>b. appenders w' p = Some b \<and> (strict \<longrightarrow> a_formatter b \<noteq> None)" if p: "p \<in> set (l_appenders x)" for p
    proof -
      obtain a where a: "appenders w p = Some a" "strict \<longrightarrow> a_formatter a \<noteq> None" using x p by (auto simp: logger_ok_def)
      obtain b where "appenders w' p = Some b" "layout b = layout a"
        by (rule same_layout_appender [OF assms(1) a(1)])
      then show ?thesis using a(2) by (simp add: layout_def)
    qed
    then show ?thesis using x eq by (simp add: logger_ok_def)
  qed
  show "\<exists>x. loggers w' (root w') = Some x \<and> l_root x = None"
    using eq assms(2) by (simp add: logs_wired_def)
  show "\<exists>x. loggers w' l = Some x \<and> l_name x = name" if "named w' name = Some l" for name l
    using that eq assms(2) by (simp add: logs_wired_def)
  fix p b
  assume b: "appenders w' p = Some b"
  obtain a where a: "appenders w p = Some a" "layout a = layout b"
    by (rule same_layout_appender [OF same_layout_sym [OF assms(1)] b])
  then have ok: "sink_ok (a_sink a) \<and> (hasFormatter a \<longrightarrow> a_formatter a \<noteq> None)"
    using assms(2) unfolding logs_wired_def by blast
  then show "sink_ok (a_sink b)" using a(2) by (simp add: layout_def)
  show "a_formatter b \<noteq> None" if "hasFormatter b" using that ok a(2) by (simp add: layout_def)
qed

lemma same_layout_set:
  assumes "appenders w p = Some a" and "layout b = layout a"
  shows "same_layout w (set_appender p b w)"
  using assms by (auto simp: same_layout_def set_appender_def fun_eq_iff)

section \<open>Appenders never fault\<close>

lemma Mkdir_total: "0 \<notin> set d \<Longrightarrow> d \<noteq> [] \<Longrightarrow> \<exists>r. Mkdir s d k = Inr r"
  by (cases d) (auto simp: Mkdir_def c_str_def)

lemma Dirname_ok: "0 \<notin> set f \<Longrightarrow> 0 \<notin> set (Dirname f) \<and> Dirname f \<noteq> []"
  by (auto simp: Dirname_def slash_def chars_def split: option.splits dest: in_set_takeD)

lemma OpenForWrite_total:
  assumes "0 \<notin> set f"
  shows "\<exists>ok st' k'. OpenForWrite s f st k = Inr (ok, st', k')"
proof -
  obtain st1 k1 where 1: "stream_open s f st k = (st1, k1)" by fastforce
  obtain ok k2 where 2: "Mkdir s (Dirname f) k1 = Inr (ok, k2)"
    using Mkdir_total [of "Dirname f" s k1] Dirname_ok [OF assms] by auto
  obtain st3 k3 where 3: "stream_open s f st1 k2 = (st3, k3)" by fastforce
  show ?thesis by (auto simp: OpenForWrite_def 1 2 3 ex_bool_eq)
qed

lemma appender_reopen_ok:
  assumes "sink_ok (a_sink a)"
  obtains ok b k' where "appender_reopen e a k = Inr (ok, b, k')" and "layout b = layout a"
proof (cases "a_sink a")
  case Console
  then show ?thesis using that by (simp add: appender_reopen_def)
next
  case (File name st t)
  then obtain ok st' k' where "reopen_stream (sys_os e) name st k = Inr (ok, st', k')"
    using assms OpenForWrite_total unfolding reopen_stream_def by (metis sink_ok.simps(2))
  then show ?thesis
    using File that by (simp add: appender_reopen_def layout_def)
qed

lemma routine_reopen_ok:
  assumes "sink_ok (a_sink a)" and "a_sink a \<noteq> Console"
  obtains b k' where "routine_reopen e a t k = Inr (b, k')" and "layout b = layout a" and "a_sink b \<noteq> Console"
proof (cases "kRoutineIntervalMs \<le> timeDifference t (lastTime (a_sink a))")
  case False
  then show ?thesis using that assms(2) by (simp add: routine_reopen_def)
next
  case True
  obtain ok b k' where b: "appender_reopen e a k = Inr (ok, b, k')" "layout b = layout a"
    by (rule appender_reopen_ok [OF assms(1)])
  have "a_sink b \<noteq> Console"
    using b(1) assms(2) by (auto simp: appender_reopen_def faults split: sink.splits)
  then obtain name st u where "a_sink b = File name st u" by (cases "a_sink b") auto
  then show ?thesis
    using True b that by (simp add: routine_reopen_def layout_def)
qed

text \<open>An appender that takes the record but has no formatter.\<close>

definition mute :: "log_level \<Rightarrow> appender \<Rightarrow> bool" where
  "mute level a \<longleftrightarrow> shouldLog a level \<and> a_formatter a = None"

lemma mute_layout: "layout a = layout b \<Longrightarrow> mute level a = mute level b"
  by (simp add: layout_def mute_def shouldLog_def)

lemma appender_log_ok:
  assumes "logs_wired strict w" and "appenders w p = Some a" and "\<not> mute level a"
  obtains w' where "appender_log e level r p w = Inr w'" and "same_layout w w'"
proof (cases "shouldLog a level")
  case False
  then show ?thesis
    using assms(2) that [of w]
    by (cases "a_sink a") (simp_all add: appender_log_def the_appender_def ConsoleLogAppender_log_def FileLogAppender_log_def)
next
  case True
  then obtain f where f: "a_formatter a = Some f" using assms(3) by (auto simp: mute_def)
  have sink: "sink_ok (a_sink a)" using assms(1,2) by (simp add: logs_wired_def)
  show ?thesis
  proof (cases "a_sink a")
    case Console
    obtain shown tc where shown: "format (local_time e) (logger_name w) f level r (tcache w) = (shown, tc)" by fastforce
    show ?thesis
      using Console f assms(2) that shown True
      by (simp add: appender_log_def the_appender_def ConsoleLogAppender_log_def appender_format_def same_layout_def)
  next
    case (File name st t)
    obtain b k' where b: "routine_reopen e a (rec_time r) (log_kern w) = Inr (b, k')" "layout b = layout a"
        "a_sink b \<noteq> Console"
      by (rule routine_reopen_ok [OF sink]) (use File in auto)
    obtain n st1 t1 where n: "a_sink b = File n st1 t1" using b(3) by (cases "a_sink b") auto
    have b_fmt: "a_formatter b = Some f" using b(2) f by (simp add: layout_def)
    obtain shown tc where shown: "format (local_time e) (logger_name (w\<lparr>log_kern := k'\<rparr>)) f level r (tcache w) = (shown, tc)"
      by fastforce
    obtain st2 out where st2: "stream_write (takes e) shown st1 (written w) = (st2, out)" by fastforce
    let ?b = "b\<lparr>a_sink := File n st2 t1\<rparr>"
    have "layout ?b = layout a" using b(2) n by (simp add: layout_def)
    then have keep: "same_layout w (set_appender p ?b w)" by (rule same_layout_set [OF assms(2)])
    let ?w = "set_appender p ?b (w\<lparr>log_kern := k', tcache := tc, written := out\<rparr>)"
    let ?w' = "if failed st2 then ?w\<lparr>console := console ?w @ chars ''error'' @ [10]\<rparr> else ?w"
    have "same_layout w ?w'" using keep by (simp add: same_layout_def set_appender_def)
    moreover have "appender_log e level r p w = Inr ?w'"
      using File assms(2) b n b_fmt shown st2 True
      by (simp add: appender_log_def the_appender_def FileLogAppender_log_def appender_format_def Let_def)
    ultimately show ?thesis using that by blast
  qed
qed

text \<open>Such an appender dereferences its null formatter, on the console and, after the reopening, for a file.\<close>

lemma appender_log_mute:
  assumes "logs_wired strict w" and "appenders w p = Some a" and "mute level a"
  shows "appender_log e level r p w = Inl NullDeref"
proof (cases "a_sink a")
  case Console
  then show ?thesis
    using assms(2,3)
    by (simp add: mute_def appender_log_def the_appender_def ConsoleLogAppender_log_def appender_format_def)
next
  case (File name st t)
  have sink: "sink_ok (a_sink a)" using assms(1,2) by (simp add: logs_wired_def)
  obtain b k' where b: "routine_reopen e a (rec_time r) (log_kern w) = Inr (b, k')" "layout b = layout a"
    by (rule routine_reopen_ok [OF sink]) (use File in auto)
  have "a_formatter b = None" using b(2) assms(3) by (simp add: layout_def mute_def)
  then show ?thesis
    using File b(1) assms(2,3)
    by (simp add: mute_def appender_log_def the_appender_def FileLogAppender_log_def appender_format_def)
qed

text \<open>Going through appenders: \<open>bad\<close> are the ones at which the code faults.\<close>

lemma each_appender_ok:
  assumes "\<And>p w a. logs_wired strict w \<Longrightarrow> appenders w p = Some a \<Longrightarrow> \<not> bad a \<Longrightarrow>
      \<exists>w'. f p w = Inr w' \<and> same_layout w w'"
    and "\<And>p w a. logs_wired strict w \<Longrightarrow> appenders w p = Some a \<Longrightarrow> bad a \<Longrightarrow> f p w = Inl NullDeref"
    and "\<And>a b. layout a = layout b \<Longrightarrow> bad a = bad b"
    and "logs_wired strict w" and "\<forall>p \<in> set ps. appenders w p \<noteq> None"
  shows "if \<exists>p \<in> set ps. \<exists>a. appenders w p = Some a \<and> bad a then each_appender f ps w = Inl NullDeref
    else \<exists>w'. each_appender f ps w = Inr w' \<and> same_layout w w'"
  using assms(4,5)
proof (induction ps arbitrary: w)
  case (Cons p ps)
  then obtain a where a: "appenders w p = Some a" by auto
  show ?case
  proof (cases "bad a")
    case True
    then have "each_appender f (p # ps) w = Inl NullDeref"
      using assms(2) [OF Cons.prems(1) a True] by simp
    moreover have "\<exists>q \<in> set (p # ps). \<exists>a. appenders w q = Some a \<and> bad a" using a True by auto
    ultimately show ?thesis by (simp only: if_True)
  next
    case False
    then obtain w1 where w1: "f p w = Inr w1" "same_layout w w1"
      using assms(1) [OF Cons.prems(1) a] by blast
    have same: "map_option layout (appenders w1 q) = map_option layout (appenders w q)" for q
      using w1(2) unfolding same_layout_def by (metis comp_apply)
    have "\<forall>q \<in> set ps. appenders w1 q \<noteq> None" using Cons.prems(2) same by (metis list.set_intros(2) option.map_disc_iff)
    note IH = Cons.IH [OF same_layout_wired [OF w1(2) Cons.prems(1)] this]
    have "(\<exists>a. appenders w1 q = Some a \<and> bad a) = (\<exists>a. appenders w q = Some a \<and> bad a)" for q
    proof (cases "appenders w q")
      case None
      then show ?thesis using same [of q] by simp
    next
      case (Some c)
      then obtain b where "appenders w1 q = Some b" "layout b = layout c" using same [of q] by auto
      then show ?thesis using Some assms(3) [of b c] by simp
    qed
    then have bads: "(\<exists>q \<in> set ps. \<exists>a. appenders w1 q = Some a \<and> bad a)
        = (\<exists>q \<in> set (p # ps). \<exists>a. appenders w q = Some a \<and> bad a)"
      using a False by (simp del: not_Some_eq not_None_eq)
    have "each_appender f (p # ps) w = each_appender f ps w1" using w1(1) by simp
    moreover have "if B then X else \<exists>w'. f' = Inr w' \<and> same_layout w w'"
      if "if B then X else \<exists>w'. f' = Inr w' \<and> same_layout w1 w'" for B X and f' :: "fault + 'a logs"
      using that same_layout_trans [OF w1(2)] by (cases B) auto
    ultimately show ?thesis using IH unfolding bads [symmetric] by simp
  qed
qed simp

text \<open>The appenders a record given to a logger goes to: its own or else those of the root behind it.\<close>

definition destinations :: "'k logs \<Rightarrow> logger \<Rightarrow> nat list" where
  "destinations w x = (if l_appenders x \<noteq> [] then l_appenders x
     else case Option.bind (l_root x) (loggers w) of None \<Rightarrow> [] | Some g \<Rightarrow> l_appenders g)"

definition log_faults :: "'k logs \<Rightarrow> log_level \<Rightarrow> logger \<Rightarrow> bool" where
  "log_faults w level x \<longleftrightarrow> (\<exists>p \<in> set (destinations w x). \<exists>a. appenders w p = Some a \<and> mute level a)"

text \<open>Logging ends, whatever the logger, and faults at a null formatter only.\<close>

lemma Logger_log_ok:
  assumes "logs_wired strict w" and "loggers w l = Some x"
  shows "if log_faults w level x then Logger_log e l level r w = Some (Inl NullDeref)
    else \<exists>w'. Logger_log e l level r w = Some (Inr w') \<and> same_layout w w'"
proof -
  have ends: "if \<exists>p \<in> set (l_appenders y). \<exists>a. appenders w p = Some a \<and> mute level a
      then Logger_log e m level r w = Some (Inl NullDeref)
      else \<exists>w'. Logger_log e m level r w = Some (Inr w') \<and> same_layout w w'"
    if "loggers w m = Some y" "l_appenders y \<noteq> [] \<or> l_root y = None" for m y
  proof (cases "l_appenders y = []")
    case True
    then show ?thesis using that by (simp add: Logger_log.simps [of e m])
  next
    case False
    have "\<forall>p \<in> set (l_appenders y). appenders w p \<noteq> None"
      using that(1) assms(1) by (fastforce simp: logs_wired_def logger_ok_def)
    moreover have "\<exists>w'. appender_log e level r p w = Inr w' \<and> same_layout w w'"
      if "logs_wired strict w" "appenders w p = Some a" "\<not> mute level a" for p w a
      using appender_log_ok [OF that] by metis
    ultimately have "if \<exists>p \<in> set (l_appenders y). \<exists>a. appenders w p = Some a \<and> mute level a
        then each_appender (appender_log e level r) (l_appenders y) w = Inl NullDeref
        else \<exists>w'. each_appender (appender_log e level r) (l_appenders y) w = Inr w' \<and> same_layout w w'"
      by (intro each_appender_ok [OF _ appender_log_mute mute_layout assms(1)]) auto
    then show ?thesis using that(1) False by (simp add: Logger_log.simps [of e m] split: if_splits)
  qed
  show ?thesis
  proof (cases "l_appenders x \<noteq> [] \<or> l_root x = None")
    case True
    then have "destinations w x = l_appenders x" by (auto simp: destinations_def)
    then show ?thesis using ends [OF assms(2) True] by (simp add: log_faults_def)
  next
    case False
    moreover have "logger_ok strict w x" using assms by (simp add: logs_wired_def)
    ultimately have x: "l_root x = Some (root w)" by (auto simp: logger_ok_def)
    obtain g where g: "loggers w (root w) = Some g" "l_root g = None"
      using assms(1) by (auto simp: logs_wired_def)
    have "Logger_log e l level r w = Logger_log e (root w) level r w"
      using False x assms(2) by (simp add: Logger_log.simps [of e l])
    moreover have "destinations w x = l_appenders g" using False x g(1) by (simp add: destinations_def)
    ultimately show ?thesis using ends [OF g(1)] g(2) by (simp add: log_faults_def)
  qed
qed

section \<open>The operations keep the invariant\<close>

lemma wired_set_logger:
  assumes "logs_wired strict w" and "loggers w l = Some x" and "l_name y = l_name x" and "l_root y = l_root x"
    and "strict \<longrightarrow> l_formatter y \<noteq> None"
    and "\<forall>p \<in> set (l_appenders y). \<exists>a. appenders w p = Some a \<and> (strict \<longrightarrow> a_formatter a \<noteq> None)"
  shows "logs_wired strict (set_logger l y w)"
proof -
  have "logger_ok strict w x" using assms(1,2) by (simp add: logs_wired_def)
  then have y: "logger_ok strict w y" using assms(4-6) by (simp add: logger_ok_def)
  have ok: "logger_ok strict (set_logger l y w) z = logger_ok strict w z" for z
    by (simp add: logger_ok_def set_logger_def)
  note w = assms(1) [unfolded logs_wired_def]
  have "\<exists>z. loggers (set_logger l y w) m = Some z \<and> l_name z = name" if "named w name = Some m" for name m
  proof -
    obtain z where "loggers w m = Some z" "l_name z = name" using w \<open>named w name = Some m\<close> by blast
    then show ?thesis using assms(2,3) by (auto simp: set_logger_def)
  qed
  moreover have "\<exists>z. loggers (set_logger l y w) (root w) = Some z \<and> l_root z = None"
    using w assms(2,4) by (auto simp: set_logger_def)
  moreover have "logger_ok strict (set_logger l y w) z" if "loggers (set_logger l y w) m = Some z" for m z
    using that w y ok by (auto simp: set_logger_def split: if_splits)
  moreover have "named (set_logger l y w) = named w" "root (set_logger l y w) = root w"
      "appenders (set_logger l y w) = appenders w" by (simp_all add: set_logger_def)
  ultimately show ?thesis using w unfolding logs_wired_def by simp
qed

lemma wired_set_appender:
  assumes "logs_wired strict w" and "appenders w p = Some a \<Longrightarrow> strict \<Longrightarrow> a_formatter a \<noteq> None \<Longrightarrow> a_formatter b \<noteq> None"
    and "sink_ok (a_sink b)" and "hasFormatter b \<longrightarrow> a_formatter b \<noteq> None"
    and "appenders w p \<noteq> None \<longrightarrow> appenders w p = Some a"
  shows "logs_wired strict (set_appender p b w)"
proof -
  have "logger_ok strict (set_appender p b w) x" if x: "logger_ok strict w x" for x
  proof -
    have "\<exists>c. appenders (set_appender p b w) q = Some c \<and> (strict \<longrightarrow> a_formatter c \<noteq> None)" if q: "q \<in> set (l_appenders x)" for q
    proof -
      obtain c where "appenders w q = Some c" "strict \<longrightarrow> a_formatter c \<noteq> None" using x q by (auto simp: logger_ok_def)
      then show ?thesis using assms(2,5) by (auto simp: set_appender_def)
    qed
    then show ?thesis using x by (simp add: logger_ok_def set_appender_def)
  qed
  then show ?thesis
    using assms(1,3,4) unfolding logs_wired_def by (auto simp: set_appender_def)
qed

lemma inherit_ok:
  assumes "logs_wired strict w" and "appenders w p = Some a" and "strict \<longrightarrow> val \<noteq> None"
  obtains w' where "inherit val p w = Inr w'" and "logs_wired strict w'"
    and "loggers w' = loggers w" and "named w' = named w" and "root w' = root w"
    and "appenders w' = (appenders w)(p \<mapsto> a\<lparr>a_formatter := if hasFormatter a then a_formatter a else val\<rparr>)"
proof -
  have s: "sink_ok (a_sink a)" using assms(1,2) by (simp add: logs_wired_def)
  have "logs_wired strict (set_appender p (a\<lparr>a_formatter := val\<rparr>) w)" if "\<not> hasFormatter a"
    by (rule wired_set_appender [OF assms(1), where a = a]) (use assms s that in auto)
  then show ?thesis
    using assms that
    by (cases "hasFormatter a") (auto simp: inherit_def the_appender_def set_appender_def fun_upd_idem)
qed

text \<open>A new formatter reaches the appenders without one of their own, and no other.\<close>

lemma each_inherit:
  assumes "logs_wired strict w" and "strict \<longrightarrow> val \<noteq> None" and "\<forall>p \<in> set ps. appenders w p \<noteq> None"
  obtains w' where "each_appender (inherit val) ps w = Inr w'" and "logs_wired strict w'"
    and "loggers w' = loggers w" and "named w' = named w" and "root w' = root w"
    and "\<And>p. appenders w' p = (if p \<in> set ps
           then map_option (\<lambda>a. a\<lparr>a_formatter := if hasFormatter a then a_formatter a else val\<rparr>) (appenders w p)
           else appenders w p)"
proof -
  let ?f = "\<lambda>a. a\<lparr>a_formatter := if hasFormatter a then a_formatter a else val\<rparr>"
  have idem: "?f (?f a) = ?f a" for a :: appender by simp
  have "\<exists>w'. each_appender (inherit val) ps w = Inr w' \<and> logs_wired strict w' \<and> loggers w' = loggers w
      \<and> named w' = named w \<and> root w' = root w
      \<and> (\<forall>p. appenders w' p = (if p \<in> set ps then map_option ?f (appenders w p) else appenders w p))"
    using assms(1,3)
  proof (induction ps arbitrary: w)
    case (Cons p ps)
    then obtain a where a: "appenders w p = Some a" by auto
    obtain w1 where w1: "inherit val p w = Inr w1" "logs_wired strict w1" "loggers w1 = loggers w" "named w1 = named w"
        "root w1 = root w" "appenders w1 = (appenders w)(p \<mapsto> ?f a)"
      by (rule inherit_ok [OF Cons.prems(1) a assms(2)])
    have "\<forall>p \<in> set ps. appenders w1 p \<noteq> None" using Cons.prems(2) w1(6) by simp
    from Cons.IH [OF w1(2) this] show ?case
      using w1 a by auto
  qed simp
  then show ?thesis using that by blast
qed

lemma setFormatter_wired:
  assumes "logs_wired strict w" and "loggers w l = Some x" and "strict \<longrightarrow> val \<noteq> None"
  obtains w' where "setFormatter l val w = Inr w'" and "logs_wired strict w'"
    and "loggers w' = (loggers w)(l \<mapsto> x\<lparr>l_formatter := val\<rparr>)"
    and "\<And>p. appenders w' p = (if p \<in> set (l_appenders x)
           then map_option (\<lambda>a. a\<lparr>a_formatter := if hasFormatter a then a_formatter a else val\<rparr>) (appenders w p)
           else appenders w p)"
proof -
  let ?w = "set_logger l (x\<lparr>l_formatter := val\<rparr>) w"
  have x: "logger_ok strict w x" using assms(1,2) by (simp add: logs_wired_def)
  then have "logs_wired strict ?w"
    using assms by (intro wired_set_logger [OF assms(1,2)]) (auto simp: logger_ok_def)
  moreover have "\<forall>p \<in> set (l_appenders x). appenders ?w p \<noteq> None"
    using x by (auto simp: logger_ok_def set_logger_def)
  ultimately obtain w' where "each_appender (inherit val) (l_appenders x) ?w = Inr w'" "logs_wired strict w'"
      "loggers w' = loggers ?w"
      "\<And>p. appenders w' p = (if p \<in> set (l_appenders x)
           then map_option (\<lambda>a. a\<lparr>a_formatter := if hasFormatter a then a_formatter a else val\<rparr>) (appenders ?w p)
           else appenders ?w p)"
    by (rule each_inherit [OF _ assms(3)]) blast
  then show ?thesis
    using that assms(2) by (simp add: setFormatter_def the_logger_def set_logger_def)
qed

lemma addAppender_wired:
  assumes "logs_wired strict w" and "loggers w l = Some x" and "appenders w p = Some a"
  obtains w' where "addAppender l p w = Inr w'" and "logs_wired strict w'"
    and "loggers w' = (loggers w)(l \<mapsto> x\<lparr>l_appenders := l_appenders x @ [p]\<rparr>)"
    and "appenders w' = (appenders w)(p \<mapsto> a\<lparr>a_formatter := if a_formatter a = None then l_formatter x else a_formatter a\<rparr>)"
proof -
  let ?a = "a\<lparr>a_formatter := if a_formatter a = None then l_formatter x else a_formatter a\<rparr>"
  let ?w = "set_appender p ?a w"
  let ?x = "x\<lparr>l_appenders := l_appenders x @ [p]\<rparr>"
  have x: "logger_ok strict w x" and s: "sink_ok (a_sink a)" "hasFormatter a \<longrightarrow> a_formatter a \<noteq> None"
    using assms by (simp_all add: logs_wired_def)
  then have f: "strict \<longrightarrow> a_formatter ?a \<noteq> None" by (auto simp: logger_ok_def)
  have ok: "logs_wired strict ?w"
    by (rule wired_set_appender [OF assms(1), where a = a]) (use assms(3) s f in auto)
  have "logs_wired strict (set_logger l ?x ?w)"
  proof (rule wired_set_logger [OF ok, where x = x])
    show "\<forall>q \<in> set (l_appenders ?x). \<exists>b. appenders ?w q = Some b \<and> (strict \<longrightarrow> a_formatter b \<noteq> None)"
      using x f by (auto simp: logger_ok_def set_appender_def)
  qed (use assms(2) x in \<open>auto simp: set_appender_def logger_ok_def\<close>)
  then show ?thesis
    using that assms(2,3)
    by (cases "a_formatter a")
      (simp_all add: addAppender_def the_logger_def the_appender_def set_logger_def set_appender_def fun_upd_idem Let_def)
qed

lemma getLogger_wired:
  assumes "logs_wired strict w" and "loggers w l = None"
  obtains g w' x where "getLogger l name w = (g, w')" and "logs_wired strict w'" and "named w' name = Some g"
    and "loggers w' g = Some x" and "l_name x = name"
    and "named w name = None \<longrightarrow> g = l \<and> x = (new_Logger name)\<lparr>l_root := Some (root w)\<rparr>"
    and "named w name \<noteq> None \<longrightarrow> w' = w"
proof (cases "named w name")
  case (Some g)
  moreover obtain x where "loggers w g = Some x" "l_name x = name"
    using assms(1) Some unfolding logs_wired_def by blast
  ultimately show ?thesis using assms(1) that by (simp add: getLogger_def)
next
  case None
  let ?x = "(new_Logger name)\<lparr>l_root := Some (root w)\<rparr>"
  let ?w = "(set_logger l ?x w)\<lparr>named := (named w)(name \<mapsto> l)\<rparr>"
  note w = assms(1) [unfolded logs_wired_def]
  have x: "logger_ok strict w z = logger_ok strict ?w z" for z by (simp add: logger_ok_def set_logger_def)
  have root: "root w \<noteq> l" using w assms(2) by auto
  have "\<exists>z. loggers ?w m = Some z \<and> l_name z = n" if nm: "named ?w n = Some m" for n m
  proof (cases "n = name")
    case True
    then show ?thesis using nm by (simp add: set_logger_def new_Logger_def)
  next
    case False
    then have "named w n = Some m" using nm by simp
    then obtain z where "loggers w m = Some z" "l_name z = n" using w by blast
    then show ?thesis using assms(2) by (auto simp: set_logger_def)
  qed
  moreover have "logger_ok strict ?w z" if z: "loggers ?w m = Some z" for m z
  proof (cases "m = l")
    case True
    then have "z = ?x" using z by (simp add: set_logger_def)
    then show ?thesis by (simp add: set_logger_def logger_ok_def new_Logger_def)
  next
    case False
    then show ?thesis using z w x by (simp add: set_logger_def)
  qed
  moreover have "appenders ?w = appenders w" "root ?w = root w" "loggers ?w (root w) = loggers w (root w)"
    using root by (simp_all add: set_logger_def)
  ultimately have "logs_wired strict ?w" using w unfolding logs_wired_def by simp
  then show ?thesis
    using None that by (simp add: getLogger_def getLogger_create_def set_logger_def new_Logger_def)
qed

lemma new_LoggerManager_eq:
  "new_LoggerManager l p k = Inr
     \<lparr>loggers = [l \<mapsto> (new_Logger (chars ''root''))\<lparr>l_appenders := [p]\<rparr>],
      appenders = [p \<mapsto> new_ConsoleLogAppender\<lparr>a_formatter := Some (LogFormatter default_pattern)\<rparr>],
      named = [chars ''root'' \<mapsto> l], root = l, console = [], written = (\<lambda>_. []), tcache = no_time, log_kern = k\<rparr>"
  by (simp add: new_LoggerManager_def addAppender_def the_logger_def the_appender_def set_logger_def set_appender_def
      new_ConsoleLogAppender_def new_Logger_def Let_def)

lemma new_LoggerManager_wired: "new_LoggerManager l p k = Inr w \<Longrightarrow> logs_wired strict w"
  by (auto simp: new_LoggerManager_eq logs_wired_def logger_ok_def new_Logger_def new_ConsoleLogAppender_def
      split: if_splits)

text \<open>
  What a program can do with loggers and appenders, one call at a time; the formatters that the three \<open>setFormatter\<close>s are given may be
  null unless the run is \<open>strict\<close>.
\<close>

inductive log_step :: "bool \<Rightarrow> 'k outside \<Rightarrow> 'k logs \<Rightarrow> 'k logs \<Rightarrow> bool" for strict e where
  ls_get: "loggers w l = None \<Longrightarrow> log_step strict e w (snd (getLogger l name w))"
| ls_console: "appenders w p = None \<Longrightarrow> log_step strict e w (set_appender p new_ConsoleLogAppender w)"
| ls_file: "appenders w p = None \<Longrightarrow> 0 \<notin> set name \<Longrightarrow> new_FileLogAppender e name (log_kern w) = Inr (a, k) \<Longrightarrow>
    log_step strict e w (set_appender p a (w\<lparr>log_kern := k\<rparr>))"
| ls_own: "appenders w p = Some a \<Longrightarrow> strict \<longrightarrow> val \<noteq> None \<Longrightarrow>
    log_step strict e w (set_appender p (appender_setFormatter val a) w)"
| ls_alevel: "appenders w p = Some a \<Longrightarrow> log_step strict e w (set_appender p (a\<lparr>a_level := lv\<rparr>) w)"
| ls_add: "appenders w p \<noteq> None \<Longrightarrow> addAppender l p w = Inr w' \<Longrightarrow> log_step strict e w w'"
| ls_delete: "deleteAppender l p w = Inr w' \<Longrightarrow> log_step strict e w w'"
| ls_clear: "clearAppender l w = Inr w' \<Longrightarrow> log_step strict e w w'"
| ls_level: "setLevel l lv w = Inr w' \<Longrightarrow> log_step strict e w w'"
| ls_formatter: "setFormatter l val w = Inr w' \<Longrightarrow> strict \<longrightarrow> val \<noteq> None \<Longrightarrow> log_step strict e w w'"
| ls_pattern: "setFormatter_pattern l s w = Inr w' \<Longrightarrow> log_step strict e w w'"
| ls_log: "Logger_log e l lv r w = Some (Inr w') \<Longrightarrow> log_step strict e w w'"
| ls_reopen: "Logger_reopen e l w = Inr w' \<Longrightarrow> log_step strict e w w'"

inductive log_reachable :: "bool \<Rightarrow> 'k outside \<Rightarrow> 'k logs \<Rightarrow> bool" for strict e where
  lr_init: "new_LoggerManager l p k = Inr w \<Longrightarrow> log_reachable strict e w"
| lr_step: "log_reachable strict e w \<Longrightarrow> log_step strict e w w' \<Longrightarrow> log_reachable strict e w'"

lemma the_logger_Inr [faults]: "the_logger w l = Inr x \<longleftrightarrow> loggers w l = Some x"
  by (simp add: the_logger_def split: option.splits)

lemma the_appender_Inr [faults]: "the_appender w p = Inr a \<longleftrightarrow> appenders w p = Some a"
  by (simp add: the_appender_def split: option.splits)

lemma change_logger_wired:
  assumes "logs_wired strict w" and "loggers w l = Some x" and "l_name y = l_name x" and "l_root y = l_root x"
    and "l_formatter y = l_formatter x" and "set (l_appenders y) \<subseteq> set (l_appenders x)"
  shows "logs_wired strict (set_logger l y w)"
proof -
  have "logger_ok strict w x" using assms(1,2) by (simp add: logs_wired_def)
  then show ?thesis
    using assms(5,6) by (intro wired_set_logger [OF assms(1-4)]) (auto simp: logger_ok_def)
qed

lemma reopen_appender_ok:
  assumes "logs_wired strict w" and "appenders w p = Some a"
  shows "\<exists>w'. reopen_appender e p w = Inr w' \<and> same_layout w w'"
proof -
  have "sink_ok (a_sink a)" using assms by (simp add: logs_wired_def)
  then obtain ok b k where b: "appender_reopen e a (log_kern w) = Inr (ok, b, k)" "layout b = layout a"
    by (rule appender_reopen_ok)
  have "same_layout w (set_appender p b w)" by (rule same_layout_set [OF assms(2) b(2)])
  then show ?thesis
    using b(1) assms(2) by (simp add: reopen_appender_def the_appender_def same_layout_def set_appender_def)
qed

lemma Logger_reopen_ok:
  assumes "logs_wired strict w" and "Logger_reopen e l w = Inr w'"
  shows "logs_wired strict w'"
proof -
  obtain x where x: "loggers w l = Some x" "each_appender (reopen_appender e) (l_appenders x) w = Inr w'"
    using assms(2) by (auto simp: Logger_reopen_def faults)
  have there: "\<forall>p \<in> set (l_appenders x). appenders w p \<noteq> None"
    using assms(1) x(1) by (fastforce simp: logs_wired_def logger_ok_def)
  have "if \<exists>p \<in> set (l_appenders x). \<exists>a. appenders w p = Some a \<and> False
      then each_appender (reopen_appender e) (l_appenders x) w = Inl NullDeref
      else \<exists>w'. each_appender (reopen_appender e) (l_appenders x) w = Inr w' \<and> same_layout w w'"
    by (rule each_appender_ok [where bad = "\<lambda>_. False", OF _ _ _ assms(1) there]) (simp_all add: reopen_appender_ok)
  then obtain w2 where "each_appender (reopen_appender e) (l_appenders x) w = Inr w2" "same_layout w w2" by auto
  then show ?thesis using x(2) same_layout_wired [OF _ assms(1)] by simp
qed

lemma log_step_keeps: "log_step strict e w w' \<Longrightarrow> logs_wired strict w \<Longrightarrow> logs_wired strict w'"
proof (induction rule: log_step.induct)
  case (ls_get w l name)
  then show ?case by (metis getLogger_wired snd_conv)
next
  case (ls_console w p)
  then show ?case by (intro wired_set_appender [where a = undefined]) (simp_all add: new_ConsoleLogAppender_def)
next
  case (ls_file w p name a k)
  have "logs_wired strict (w\<lparr>log_kern := k\<rparr>)"
    by (rule same_layout_wired [OF _ ls_file(4)]) (simp add: same_layout_def)
  moreover obtain b where "layout a = layout b" "\<not> hasFormatter b" "sink_ok (a_sink b)"
  proof -
    let ?b = "\<lparr>a_level = TRACE, hasFormatter = False, a_formatter = None, a_sink = File name new_stream 0\<rparr>"
    have "sink_ok (a_sink ?b)" using ls_file(2) by simp
    then obtain ok c k' where "appender_reopen e ?b (log_kern w) = Inr (ok, c, k')" "layout c = layout ?b"
      by (rule appender_reopen_ok)
    then show ?thesis
      using that [of ?b] ls_file(2,3) by (simp add: new_FileLogAppender_def)
  qed
  ultimately show ?case
    using ls_file(1) by (intro wired_set_appender [where a = undefined]) (simp_all add: layout_def)
next
  case (ls_own w p a val)
  then have "sink_ok (a_sink a)" by (simp add: logs_wired_def)
  then show ?case
    using ls_own by (intro wired_set_appender [where a = a]) (simp_all add: appender_setFormatter_def)
next
  case (ls_alevel w p a lv)
  then have "sink_ok (a_sink a)" "hasFormatter a \<longrightarrow> a_formatter a \<noteq> None" by (simp_all add: logs_wired_def)
  then show ?case using ls_alevel by (intro wired_set_appender [where a = a]) simp_all
next
  case (ls_add w p l w')
  then obtain x a where "loggers w l = Some x" "appenders w p = Some a" by (auto simp: addAppender_def faults)
  then show ?case using addAppender_wired [OF ls_add(3)] ls_add(2) by (metis sum.inject(2))
next
  case (ls_delete l p w w')
  then obtain x where x: "loggers w l = Some x" "w' = set_logger l (x\<lparr>l_appenders := remove1 p (l_appenders x)\<rparr>) w"
    by (auto simp: deleteAppender_def faults)
  show ?case unfolding x(2)
    by (rule change_logger_wired [OF ls_delete(2) x(1)]) (simp_all add: set_remove1_subset)
next
  case (ls_clear l w w')
  then obtain x where "loggers w l = Some x" "w' = set_logger l (x\<lparr>l_appenders := []\<rparr>) w"
    by (auto simp: clearAppender_def faults)
  then show ?case using change_logger_wired [OF ls_clear(2)] by simp
next
  case (ls_level l lv w w')
  then obtain x where "loggers w l = Some x" "w' = set_logger l (x\<lparr>l_level := lv\<rparr>) w"
    by (auto simp: setLevel_def faults)
  then show ?case using change_logger_wired [OF ls_level(2)] by simp
next
  case (ls_formatter l val w w')
  then obtain x where "loggers w l = Some x" by (auto simp: setFormatter_def faults)
  then show ?case using setFormatter_wired [OF ls_formatter(3), of l x val] ls_formatter(1,2) by (metis sum.inject(2))
next
  case (ls_pattern l s w w')
  show ?case
  proof (cases "f_error (LogFormatter s)")
    case True
    then have "same_layout w w'"
      using ls_pattern(1) by (auto simp: setFormatter_pattern_def Let_def faults same_layout_def)
    then show ?thesis using ls_pattern(2) by (rule same_layout_wired)
  next
    case False
    then have "setFormatter l (Some (LogFormatter s)) w = Inr w'"
      using ls_pattern(1) by (simp add: setFormatter_pattern_def)
    moreover from this obtain x where "loggers w l = Some x" by (auto simp: setFormatter_def faults)
    ultimately show ?thesis
      using setFormatter_wired [OF ls_pattern(2), of l x "Some (LogFormatter s)"] by (metis option.discI sum.inject(2))
  qed
next
  case (ls_log l lv r w w')
  then obtain x where "loggers w l = Some x" by (cases "loggers w l") (auto simp: Logger_log.simps [of e l])
  then have "same_layout w w'"
    using Logger_log_ok [OF ls_log(2), of l x lv e r] ls_log(1) by (auto split: if_splits)
  then show ?case using ls_log(2) by (rule same_layout_wired)
next
  case (ls_reopen l w w')
  then show ?case using Logger_reopen_ok by blast
qed

lemma log_reachable_ok: "log_reachable strict e w \<Longrightarrow> logs_wired strict w"
  by (induction rule: log_reachable.induct) (auto dest: new_LoggerManager_wired log_step_keeps)

text \<open>The same for programs that never pass a null formatter.\<close>

lemmas same_layout_ok = same_layout_wired [where strict = True, folded logs_ok_def]
lemmas change_logger_ok = change_logger_wired [where strict = True, folded logs_ok_def]
lemmas addAppender_ok = addAppender_wired [where strict = True, folded logs_ok_def]
lemmas setFormatter_ok = setFormatter_wired [where strict = True, folded logs_ok_def]
lemmas getLogger_ok = getLogger_wired [where strict = True, folded logs_ok_def]
lemmas logs_ok_set_appender = wired_set_appender [where strict = True, folded logs_ok_def]
lemmas new_LoggerManager_ok = new_LoggerManager_wired [where strict = True, folded logs_ok_def]

section \<open>Properties\<close>

text \<open>
  C23. Loggers by name: in every state that the operations on loggers and appenders lead to, setting null formatters included, \<open>getLogger\<close> returns the logger of
  that name, the same one every time, and makes it with the root behind it when there is none. A
  record given to any logger ends and changes no logger, except that it dereferences a null pointer
  exactly when one of the appenders it goes to, the logger's own or those of the root if it has none, takes its level and has no formatter. As long
  as nobody has passed a null formatter, which \<open>LogAppender::setFormatter\<close> and \<open>Logger::setFormatter\<close> accept, every appender a
  logger has, however it came to it, has a formatter, and there is no fault.
\<close>

theorem loggers_are_usable:
  assumes "log_reachable strict e w" and "loggers w l = None"
  shows "\<exists>g w1 x. getLogger l name w = (g, w1) \<and> loggers w1 g = Some x \<and> l_name x = name
    \<and> (\<forall>l'. getLogger l' name w1 = (g, w1))
    \<and> (named w name = None \<longrightarrow> l_appenders x = [] \<and> l_root x = Some (root w))
    \<and> (\<forall>h y level r. loggers w1 h = Some y \<longrightarrow>
         (if \<exists>p \<in> set (destinations w1 y). \<exists>a. appenders w1 p = Some a \<and> shouldLog a level \<and> a_formatter a = None
          then Logger_log e h level r w1 = Some (Inl NullDeref)
          else \<exists>w2. Logger_log e h level r w1 = Some (Inr w2) \<and> loggers w2 = loggers w1 \<and> named w2 = named w1)
         \<and> (\<forall>p \<in> set (l_appenders y). \<exists>a. appenders w1 p = Some a \<and> (strict \<longrightarrow> a_formatter a \<noteq> None))
         \<and> (strict \<longrightarrow> (\<exists>w2. Logger_log e h level r w1 = Some (Inr w2))))"
proof -
  obtain g w1 x where g: "getLogger l name w = (g, w1)" "logs_wired strict w1" "named w1 name = Some g"
      "loggers w1 g = Some x" "l_name x = name"
      "named w name = None \<longrightarrow> g = l \<and> x = (new_Logger name)\<lparr>l_root := Some (root w)\<rparr>"
    by (rule getLogger_wired [OF log_reachable_ok [OF assms(1)] assms(2)])
  have log: "if log_faults w1 level y then Logger_log e h level r w1 = Some (Inl NullDeref)
      else \<exists>w2. Logger_log e h level r w1 = Some (Inr w2) \<and> loggers w2 = loggers w1 \<and> named w2 = named w1"
    if "loggers w1 h = Some y" for h y level r
    using Logger_log_ok [OF g(2) that, of level e r] by (auto simp: same_layout_def split: if_splits)
  have fmt: "\<exists>a. appenders w1 p = Some a \<and> (strict \<longrightarrow> a_formatter a \<noteq> None)"
    if "loggers w1 h = Some y" "p \<in> set (l_appenders y)" for h y p
    using g(2) that by (auto simp: logs_wired_def logger_ok_def)
  have safe: "\<not> log_faults w1 level y" if y: "loggers w1 h = Some y" and s: strict for h y level
  proof
    assume "log_faults w1 level y"
    then obtain p a where p: "p \<in> set (destinations w1 y)" "appenders w1 p = Some a" "a_formatter a = None"
      by (auto simp: log_faults_def mute_def)
    obtain m z where "loggers w1 m = Some z" "p \<in> set (l_appenders z)"
    proof (cases "l_appenders y = []")
      case True
      then show ?thesis
        using p(1) that by (cases "Option.bind (l_root y) (loggers w1)") (auto simp: destinations_def bind_eq_Some_conv)
    next
      case False
      then show ?thesis using p(1) y that by (simp add: destinations_def)
    qed
    from fmt [OF this] s p(2,3) show False by simp
  qed
  have all: "\<forall>h y level r. loggers w1 h = Some y \<longrightarrow>
       (if log_faults w1 level y then Logger_log e h level r w1 = Some (Inl NullDeref)
        else \<exists>w2. Logger_log e h level r w1 = Some (Inr w2) \<and> loggers w2 = loggers w1 \<and> named w2 = named w1)
       \<and> (\<forall>p \<in> set (l_appenders y). \<exists>a. appenders w1 p = Some a \<and> (strict \<longrightarrow> a_formatter a \<noteq> None))
       \<and> (strict \<longrightarrow> (\<exists>w2. Logger_log e h level r w1 = Some (Inr w2)))"
    using log fmt safe by metis
  have again: "getLogger l' name w1 = (g, w1)" for l' using g(3) by (simp add: getLogger_def)
  have empty: "named w name = None \<longrightarrow> l_appenders x = [] \<and> l_root x = Some (root w)"
    using g(6) by (auto simp: new_Logger_def)
  show ?thesis
    by (rule exI [of _ g], rule exI [of _ w1], rule exI [of _ x], intro conjI all [unfolded log_faults_def mute_def])
      (use g(1,4,5) again empty in simp_all)
qed

definition example_outside :: "str list outside" where
  "example_outside = \<lparr>sys_os = list_os, takes = (\<lambda>_ _. True), local_time = (\<lambda>n fmt s old. [])\<rparr>"

theorem loggers_are_usable_witness:
  "\<exists>w g w1. new_LoggerManager 1 1 [] = Inr w \<and> getLogger 2 (chars ''net'') w = (g, w1)
     \<and> (\<exists>w2. Logger_log example_outside g INFO example_record w1 = Some (Inr w2))"
proof -
  obtain w where w: "new_LoggerManager 1 1 [] = Inr (w :: str list logs)" by (simp add: new_LoggerManager_eq)
  then have "log_reachable True example_outside w" by (rule lr_init)
  moreover have "loggers w 2 = None" using w by (auto simp: new_LoggerManager_eq)
  ultimately show ?thesis using loggers_are_usable [of True example_outside w 2 "chars ''net''"] w by metis
qed

text \<open>
  C36. What reaches the console: a record of a fresh named logger goes to the root's console
  appender, in the default pattern with the date as \<open>strftime\<close> leaves it in an empty buffer of 32 bytes, framed by the escape sequences of its level, exactly when its
  level is at least \<open>TRACE\<close> and at least the logger's. As \<open>OFF\<close> is below every level, a logger set
  to \<open>OFF\<close>, as the configuration does with one it removes, prints everything.
\<close>

theorem record_on_console:
  assumes "new_LoggerManager l p k = Inr w" and "g \<noteq> l" and "name \<noteq> chars ''root''"
    and "rec_logger r = g" and "seconds (rec_time r) \<noteq> 0"
  shows "\<exists>w1 w2. setLevel g lv (snd (getLogger g name w)) = Inr w1 \<and> ELOG_LEVEL e r w1 = Some (Inr w2)
    \<and> console w2 = (if lv \<le> rec_level r \<and> TRACE \<le> rec_level r
        then color_on (rec_level r)
          @ concat (map (direct_text (\<lambda>fmt s. local_time e 32 fmt s []) (logger_name w1) (rec_level r) r) (f_units (LogFormatter default_pattern)))
          @ color_off (rec_level r)
        else [])"
proof -
  let ?x = "(new_Logger name)\<lparr>l_root := Some l, l_level := lv\<rparr>"
  let ?a = "new_ConsoleLogAppender\<lparr>a_formatter := Some (LogFormatter default_pattern)\<rparr>"
  have w: "loggers w = [l \<mapsto> (new_Logger (chars ''root''))\<lparr>l_appenders := [p]\<rparr>]" "root w = l"
      "named w = [chars ''root'' \<mapsto> l]" "appenders w = [p \<mapsto> ?a]" "console w = []" "tcache w = no_time"
    using assms(1) by (auto simp: new_LoggerManager_eq)
  obtain w1 where w1: "setLevel g lv (snd (getLogger g name w)) = Inr w1"
      "loggers w1 = [l \<mapsto> (new_Logger (chars ''root''))\<lparr>l_appenders := [p]\<rparr>, g \<mapsto> ?x]"
      "appenders w1 = [p \<mapsto> ?a]" "console w1 = []" "tcache w1 = no_time"
    using w assms(3)
    by (simp add: getLogger_def getLogger_create_def setLevel_def the_logger_def set_logger_def)
  let ?date = "\<lambda>u. case u of DateTimeUnit f \<Rightarrow> True | _ \<Rightarrow> False"
  have only: "filter ?date (f_units (LogFormatter default_pattern)) = [DateTimeUnit (chars ''%Y-%m-%d %H:%M:%S'')]"
    by code_simp
  have dates: "\<forall>f. DateTimeUnit f \<in> set (f_units (LogFormatter default_pattern)) \<longrightarrow> f = chars ''%Y-%m-%d %H:%M:%S''"
  proof (intro allI impI)
    fix f assume "DateTimeUnit f \<in> set (f_units (LogFormatter default_pattern))"
    then have "DateTimeUnit f \<in> set (filter ?date (f_units (LogFormatter default_pattern)))" by simp
    then show "f = chars ''%Y-%m-%d %H:%M:%S''" unfolding only by simp
  qed
  obtain tc where tc: "format_units (local_time e) (logger_name w1) (f_units (LogFormatter default_pattern)) (rec_level r) r no_time
      = (concat (map (direct_text (\<lambda>fmt s. local_time e 32 fmt s []) (logger_name w1) (rec_level r) r)
          (f_units (LogFormatter default_pattern))), tc)"
    using format_units_direct [OF dates, of "local_time e" "\<lambda>fmt s. local_time e 32 fmt s []" r no_time "logger_name w1" "rec_level r"] assms(5)
    by (auto simp: ready_def no_time_def)
  have root: "Logger_log e l (rec_level r) r w1 = Some (appender_log e (rec_level r) r p w1)"
    using w1(2) assms(2) by (cases "appender_log e (rec_level r) r p w1") (simp_all add: Logger_log.simps [of e l] new_Logger_def)
  have "Logger_log e g (rec_level r) r w1 = Logger_log e l (rec_level r) r w1"
    using w1(2) by (simp add: Logger_log.simps [of e g] new_Logger_def)
  then show ?thesis
    using w1 root tc assms(4)
    by (auto simp: ELOG_LEVEL_def emit_record_def appender_log_def the_appender_def ConsoleLogAppender_log_def
        appender_format_def format_def shouldLog_def new_ConsoleLogAppender_def new_Logger_def)
qed

theorem record_on_console_witness:
  "\<exists>w w1 w2. new_LoggerManager 1 1 [] = Inr w \<and> setLevel 2 ERROR (snd (getLogger 2 (chars ''net'') w)) = Inr w1
     \<and> ELOG_LEVEL example_outside (example_record\<lparr>rec_logger := 2\<rparr>) w1 = Some (Inr w2) \<and> console w2 = []"
proof -
  obtain w where w: "new_LoggerManager 1 1 [] = Inr (w :: str list logs)" by (simp add: new_LoggerManager_eq)
  have "chars ''net'' \<noteq> chars ''root''" by (simp add: chars_def)
  moreover have "seconds (rec_time (example_record\<lparr>rec_logger := 2\<rparr>)) \<noteq> 0" by code_simp
  moreover have "\<not> ERROR \<le> rec_level (example_record\<lparr>rec_logger := 2\<rparr>)" by code_simp
  ultimately show ?thesis
    using record_on_console [OF w, of 2 "chars ''net''" "example_record\<lparr>rec_logger := 2\<rparr>" ERROR example_outside] w by auto
qed

end
