(* ===== verification/OrderedSet.thy ===== *)
theory OrderedSet imports Prelude begin

text \<open>
  \<open>std::set\<close> with a comparison object: the elements as a list in the order of the comparison,
  the operations as the standard specifies them (elements neither of which is less than the
  other are the same), and the interface \<open>ordered_set\<close>: what the operations promise when the
  comparison is a strict linear order on the elements that occur.
\<close>

section \<open>The operations\<close>

fun set_insert :: "('a \<Rightarrow> 'a \<Rightarrow> bool) \<Rightarrow> 'a \<Rightarrow> 'a list \<Rightarrow> 'a list" where
  "set_insert lt x [] = [x]"
| "set_insert lt x (y # ys) =
     (if lt x y then x # y # ys else if lt y x then y # set_insert lt x ys else y # ys)"

text \<open>\<open>find\<close>: the element equivalent to \<open>x\<close>; \<open>None\<close> is \<open>end()\<close>.\<close>

fun set_find :: "('a \<Rightarrow> 'a \<Rightarrow> bool) \<Rightarrow> 'a \<Rightarrow> 'a list \<Rightarrow> 'a option" where
  "set_find lt x [] = None"
| "set_find lt x (y # ys) =
     (if lt x y then None else if lt y x then set_find lt x ys else Some y)"

definition set_erase :: "'a \<Rightarrow> 'a list \<Rightarrow> 'a list" where
  "set_erase x xs = remove1 x xs"

text \<open>The range before \<open>lower_bound x\<close>, and the range from it on.\<close>

definition set_before :: "('a \<Rightarrow> 'a \<Rightarrow> bool) \<Rightarrow> 'a \<Rightarrow> 'a list \<Rightarrow> 'a list" where
  "set_before lt x xs = takeWhile (\<lambda>y. lt y x) xs"

definition set_from :: "('a \<Rightarrow> 'a \<Rightarrow> bool) \<Rightarrow> 'a \<Rightarrow> 'a list \<Rightarrow> 'a list" where
  "set_from lt x xs = dropWhile (\<lambda>y. lt y x) xs"

section \<open>The interface\<close>

locale ordered_set =
  fixes lt :: "'a \<Rightarrow> 'a \<Rightarrow> bool"
  assumes lt_irrefl: "\<not> lt x x"
    and lt_trans: "lt x y \<Longrightarrow> lt y z \<Longrightarrow> lt x z"
    and lt_total: "x \<noteq> y \<Longrightarrow> lt x y \<or> lt y x"
begin

lemma lt_asym: "lt x y \<Longrightarrow> \<not> lt y x"
  using lt_irrefl lt_trans by blast

lemma set_set_insert: "set (set_insert lt x xs) = insert x (set xs)"
  using lt_total by (induction xs) auto

lemma sorted_insert: "sorted_wrt lt xs \<Longrightarrow> sorted_wrt lt (set_insert lt x xs)"
  by (induction xs) (auto simp: set_set_insert dest: lt_trans)

lemma sorted_distinct: "sorted_wrt lt xs \<Longrightarrow> distinct xs"
  using lt_irrefl by (induction xs) auto

lemma sorted_erase: "sorted_wrt lt xs \<Longrightarrow> sorted_wrt lt (set_erase x xs)"
  unfolding set_erase_def using set_remove1_subset by (induction xs) fastforce+

lemma set_set_erase: "sorted_wrt lt xs \<Longrightarrow> set (set_erase x xs) = set xs - {x}"
  unfolding set_erase_def by (simp add: sorted_distinct)

lemma find_iff: "sorted_wrt lt xs \<Longrightarrow> set_find lt x xs = (if x \<in> set xs then Some x else None)"
proof (induction xs)
  case (Cons y ys)
  consider "lt x y" | "x = y" | "lt y x" using lt_total by blast
  then show ?case
  proof cases
    case 1
    then have "x \<noteq> y" "x \<notin> set ys" using Cons.prems lt_irrefl lt_asym by auto
    with 1 show ?thesis by simp
  next
    case 2
    then show ?thesis using lt_irrefl by simp
  next
    case 3
    then have "x \<noteq> y" "\<not> lt x y" using lt_irrefl lt_asym by auto
    with 3 show ?thesis using Cons by simp
  qed
qed simp

lemma before_filter_aux: "\<forall>y \<in> set ys. lt a y \<Longrightarrow> \<not> lt a x \<Longrightarrow> filter (\<lambda>y. lt y x) ys = []"
  unfolding filter_empty_conv using lt_trans by blast

lemma set_before_filter: "sorted_wrt lt xs \<Longrightarrow> set_before lt x xs = filter (\<lambda>y. lt y x) xs"
  unfolding set_before_def by (induction xs) (auto intro!: before_filter_aux [symmetric])

lemma set_from_filter: "sorted_wrt lt xs \<Longrightarrow> set_from lt x xs = filter (\<lambda>y. \<not> lt y x) xs"
  unfolding set_from_def
proof (induction xs)
  case (Cons y ys)
  have "filter (\<lambda>y. \<not> lt y x) ys = ys" if "\<not> lt y x"
    using that Cons.prems lt_trans by (auto simp: filter_id_conv)
  with Cons show ?case by auto
qed simp

lemma before_from: "set_before lt x xs @ set_from lt x xs = xs"
  by (simp add: set_before_def set_from_def)

lemma first_least: "sorted_wrt lt (x # xs) \<Longrightarrow> y \<in> set xs \<Longrightarrow> lt x y"
  by simp

end

text \<open>Sorted lists and the comparison may disagree only outside the list.\<close>

lemma sorted_wrt_cong:
  "(\<And>x y. x \<in> set xs \<Longrightarrow> y \<in> set xs \<Longrightarrow> lt x y = lt' x y) \<Longrightarrow> sorted_wrt lt xs = sorted_wrt lt' xs"
  by (induction xs) auto

end
