(* ===== verification/Yaml.thy ===== *)
theory Yaml imports OrderedSet begin

text \<open>
  The conversions between texts and containers of \<open>easy/base/Config.h\<close>. A YAML node is a tree, as the
  YAML library documents it; parsing and printing texts, \<open>load\<close> and \<open>emit\<close>, are arguments, and so is
  the conversion of an element. The lemmas show that a container is read back as it was.
\<close>

section \<open>Nodes\<close>

datatype yaml = YUndefined | YNull | YScalar str | YSeq "yaml list" | YMap "(str \<times> yaml) list"

fun yaml_size :: "yaml \<Rightarrow> nat" where
  "yaml_size (YSeq ns) = length ns"
| "yaml_size (YMap kvs) = length kvs"
| "yaml_size _ = 0"

text \<open>\<open>node[i]\<close>; in a map the index is a key.\<close>

fun yaml_at :: "yaml \<Rightarrow> nat \<Rightarrow> yaml" where
  "yaml_at (YSeq ns) i = (if i < length ns then ns ! i else YUndefined)"
| "yaml_at (YMap kvs) i = (case map_of kvs (show_nat 10 i) of None \<Rightarrow> YUndefined | Some n \<Rightarrow> n)"
| "yaml_at _ i = YUndefined"

text \<open>\<open>node[key]\<close> for reading, and for storing \<open>n\<close> in a map.\<close>

fun yaml_get :: "str \<Rightarrow> yaml \<Rightarrow> fault + yaml" where
  "yaml_get key (YMap kvs) = Inr (case map_of kvs key of None \<Rightarrow> YUndefined | Some n \<Rightarrow> n)"
| "yaml_get key (YScalar s) = Inl BadConversion"
| "yaml_get key _ = Inr YUndefined"

fun yaml_put :: "str \<Rightarrow> yaml \<Rightarrow> (str \<times> yaml) list \<Rightarrow> (str \<times> yaml) list" where
  "yaml_put key n [] = [(key, n)]"
| "yaml_put key n ((k, m) # kvs) = (if k = key then (k, n) # kvs else (k, m) # yaml_put key n kvs)"

text \<open>\<open>as<std::string>\<close>.\<close>

fun yaml_string :: "yaml \<Rightarrow> fault + str" where
  "yaml_string (YScalar s) = Inr s"
| "yaml_string _ = Inl BadConversion"

section \<open>Texts in order\<close>

fun str_less :: "str \<Rightarrow> str \<Rightarrow> bool" where
  "str_less [] ys = (ys \<noteq> [])"
| "str_less (x # xs) [] = False"
| "str_less (x # xs) (y # ys) = (x < y \<or> x = y \<and> str_less xs ys)"

interpretation str_order: ordered_set str_less
proof
  show "\<not> str_less x x" for x by (induction x) auto
  show "str_less x y \<Longrightarrow> str_less y z \<Longrightarrow> str_less x z" for x y z
  proof (induction x y arbitrary: z rule: str_less.induct)
    case (3 x xs y ys)
    then show ?case by (cases z) auto
  qed (use str_less.elims(2) in force)+
  show "x \<noteq> y \<Longrightarrow> str_less x y \<or> str_less y x" for x y
    by (induction x y rule: str_less.induct) (auto simp: neq_Nil_conv)
qed

text \<open>A \<open>std::map\<close> is the list of its entries in the order of the keys; \<open>insert\<close> keeps what is there.\<close>

definition key_less :: "str \<times> 'a \<Rightarrow> str \<times> 'a \<Rightarrow> bool" where
  "key_less a b = str_less (fst a) (fst b)"

section \<open>Conversions\<close>

type_synonym loader = "str \<Rightarrow> fault + yaml"
type_synonym emitter = "yaml \<Rightarrow> str"

text \<open>The elements of a node, each printed and converted, and the node of converted elements.\<close>

definition elements_from :: "loader \<Rightarrow> emitter \<Rightarrow> (str \<Rightarrow> fault + 'a) \<Rightarrow> str \<Rightarrow> fault + 'a list" where
  "elements_from load emit f s =
     bindE (load s) (\<lambda>node. mapE (\<lambda>i. f (emit (yaml_at node i))) [0..<yaml_size node])"

definition nodes_of :: "loader \<Rightarrow> ('a \<Rightarrow> fault + str) \<Rightarrow> 'a list \<Rightarrow> fault + yaml list" where
  "nodes_of load t v = mapE (\<lambda>x. bindE (t x) load) v"

definition elements_to :: "loader \<Rightarrow> emitter \<Rightarrow> ('a \<Rightarrow> fault + str) \<Rightarrow> 'a list \<Rightarrow> fault + str" where
  "elements_to load emit t v =
     bindE (nodes_of load t v) (\<lambda>ns. Inr (emit (YSeq ns)))"

definition vector_from where "vector_from = elements_from"
definition vector_to where "vector_to = elements_to"
definition list_from where "list_from = elements_from"
definition list_to where "list_to = elements_to"

text \<open>A \<open>std::set\<close> with the comparison \<open>lt\<close>; an unordered set in whatever order it is gone through.\<close>

definition set_cast_from where
  "set_cast_from lt load emit f s =
     bindE (elements_from load emit f s) (\<lambda>xs. Inr (foldl (\<lambda>v x. set_insert lt x v) [] xs))"

definition set_cast_to where "set_cast_to = elements_to"

definition unordered_set_from where
  "unordered_set_from load emit f s = bindE (elements_from load emit f s) (\<lambda>xs. Inr (set xs))"

definition unordered_set_to where "unordered_set_to = elements_to"

text \<open>The entries of a map node; going through a sequence gives entries without a key.\<close>

fun yaml_entries :: "yaml \<Rightarrow> fault + (str \<times> yaml) list" where
  "yaml_entries (YMap kvs) = Inr kvs"
| "yaml_entries (YSeq ns) = (if ns = [] then Inr [] else Inl BadConversion)"
| "yaml_entries _ = Inr []"

definition entries_from :: "loader \<Rightarrow> emitter \<Rightarrow> (str \<Rightarrow> fault + 'a) \<Rightarrow> str \<Rightarrow> fault + (str \<times> 'a) list" where
  "entries_from load emit f s =
     bindE (load s) (\<lambda>node. bindE (yaml_entries node) (\<lambda>kvs.
       mapE (\<lambda>(k, n). bindE (f (emit n)) (\<lambda>x. Inr (k, x))) kvs))"

definition entries_to :: "loader \<Rightarrow> emitter \<Rightarrow> ('a \<Rightarrow> fault + str) \<Rightarrow> (str \<times> 'a) list \<Rightarrow> fault + str" where
  "entries_to load emit t m =
     bindE (mapE (\<lambda>(k, x). bindE (bindE (t x) load) (\<lambda>n. Inr (k, n))) m) (\<lambda>kns.
       Inr (emit (YMap (foldl (\<lambda>kvs (k, n). yaml_put k n kvs) [] kns))))"

definition map_cast_from where
  "map_cast_from load emit f s =
     bindE (entries_from load emit f s) (\<lambda>kxs. Inr (foldl (\<lambda>m kx. set_insert key_less kx m) [] kxs))"

definition map_cast_to where "map_cast_to = entries_to"

definition unordered_map_from where
  "unordered_map_from load emit f s = bindE (entries_from load emit f s) (\<lambda>kxs. Inr (map_of kxs))"

definition unordered_map_to where "unordered_map_to = entries_to"

section \<open>Lemmas\<close>

text \<open>An element is read back: it is printed as the text of a node whose text converts to it.\<close>

definition castable :: "loader \<Rightarrow> emitter \<Rightarrow> (str \<Rightarrow> fault + 'a) \<Rightarrow> ('a \<Rightarrow> fault + str) \<Rightarrow> 'a \<Rightarrow> bool" where
  "castable load emit f t x \<longleftrightarrow> (\<exists>s n. t x = Inr s \<and> load s = Inr n \<and> f (emit n) = Inr x)"

text \<open>What is printed is parsed as it was.\<close>

definition reparsed :: "loader \<Rightarrow> emitter \<Rightarrow> yaml \<Rightarrow> bool" where
  "reparsed load emit n \<longleftrightarrow> load (emit n) = Inr n"

lemma castable_nodes:
  assumes "\<forall>x \<in> set v. castable load emit f t x"
  obtains ns where "nodes_of load t v = Inr ns" and "map (\<lambda>n. f (emit n)) ns = map Inr v"
    and "length ns = length v"
proof -
  have "\<exists>ns. nodes_of load t v = Inr ns \<and> map (\<lambda>n. f (emit n)) ns = map Inr v"
    using assms
  proof (induction v)
    case (Cons x v)
    then obtain ns where "nodes_of load t v = Inr ns" "map (\<lambda>n. f (emit n)) ns = map Inr v" by auto
    moreover obtain s n where "t x = Inr s" "load s = Inr n" "f (emit n) = Inr x"
      using Cons.prems by (auto simp: castable_def)
    ultimately show ?case by (intro exI [of _ "n # ns"]) (simp add: nodes_of_def)
  qed (simp add: nodes_of_def)
  then show ?thesis using that map_eq_imp_length_eq by metis
qed

lemma mapE_Inr: "map f xs = map Inr ys \<Longrightarrow> mapE f xs = Inr ys"
  by (induction xs arbitrary: ys) auto

lemma elements_roundtrip:
  assumes "\<forall>x \<in> set v. castable load emit f t x" and "\<forall>ns. nodes_of load t v = Inr ns \<longrightarrow> reparsed load emit (YSeq ns)"
  obtains s where "elements_to load emit t v = Inr s" and "elements_from load emit f s = Inr v"
proof -
  obtain ns where ns: "nodes_of load t v = Inr ns" "map (\<lambda>n. f (emit n)) ns = map Inr v"
      "length ns = length v" by (rule castable_nodes [OF assms(1)])
  have "map (\<lambda>i. f (emit (yaml_at (YSeq ns) i))) [0..<length ns] = map (\<lambda>n. f (emit n)) ns"
    by (intro nth_equalityI) simp_all
  then have "mapE (\<lambda>i. f (emit (yaml_at (YSeq ns) i))) [0..<length ns] = Inr v"
    using ns(2) by (intro mapE_Inr) simp
  then show ?thesis
    using ns(1) assms(2) by (intro that [of "emit (YSeq ns)"]) (simp_all add: elements_to_def elements_from_def reparsed_def del: yaml_at.simps)
qed

lemma set_insert_last:
  assumes "\<forall>y \<in> set ys. lt y x \<and> \<not> lt x y"
  shows "set_insert lt x ys = ys @ [x]"
  using assms by (induction ys) auto

lemma insert_sorted:
  assumes "sorted_wrt (\<lambda>a b. lt a b \<and> \<not> lt b a) xs"
  shows "foldl (\<lambda>v x. set_insert lt x v) [] xs = xs"
proof -
  have "foldl (\<lambda>v x. set_insert lt x v) ys xs = ys @ xs"
    if "sorted_wrt (\<lambda>a b. lt a b \<and> \<not> lt b a) (ys @ xs)" for ys
    using that by (induction xs arbitrary: ys) (auto simp: sorted_wrt_append set_insert_last)
  then show ?thesis using assms by (metis append_Nil)
qed

lemma yaml_put_new: "k \<notin> fst ` set kvs \<Longrightarrow> yaml_put k n kvs = kvs @ [(k, n)]"
  by (induction k n kvs rule: yaml_put.induct) auto

lemma put_distinct:
  assumes "distinct (map fst kns)"
  shows "foldl (\<lambda>kvs (k, n). yaml_put k n kvs) [] kns = kns"
proof -
  have "foldl (\<lambda>kvs (k, n). yaml_put k n kvs) acc kns = acc @ kns" if "distinct (map fst (acc @ kns))" for acc
    using that by (induction kns arbitrary: acc) (auto simp: yaml_put_new)
  then show ?thesis using assms by (metis append_Nil)
qed

lemma entries_roundtrip:
  assumes "\<forall>(k, x) \<in> set m. castable load emit f t x" and "distinct (map fst m)"
    and "\<forall>ns. nodes_of load t (map snd m) = Inr ns \<longrightarrow> reparsed load emit (YMap (zip (map fst m) ns))"
  obtains s where "entries_to load emit t m = Inr s" and "entries_from load emit f s = Inr m"
proof -
  have "\<forall>x \<in> set (map snd m). castable load emit f t x" using assms(1) by auto
  then obtain ns where ns: "nodes_of load t (map snd m) = Inr ns"
      "map (\<lambda>n. f (emit n)) ns = map Inr (map snd m)" "length ns = length (map snd m)" by (rule castable_nodes)
  let ?kns = "zip (map fst m) ns"
  have fst: "map fst ?kns = map fst m" using ns(3) by simp
  have "mapE (\<lambda>(k, x). bindE (bindE (t x) load) (\<lambda>n. Inr (k, n))) m = Inr ?kns"
    using ns(1,3) unfolding nodes_of_def by (induction m arbitrary: ns) (auto simp: faults length_Suc_conv)
  moreover have "foldl (\<lambda>kvs (k, n). yaml_put k n kvs) [] ?kns = ?kns"
    using assms(2) fst by (intro put_distinct) simp
  ultimately have to: "entries_to load emit t m = Inr (emit (YMap ?kns))" by (simp add: entries_to_def)
  have "map (\<lambda>(k, n). bindE (f (emit n)) (\<lambda>x. Inr (k, x))) ?kns = map Inr m"
    using ns(2,3)
  proof (induction m arbitrary: ns)
    case (Cons kx m)
    then show ?case by (cases ns) (auto split: prod.splits)
  qed simp
  then have "entries_from load emit f (emit (YMap ?kns)) = Inr m"
    using assms(3) ns(1) by (simp add: entries_from_def reparsed_def mapE_Inr)
  then show ?thesis using to that by blast
qed

section \<open>Properties\<close>

text \<open>
  C39. Containers are read back: a vector, a list, a set in its order and a map by its keys whose
  elements are read back, one by one, are converted to a text that converts to the same container,
  provided the text of the node they make is parsed as that node.
\<close>

theorem containers_read_back:
  assumes "\<forall>x \<in> set v. castable load emit f t x" and "\<forall>ns. nodes_of load t v = Inr ns \<longrightarrow> reparsed load emit (YSeq ns)"
    and "\<forall>(k, x) \<in> set m. castable load emit f t x" and "\<forall>ns. nodes_of load t (map snd m) = Inr ns \<longrightarrow> reparsed load emit (YMap (zip (map fst m) ns))"
    and "sorted_wrt str_less (map fst m)"
  shows "(\<exists>s. vector_to load emit t v = Inr s \<and> vector_from load emit f s = Inr v)
    \<and> (\<exists>s. list_to load emit t v = Inr s \<and> list_from load emit f s = Inr v)
    \<and> (sorted_wrt (\<lambda>a b. lt a b \<and> \<not> lt b a) v \<longrightarrow>
        (\<exists>s. set_cast_to load emit t v = Inr s \<and> set_cast_from lt load emit f s = Inr v))
    \<and> (\<exists>s. unordered_set_to load emit t v = Inr s \<and> unordered_set_from load emit f s = Inr (set v))
    \<and> (\<exists>s. map_cast_to load emit t m = Inr s \<and> map_cast_from load emit f s = Inr m)
    \<and> (\<exists>s. unordered_map_to load emit t m = Inr s \<and> unordered_map_from load emit f s = Inr (map_of m))"
proof -
  obtain s where s: "elements_to load emit t v = Inr s" "elements_from load emit f s = Inr v"
    by (rule elements_roundtrip [OF assms(1,2)])
  have distinct: "distinct (map fst m)" by (rule str_order.sorted_distinct [OF assms(5)])
  obtain u where u: "entries_to load emit t m = Inr u" "entries_from load emit f u = Inr m"
    by (rule entries_roundtrip [OF assms(3) distinct assms(4)])
  have "sorted_wrt key_less m" using assms(5) by (simp add: sorted_wrt_map key_less_def [abs_def])
  moreover have "key_less a b \<Longrightarrow> \<not> key_less b a" for a b :: "str \<times> 'a"
    using str_order.lt_asym by (simp add: key_less_def)
  ultimately have "sorted_wrt (\<lambda>a b. key_less a b \<and> \<not> key_less b a) m"
    by (auto intro: sorted_wrt_mono_rel [rotated])
  then have "foldl (\<lambda>m kx. set_insert key_less kx m) [] m = m" by (rule insert_sorted)
  then show ?thesis
    using s u insert_sorted [of lt v]
    by (simp add: vector_to_def vector_from_def list_to_def list_from_def set_cast_to_def set_cast_from_def
        unordered_set_to_def unordered_set_from_def map_cast_to_def map_cast_from_def unordered_map_to_def
        unordered_map_from_def)
qed

text \<open>A text that stands for a list of one scalar, and one that stands for a map with one.\<close>

definition one_load :: loader where
  "one_load s = Inr (if s = [1] then YSeq [YScalar [7]] else if s = [2] then YMap [([5], YScalar [7])] else YScalar s)"

definition one_emit :: emitter where
  "one_emit n = (case n of YScalar s \<Rightarrow> s | YSeq _ \<Rightarrow> [1] | _ \<Rightarrow> [2])"

theorem containers_read_back_witness:
  "(\<exists>s. set_cast_to one_load one_emit Inr [[7]] = Inr s \<and> set_cast_from str_less one_load one_emit Inr s = Inr [[7]])
   \<and> (\<exists>s. map_cast_to one_load one_emit Inr [([5], [7])] = Inr s \<and> map_cast_from one_load one_emit Inr s = Inr [([5], [7])])"
proof -
  have c: "castable one_load one_emit Inr Inr [7]"
    by (simp add: castable_def one_load_def one_emit_def)
  have n: "nodes_of one_load Inr [[7]] = Inr [YScalar [7]]" by (simp add: nodes_of_def one_load_def)
  have r: "reparsed one_load one_emit (YSeq [YScalar [7]])" "reparsed one_load one_emit (YMap [([5], YScalar [7])])"
    by (simp_all add: reparsed_def one_load_def one_emit_def)
  show ?thesis
    using containers_read_back [of "[[7]]" one_load one_emit Inr Inr "[([5], [7])]" str_less] c n r by simp
qed

end
