(* ===== verification/Env.thy ===== *)
theory Env imports FileUtil begin

text \<open>
  \<open>easy/base/Env.h\<close>, \<open>easy/base/Env.cc\<close>: the program's arguments, help texts and paths. The answer
  of \<open>readlink\<close> and the environment are arguments. The lemmas show which argument vectors \<open>init\<close>
  accepts and what it makes of them.
\<close>

section \<open>State\<close>

record env =
  args :: "str \<Rightarrow> str option"
  helps :: "(str \<times> str) list"
  program :: str
  exe :: str
  cwd :: str

definition new_Env :: env where
  "new_Env = \<lparr>args = (\<lambda>_. None), helps = [], program = [], exe = [], cwd = []\<rparr>"

definition env_add :: "str \<Rightarrow> str \<Rightarrow> env \<Rightarrow> env" where
  "env_add key val w = w\<lparr>args := (args w)(key \<mapsto> val)\<rparr>"

definition env_has :: "str \<Rightarrow> env \<Rightarrow> bool" where
  "env_has key w \<longleftrightarrow> args w key \<noteq> None"

definition env_remove :: "str \<Rightarrow> env \<Rightarrow> env" where
  "env_remove key w = w\<lparr>args := (args w)(key := None)\<rparr>"

definition env_get :: "str \<Rightarrow> str \<Rightarrow> env \<Rightarrow> str" where
  "env_get key dflt w = (case args w key of None \<Rightarrow> dflt | Some v \<Rightarrow> v)"

section \<open>Arguments\<close>

definition dash :: u8 where "dash = 0x2D"

text \<open>The loop over the arguments; \<open>now_key\<close> is the key that has no value yet.\<close>

fun parse_args :: "str option \<Rightarrow> str list \<Rightarrow> env \<Rightarrow> bool \<times> env" where
  "parse_args now_key [] w = (True, case now_key of None \<Rightarrow> w | Some k \<Rightarrow> env_add k [] w)"
| "parse_args now_key (a # as) w =
     (if a \<noteq> [] \<and> hd a = dash
      then (if 1 < length a
            then parse_args (Some (tl a)) as (case now_key of None \<Rightarrow> w | Some k \<Rightarrow> env_add k [] w)
            else (False, w))
      else (case now_key of Some k \<Rightarrow> parse_args None as (env_add k a w) | None \<Rightarrow> (False, w)))"

text \<open>
  \<open>path\<close> is what \<open>readlink\<close> stores in the buffer of 1024 zeros, \<open>None\<close> when it fails: a longer
  one leaves no terminator behind.
\<close>

definition init :: "str option \<Rightarrow> str list \<Rightarrow> env \<Rightarrow> fault + bool \<times> env" where
  "init path argv w =
     (case path of
        None \<Rightarrow> Inr (False, w)
      | Some p \<Rightarrow>
          if 1024 \<le> length (c_str p) then Inl OutOfBounds
          else let e = c_str p;
                   dir = (case rfind e slash of None \<Rightarrow> e | Some k \<Rightarrow> take k e) in
            (case argv of
              [] \<Rightarrow> Inl LogicError
            | a # as \<Rightarrow> Inr (parse_args None as (w\<lparr>exe := e, cwd := dir @ [slash], program := a\<rparr>))))"

section \<open>Help and paths\<close>

definition removeHelp :: "str \<Rightarrow> env \<Rightarrow> env" where
  "removeHelp key w = w\<lparr>helps := filter (\<lambda>(k, d). k \<noteq> key) (helps w)\<rparr>"

definition addHelp :: "str \<Rightarrow> str \<Rightarrow> env \<Rightarrow> env" where
  "addHelp key desc w = (let w1 = removeHelp key w in w1\<lparr>helps := helps w1 @ [(key, desc)]\<rparr>)"

definition printHelp :: "env \<Rightarrow> str" where
  "printHelp w =
     chars ''Usage: '' @ program w @ chars '' [options]'' @ [10]
       @ concat (map (\<lambda>(k, d). chars ''    -'' @ k @ chars '' : '' @ d @ [10]) (helps w))"

text \<open>The environment's variables, and whether \<open>setenv\<close> succeeds.\<close>

definition env_env :: "(str \<Rightarrow> str option) \<Rightarrow> str \<Rightarrow> str \<Rightarrow> str" where
  "env_env getenv key dflt = (case getenv (c_str key) of None \<Rightarrow> dflt | Some v \<Rightarrow> v)"

definition env_setEnv :: "(str \<Rightarrow> str \<Rightarrow> int) \<Rightarrow> str \<Rightarrow> str \<Rightarrow> bool" where
  "env_setEnv setenv key val \<longleftrightarrow> setenv (c_str key) (c_str val) = 0"

definition getAbsolutePath :: "str \<Rightarrow> env \<Rightarrow> str" where
  "getAbsolutePath path w =
     (if path = [] then [slash] else if hd path = slash then path else cwd w @ path)"

text \<open>\<open>work_path\<close> is the variable \<open>server.work_path\<close>, which may not exist.\<close>

definition getAbsoluteWorkPath :: "str option \<Rightarrow> str \<Rightarrow> fault + str" where
  "getAbsoluteWorkPath work_path path =
     (if path = [] then Inr [slash]
      else if hd path = slash then Inr path
      else case work_path of None \<Rightarrow> Inl NullDeref | Some d \<Rightarrow> Inr (d @ [slash] @ path))"

definition getConfigPath :: "env \<Rightarrow> str" where
  "getConfigPath w = getAbsolutePath (env_get (chars ''c'') (chars ''conf'') w) w"

section \<open>Properties\<close>

text \<open>Options as they are meant, and the arguments that write them down.\<close>

type_synonym option_list = "(str \<times> str option) list"

definition render :: "option_list \<Rightarrow> str list" where
  "render os = concat (map (\<lambda>(k, v). (dash # k) # (case v of None \<Rightarrow> [] | Some x \<Rightarrow> [x])) os)"

definition opt_ok :: "str \<times> str option \<Rightarrow> bool" where
  "opt_ok = (\<lambda>(k, v). k \<noteq> [] \<and> (case v of None \<Rightarrow> True | Some x \<Rightarrow> x = [] \<or> hd x \<noteq> dash))"

fun store_options :: "option_list \<Rightarrow> env \<Rightarrow> env" where
  "store_options [] w = w"
| "store_options ((k, v) # os) w = store_options os (env_add k (case v of None \<Rightarrow> [] | Some x \<Rightarrow> x) w)"

lemma render_simps [simp]:
  "render [] = []" "render ((k, None) # os) = (dash # k) # render os"
  "render ((k, Some x) # os) = (dash # k) # x # render os"
  by (simp_all add: render_def)

lemma parse_render:
  assumes "\<forall>opt \<in> set os. opt_ok opt"
  shows "parse_args now_key (render os) w
    = (True, store_options os (case now_key of None \<Rightarrow> w | Some k \<Rightarrow> env_add k [] w))"
  using assms
proof (induction os arbitrary: now_key w)
  case (Cons opt os)
  obtain k v where "opt = (k, v)" by fastforce
  then show ?case using Cons by (cases v) (auto simp: opt_ok_def)
qed simp

text \<open>Only such argument vectors are accepted.\<close>

lemma parse_accepts:
  assumes "fst (parse_args now_key as w)" and "now_key \<noteq> Some []"
  shows "case now_key of
      None \<Rightarrow> \<exists>os. (\<forall>opt \<in> set os. opt_ok opt) \<and> as = render os
    | Some k \<Rightarrow> \<exists>os. (\<forall>opt \<in> set os. opt_ok opt) \<and> (dash # k) # as = render os"
  using assms
proof (induction now_key as w rule: parse_args.induct)
  case (1 now_key w)
  show ?case
  proof (cases now_key)
    case None
    then show ?thesis by (auto intro!: exI [of _ "[] :: option_list"])
  next
    case (Some k)
    then show ?thesis using 1 by (auto simp: opt_ok_def intro!: exI [of _ "[(k, None)]"])
  qed
next
  case (2 now_key a as w)
  show ?case
  proof (cases "a \<noteq> [] \<and> hd a = dash")
    case True
    then have a: "a = dash # tl a" "tl a \<noteq> []" using 2(3) by (cases a; auto split: if_splits)+
    then obtain os where os: "\<forall>opt \<in> set os. opt_ok opt" "a # as = render os"
      using 2(1) [OF True] True 2(3) by (cases a) (auto split: if_splits)
    show ?thesis
    proof (cases now_key)
      case None
      then show ?thesis using os by auto
    next
      case (Some k)
      then show ?thesis using os 2(4) by (auto simp: opt_ok_def intro!: exI [of _ "(k, None) # os"])
    qed
  next
    case False
    then obtain k where k: "now_key = Some k" using 2(3) by (auto split: option.splits)
    then obtain os where "\<forall>opt \<in> set os. opt_ok opt" "as = render os"
      using 2(2) [OF False k] 2(3) False by auto
    then show ?thesis
      using k False 2(4) by (auto simp: opt_ok_def intro!: exI [of _ "(k, Some a) # os"])
  qed
qed

text \<open>
  C40. \<open>Env::init\<close> accepts exactly the argument vectors that write down options \<open>-key\<close> and
  \<open>-key value\<close>, with non-empty keys and no value that starts with a dash, and stores them in order,
  a key without a value with the empty text; so the last value of a repeated key is the one \<open>get\<close>
  returns. Everything else is refused.
\<close>

theorem arguments_roundtrip:
  assumes "c_str path = path" and "length path < 1024"
  shows "(\<forall>os. (\<forall>opt \<in> set os. opt_ok opt) \<longrightarrow> (\<exists>w1. init (Some path) (prog # render os) w = Inr (True, w1)
        \<and> args w1 = args (store_options os w) \<and> program w1 = prog
        \<and> (\<forall>ps k v. os = ps @ [(k, Some v)] \<longrightarrow> env_has k w1 \<and> env_get k d w1 = v)))
    \<and> (\<forall>as w1. init (Some path) (prog # as) w = Inr (True, w1) \<longrightarrow> (\<exists>os. (\<forall>opt \<in> set os. opt_ok opt) \<and> as = render os))"
proof (intro conjI allI impI)
  have args: "args (store_options os u) = args (store_options os v)" if "args u = args v" for os u v
    using that by (induction os arbitrary: u v) (auto simp: env_add_def)
  have prog: "program (store_options os u) = program u" for os u
    by (induction os arbitrary: u) (auto simp: env_add_def)
  have last: "store_options (ps @ [(k, Some v)]) u = env_add k v (store_options ps u)" for ps k v u
    by (induction ps arbitrary: u) auto
  fix os
  let ?w = "w\<lparr>exe := path, cwd := (case rfind path slash of None \<Rightarrow> path | Some k \<Rightarrow> take k path) @ [slash], program := prog\<rparr>"
  assume "\<forall>opt \<in> set os. opt_ok opt"
  then have "init (Some path) (prog # render os) w = Inr (True, store_options os ?w)"
    using assms by (simp add: init_def parse_render)
  moreover have "args (store_options os ?w) = args (store_options os w)" by (rule args) simp
  ultimately show "\<exists>w1. init (Some path) (prog # render os) w = Inr (True, w1)
      \<and> args w1 = args (store_options os w) \<and> program w1 = prog
      \<and> (\<forall>ps k v. os = ps @ [(k, Some v)] \<longrightarrow> env_has k w1 \<and> env_get k d w1 = v)"
    by (auto simp: prog last env_has_def env_get_def env_add_def)
next
  fix as w1
  let ?w = "w\<lparr>exe := path, cwd := (case rfind path slash of None \<Rightarrow> path | Some k \<Rightarrow> take k path) @ [slash], program := prog\<rparr>"
  assume "init (Some path) (prog # as) w = Inr (True, w1)"
  then have "fst (parse_args None as ?w)" using assms by (simp add: init_def)
  then show "\<exists>os. (\<forall>opt \<in> set os. opt_ok opt) \<and> as = render os"
    using parse_accepts [of None as ?w] by simp
qed

theorem arguments_roundtrip_witness:
  "\<exists>w1. init (Some (chars ''/bin/x'')) [chars ''x'', chars ''-d'', chars ''-c'', chars ''conf''] new_Env = Inr (True, w1)
     \<and> env_get (chars ''c'') [] w1 = chars ''conf''"
proof -
  let ?os = "[(chars ''d'', None), (chars ''c'', Some (chars ''conf''))]"
  have p: "c_str (chars ''/bin/x'') = chars ''/bin/x''" "length (chars ''/bin/x'') < 1024"
    by (simp_all add: c_str_def chars_def)
  have ok: "\<forall>opt \<in> set ?os. opt_ok opt" by (simp add: opt_ok_def chars_def dash_def)
  have r: "render ?os = [chars ''-d'', chars ''-c'', chars ''conf'']" by (simp add: chars_def dash_def)
  have "\<exists>w1. init (Some (chars ''/bin/x'')) (chars ''x'' # render ?os) new_Env = Inr (True, w1)
      \<and> args w1 = args (store_options ?os new_Env) \<and> program w1 = chars ''x''
      \<and> (\<forall>ps k v. ?os = ps @ [(k, Some v)] \<longrightarrow> env_has k w1 \<and> env_get k [] w1 = v)"
    by (rule arguments_roundtrip [OF p, THEN conjunct1, rule_format, OF ok [rule_format]])
  then show ?thesis unfolding r by (metis append_Cons append_Nil)
qed

end
