(* ===== verification/Config.thy ===== *)
theory Config imports Yaml Env begin

text \<open>
  \<open>easy/base/Config.h\<close>, \<open>easy/base/Config.cc\<close>: configuration variables with listeners, their
  registry, and loading them from YAML. Variables are shared objects in a store; a value of any type
  is an element of \<open>'v\<close> and its type a name. Listeners, conversions, the parser and the files'
  times are arguments; what is logged is left out. The lemmas show what a listener is told and what
  a loaded document does to every variable.
\<close>

section \<open>Variables\<close>

record 'v config_var =
  v_name :: str
  v_description :: str
  v_type :: str
  v_val :: 'v
  v_cbs :: "(nat \<times> nat) list"

text \<open>\<open>::tolower\<close> in the C locale.\<close>

definition lower :: "str \<Rightarrow> str" where
  "lower = map (\<lambda>c. if 0x41 \<le> c \<and> c \<le> 0x5A then c + 32 else c)"

definition new_ConfigVar :: "str \<Rightarrow> str \<Rightarrow> 'v \<Rightarrow> str \<Rightarrow> 'v config_var" where
  "new_ConfigVar ty name default_value description =
     \<lparr>v_name = lower name, v_description = description, v_type = ty, v_val = default_value, v_cbs = []\<rparr>"

text \<open>
  A listener, named by a number, gets the old and the new value; it changes the state \<open>'s\<close> outside
  and may throw.
\<close>

type_synonym ('v, 's) listener = "nat \<Rightarrow> 'v \<Rightarrow> 'v \<Rightarrow> 's \<Rightarrow> fault option \<times> 's"

fun notify :: "('v, 's) listener \<Rightarrow> nat list \<Rightarrow> 'v \<Rightarrow> 'v \<Rightarrow> 's \<Rightarrow> fault option \<times> 's" where
  "notify call [] a b s = (None, s)"
| "notify call (k # ks) a b s =
     (let (x, s1) = call k a b s in if x = None then notify call ks a b s1 else (x, s1))"

text \<open>
  \<open>setValue\<close>: the listeners run under the read lock, the value is stored under the write lock taken
  after it. \<open>same\<close> is the type's \<open>operator==\<close>.
\<close>

definition setValue ::
    "('v \<Rightarrow> 'v \<Rightarrow> bool) \<Rightarrow> ('v, 's) listener \<Rightarrow> 'v \<Rightarrow> 'v config_var \<Rightarrow> 's \<Rightarrow> fault option \<times> 'v config_var \<times> 's" where
  "setValue same call v x s =
     (if same v (v_val x) then (None, x, s)
      else let (e, s1) = notify call (map snd (v_cbs x)) (v_val x) v s in
        (e, if e = None then x\<lparr>v_val := v\<rparr> else x, s1))"

definition var_toString :: "('v \<Rightarrow> fault + str) \<Rightarrow> 'v config_var \<Rightarrow> str" where
  "var_toString to_str x = (case to_str (v_val x) of Inl e \<Rightarrow> [] | Inr s \<Rightarrow> s)"

text \<open>An exception is caught; the answer is always false.\<close>

definition var_fromString ::
    "('v \<Rightarrow> 'v \<Rightarrow> bool) \<Rightarrow> ('v, 's) listener \<Rightarrow> (str \<Rightarrow> fault + 'v) \<Rightarrow> str \<Rightarrow> 'v config_var \<Rightarrow> 's \<Rightarrow>
     bool \<times> 'v config_var \<times> 's" where
  "var_fromString same call from_str val x s =
     (case from_str val of
        Inl e \<Rightarrow> (False, x, s)
      | Inr v \<Rightarrow> let (e, x1, s1) = setValue same call v x s in (False, x1, s1))"

text \<open>The keys come from a counter shared by all variables of a type.\<close>

definition addListener :: "nat \<Rightarrow> nat \<Rightarrow> 'v config_var \<Rightarrow> nat \<times> nat \<times> 'v config_var" where
  "addListener fun_id f x = (fun_id + 1, fun_id + 1, x\<lparr>v_cbs := v_cbs x @ [(fun_id + 1, f)]\<rparr>)"

definition delListener :: "nat \<Rightarrow> 'v config_var \<Rightarrow> 'v config_var" where
  "delListener key x = x\<lparr>v_cbs := filter (\<lambda>(k, f). k \<noteq> key) (v_cbs x)\<rparr>"

definition linster :: "nat \<Rightarrow> 'v config_var \<Rightarrow> nat option" where
  "linster key x = map_of (v_cbs x) key"

definition clearListener :: "'v config_var \<Rightarrow> 'v config_var" where
  "clearListener x = x\<lparr>v_cbs := []\<rparr>"

section \<open>The registry\<close>

record ('v, 's) config =
  vars :: "nat \<Rightarrow> 'v config_var option"
  registry :: "str \<Rightarrow> nat option"
  file_times :: "str \<Rightarrow> u64"
  outer :: 's

definition name_chars :: str where
  "name_chars = chars ''abcdefghikjlmnopqrstuvwxyz._0123456789''"

definition valid_name :: "str \<Rightarrow> bool" where
  "valid_name name \<longleftrightarrow> (\<forall>c \<in> set name. c \<in> set name_chars)"

definition Config_Lookup :: "str \<Rightarrow> str \<Rightarrow> ('v, 's) config \<Rightarrow> nat option" where
  "Config_Lookup ty name w =
     (case registry w name of
        None \<Rightarrow> None
      | Some p \<Rightarrow> (case vars w p of
            None \<Rightarrow> None | Some x \<Rightarrow> if v_type x = ty then Some p else None))"

definition LookupBase :: "str \<Rightarrow> ('v, 's) config \<Rightarrow> nat option" where
  "LookupBase name w = registry w name"

text \<open>\<open>Config::Lookup\<close> with a default value; a new variable is at the address \<open>p\<close>.\<close>

definition Lookup_default ::
    "nat \<Rightarrow> str \<Rightarrow> str \<Rightarrow> 'v \<Rightarrow> str \<Rightarrow> ('v, 's) config \<Rightarrow> fault + nat option \<times> ('v, 's) config" where
  "Lookup_default p ty name default_value description w =
     (if LookupBase name w \<noteq> None \<and> Config_Lookup ty name w = None then Inr (None, w)
      else if \<not> valid_name name then Inl InvalidArgument
      else Inr (Some p, w\<lparr>vars := (vars w)(p \<mapsto> new_ConfigVar ty name default_value description),
                          registry := (registry w)(name \<mapsto> p)\<rparr>))"

text \<open>\<open>Visit\<close> calls back with every variable, in the order of the hash map.\<close>

definition Visit :: "(nat \<Rightarrow> 's \<Rightarrow> 's) \<Rightarrow> str list \<Rightarrow> ('v, 's) config \<Rightarrow> ('v, 's) config" where
  "Visit f order w =
     foldl (\<lambda>w name. case registry w name of None \<Rightarrow> w | Some p \<Rightarrow> w\<lparr>outer := f p (outer w)\<rparr>) w order"

section \<open>Loading\<close>

definition join_key :: "str \<Rightarrow> str \<Rightarrow> str" where
  "join_key pre k = (if pre = [] then k else pre @ chars ''.'' @ k)"

fun ListAllMember :: "str \<Rightarrow> yaml \<Rightarrow> (str \<times> yaml) list" where
  "ListAllMember pre (YMap kvs) =
     (if \<not> valid_name pre then []
      else (pre, YMap kvs) # concat (map (\<lambda>(k, n). ListAllMember (join_key pre k) n) kvs))"
| "ListAllMember pre n = (if \<not> valid_name pre then [] else [(pre, n)])"

text \<open>The text a variable is set from.\<close>

definition node_text :: "emitter \<Rightarrow> yaml \<Rightarrow> str" where
  "node_text emit n = (case n of YScalar s \<Rightarrow> s | _ \<Rightarrow> emit n)"

text \<open>\<open>cast ty\<close> converts a text to type \<open>ty\<close>, \<open>same ty\<close> compares its values.\<close>

definition load_member ::
    "(str \<Rightarrow> 'v \<Rightarrow> 'v \<Rightarrow> bool) \<Rightarrow> ('v, 's) listener \<Rightarrow> (str \<Rightarrow> str \<Rightarrow> fault + 'v) \<Rightarrow> emitter \<Rightarrow> str \<times> yaml \<Rightarrow> ('v, 's) config \<Rightarrow>
     ('v, 's) config" where
  "load_member same call cast emit kn w =
     (let key = fst kn in
      if key = [] then w
      else case LookupBase (lower key) w of
          None \<Rightarrow> w
        | Some p \<Rightarrow> (case vars w p of
              None \<Rightarrow> w
            | Some x \<Rightarrow>
                let (_, x1, s1) = var_fromString (same (v_type x)) call (cast (v_type x)) (node_text emit (snd kn)) x (outer w) in
                w\<lparr>vars := (vars w)(p \<mapsto> x1), outer := s1\<rparr>))"

definition LoadFromYaml ::
    "(str \<Rightarrow> 'v \<Rightarrow> 'v \<Rightarrow> bool) \<Rightarrow> ('v, 's) listener \<Rightarrow> (str \<Rightarrow> str \<Rightarrow> fault + 'v) \<Rightarrow> emitter \<Rightarrow> yaml \<Rightarrow> ('v, 's) config \<Rightarrow> ('v, 's) config" where
  "LoadFromYaml same call cast emit root w = foldl (\<lambda>w kn. load_member same call cast emit kn w) w (ListAllMember [] root)"

text \<open>One file: its time is looked at, remembered, and the file loaded; \<open>None\<close> is an exception.\<close>

definition load_file ::
    "(str \<Rightarrow> 'v \<Rightarrow> 'v \<Rightarrow> bool) \<Rightarrow> ('v, 's) listener \<Rightarrow> (str \<Rightarrow> str \<Rightarrow> fault + 'v) \<Rightarrow> emitter \<Rightarrow> (str \<Rightarrow> u64) \<Rightarrow> (str \<Rightarrow> yaml option) \<Rightarrow> bool \<Rightarrow>
     str \<Rightarrow> ('v, 's) config \<Rightarrow> ('v, 's) config" where
  "load_file same call cast emit mtime parse force name w =
     (if \<not> force \<and> file_times w name = mtime name then w
      else let w1 = w\<lparr>file_times := (file_times w)(name := mtime name)\<rparr> in
        (case parse name of None \<Rightarrow> w1 | Some r \<Rightarrow> LoadFromYaml same call cast emit r w1))"

definition LoadFromConfDir ::
    "(str \<Rightarrow> 'v \<Rightarrow> 'v \<Rightarrow> bool) \<Rightarrow> ('v, 's) listener \<Rightarrow> (str \<Rightarrow> str \<Rightarrow> fault + 'v) \<Rightarrow> emitter \<Rightarrow> (str \<Rightarrow> u64) \<Rightarrow> (str \<Rightarrow> yaml option) \<Rightarrow>
     (str \<Rightarrow> dirent list option) \<Rightarrow> env \<Rightarrow> bool \<Rightarrow> str \<Rightarrow> ('v, 's) config \<Rightarrow> ('v, 's) config" where
  "LoadFromConfDir same call cast emit mtime parse dir e force path w =
     (let absoulte_path = getAbsolutePath path e;
          files = ListAllFile [] absoulte_path (chars ''.yml'') (dir absoulte_path) in
      foldl (\<lambda>w name. load_file same call cast emit mtime parse force name w) w files)"

section \<open>Lemmas\<close>

lemma lower_valid:
  assumes "valid_name name"
  shows "lower name = name"
proof -
  have "\<forall>c \<in> set name_chars. \<not> (0x41 \<le> c \<and> c \<le> 0x5A)" by (simp add: name_chars_def chars_def)
  then have "\<not> (0x41 \<le> c \<and> c \<le> 0x5A)" if "c \<in> set name" for c
    using that assms by (auto simp: valid_name_def)
  then show ?thesis by (auto simp: lower_def intro!: map_idI)
qed

lemma ListAllMember_valid: "(k, n) \<in> set (ListAllMember pre node) \<Longrightarrow> valid_name k"
  by (induction pre node rule: ListAllMember.induct) (fastforce split: if_splits)+

text \<open>Every registered name has a variable, and no two the same.\<close>

definition config_ok :: "('v, 's) config \<Rightarrow> bool" where
  "config_ok w \<longleftrightarrow> (\<forall>name p. registry w name = Some p \<longrightarrow> vars w p \<noteq> None)
     \<and> (\<forall>m n p. registry w m = Some p \<and> registry w n = Some p \<longrightarrow> m = n)"

text \<open>What a text makes of a value, and the texts a document has for a name, in order.\<close>

definition converted :: "('v \<Rightarrow> 'v \<Rightarrow> bool) \<Rightarrow> (str \<Rightarrow> fault + 'v) \<Rightarrow> 'v \<Rightarrow> str \<Rightarrow> 'v" where
  "converted same from_str v s = (case from_str s of Inl e \<Rightarrow> v | Inr x \<Rightarrow> if same x v then v else x)"

text \<open>All nodes of a document with the keys that lead to them, a map before what is in it.\<close>

fun entries :: "yaml \<Rightarrow> (str list \<times> yaml) list" where
  "entries (YMap kvs) = ([], YMap kvs) # concat (map (\<lambda>(k, n). map (\<lambda>(ks, m). (k # ks, m)) (entries n)) kvs)"
| "entries n = [([], n)]"

text \<open>The name keys make: a dot between any two, but empty ones at the front leave no trace.\<close>

fun dots :: "str list \<Rightarrow> str" where
  "dots [] = []"
| "dots [k] = k"
| "dots (k # l # ks) = k @ [0x2E] @ dots (l # ks)"

definition dotted :: "str list \<Rightarrow> str" where
  "dotted ks = dots (dropWhile (\<lambda>k. k = []) ks)"

text \<open>Lower case letters, digits, dots and underscores.\<close>

definition plain :: "str \<Rightarrow> bool" where
  "plain name \<longleftrightarrow> (\<forall>c \<in> set name. 0x61 \<le> c \<and> c \<le> 0x7A \<or> 0x30 \<le> c \<and> c \<le> 0x39 \<or> c = 0x2E \<or> c = 0x5F)"

definition texts_for :: "emitter \<Rightarrow> yaml \<Rightarrow> str \<Rightarrow> str list" where
  "texts_for emit doc name =
     (if plain name then map (\<lambda>(ks, n). case n of YScalar s \<Rightarrow> s | _ \<Rightarrow> emit n) (filter (\<lambda>(ks, n). dotted ks = name) (entries doc))
      else [])"

text \<open>The walk through the document finds exactly the entries with plain names.\<close>

lemma valid_plain: "valid_name name = plain name"
proof -
  have "(c \<in> set name_chars) = (0x61 \<le> c \<and> c \<le> 0x7A \<or> 0x30 \<le> c \<and> c \<le> 0x39 \<or> c = 0x2E \<or> c = 0x5F)" for c :: u8
  proof
    show "0x61 \<le> c \<and> c \<le> 0x7A \<or> 0x30 \<le> c \<and> c \<le> 0x39 \<or> c = 0x2E \<or> c = 0x5F" if "c \<in> set name_chars"
      using that by (auto simp: name_chars_def chars_def)
    have all: "\<forall>n \<in> set ([97..<123] @ [48..<58] @ [46, 95]). (of_nat n :: u8) \<in> set name_chars"
      by (simp add: name_chars_def chars_def)
    assume "0x61 \<le> c \<and> c \<le> 0x7A \<or> 0x30 \<le> c \<and> c \<le> 0x39 \<or> c = 0x2E \<or> c = 0x5F"
    then have "97 \<le> unat c \<and> unat c < 123 \<or> 48 \<le> unat c \<and> unat c < 58 \<or> unat c = 46 \<or> unat c = 95"
      by (auto simp: word_le_nat_alt)
    then have "unat c \<in> set ([97..<123] @ [48..<58] @ [46, 95])"
      unfolding set_append set_upt Un_iff atLeastLessThan_iff by simp
    then have "(of_nat (unat c) :: u8) \<in> set name_chars" using all by blast
    then show "c \<in> set name_chars" by simp
  qed
  then show ?thesis by (simp add: valid_name_def plain_def)
qed

lemma foldl_join: "p \<noteq> [] \<Longrightarrow> foldl join_key p ks = dots (p # ks)"
proof (induction ks arbitrary: p)
  case (Cons k ks)
  have "dots ((p @ [0x2E] @ k) # ks) = p @ [0x2E] @ dots (k # ks)" by (cases ks) simp_all
  then show ?case using Cons by (simp add: join_key_def chars_def)
qed simp

lemma join_key_nil: "join_key [] k = k"
  by (simp add: join_key_def)

lemma dotted_foldl: "dotted ks = foldl join_key [] ks"
proof (induction ks)
  case (Cons k ks)
  then show ?case by (cases "k = []") (simp_all add: dotted_def join_key_nil foldl_join)
qed (simp add: dotted_def)

lemma plain_foldl: "plain (foldl join_key p ks) \<Longrightarrow> plain p"
proof (induction ks arbitrary: p)
  case (Cons k ks)
  then have "plain (join_key p k)" by simp
  then show ?case by (auto simp: join_key_def plain_def split: if_splits)
qed simp

lemma ListAllMember_entries:
  "ListAllMember pre doc = filter (\<lambda>kn. plain (fst kn)) (map (\<lambda>e. (foldl join_key pre (fst e), snd e)) (entries doc))"
proof (induction pre doc rule: ListAllMember.induct)
  case (1 pre kvs)
  show ?case
  proof (cases "plain pre")
    case False
    then have "\<not> plain (foldl join_key pre ks)" for ks using plain_foldl by blast
    then show ?thesis using False by (simp add: valid_plain)
  next
    case True
    have "ListAllMember (join_key pre (fst kn)) (snd kn)
        = filter (\<lambda>kn. plain (fst kn)) (map (\<lambda>e. (foldl join_key (join_key pre (fst kn)) (fst e), snd e)) (entries (snd kn)))"
      if "kn \<in> set kvs" for kn
      using 1 [OF _ that, of "fst kn" "snd kn"] True by (simp add: valid_plain)
    then show ?thesis
      using True by (auto simp: valid_plain filter_concat map_concat comp_def case_prod_beta' intro!: arg_cong [where f = concat])
  qed
qed (simp_all add: valid_plain)

lemma texts_for_walk:
  "texts_for emit doc name = map (node_text emit \<circ> snd) (filter (\<lambda>kn. fst kn = name) (ListAllMember [] doc))"
proof -
  have shown: "(\<lambda>(ks, n). case n of YScalar s \<Rightarrow> s | _ \<Rightarrow> emit n) = node_text emit \<circ> snd"
    by (simp add: fun_eq_iff node_text_def split: yaml.splits)
  have "filter (\<lambda>kn. fst kn = name) (ListAllMember [] doc)
      = map (\<lambda>e. (name, snd e)) (filter (\<lambda>e. plain name \<and> dotted (fst e) = name) (entries doc))"
  proof -
    have "filter (\<lambda>kn. fst kn = name) (ListAllMember [] doc) = map (\<lambda>e. (foldl join_key [] (fst e), snd e)) (filter (\<lambda>e. plain name \<and> dotted (fst e) = name) (entries doc))"
      unfolding ListAllMember_entries filter_map filter_filter
      by (intro arg_cong [where f = "map _"] filter_cong) (auto simp: dotted_foldl)
    also have "\<dots> = map (\<lambda>e. (name, snd e)) (filter (\<lambda>e. plain name \<and> dotted (fst e) = name) (entries doc))" by (intro map_cong) (auto simp: dotted_foldl)
    finally show ?thesis .
  qed
  then show ?thesis by (simp add: texts_for_def shown comp_def case_prod_beta')
qed

lemma notify_quiet:
  assumes "\<forall>k a b s. fst (call k a b s) = None"
  shows "fst (notify call ks a b s) = None"
  using assms
proof (induction ks arbitrary: s)
  case (Cons k ks)
  have "fst (call k a b s) = None" using assms by blast
  then show ?case using Cons by (cases "call k a b s") simp
qed simp

lemma fromString_value:
  assumes "\<forall>k a b s. fst (call k a b s) = None" and "var_fromString same call f s x u = (r, x1, u1)"
  shows "x1 = x\<lparr>v_val := converted same f (v_val x) s\<rparr>" and "\<not> r"
proof -
  have "x1 = x\<lparr>v_val := converted same f (v_val x) s\<rparr> \<and> \<not> r"
  proof (cases "f s")
    case (Inr v)
    obtain e s1 where n: "notify call (map snd (v_cbs x)) (v_val x) v u = (e, s1)" by fastforce
    then have "e = None" using notify_quiet [OF assms(1)] by (metis fst_conv)
    then show ?thesis
      using Inr n assms(2) by (auto simp: var_fromString_def setValue_def converted_def split: if_splits)
  qed (use assms(2) in \<open>auto simp: var_fromString_def converted_def\<close>)
  then show "x1 = x\<lparr>v_val := converted same f (v_val x) s\<rparr>" "\<not> r" by simp_all
qed

lemma load_member_value:
  fixes same :: "str \<Rightarrow> 'v \<Rightarrow> 'v \<Rightarrow> bool" and cast :: "str \<Rightarrow> str \<Rightarrow> fault + 'v" and emit :: emitter and n :: yaml
  assumes "\<forall>k a b s. fst (call k a b s) = None" and "config_ok w" and "valid_name k"
  defines "w1 \<equiv> load_member same call cast emit (k, n) w"
  shows "config_ok w1" and "registry w1 = registry w"
    and "vars w1 p = (if k \<noteq> [] \<and> registry w k = Some p
      then map_option (\<lambda>x. x\<lparr>v_val := converted (same (v_type x)) (cast (v_type x)) (v_val x) (node_text emit n)\<rparr>) (vars w p)
      else vars w p)"
proof -
  have k: "lower k = k" using assms(3) by (rule lower_valid)
  have "registry w1 = registry w \<and> (\<forall>p. vars w1 p = (if k \<noteq> [] \<and> registry w k = Some p
      then map_option (\<lambda>x. x\<lparr>v_val := converted (same (v_type x)) (cast (v_type x)) (v_val x) (node_text emit n)\<rparr>) (vars w p)
      else vars w p))"
  proof (cases "k = [] \<or> registry w k = None")
    case True
    then show ?thesis by (auto simp: w1_def load_member_def LookupBase_def k)
  next
    case False
    then obtain q where q1: "k \<noteq> []" "registry w k = Some q" by auto
    moreover obtain x where "vars w q = Some x" using assms(2) q1(2) unfolding config_ok_def by blast
    ultimately have q: "k \<noteq> []" "registry w k = Some q" "vars w q = Some x" by simp_all
    obtain r x1 s1 where f: "var_fromString (same (v_type x)) call (cast (v_type x)) (node_text emit n) x (outer w) = (r, x1, s1)"
      by (metis prod_cases3)
    then show ?thesis
      using q fromString_value(1) [OF assms(1) f] by (simp add: w1_def load_member_def LookupBase_def k)
  qed
  then show "registry w1 = registry w"
      "vars w1 p = (if k \<noteq> [] \<and> registry w k = Some p
        then map_option (\<lambda>x. x\<lparr>v_val := converted (same (v_type x)) (cast (v_type x)) (v_val x) (node_text emit n)\<rparr>) (vars w p)
        else vars w p)"
      "config_ok w1"
    using assms(2) unfolding config_ok_def by auto
qed

section \<open>Properties\<close>

text \<open>
  C28. A loaded document sets each variable from the document's entries for its name: with listeners
  that do not throw, the value of a registered variable is converted in turn from the text of each node, at any depth and in the order of the
  document, whose keys joined by dots are its name, a text that does not convert leaving it as it is, and no other
  variable changes. Only names of lower case letters, digits, dots and underscores are entries, so a key written with a capital is dropped
  with everything below it and never reaches the lowering of keys.
\<close>

theorem document_sets_variables:
  fixes same :: "str \<Rightarrow> 'v \<Rightarrow> 'v \<Rightarrow> bool" and cast :: "str \<Rightarrow> str \<Rightarrow> fault + 'v" and emit :: emitter and doc :: yaml
  assumes "\<forall>k a b s. fst (call k a b s) = None" and "config_ok w" and "registry w name = Some p" and "name \<noteq> []"
    and "vars w p = Some x"
  defines "w1 \<equiv> LoadFromYaml same call cast emit doc w"
  shows "vars w1 p = Some (x\<lparr>v_val := foldl (converted (same (v_type x)) (cast (v_type x))) (v_val x) (texts_for emit doc name)\<rparr>)
    \<and> registry w1 = registry w \<and> (\<forall>q. (\<forall>n. registry w n = Some q \<longrightarrow> n = []) \<longrightarrow> vars w1 q = vars w q)
    \<and> (\<forall>(k, n) \<in> set (ListAllMember [] doc). lower k = k)"
proof -
  have keys: "\<forall>(k, n) \<in> set (ListAllMember [] doc). valid_name k" using ListAllMember_valid by auto
  have "vars (foldl (\<lambda>w kn. load_member same call cast emit kn w) u ms) p
        = Some (y\<lparr>v_val := foldl (converted (same (v_type y)) (cast (v_type y))) (v_val y)
            (map (node_text emit \<circ> snd) (filter (\<lambda>kn. fst kn = name) ms))\<rparr>)
      \<and> registry (foldl (\<lambda>w kn. load_member same call cast emit kn w) u ms) = registry u
      \<and> (\<forall>q. (\<forall>n. registry u n = Some q \<longrightarrow> n = []) \<longrightarrow>
           vars (foldl (\<lambda>w kn. load_member same call cast emit kn w) u ms) q = vars u q)"
    if "\<forall>(k, n) \<in> set ms. valid_name k" "config_ok u" "registry u name = Some p" "vars u p = Some y" for ms u y
    using that
  proof (induction ms arbitrary: u y)
    case (Cons m ms)
    obtain k n where m: "m = (k, n)" by fastforce
    have k: "valid_name k" using Cons.prems(1) m by simp
    let ?u = "load_member same call cast emit (k, n) u"
    note one = load_member_value [OF assms(1) Cons.prems(2) k, of same cast emit n]
    have same: "registry u k = Some p \<longleftrightarrow> k = name"
      using Cons.prems(2,3) by (auto simp: config_ok_def)
    let ?y = "if k = name then y\<lparr>v_val := converted (same (v_type y)) (cast (v_type y)) (v_val y) (node_text emit n)\<rparr> else y"
    have "vars ?u p = Some ?y" using one(3) same Cons.prems(4) assms(4) by auto
    moreover have "registry ?u name = Some p" "\<forall>(k, n) \<in> set ms. valid_name k"
      using one(2) Cons.prems(1,3) by auto
    ultimately have IH: "vars (foldl (\<lambda>w kn. load_member same call cast emit kn w) ?u ms) p
          = Some (?y\<lparr>v_val := foldl (converted (same (v_type ?y)) (cast (v_type ?y))) (v_val ?y)
              (map (node_text emit \<circ> snd) (filter (\<lambda>kn. fst kn = name) ms))\<rparr>)
        \<and> registry (foldl (\<lambda>w kn. load_member same call cast emit kn w) ?u ms) = registry ?u
        \<and> (\<forall>q. (\<forall>n. registry ?u n = Some q \<longrightarrow> n = []) \<longrightarrow>
             vars (foldl (\<lambda>w kn. load_member same call cast emit kn w) ?u ms) q = vars ?u q)"
      using Cons.IH [of ?u ?y] one(1) by blast
    have keep: "vars ?u q = vars u q" if "\<forall>n. registry u n = Some q \<longrightarrow> n = []" for q
      using one(3) [of q] that by auto
    show ?case
    proof (intro conjI allI impI)
      fix q
      assume q: "\<forall>n. registry u n = Some q \<longrightarrow> n = []"
      then show "vars (foldl (\<lambda>w kn. load_member same call cast emit kn w) u (m # ms)) q = vars u q"
        using IH one(2) keep [OF q] by (simp add: m)
    next
      show "vars (foldl (\<lambda>w kn. load_member same call cast emit kn w) u (m # ms)) p
          = Some (y\<lparr>v_val := foldl (converted (same (v_type y)) (cast (v_type y))) (v_val y)
              (map (node_text emit \<circ> snd) (filter (\<lambda>kn. fst kn = name) (m # ms)))\<rparr>)"
        using conjunct1 [OF IH] by (cases "k = name") (simp_all add: m)
    next
      show "registry (foldl (\<lambda>w kn. load_member same call cast emit kn w) u (m # ms)) = registry u"
        using IH one(2) by (simp add: m)
    qed
  qed simp
  from this [OF keys assms(2,3,5)] show ?thesis
    using keys lower_valid unfolding w1_def LoadFromYaml_def texts_for_walk by auto
qed

theorem document_sets_variables_witness:
  "vars (LoadFromYaml (\<lambda>_ a b. a = b) (\<lambda>k a b s. (None, s)) (\<lambda>ty s. Inr s) one_emit
       (YMap [(chars ''tcp'', YMap [(chars ''port'', YScalar [5])])])
       \<lparr>vars = [1 \<mapsto> new_ConfigVar [] (chars ''tcp.port'') [] []], registry = [chars ''tcp.port'' \<mapsto> 1],
        file_times = (\<lambda>_. 0), outer = ()\<rparr>) 1
     = Some ((new_ConfigVar [] (chars ''tcp.port'') [] [])\<lparr>v_val := [5]\<rparr>)"
proof -
  let ?x = "new_ConfigVar [] (chars ''tcp.port'') [] [] :: str config_var"
  let ?w = "\<lparr>vars = [1 \<mapsto> ?x], registry = [chars ''tcp.port'' \<mapsto> 1], file_times = (\<lambda>_. 0), outer = ()\<rparr>"
  let ?doc = "YMap [(chars ''tcp'', YMap [(chars ''port'', YScalar [5])])]"
  have "config_ok ?w" by (auto simp: config_ok_def split: if_splits)
  moreover have "texts_for one_emit ?doc (chars ''tcp.port'') = [[5]]" by code_simp
  moreover have "chars ''tcp.port'' \<noteq> []" by (simp add: chars_def)
  ultimately show ?thesis
    using document_sets_variables [of "\<lambda>k a b s. (None, s)" ?w "chars ''tcp.port''" 1 ?x "\<lambda>_ a b. a = b" "\<lambda>ty s. Inr s" one_emit ?doc]
    by (simp add: new_ConfigVar_def converted_def)
qed

text \<open>
  C29. A change of value is told to every listener of the variable once, in the order they were
  added, with the old and the new value, before it is made; a value that compares equal to the old one tells
  nobody, and when a listener throws the rest is not called and the value stays. \<open>Lookup\<close> with a
  default for a name that exists makes a new variable in its place, so the listeners and the
  holders of the old one are cut off from what is loaded afterwards.
\<close>

theorem listeners_and_lookup:
  assumes "\<forall>k s. call k a v s = (if k = bad then Some LogicError else None, s @ [(k, a, v)])" and "v_val x = a"
  shows "setValue same call v x s =
      (if same v a then (None, x, s)
       else if bad \<in> snd ` set (v_cbs x)
       then (Some LogicError, x, s @ map (\<lambda>k. (k, a, v)) (takeWhile (\<lambda>k. k \<noteq> bad) (map snd (v_cbs x))) @ [(bad, a, v)])
       else (None, x\<lparr>v_val := v\<rparr>, s @ map (\<lambda>k. (k, a, v)) (map snd (v_cbs x))))
    \<and> (registry w name = Some q \<and> vars w q = Some y \<and> v_type y = ty \<and> valid_name name \<and> p \<noteq> q \<longrightarrow>
        (\<exists>w1. Lookup_default p ty name d desc w = Inr (Some p, w1) \<and> vars w1 q = Some y
           \<and> LookupBase name w1 = Some p \<and> vars w1 p = Some (new_ConfigVar ty name d desc)))"
proof
  have "notify call ks a v s =
      (if bad \<in> set ks then (Some LogicError, s @ map (\<lambda>k. (k, a, v)) (takeWhile (\<lambda>k. k \<noteq> bad) ks) @ [(bad, a, v)])
       else (None, s @ map (\<lambda>k. (k, a, v)) ks))" for ks s
    using assms(1) by (induction ks arbitrary: s) auto
  then show "setValue same call v x s =
      (if same v a then (None, x, s)
       else if bad \<in> snd ` set (v_cbs x)
       then (Some LogicError, x, s @ map (\<lambda>k. (k, a, v)) (takeWhile (\<lambda>k. k \<noteq> bad) (map snd (v_cbs x))) @ [(bad, a, v)])
       else (None, x\<lparr>v_val := v\<rparr>, s @ map (\<lambda>k. (k, a, v)) (map snd (v_cbs x))))"
    using assms(2) by (simp add: setValue_def)
qed (auto simp: Lookup_default_def LookupBase_def Config_Lookup_def)

theorem listeners_and_lookup_witness:
  "setValue (=) (\<lambda>k a b s. (if k = 9 then Some LogicError else None, s @ [(k, a, b)])) (2 :: u64)
      ((new_ConfigVar [] [] 1 [])\<lparr>v_cbs := [(1, 5), (2, 6)]\<rparr>) []
    = (None, (new_ConfigVar [] [] 2 [])\<lparr>v_cbs := [(1, 5), (2, 6)]\<rparr>, [(5, 1, 2), (6, 1, 2)])"
  using listeners_and_lookup [of "\<lambda>k a b s. (if k = 9 then Some LogicError else None, s @ [(k, a, b)])" 1 "2 :: u64" 9
      "(new_ConfigVar [] [] 1 [])\<lparr>v_cbs := [(1, 5), (2, 6)]\<rparr>" "(=)" "[]", THEN conjunct1]
  by (simp add: new_ConfigVar_def)

end
