(* ===== verification/LogConfig.thy ===== *)
theory LogConfig imports LogDispatch Config begin

text \<open>
  The logging configuration of \<open>easy/base/Logger.cc\<close>: definitions of loggers as they stand in a YAML
  document, their printing, and the listener that carries a change of the variable \<open>logs\<close> over to the
  loggers. What the conversions report on \<open>std::cout\<close> is left out. The lemmas show what survives
  printing and reading, and what the listener makes of the loggers.
\<close>

section \<open>Definitions of loggers\<close>

record appender_define =
  ad_type :: int
  ad_level :: log_level
  ad_formatter :: str
  ad_file :: str

record log_define =
  ld_name :: str
  ld_level :: log_level
  ld_formatter :: str
  ld_appenders :: "appender_define list"

definition new_appender_define :: appender_define where
  "new_appender_define = \<lparr>ad_type = 0, ad_level = OFF, ad_formatter = [], ad_file = []\<rparr>"

definition appender_define_eq :: "appender_define \<Rightarrow> appender_define \<Rightarrow> bool" where
  "appender_define_eq a b \<longleftrightarrow> ad_type a = ad_type b \<and> ad_level a = ad_level b \<and> ad_formatter a = ad_formatter b
     \<and> ad_file a = ad_file b"

text \<open>The appenders of the left side are compared with themselves.\<close>

definition log_define_eq :: "log_define \<Rightarrow> log_define \<Rightarrow> bool" where
  "log_define_eq a b \<longleftrightarrow> ld_name a = ld_name b \<and> ld_level a = ld_level b \<and> ld_formatter a = ld_formatter b
     \<and> list_all2 appender_define_eq (ld_appenders a) (ld_appenders a)"

definition log_define_less :: "log_define \<Rightarrow> log_define \<Rightarrow> bool" where
  "log_define_less a b = str_less (ld_name a) (ld_name b)"

definition isValid :: "log_define \<Rightarrow> bool" where
  "isValid d \<longleftrightarrow> ld_name d \<noteq> []"

section \<open>Reading and printing\<close>

text \<open>\<open>n[key]\<close> as a string, when it is defined.\<close>

definition yaml_text :: "str \<Rightarrow> yaml \<Rightarrow> fault + str option" where
  "yaml_text key n =
     bindE (yaml_get key n) (\<lambda>m. if m = YUndefined then Inr None else bindE (yaml_string m) (\<lambda>s. Inr (Some s)))"

definition text_or :: "str \<Rightarrow> str option \<Rightarrow> str" where
  "text_or s x = (case x of None \<Rightarrow> s | Some t \<Rightarrow> t)"

definition kFile :: str where "kFile = chars ''FileLogAppender''"
definition kConsole :: str where "kConsole = chars ''ConsoleLogAppender''"

text \<open>One entry of \<open>appenders\<close>; \<open>None\<close> is one that is reported and skipped.\<close>

definition read_appender :: "yaml \<Rightarrow> fault + appender_define option" where
  "read_appender a =
     bindE (yaml_text (chars ''type'') a) (\<lambda>ty. case ty of
         None \<Rightarrow> Inr None
       | Some ty \<Rightarrow>
           if ty = kFile then
             bindE (yaml_text (chars ''file'') a) (\<lambda>f. case f of
                 None \<Rightarrow> Inr None
               | Some f \<Rightarrow> bindE (yaml_text (chars ''formatter'') a) (\<lambda>p.
                   Inr (Some (new_appender_define\<lparr>ad_type := 1, ad_file := f, ad_formatter := text_or [] p\<rparr>))))
           else if ty = kConsole then
             bindE (yaml_text (chars ''formatter'') a) (\<lambda>p.
               Inr (Some (new_appender_define\<lparr>ad_type := 2, ad_formatter := text_or [] p\<rparr>)))
           else Inr None)"

definition read_define :: "yaml \<Rightarrow> fault + log_define" where
  "read_define n =
     bindE (yaml_get (chars ''name'') n) (\<lambda>nm. if nm = YUndefined then Inl LogicError else
     bindE (yaml_string nm) (\<lambda>name.
     bindE (yaml_text (chars ''level'') n) (\<lambda>lv.
     bindE (yaml_text (chars ''formatter'') n) (\<lambda>p.
     bindE (yaml_get (chars ''appenders'') n) (\<lambda>as.
     bindE (mapE (\<lambda>i. read_appender (yaml_at as i)) [0..<yaml_size as]) (\<lambda>xs.
       Inr \<lparr>ld_name = name, ld_level = level_fromString (text_or [] lv), ld_formatter = text_or [] p,
            ld_appenders = map the (filter (\<lambda>x. x \<noteq> None) xs)\<rparr>))))))"

definition LogDefine_from :: "loader \<Rightarrow> str \<Rightarrow> fault + log_define" where
  "LogDefine_from load v = bindE (load v) read_define"

text \<open>Assigning \<open>n[key]\<close> when the condition holds; a node nothing is stored in stays null.\<close>

definition put_if :: "bool \<Rightarrow> str \<Rightarrow> str \<Rightarrow> (str \<times> yaml) list \<Rightarrow> (str \<times> yaml) list" where
  "put_if b key s kvs = (if b then yaml_put key (YScalar s) kvs else kvs)"

definition map_node :: "(str \<times> yaml) list \<Rightarrow> yaml" where
  "map_node kvs = (if kvs = [] then YNull else YMap kvs)"

definition appender_define_node :: "appender_define \<Rightarrow> yaml" where
  "appender_define_node a = map_node
     (put_if (ad_formatter a \<noteq> []) (chars ''formatter'') (ad_formatter a)
     (put_if (ad_level a \<noteq> OFF) (chars ''level'') (level_toString (ad_level a))
     (put_if (ad_type a = 2) (chars ''type'') kConsole
     (put_if (ad_type a = 1) (chars ''file'') (ad_file a)
     (put_if (ad_type a = 1) (chars ''type'') kFile [])))))"

definition with_appenders :: "yaml list \<Rightarrow> (str \<times> yaml) list \<Rightarrow> yaml" where
  "with_appenders ns kvs = map_node (if ns = [] then kvs else yaml_put (chars ''appenders'') (YSeq ns) kvs)"

definition define_node :: "log_define \<Rightarrow> yaml" where
  "define_node d = with_appenders (map appender_define_node (ld_appenders d))
     (put_if (ld_formatter d \<noteq> []) (chars ''formatter'') (ld_formatter d)
     (put_if (ld_level d \<noteq> OFF) (chars ''level'') (level_toString (ld_level d))
     (put_if True (chars ''name'') (ld_name d) [])))"

definition LogDefine_to :: "emitter \<Rightarrow> log_define \<Rightarrow> fault + str" where
  "LogDefine_to emit d = Inr (emit (define_node d))"

text \<open>\<open>toYamlString\<close> of an appender, a logger and the manager, which goes through \<open>loggers_\<close> in order.\<close>

definition put_layout :: "appender \<Rightarrow> (str \<times> yaml) list \<Rightarrow> (str \<times> yaml) list" where
  "put_layout a kvs =
     put_if (hasFormatter a \<and> a_formatter a \<noteq> None) (chars ''formatter'')
       (case a_formatter a of None \<Rightarrow> [] | Some f \<Rightarrow> f_pattern f)
     (put_if (a_level a \<noteq> OFF) (chars ''level'') (level_toString (a_level a)) kvs)"

definition console_toYamlString :: "emitter \<Rightarrow> appender \<Rightarrow> str" where
  "console_toYamlString emit a = emit (map_node (put_layout a (put_if True (chars ''type'') kConsole [])))"

definition file_toYamlString :: "emitter \<Rightarrow> str \<Rightarrow> appender \<Rightarrow> str" where
  "file_toYamlString emit name a =
     emit (map_node (put_layout a (put_if True (chars ''file'') name (put_if True (chars ''type'') kFile []))))"

definition appender_toYamlString :: "emitter \<Rightarrow> appender \<Rightarrow> str" where
  "appender_toYamlString emit a =
     (case a_sink a of Console \<Rightarrow> console_toYamlString emit a | File name _ _ \<Rightarrow> file_toYamlString emit name a)"

definition logger_toYamlString :: "loader \<Rightarrow> emitter \<Rightarrow> 'k logs \<Rightarrow> nat \<Rightarrow> fault + str" where
  "logger_toYamlString load emit w l =
     bindE (the_logger w l) (\<lambda>x.
     bindE (mapE (\<lambda>p. bindE (the_appender w p) (\<lambda>a. load (appender_toYamlString emit a))) (l_appenders x)) (\<lambda>ns.
       Inr (emit (with_appenders ns
         (put_if (l_formatter x \<noteq> None) (chars ''formatter'')
            (case l_formatter x of None \<Rightarrow> [] | Some f \<Rightarrow> f_pattern f)
         (put_if (l_level x \<noteq> OFF) (chars ''level'') (level_toString (l_level x))
         (put_if True (chars ''name'') (l_name x) [])))))))"

definition manager_toYamlString :: "loader \<Rightarrow> emitter \<Rightarrow> 'k logs \<Rightarrow> nat list \<Rightarrow> fault + str" where
  "manager_toYamlString load emit w ls =
     bindE (mapE (\<lambda>l. bindE (logger_toYamlString load emit w l) load) ls) (\<lambda>ns.
       Inr (emit (if ns = [] then YNull else YSeq ns)))"

section \<open>The listener\<close>

fun foldE :: "('a \<Rightarrow> 's \<Rightarrow> fault + 's) \<Rightarrow> 'a list \<Rightarrow> 's \<Rightarrow> fault + 's" where
  "foldE f [] s = Inr s"
| "foldE f (x # xs) s = bindE (f x s) (foldE f xs)"

text \<open>
  The state of the listener is the next free address and the logs. A type that is neither a file nor
  the console leaves a null pointer.
\<close>

definition make_appender ::
    "'k outside \<Rightarrow> env \<Rightarrow> appender_define \<Rightarrow> 'k logs \<Rightarrow> fault + appender option \<times> 'k logs" where
  "make_appender e en a w =
     (if ad_type a = 1
      then bindE (new_FileLogAppender e (ad_file a) (log_kern w)) (\<lambda>(x, k). Inr (Some x, w\<lparr>log_kern := k\<rparr>))
      else if ad_type a = 2
      then Inr (if env_has (chars ''d'') en then None else Some new_ConsoleLogAppender, w)
      else Inl NullDeref)"

definition own_formatter :: "str \<Rightarrow> appender_define \<Rightarrow> appender \<Rightarrow> 'k logs \<Rightarrow> appender \<times> 'k logs" where
  "own_formatter name a x w =
     (if ad_formatter a = [] then (x, w)
      else let fmt = LogFormatter (ad_formatter a) in
        if \<not> f_error fmt then (appender_setFormatter (Some fmt) x, w)
        else (x, w\<lparr>console := console w @ chars ''log.name='' @ name @ chars '' appender type='' @ show_int (ad_type a)
                    @ chars '' formatter='' @ ad_formatter a @ chars '' is invalid'' @ [10]\<rparr>))"

definition add_defined ::
    "'k outside \<Rightarrow> env \<Rightarrow> nat \<Rightarrow> str \<Rightarrow> appender_define \<Rightarrow> nat \<times> 'k logs \<Rightarrow> fault + nat \<times> 'k logs" where
  "add_defined e en l name a = (\<lambda>(n, w).
     bindE (make_appender e en a w) (\<lambda>(ap, w1). case ap of
         None \<Rightarrow> Inr (n, w1)
       | Some x \<Rightarrow>
           let (x1, w2) = own_formatter name a (x\<lparr>a_level := ad_level a\<rparr>) w1 in
           bindE (addAppender l n (set_appender n x1 w2)) (\<lambda>w3. Inr (n + 1, w3))))"

definition configure :: "'k outside \<Rightarrow> env \<Rightarrow> log_define \<Rightarrow> nat \<times> 'k logs \<Rightarrow> fault + nat \<times> 'k logs" where
  "configure e en d = (\<lambda>(n, w).
     let (l, w1) = getLogger n (ld_name d) w in
     bindE (setLevel l (ld_level d) w1) (\<lambda>w2.
     bindE (if ld_formatter d \<noteq> [] then setFormatter_pattern l (ld_formatter d) w2 else Inr w2) (\<lambda>w3.
     bindE (clearAppender l w3) (\<lambda>w4.
       foldE (add_defined e en l (ld_name d)) (ld_appenders d) (n + 1, w4)))))"

definition define_changed ::
    "'k outside \<Rightarrow> env \<Rightarrow> log_define list \<Rightarrow> log_define \<Rightarrow> nat \<times> 'k logs \<Rightarrow> fault + nat \<times> 'k logs" where
  "define_changed e en old d s =
     (case set_find log_define_less d old of
        None \<Rightarrow> configure e en d s
      | Some d0 \<Rightarrow> if \<not> log_define_eq d d0 then configure e en d s else Inr s)"

definition define_removed :: "log_define list \<Rightarrow> log_define \<Rightarrow> nat \<times> 'k logs \<Rightarrow> fault + nat \<times> 'k logs" where
  "define_removed new_value d = (\<lambda>(n, w).
     if set_find log_define_less d new_value = None
     then let (l, w1) = getLogger n (ld_name d) w in
       bindE (setLevel l OFF w1) (\<lambda>w2. bindE (clearAppender l w2) (\<lambda>w3. Inr (n + 1, w3)))
     else Inr (n, w))"

definition apply_defines ::
    "'k outside \<Rightarrow> env \<Rightarrow> log_define list \<Rightarrow> log_define list \<Rightarrow> nat \<times> 'k logs \<Rightarrow> fault + nat \<times> 'k logs" where
  "apply_defines e en old new_value s =
     bindE (foldE (define_changed e en old) new_value s) (foldE (define_removed new_value) old)"

text \<open>The whole listener; \<open>r\<close> is the record of its first message.\<close>

definition on_logger_conf_changed ::
    "'k outside \<Rightarrow> env \<Rightarrow> log_record \<Rightarrow> log_define list \<Rightarrow> log_define list \<Rightarrow> nat \<times> 'k logs \<Rightarrow>
     (fault + nat \<times> 'k logs) option" where
  "on_logger_conf_changed e en r old new_value = (\<lambda>(n, w).
     map_option (\<lambda>x. bindE x (\<lambda>w1. apply_defines e en old new_value (n, w1))) (ELOG_LEVEL e r w))"

section \<open>Reading back\<close>

lemma put_if_simps [simp]:
  "put_if True key s kvs = yaml_put key (YScalar s) kvs" "put_if False key s kvs = kvs"
  by (simp_all add: put_if_def)

text \<open>The keys differ.\<close>

lemmas keys = chars_def [of "''type''"] chars_def [of "''file''"] chars_def [of "''level''"] chars_def [of "''formatter''"]
  chars_def [of "''name''"] chars_def [of "''appenders''"] kFile_def kConsole_def chars_def [of "''FileLogAppender''"]
  chars_def [of "''ConsoleLogAppender''"]

lemma read_appender_node:
  assumes "ad_type a = 1 \<or> ad_type a = 2 \<and> ad_file a = []"
  shows "read_appender (appender_define_node a) = Inr (Some (a\<lparr>ad_level := OFF\<rparr>))"
  using assms
  by (cases "ad_formatter a = []"; cases "ad_level a = OFF"; cases a)
    (auto simp: read_appender_def appender_define_node_def map_node_def yaml_text_def keys text_or_def
      new_appender_define_def)

lemma keys_differ [simp]:
  "chars ''name'' \<noteq> chars ''level''"
  "chars ''name'' \<noteq> chars ''formatter''"
  "chars ''name'' \<noteq> chars ''appenders''"
  "chars ''level'' \<noteq> chars ''name''"
  "chars ''level'' \<noteq> chars ''formatter''"
  "chars ''level'' \<noteq> chars ''appenders''"
  "chars ''formatter'' \<noteq> chars ''name''"
  "chars ''formatter'' \<noteq> chars ''level''"
  "chars ''formatter'' \<noteq> chars ''appenders''"
  "chars ''appenders'' \<noteq> chars ''name''"
  "chars ''appenders'' \<noteq> chars ''level''"
  "chars ''appenders'' \<noteq> chars ''formatter''"
  by (simp_all add: chars_def)

text \<open>What a printed definition has under each key.\<close>

lemma define_node_map:
  "define_node d = YMap ((chars ''name'', YScalar (ld_name d))
     # (if ld_level d \<noteq> OFF then [(chars ''level'', YScalar (level_toString (ld_level d)))] else [])
     @ (if ld_formatter d \<noteq> [] then [(chars ''formatter'', YScalar (ld_formatter d))] else [])
     @ (if ld_appenders d \<noteq> [] then [(chars ''appenders'', YSeq (map appender_define_node (ld_appenders d)))] else []))"
  by (simp add: define_node_def with_appenders_def map_node_def)

lemma define_node_keys:
  "yaml_get (chars ''name'') (define_node d) = Inr (YScalar (ld_name d))"
  "yaml_text (chars ''level'') (define_node d) = Inr (if ld_level d \<noteq> OFF then Some (level_toString (ld_level d)) else None)"
  "yaml_text (chars ''formatter'') (define_node d) = Inr (if ld_formatter d \<noteq> [] then Some (ld_formatter d) else None)"
  "yaml_get (chars ''appenders'') (define_node d)
     = Inr (if ld_appenders d \<noteq> [] then YSeq (map appender_define_node (ld_appenders d)) else YUndefined)"
  by (simp_all add: define_node_map yaml_text_def)

lemma read_level [simp]: "level_fromString (text_or [] (if lv \<noteq> OFF then Some (level_toString lv) else None)) = lv"
  by (cases "lv = OFF") (simp_all add: text_or_def, simp add: level_fromString_def chars_def)

lemma read_formatter [simp]: "text_or [] (if f \<noteq> [] then Some f else None) = f"
  by (simp add: text_or_def)

text \<open>
  A definition of a logger is read back from its printed text, but for the levels of its
  appenders: they are printed and never read, so every appender of a configuration that went through
  a text has the level \<open>OFF\<close>, under which it takes every record.
\<close>

theorem definitions_read_back:
  assumes "\<forall>a \<in> set (ld_appenders d). ad_type a = 1 \<or> ad_type a = 2 \<and> ad_file a = []"
    and "reparsed load emit (define_node d)"
  shows "\<exists>s. LogDefine_to emit d = Inr s
    \<and> LogDefine_from load s = Inr (d\<lparr>ld_appenders := map (\<lambda>a. a\<lparr>ad_level := OFF\<rparr>) (ld_appenders d)\<rparr>)"
proof -
  let ?as = "ld_appenders d"
  have read: "map (\<lambda>a. read_appender (appender_define_node a)) ?as = map Inr (map (\<lambda>a. Some (a\<lparr>ad_level := OFF\<rparr>)) ?as)"
    using assms(1) read_appender_node by simp
  have "map (\<lambda>i. read_appender (yaml_at (YSeq (map appender_define_node ?as)) i)) [0..<length ?as]
      = map (\<lambda>a. read_appender (appender_define_node a)) ?as"
    by (intro nth_equalityI) simp_all
  then have "mapE (\<lambda>i. read_appender (yaml_at (YSeq (map appender_define_node ?as)) i)) [0..<length ?as]
      = Inr (map (\<lambda>a. Some (a\<lparr>ad_level := OFF\<rparr>)) ?as)"
    using read by (intro mapE_Inr) simp
  moreover have "map the (filter (\<lambda>x. x \<noteq> None) (map (\<lambda>a. Some (a\<lparr>ad_level := OFF\<rparr>)) ?as)) = map (\<lambda>a. a\<lparr>ad_level := OFF\<rparr>) ?as"
    by (simp add: filter_map comp_def)
  ultimately have "read_define (define_node d) = Inr (d\<lparr>ld_appenders := map (\<lambda>a. a\<lparr>ad_level := OFF\<rparr>) ?as\<rparr>)"
    by (cases "?as = []") (simp_all add: read_define_def define_node_keys del: yaml_at.simps(1))
  then show ?thesis using assms(2) by (simp add: LogDefine_to_def LogDefine_from_def reparsed_def)
qed

text \<open>A parser and a printer for the text of one node.\<close>

definition node_load :: "yaml \<Rightarrow> loader" where "node_load n s = (if s = [1] then Inr n else Inl BadConversion)"
definition node_emit :: "yaml \<Rightarrow> emitter" where "node_emit n m = (if m = n then [1] else [])"

definition example_define :: log_define where
  "example_define = \<lparr>ld_name = chars ''net'', ld_level = WARN, ld_formatter = [],
     ld_appenders = [\<lparr>ad_type = 1, ad_level = ERROR, ad_formatter = [], ad_file = chars ''net.log''\<rparr>]\<rparr>"

theorem definitions_read_back_witness:
  "\<exists>s. LogDefine_to (node_emit (define_node example_define)) example_define = Inr s
     \<and> LogDefine_from (node_load (define_node example_define)) s
       = Inr (example_define\<lparr>ld_appenders := [\<lparr>ad_type = 1, ad_level = OFF, ad_formatter = [], ad_file = chars ''net.log''\<rparr>]\<rparr>)"
  using definitions_read_back [of example_define "node_load (define_node example_define)" "node_emit (define_node example_define)"]
  by (simp add: reparsed_def node_load_def node_emit_def) (simp add: example_define_def)

end
