(* ===== verification/LogReload.thy ===== *)
theory LogReload imports LogConfig begin

text \<open>
  The listener of the variable \<open>logs\<close> (\<open>LogIniter\<close> in \<open>easy/base/Logger.cc\<close>) against what it promises: one
  definition at a time the loggers of its name change and no others, so that in the end the loggers are as
  the new definitions say.
\<close>

section \<open>What the listener does\<close>

text \<open>An appender that is made at all, one that is as defined, and a logger that is.\<close>

definition made :: "env \<Rightarrow> appender_define \<Rightarrow> bool" where
  "made en a \<longleftrightarrow> ad_type a = 1 \<or> \<not> env_has (chars ''d'') en"

definition formats :: "str \<Rightarrow> bool" where
  "formats p \<longleftrightarrow> p \<noteq> [] \<and> \<not> f_error (LogFormatter p)"

definition appender_as :: "appender_define \<Rightarrow> appender \<Rightarrow> bool" where
  "appender_as a y \<longleftrightarrow> a_level y = ad_level a
     \<and> (if ad_type a = 1 then a_sink y \<noteq> Console \<and> filename (a_sink y) = ad_file a else a_sink y = Console)
     \<and> hasFormatter y = formats (ad_formatter a)
     \<and> (formats (ad_formatter a) \<longrightarrow> a_formatter y = Some (LogFormatter (ad_formatter a)))"

definition as_defined :: "env \<Rightarrow> 'k logs \<Rightarrow> log_define \<Rightarrow> bool" where
  "as_defined en w d \<longleftrightarrow> (\<exists>g x. named w (ld_name d) = Some g \<and> loggers w g = Some x \<and> l_level x = ld_level d
     \<and> (formats (ld_formatter d) \<longrightarrow> l_formatter x = Some (LogFormatter (ld_formatter d)))
     \<and> list_all2 (\<lambda>p a. \<exists>y. appenders w p = Some y \<and> appender_as a y) (l_appenders x) (filter (made en) (ld_appenders d)))"

definition switched_off :: "'k logs \<Rightarrow> str \<Rightarrow> bool" where
  "switched_off w name \<longleftrightarrow> (\<exists>g x. named w name = Some g \<and> loggers w g = Some x \<and> l_level x = OFF \<and> l_appenders x = [])"

text \<open>Free addresses, and a change of the loggers named in \<open>N\<close> only.\<close>

definition free_from :: "nat \<Rightarrow> 'k logs \<Rightarrow> bool" where
  "free_from n w \<longleftrightarrow> (\<forall>m \<ge> n. loggers w m = None \<and> appenders w m = None)"

definition reformatted :: "appender \<Rightarrow> appender \<Rightarrow> bool" where
  "reformatted a b \<longleftrightarrow> b = a\<lparr>a_formatter := a_formatter b\<rparr> \<and> (hasFormatter a \<longrightarrow> b = a)"

fun touches :: "str set \<Rightarrow> nat \<times> 'k logs \<Rightarrow> nat \<times> 'k logs \<Rightarrow> bool" where
  "touches N (n, w) (n', w') \<longleftrightarrow> n \<le> n' \<and> free_from n' w' \<and> logs_ok w'
     \<and> (\<forall>name. name \<notin> N \<longrightarrow> named w' name = named w name)
     \<and> (\<forall>l x. loggers w l = Some x \<and> l_name x \<notin> N \<longrightarrow> loggers w' l = Some x)
     \<and> (\<forall>p a. appenders w p = Some a \<longrightarrow> (\<exists>b. appenders w' p = Some b \<and> reformatted a b))"

lemma reformatted_refl [simp]: "reformatted a a"
  by (simp add: reformatted_def)

lemma reformatted_trans:
  assumes "reformatted a b" and "reformatted b c"
  shows "reformatted a c"
proof -
  have b: "b = a\<lparr>a_formatter := a_formatter b\<rparr>" using assms(1) by (simp add: reformatted_def)
  have c: "c = b\<lparr>a_formatter := a_formatter c\<rparr>" using assms(2) by (simp add: reformatted_def)
  have "b\<lparr>a_formatter := a_formatter c\<rparr> = a\<lparr>a_formatter := a_formatter c\<rparr>" by (subst b) simp
  then have "c = a\<lparr>a_formatter := a_formatter c\<rparr>" using c by simp
  moreover have "hasFormatter a \<longrightarrow> c = a" using assms by (simp add: reformatted_def)
  ultimately show ?thesis by (simp only: reformatted_def)
qed

lemma reformatted_as:
  assumes "appender_as a y" and "reformatted y z"
  shows "appender_as a z"
proof -
  have z: "z = y\<lparr>a_formatter := a_formatter z\<rparr>" using assms(2) by (simp add: reformatted_def)
  have "a_level z = a_level y" "a_sink z = a_sink y" "hasFormatter z = hasFormatter y" by (subst z, simp)+
  then show ?thesis using assms by (auto simp: appender_as_def reformatted_def)
qed

lemma touches_appender:
  "touches N (n, w) (n', w') \<Longrightarrow> appenders w p = Some a \<Longrightarrow> \<exists>b. appenders w' p = Some b \<and> reformatted a b"
  by simp

lemma named_logger: "logs_ok w \<Longrightarrow> named w name = Some g \<Longrightarrow> loggers w g = Some x \<Longrightarrow> l_name x = name"
  unfolding logs_ok_def logs_wired_def by (metis option.inject)

lemma touches_refl: "free_from n w \<Longrightarrow> logs_ok w \<Longrightarrow> touches N (n, w) (n, w)"
  by auto

lemma touches_trans:
  assumes "touches M (n, w) s" and "touches N s t"
  shows "touches (M \<union> N) (n, w) t"
proof -
  obtain n1 w1 n2 w2 where s: "s = (n1, w1)" "t = (n2, w2)" by (metis surj_pair)
  have "\<exists>c. appenders w2 p = Some c \<and> reformatted a c" if p: "appenders w p = Some a" for p a
  proof -
    obtain b where b: "appenders w1 p = Some b" "reformatted a b"
      using touches_appender [OF assms(1) [unfolded s] p] by blast
    then show ?thesis
      using touches_appender [OF assms(2) [unfolded s] b(1)] reformatted_trans by blast
  qed
  then show ?thesis using assms s by auto
qed

lemma touches_as_defined:
  assumes "as_defined en w d" and "touches N (n, w) (n', w')" and "ld_name d \<notin> N" and "logs_ok w"
  shows "as_defined en w' d"
proof -
  obtain g x where g: "named w (ld_name d) = Some g" "loggers w g = Some x" "l_level x = ld_level d"
      "formats (ld_formatter d) \<longrightarrow> l_formatter x = Some (LogFormatter (ld_formatter d))"
      "list_all2 (\<lambda>p a. \<exists>y. appenders w p = Some y \<and> appender_as a y) (l_appenders x) (filter (made en) (ld_appenders d))"
    using assms(1) unfolding as_defined_def by blast
  have "l_name x = ld_name d" using assms(4) g(1,2) by (rule named_logger)
  then have "named w' (ld_name d) = Some g" "loggers w' g = Some x" using assms(2,3) g(1,2) by auto
  moreover have "list_all2 (\<lambda>p a. \<exists>y. appenders w' p = Some y \<and> appender_as a y) (l_appenders x)
      (filter (made en) (ld_appenders d))"
    using g(5) by (rule list_all2_mono) (use assms(2) reformatted_as in fastforce)
  ultimately show ?thesis using g(3,4) unfolding as_defined_def by blast
qed

lemma touches_off:
  assumes "switched_off w name" and "touches N (n, w) (n', w')" and "name \<notin> N" and "logs_ok w"
  shows "switched_off w' name"
proof -
  obtain g x where g: "named w name = Some g" "loggers w g = Some x" "l_level x = OFF" "l_appenders x = []"
    using assms(1) unfolding switched_off_def by blast
  have "l_name x = name" using assms(4) g(1,2) by (rule named_logger)
  then show ?thesis using assms(2,3) g by (auto simp: switched_off_def)
qed

section \<open>One definition\<close>

definition define_ok :: "log_define \<Rightarrow> bool" where
  "define_ok d \<longleftrightarrow> (\<forall>a \<in> set (ld_appenders d). ad_type a = 1 \<and> 0 \<notin> set (ad_file a) \<or> ad_type a = 2)"

lemma make_appender_ok:
  assumes "ad_type a = 1 \<and> 0 \<notin> set (ad_file a) \<or> ad_type a = 2"
  obtains x k where "make_appender e en a w = Inr (if made en a then Some x else None, w\<lparr>log_kern := k\<rparr>)"
    and "appender_as (a\<lparr>ad_formatter := []\<rparr>) (x\<lparr>a_level := ad_level a\<rparr>)" and "sink_ok (a_sink x)"
    and "a_formatter x = None"
proof (cases "ad_type a = 1")
  case True
  let ?b = "\<lparr>a_level = TRACE, hasFormatter = False, a_formatter = None, a_sink = File (ad_file a) new_stream 0\<rparr>"
  obtain ok st k where "reopen_stream (sys_os e) (ad_file a) new_stream (log_kern w) = Inr (ok, st, k)"
    using OpenForWrite_total assms True unfolding reopen_stream_def by fastforce
  then have "new_FileLogAppender e (ad_file a) (log_kern w) = Inr (?b\<lparr>a_sink := File (ad_file a) st 0\<rparr>, k)"
    by (simp add: new_FileLogAppender_def appender_reopen_def)
  then show ?thesis
    using True assms that [of "?b\<lparr>a_sink := File (ad_file a) st 0\<rparr>" k]
    by (simp add: make_appender_def made_def appender_as_def formats_def)
next
  case False
  then show ?thesis using assms that [of new_ConsoleLogAppender "log_kern w"]
    by (auto simp: make_appender_def made_def appender_as_def new_ConsoleLogAppender_def formats_def)
qed

lemma addAppender_named: "addAppender l p w = Inr w' \<Longrightarrow> named w' = named w"
  by (auto simp: addAppender_def faults set_logger_def set_appender_def Let_def)

lemma free_fresh: "free_from n w \<Longrightarrow> n \<le> m \<Longrightarrow> loggers w m = None \<and> appenders w m = None"
  by (simp add: free_from_def)

lemma add_defined_ok:
  assumes "logs_ok w" and "free_from n w" and "loggers w l = Some x"
    and "ad_type a = 1 \<and> 0 \<notin> set (ad_file a) \<or> ad_type a = 2"
  shows "\<exists>n' w' y. add_defined e en l name a (n, w) = Inr (n', w') \<and> n \<le> n' \<and> free_from n' w' \<and> logs_ok w'
    \<and> named w' = named w
    \<and> loggers w' = (loggers w)(l \<mapsto> x\<lparr>l_appenders := l_appenders x @ (if made en a then [n] else [])\<rparr>)
    \<and> appenders w' = (if made en a then (appenders w)(n \<mapsto> y) else appenders w) \<and> appender_as a y"
proof -
  obtain y k where y: "make_appender e en a w = Inr (if made en a then Some y else None, w\<lparr>log_kern := k\<rparr>)"
      "appender_as (a\<lparr>ad_formatter := []\<rparr>) (y\<lparr>a_level := ad_level a\<rparr>)" "sink_ok (a_sink y)" "a_formatter y = None"
    by (rule make_appender_ok [OF assms(4)])
  have w1: "logs_ok (w\<lparr>log_kern := k\<rparr>)" by (rule same_layout_ok [OF _ assms(1)]) (simp add: same_layout_def)
  show ?thesis
  proof (cases "made en a")
    case False
    have "free_from n (w\<lparr>log_kern := k\<rparr>)" using assms(2) by (simp add: free_from_def)
    moreover obtain y1 where "appender_as a y1"
    proof
      let ?f = "formats (ad_formatter a)"
      show "appender_as a (y\<lparr>a_level := ad_level a, hasFormatter := ?f,
          a_formatter := if ?f then Some (LogFormatter (ad_formatter a)) else None\<rparr>)"
        using y(2) by (cases "ad_type a = 1") (simp_all add: appender_as_def)
    qed
    ultimately show ?thesis using False y(1) w1 assms(3) by (auto simp: add_defined_def fun_upd_idem)
  next
    case True
    let ?y = "y\<lparr>a_level := ad_level a\<rparr>"
    obtain y1 w2 where o: "own_formatter name a ?y (w\<lparr>log_kern := k\<rparr>) = (y1, w2)" by fastforce
    have y1: "y1 = (if formats (ad_formatter a) then appender_setFormatter (Some (LogFormatter (ad_formatter a))) ?y else ?y)"
      using o by (auto simp: own_formatter_def formats_def Let_def split: if_splits)
    have w2: "loggers w2 = loggers w" "appenders w2 = appenders w" "named w2 = named w" "root w2 = root w"
      using o by (auto simp: own_formatter_def Let_def split: if_splits)
    have "logs_ok w2" by (rule same_layout_ok [OF _ assms(1)]) (simp add: same_layout_def w2)
    moreover have "\<not> hasFormatter y" using y(2) by (simp add: appender_as_def formats_def)
    ultimately have ok: "logs_ok (set_appender n y1 w2)"
      using free_fresh [OF assms(2), of n] y(3,4) w2(2)
      by (intro logs_ok_set_appender [where a = undefined]) (auto simp: y1 appender_setFormatter_def)
    obtain w3 where w3: "addAppender l n (set_appender n y1 w2) = Inr w3" "logs_ok w3"
        "loggers w3 = (loggers (set_appender n y1 w2))(l \<mapsto> x\<lparr>l_appenders := l_appenders x @ [n]\<rparr>)"
        "appenders w3 = (appenders (set_appender n y1 w2))
           (n \<mapsto> y1\<lparr>a_formatter := if a_formatter y1 = None then l_formatter x else a_formatter y1\<rparr>)"
      by (rule addAppender_ok [OF ok, of l x n y1]) (use assms(3) w2 in \<open>simp_all add: set_appender_def\<close>)
    let ?z = "y1\<lparr>a_formatter := if a_formatter y1 = None then l_formatter x else a_formatter y1\<rparr>"
    have "appender_as a ?z" using y(2) by (auto simp: appender_as_def y1 appender_setFormatter_def formats_def)
    moreover have "free_from (n + 1) w3"
      using assms(2,3) w2 w3(3,4) by (auto simp: free_from_def set_appender_def)
    moreover have "named w3 = named w" using addAppender_named [OF w3(1)] w2 by (simp add: set_appender_def)
    moreover have "add_defined e en l name a (n, w) = Inr (n + 1, w3)"
      using True y(1) o w3(1) by (simp add: add_defined_def)
    ultimately show ?thesis
      using True w2 w3(2-4) by (intro exI [of _ "n + 1"] exI [of _ w3] exI [of _ ?z]) (simp add: set_appender_def)
  qed
qed

lemma add_all_ok:
  assumes "logs_ok w" and "free_from n w" and "loggers w l = Some x"
    and "\<forall>a \<in> set as. ad_type a = 1 \<and> 0 \<notin> set (ad_file a) \<or> ad_type a = 2"
  shows "\<exists>n' w' ps. foldE (add_defined e en l name) as (n, w) = Inr (n', w') \<and> n \<le> n' \<and> free_from n' w' \<and> logs_ok w'
    \<and> named w' = named w \<and> loggers w' = (loggers w)(l \<mapsto> x\<lparr>l_appenders := l_appenders x @ ps\<rparr>)
    \<and> list_all2 (\<lambda>p a. \<exists>y. appenders w' p = Some y \<and> appender_as a y) ps (filter (made en) as)
    \<and> (\<forall>p. appenders w p \<noteq> None \<longrightarrow> appenders w' p = appenders w p)"
  using assms
proof (induction as arbitrary: n w x)
  case Nil
  then show ?case by (auto simp: fun_upd_idem)
next
  case (Cons a as)
  obtain n1 w1 y where 1: "add_defined e en l name a (n, w) = Inr (n1, w1)" "n \<le> n1" "free_from n1 w1" "logs_ok w1"
      "named w1 = named w" "loggers w1 = (loggers w)(l \<mapsto> x\<lparr>l_appenders := l_appenders x @ (if made en a then [n] else [])\<rparr>)"
      "appenders w1 = (if made en a then (appenders w)(n \<mapsto> y) else appenders w)" "appender_as a y"
    using add_defined_ok [OF Cons.prems(1-3), of a e en name] Cons.prems(4) by auto
  let ?x = "x\<lparr>l_appenders := l_appenders x @ (if made en a then [n] else [])\<rparr>"
  have x: "loggers w1 l = Some ?x" using 1(6) by simp
  have as: "\<forall>a \<in> set as. ad_type a = 1 \<and> 0 \<notin> set (ad_file a) \<or> ad_type a = 2" using Cons.prems(4) by simp
  obtain n2 w2 ps where 2: "foldE (add_defined e en l name) as (n1, w1) = Inr (n2, w2)" "n1 \<le> n2" "free_from n2 w2"
      "logs_ok w2" "named w2 = named w1" "loggers w2 = (loggers w1)(l \<mapsto> ?x\<lparr>l_appenders := l_appenders ?x @ ps\<rparr>)"
      "list_all2 (\<lambda>p a. \<exists>y. appenders w2 p = Some y \<and> appender_as a y) ps (filter (made en) as)"
      "\<forall>p. appenders w1 p \<noteq> None \<longrightarrow> appenders w2 p = appenders w1 p"
    using Cons.IH [OF 1(4,3) x as] by blast
  let ?ps = "(if made en a then [n] else []) @ ps"
  have "list_all2 (\<lambda>p a. \<exists>y. appenders w2 p = Some y \<and> appender_as a y) ?ps (filter (made en) (a # as))"
    using 1(7,8) 2(7,8) by simp
  moreover have "appenders w2 p = appenders w p" if "appenders w p \<noteq> None" for p
  proof -
    have "appenders w1 p = appenders w p"
      using that 1(7) free_fresh [OF Cons.prems(2), of n] by auto
    then show ?thesis using 2(8) that by metis
  qed
  moreover have "loggers w2 = (loggers w)(l \<mapsto> x\<lparr>l_appenders := l_appenders x @ ?ps\<rparr>)"
    using 1(6) 2(6) by simp
  ultimately show ?case
    using 1(1,2,5) 2(1-5) by (intro exI [of _ n2] exI [of _ w2] exI [of _ ?ps]) simp
qed

text \<open>The logger by the name, made when there is none.\<close>

lemma getLogger_touches:
  assumes "logs_ok w" and "free_from n w"
  obtains g w' x where "getLogger n name w = (g, w')" and "named w' name = Some g" and "loggers w' g = Some x"
    and "touches {name} (n, w) (n + 1, w')"
proof -
  obtain g w' x where g: "getLogger n name w = (g, w')" "logs_ok w'" "named w' name = Some g" "loggers w' g = Some x"
      "l_name x = name"
    by (rule getLogger_ok [OF assms(1), of n name]) (use free_fresh [OF assms(2), of n] in simp_all)
  have "touches {name} (n, w) (n + 1, w')"
    using g(1,2) assms(2) by (auto simp: getLogger_def getLogger_create_def set_logger_def free_from_def split: option.splits)
  then show ?thesis using g that by blast
qed

text \<open>Changing a logger of the name.\<close>

lemma set_logger_touches:
  assumes "logs_ok (set_logger l y w)" and "free_from n w" and "loggers w l = Some x" and "l_name x = name"
  shows "touches {name} (n, w) (n, set_logger l y w)"
  using assms by (auto simp: set_logger_def free_from_def)

lemma each_appender_keeps:
  assumes "\<And>p w w'. f p w = Inr w' \<Longrightarrow> h w' = h w" and "each_appender f ps w = Inr w'"
  shows "h w' = h w"
  using assms(2)
proof (induction ps arbitrary: w)
  case (Cons p ps)
  then obtain w1 where "f p w = Inr w1" "each_appender f ps w1 = Inr w'" by (auto simp: faults)
  then show ?case using Cons.IH assms(1) by metis
qed simp

lemma setFormatter_named:
  assumes "setFormatter l val w = Inr w'"
  shows "named w' = named w"
proof -
  obtain x where "each_appender (inherit val) (l_appenders x) (set_logger l (x\<lparr>l_formatter := val\<rparr>) w) = Inr w'"
    using assms by (auto simp: setFormatter_def faults)
  then have "named w' = named (set_logger l (x\<lparr>l_formatter := val\<rparr>) w)"
    by (rule each_appender_keeps [rotated])
      (auto simp: inherit_def faults set_appender_def split: if_splits)
  then show ?thesis by (simp add: set_logger_def)
qed

lemma pattern_touches:
  assumes "logs_ok w" and "free_from n w" and "loggers w l = Some x" and "l_name x = name"
  shows "\<exists>w' f. setFormatter_pattern l s w = Inr w' \<and> touches {name} (n, w) (n, w') \<and> named w' = named w
    \<and> loggers w' l = Some (x\<lparr>l_formatter := f\<rparr>) \<and> (\<not> f_error (LogFormatter s) \<longrightarrow> f = Some (LogFormatter s))"
proof (cases "f_error (LogFormatter s)")
  case True
  then obtain t where t: "setFormatter_pattern l s w = Inr (w\<lparr>console := t\<rparr>)"
    using assms(3) by (simp add: setFormatter_pattern_def the_logger_def Let_def)
  have "logs_ok (w\<lparr>console := t\<rparr>)" by (rule same_layout_ok [OF _ assms(1)]) (simp add: same_layout_def)
  then have "touches {name} (n, w) (n, w\<lparr>console := t\<rparr>)" using assms(2) by (simp add: free_from_def)
  moreover have "x\<lparr>l_formatter := l_formatter x\<rparr> = x" by simp
  ultimately show ?thesis
    using t True assms(3) by (intro exI [of _ "w\<lparr>console := t\<rparr>"] exI [of _ "l_formatter x"]) simp
next
  case False
  let ?val = "Some (LogFormatter s)"
  obtain w' where w': "setFormatter l ?val w = Inr w'" "logs_ok w'" "loggers w' = (loggers w)(l \<mapsto> x\<lparr>l_formatter := ?val\<rparr>)"
      "\<And>p. appenders w' p = (if p \<in> set (l_appenders x)
           then map_option (\<lambda>a. a\<lparr>a_formatter := if hasFormatter a then a_formatter a else ?val\<rparr>) (appenders w p)
           else appenders w p)"
    by (rule setFormatter_ok [OF assms(1,3), of ?val]) simp_all
  have "\<exists>b. appenders w' p = Some b \<and> reformatted a b" if "appenders w p = Some a" for p a
    using that w'(4) [of p] by (cases "p \<in> set (l_appenders x)") (simp_all add: reformatted_def)
  moreover have "free_from n w'"
    using assms(2,3) w'(3,4) by (auto simp: free_from_def)
  ultimately have "touches {name} (n, w) (n, w')"
    using w'(2,3) setFormatter_named [OF w'(1)] assms(3,4) by auto
  then show ?thesis
    using False w' setFormatter_named [OF w'(1)]
    by (intro exI [of _ w'] exI [of _ ?val]) (simp add: setFormatter_pattern_def Let_def)
qed

lemma clear_touches:
  assumes "logs_ok w" and "free_from n w" and "loggers w l = Some x" and "l_name x = name"
    and "l_name y = name" and "l_root y = l_root x" and "l_formatter y = l_formatter x"
    and "set (l_appenders y) \<subseteq> set (l_appenders x)"
  shows "touches {name} (n, w) (n, set_logger l y w)"
proof -
  have "logs_ok (set_logger l y w)"
    using assms(1,3-8) by (intro change_logger_ok [OF assms(1,3)]) simp_all
  then show ?thesis using assms(2-4) by (rule set_logger_touches)
qed

text \<open>The logger with a level set; it is emptied afterwards.\<close>

lemma touches_ok:
  "touches N s (n, w) \<Longrightarrow> logs_ok w" "touches N s (n, w) \<Longrightarrow> free_from n w"
  by (cases s, simp)+

lemma touches_same: "touches N (n, w) s \<Longrightarrow> touches N s t \<Longrightarrow> touches N (n, w) t"
  using touches_trans [of N n w s N t] by simp

lemma configure_ok:
  assumes "logs_ok w" and "free_from n w" and "define_ok d"
  shows "\<exists>n' w'. configure e en d (n, w) = Inr (n', w') \<and> touches {ld_name d} (n, w) (n', w') \<and> as_defined en w' d"
proof -
  let ?N = "{ld_name d}"
  obtain g w1 x where 1: "getLogger n (ld_name d) w = (g, w1)" "named w1 (ld_name d) = Some g" "loggers w1 g = Some x"
      "touches ?N (n, w) (n + 1, w1)"
    by (rule getLogger_touches [OF assms(1,2)])
  have name: "l_name x = ld_name d" using touches_ok(1) [OF 1(4)] 1(2,3) by (rule named_logger)
  let ?x2 = "x\<lparr>l_level := ld_level d\<rparr>"
  let ?w2 = "set_logger g ?x2 w1"
  have 2: "setLevel g (ld_level d) w1 = Inr ?w2" using 1(3) by (simp add: setLevel_def the_logger_def)
  have t2: "touches ?N (n + 1, w1) (n + 1, ?w2)"
    by (rule clear_touches [OF touches_ok(1,2) [OF 1(4)] 1(3) name]) (simp_all add: name)
  have l2: "loggers ?w2 g = Some ?x2" "l_name ?x2 = ld_name d" using name by (simp_all add: set_logger_def)
  obtain w3 f where 3: "(if ld_formatter d \<noteq> [] then setFormatter_pattern g (ld_formatter d) ?w2 else Inr ?w2) = Inr w3"
      "touches ?N (n + 1, ?w2) (n + 1, w3)" "named w3 = named ?w2" "loggers w3 g = Some (?x2\<lparr>l_formatter := f\<rparr>)"
      "formats (ld_formatter d) \<longrightarrow> f = Some (LogFormatter (ld_formatter d))"
  proof (cases "ld_formatter d = []")
    case True
    have "touches ?N (n + 1, ?w2) (n + 1, ?w2)" using touches_ok [OF t2] touches_refl by blast
    moreover have "?x2\<lparr>l_formatter := l_formatter x\<rparr> = ?x2" by simp
    ultimately show ?thesis using True l2(1) that [of ?w2 "l_formatter x"] by (simp add: formats_def)
  next
    case False
    then show ?thesis
      using pattern_touches [OF touches_ok(1,2) [OF t2] l2, of "ld_formatter d"] that by (auto simp: formats_def)
  qed
  let ?x3 = "?x2\<lparr>l_formatter := f\<rparr>"
  let ?x4 = "?x3\<lparr>l_appenders := []\<rparr>"
  let ?w4 = "set_logger g ?x4 w3"
  have 4: "clearAppender g w3 = Inr ?w4" using 3(4) by (simp add: clearAppender_def the_logger_def)
  have t4: "touches ?N (n + 1, w3) (n + 1, ?w4)"
    by (rule clear_touches [OF touches_ok(1,2) [OF 3(2)] 3(4)]) (simp_all add: name)
  have l4: "loggers ?w4 g = Some ?x4" by (simp add: set_logger_def)
  obtain n' w' ps where 5: "foldE (add_defined e en g (ld_name d)) (ld_appenders d) (n + 1, ?w4) = Inr (n', w')"
      "n + 1 \<le> n'" "free_from n' w'" "logs_ok w'" "named w' = named ?w4"
      "loggers w' = (loggers ?w4)(g \<mapsto> ?x4\<lparr>l_appenders := l_appenders ?x4 @ ps\<rparr>)"
      "list_all2 (\<lambda>p a. \<exists>y. appenders w' p = Some y \<and> appender_as a y) ps (filter (made en) (ld_appenders d))"
      "\<forall>p. appenders ?w4 p \<noteq> None \<longrightarrow> appenders w' p = appenders ?w4 p"
    using add_all_ok [OF touches_ok(1,2) [OF t4] l4] assms(3) unfolding define_ok_def by blast
  have "loggers w' l = Some y" if "loggers ?w4 l = Some y" "l_name y \<notin> ?N" for l y
    using 5(6) that name l4 by auto
  moreover have "\<exists>b. appenders w' p = Some b \<and> reformatted a b" if "appenders ?w4 p = Some a" for p a
    using 5(8) that by (metis option.distinct(1) reformatted_refl)
  ultimately have "touches ?N (n + 1, ?w4) (n', w')" using 5(2-5) by simp
  then have "touches ?N (n, w) (n', w')"
    using 1(4) t2 3(2) t4 touches_same by blast
  moreover have "as_defined en w' d"
  proof -
    have "named w' (ld_name d) = Some g" using 5(5) 3(3) 1(2) by (simp add: set_logger_def)
    moreover have "loggers w' g = Some (?x4\<lparr>l_appenders := ps\<rparr>)" using 5(6) by simp
    ultimately show ?thesis unfolding as_defined_def using 3(5) 5(7) by auto
  qed
  moreover have "configure e en d (n, w) = Inr (n', w')"
    using 1(1) 2 3(1) 4 5(1) by (simp add: configure_def)
  ultimately show ?thesis by blast
qed

lemma remove_ok:
  assumes "logs_ok w" and "free_from n w" and "set_find log_define_less d new_value = None"
  shows "\<exists>n' w'. define_removed new_value d (n, w) = Inr (n', w') \<and> touches {ld_name d} (n, w) (n', w')
    \<and> switched_off w' (ld_name d)"
proof -
  let ?N = "{ld_name d}"
  obtain g w1 x where 1: "getLogger n (ld_name d) w = (g, w1)" "named w1 (ld_name d) = Some g" "loggers w1 g = Some x"
      "touches ?N (n, w) (n + 1, w1)"
    by (rule getLogger_touches [OF assms(1,2)])
  have name: "l_name x = ld_name d" using touches_ok(1) [OF 1(4)] 1(2,3) by (rule named_logger)
  let ?x2 = "x\<lparr>l_level := OFF, l_appenders := []\<rparr>"
  let ?w2 = "set_logger g ?x2 w1"
  have "touches ?N (n + 1, w1) (n + 1, ?w2)"
    by (rule clear_touches [OF touches_ok(1,2) [OF 1(4)] 1(3) name]) (simp_all add: name)
  then have "touches ?N (n, w) (n + 1, ?w2)" using 1(4) touches_same by blast
  moreover have "define_removed new_value d (n, w) = Inr (n + 1, ?w2)"
    using assms(3) 1(1,3)
    by (simp add: define_removed_def setLevel_def clearAppender_def the_logger_def set_logger_def)
  moreover have "switched_off ?w2 (ld_name d)" using 1(2) by (simp add: switched_off_def set_logger_def)
  ultimately show ?thesis by blast
qed

section \<open>The whole change\<close>

lemma changed_all_ok:
  fixes old :: "log_define list"
  assumes "logs_ok w" and "free_from n w" and "\<forall>d \<in> set ds. define_ok d" and "distinct (map ld_name ds)"
  defines "keep \<equiv> \<lambda>d. \<exists>d0. set_find log_define_less d old = Some d0 \<and> log_define_eq d d0"
  shows "\<exists>n' w'. foldE (define_changed e en old) ds (n, w) = Inr (n', w')
    \<and> touches (ld_name ` {d \<in> set ds. \<not> keep d}) (n, w) (n', w') \<and> (\<forall>d \<in> set ds. \<not> keep d \<longrightarrow> as_defined en w' d)"
  using assms(1-4)
proof (induction ds arbitrary: n w)
  case Nil
  then show ?case using touches_refl [of n w "{}"] by (simp del: touches.simps)
next
  case (Cons d ds)
  let ?N = "ld_name ` {d \<in> set ds. \<not> keep d}"
  obtain n1 w1 where 1: "define_changed e en old d (n, w) = Inr (n1, w1)"
      "touches (if keep d then {} else {ld_name d}) (n, w) (n1, w1)" "\<not> keep d \<longrightarrow> as_defined en w1 d"
  proof (cases "keep d")
    case True
    then show ?thesis
      using that [of n w] touches_refl [OF Cons.prems(2,1)]
      by (auto simp: define_changed_def keep_def simp del: touches.simps)
  next
    case False
    then have "define_changed e en old d (n, w) = configure e en d (n, w)"
      by (auto simp: define_changed_def keep_def split: option.splits)
    then show ?thesis
      using configure_ok [OF Cons.prems(1,2), of d e en] Cons.prems(3) False that by auto
  qed
  have "\<forall>d \<in> set ds. define_ok d" "distinct (map ld_name ds)" using Cons.prems(3,4) by simp_all
  then obtain n2 w2 where 2: "foldE (define_changed e en old) ds (n1, w1) = Inr (n2, w2)"
      "touches ?N (n1, w1) (n2, w2)" "\<forall>d \<in> set ds. \<not> keep d \<longrightarrow> as_defined en w2 d"
    using Cons.IH [OF touches_ok(1,2) [OF 1(2)]] by blast
  have "ld_name d \<notin> ?N" using Cons.prems(4) by auto
  then have "\<not> keep d \<longrightarrow> as_defined en w2 d"
    using touches_as_defined [OF _ 2(2) _ touches_ok(1) [OF 1(2)]] 1(3) by blast
  moreover have "touches ((if keep d then {} else {ld_name d}) \<union> ?N) (n, w) (n2, w2)"
    by (rule touches_trans [OF 1(2) 2(2)])
  moreover have "(if keep d then {} else {ld_name d}) \<union> ?N = ld_name ` {d' \<in> set (d # ds). \<not> keep d'}" by auto
  ultimately show ?case using 1(1) 2 by (simp del: touches.simps)
qed

lemma removed_all_ok:
  fixes new_value :: "log_define list"
  assumes "logs_ok w" and "free_from n w" and "distinct (map ld_name ds)"
  defines "gone \<equiv> \<lambda>d. set_find log_define_less d new_value = None"
  shows "\<exists>n' w'. foldE (define_removed new_value) ds (n, w) = Inr (n', w')
    \<and> touches (ld_name ` {d \<in> set ds. gone d}) (n, w) (n', w') \<and> (\<forall>d \<in> set ds. gone d \<longrightarrow> switched_off w' (ld_name d))"
  using assms(1-3)
proof (induction ds arbitrary: n w)
  case Nil
  then show ?case using touches_refl [of n w "{}"] by (simp del: touches.simps)
next
  case (Cons d ds)
  let ?N = "ld_name ` {d \<in> set ds. gone d}"
  obtain n1 w1 where 1: "define_removed new_value d (n, w) = Inr (n1, w1)"
      "touches (if gone d then {ld_name d} else {}) (n, w) (n1, w1)" "gone d \<longrightarrow> switched_off w1 (ld_name d)"
  proof (cases "gone d")
    case False
    then show ?thesis
      using that [of n w] touches_refl [OF Cons.prems(2,1)]
      by (auto simp: define_removed_def gone_def simp del: touches.simps)
  next
    case True
    then have "set_find log_define_less d new_value = None" by (simp add: gone_def)
    from remove_ok [OF Cons.prems(1,2) this] show ?thesis using True that by auto
  qed
  have "distinct (map ld_name ds)" using Cons.prems(3) by simp
  then obtain n2 w2 where 2: "foldE (define_removed new_value) ds (n1, w1) = Inr (n2, w2)"
      "touches ?N (n1, w1) (n2, w2)" "\<forall>d \<in> set ds. gone d \<longrightarrow> switched_off w2 (ld_name d)"
    using Cons.IH [OF touches_ok(1,2) [OF 1(2)]] by blast
  have "ld_name d \<notin> ?N" using Cons.prems(3) by auto
  then have "gone d \<longrightarrow> switched_off w2 (ld_name d)"
    using touches_off [OF _ 2(2) _ touches_ok(1) [OF 1(2)]] 1(3) by blast
  moreover have "touches ((if gone d then {ld_name d} else {}) \<union> ?N) (n, w) (n2, w2)"
    by (rule touches_trans [OF 1(2) 2(2)])
  moreover have "(if gone d then {ld_name d} else {}) \<union> ?N = ld_name ` {d' \<in> set (d # ds). gone d'}" by auto
  ultimately show ?case using 1(1) 2 by (simp del: touches.simps)
qed

lemma log_define_eq_iff:
  "log_define_eq a b \<longleftrightarrow> ld_name a = ld_name b \<and> ld_level a = ld_level b \<and> ld_formatter a = ld_formatter b"
  by (auto simp: log_define_eq_def appender_define_eq_def list_all2_same)

lemma find_define:
  "sorted_wrt log_define_less ds \<Longrightarrow> set_find log_define_less d ds = find (\<lambda>x. ld_name x = ld_name d) ds"
proof (induction ds)
  case (Cons x ds)
  show ?case
  proof (cases "log_define_less d x")
    case True
    have "ld_name y \<noteq> ld_name d" if "y \<in> set (x # ds)" for y
    proof -
      have "str_less (ld_name d) (ld_name y)"
        using that True Cons.prems str_order.lt_trans by (auto simp: log_define_less_def)
      then show ?thesis using str_order.lt_irrefl by metis
    qed
    then have "find (\<lambda>x. ld_name x = ld_name d) (x # ds) = None" unfolding find_None_iff by auto
    then show ?thesis using True by (simp only: set_find.simps if_True)
  next
    case False
    then show ?thesis
      using Cons str_order.lt_irrefl str_order.lt_total [of "ld_name d" "ld_name x"] by (auto simp: log_define_less_def)
  qed
qed simp

lemma sorted_names: "sorted_wrt log_define_less ds \<Longrightarrow> distinct (map ld_name ds)"
  using str_order.sorted_distinct [of "map ld_name ds"] by (simp add: sorted_wrt_map log_define_less_def [abs_def])

text \<open>
  C24. The listener carries a configuration over: after it every definition that is new, or differs from the
  old one of its name in level or formatter, has a logger with that level, with that formatter when
  the pattern compiles, and with exactly the appenders defined, in order, each with its level, its
  destination and its own formatter when that compiles (the console ones are left out when the
  program runs as a daemon); the loggers of definitions that are gone are at \<open>OFF\<close> with no
  appender; no other logger changes, and the logs stay well formed. So a definition in which only
  the appenders differ is not carried over.
\<close>

theorem configuration_applied:
  assumes "logs_ok w" and "free_from n w" and "\<forall>d \<in> set new_value. define_ok d"
    and "sorted_wrt log_define_less old" and "sorted_wrt log_define_less new_value"
  defines "same \<equiv> \<lambda>d. \<exists>d0 \<in> set old. ld_name d = ld_name d0 \<and> ld_level d = ld_level d0 \<and> ld_formatter d = ld_formatter d0"
    and "gone \<equiv> \<lambda>d. ld_name d \<notin> ld_name ` set new_value"
  shows "\<exists>n' w'. apply_defines e en old new_value (n, w) = Inr (n', w') \<and> logs_ok w'
    \<and> (\<forall>d \<in> set new_value. \<not> same d \<longrightarrow> as_defined en w' d)
    \<and> (\<forall>d \<in> set old. gone d \<longrightarrow> switched_off w' (ld_name d))
    \<and> (\<forall>l x. loggers w l = Some x \<and> l_name x \<notin> ld_name ` ({d \<in> set new_value. \<not> same d} \<union> {d \<in> set old. gone d}) \<longrightarrow>
         loggers w' l = Some x)"
proof -
  have keep: "(\<exists>d0. set_find log_define_less d old = Some d0 \<and> log_define_eq d d0) = same d" for d
  proof -
    have "(find (\<lambda>x. ld_name x = ld_name d) old = Some d0) = (d0 \<in> set old \<and> ld_name d0 = ld_name d)" for d0
      using sorted_names [OF assms(4)] by (induction old) (auto simp: image_iff)
    then show ?thesis
      unfolding find_define [OF assms(4)] log_define_eq_iff same_def by metis
  qed
  have removed: "(set_find log_define_less d new_value = None) = gone d" for d
    by (auto simp: find_define [OF assms(5)] gone_def find_None_iff image_iff)
  let ?N = "ld_name ` {d \<in> set new_value. \<not> same d}"
  let ?M = "ld_name ` {d \<in> set old. gone d}"
  obtain n1 w1 where 1: "foldE (define_changed e en old) new_value (n, w) = Inr (n1, w1)" "touches ?N (n, w) (n1, w1)"
      "\<forall>d \<in> set new_value. \<not> same d \<longrightarrow> as_defined en w1 d"
    using changed_all_ok [OF assms(1-3) sorted_names [OF assms(5)], of e en old] unfolding keep by blast
  obtain n2 w2 where 2: "foldE (define_removed new_value) old (n1, w1) = Inr (n2, w2)" "touches ?M (n1, w1) (n2, w2)"
      "\<forall>d \<in> set old. gone d \<longrightarrow> switched_off w2 (ld_name d)"
    using removed_all_ok [OF touches_ok(1,2) [OF 1(2)] sorted_names [OF assms(4)], of new_value] unfolding removed by blast
  have "as_defined en w2 d" if "d \<in> set new_value" "\<not> same d" for d
  proof -
    have "ld_name d \<notin> ?M" using that(1) unfolding gone_def by (metis (no_types, lifting) imageE imageI mem_Collect_eq)
    then show ?thesis
      using touches_as_defined [OF _ 2(2) _ touches_ok(1) [OF 1(2)]] 1(3) that by blast
  qed
  moreover have "touches (?N \<union> ?M) (n, w) (n2, w2)" by (rule touches_trans [OF 1(2) 2(2)])
  ultimately show ?thesis
    using 1(1) 2 by (intro exI [of _ n2] exI [of _ w2]) (auto simp: apply_defines_def image_Un)
qed

theorem configuration_applied_witness:
  "\<exists>w n' w'. new_LoggerManager 1 1 [] = Inr (w :: str list logs)
     \<and> apply_defines example_outside new_Env [] [example_define] (2, w) = Inr (n', w') \<and> as_defined new_Env w' example_define"
proof -
  obtain w where w: "new_LoggerManager 1 1 [] = Inr (w :: str list logs)" by (simp add: new_LoggerManager_eq)
  have "free_from 2 w" using w by (auto simp: new_LoggerManager_eq free_from_def)
  moreover have "define_ok example_define" by (simp add: define_ok_def example_define_def chars_def)
  ultimately obtain n' w' where
      "apply_defines example_outside new_Env [] [example_define] (2, w) = Inr (n', w')" "as_defined new_Env w' example_define"
    using configuration_applied [OF new_LoggerManager_ok [OF w], of 2 "[example_define]" "[]" example_outside new_Env] by auto
  then show ?thesis using w by blast
qed

end
