(* ===== verification/Fiber.thy ===== *)
theory Fiber imports Prelude begin

text \<open>
  \<open>easy/base/Fiber.h\<close>, \<open>easy/base/Fiber.cc\<close>: fibers, the thread-local pointers and context
  switching. A fiber's \<open>ucontext_t\<close> is modelled by whether a suspended execution is saved in
  it; \<open>swapcontext\<close> saves the caller's and needs a saved one to jump to. A switch returns the
  state at the moment the other side starts to run. The lemmas give the transitions a fiber's
  state can make and that a thread always runs the fiber its pointer names.
\<close>

datatype state = INIT | READY | HOLD | EXEC | TERM_state | EXCEPT

text \<open>
  \<open>callback\<close> is \<open>cb_\<close>, an empty function is \<open>None\<close>. \<open>stack\<close> is false for the root fiber of a thread.
\<close>

record 'f fiber =
  fid :: nat
  stacksize :: nat
  state :: state
  stack :: bool
  callback :: "'f option"
  saved :: bool

text \<open>The thread-local variables; pointers are addresses, null is \<open>None\<close>.\<close>

record thread =
  t_running_fiber :: "nat option"
  t_root_fiber :: "nat option"
  t_scheduler :: "nat option"
  t_scheduler_fiber :: "nat option"

text \<open>Fibers by address and the two counters.\<close>

record 'f fibers =
  heap :: "nat \<Rightarrow> 'f fiber option"
  numsCreated :: nat
  fiber_count :: nat

definition getf :: "'f fibers \<Rightarrow> nat option \<Rightarrow> fault + 'f fiber" where
  "getf w p = (case Option.bind p (heap w) of None \<Rightarrow> Inl NullDeref | Some x \<Rightarrow> Inr x)"

definition setf :: "'f fibers \<Rightarrow> nat \<Rightarrow> 'f fiber \<Rightarrow> 'f fibers" where
  "setf w p x = w\<lparr>heap := (heap w)(p \<mapsto> x)\<rparr>"

definition finish :: "'f fiber \<Rightarrow> bool" where
  "finish f \<longleftrightarrow> state f = TERM_state \<or> state f = EXCEPT"

section \<open>Creation and destruction\<close>

definition new_root_Fiber :: "thread \<Rightarrow> 'f fibers \<Rightarrow> nat \<Rightarrow> thread \<times> 'f fibers" where
  "new_root_Fiber th w p =
     (th\<lparr>t_running_fiber := Some p\<rparr>,
      (setf w p \<lparr>fid = 0, stacksize = 0, state = EXEC, stack = False, callback = None, saved = False\<rparr>)
        \<lparr>fiber_count := fiber_count w + 1\<rparr>)"

text \<open>\<open>default_size\<close> is the configured \<open>fiber.stack_size\<close>; \<open>makecontext\<close> prepares an entry.\<close>

definition NewFiber :: "nat \<Rightarrow> 'f fibers \<Rightarrow> nat \<Rightarrow> 'f option \<Rightarrow> nat \<Rightarrow> fault + 'f fibers" where
  "NewFiber default_size w p f size0 =
     (let sz = (if size0 \<noteq> 0 then size0 else default_size) in
      guardE (sz \<noteq> 0) AssertFail
        (Inr ((setf w p \<lparr>fid = numsCreated w + 1, stacksize = sz, state = INIT, stack = True,
                         callback = f, saved = True\<rparr>)
                \<lparr>numsCreated := numsCreated w + 1, fiber_count := fiber_count w + 1\<rparr>)))"

definition delete_Fiber :: "thread \<Rightarrow> 'f fibers \<Rightarrow> nat \<Rightarrow> fault + thread \<times> 'f fibers" where
  "delete_Fiber th w p =
     bindE (getf w (Some p)) (\<lambda>f.
       let w' = w\<lparr>fiber_count := fiber_count w - 1, heap := (heap w)(p := None)\<rparr> in
       if stack f
       then guardE (state f = INIT \<or> state f = TERM_state \<or> state f = EXCEPT) AssertFail (Inr (th, w'))
       else guardE (callback f = None \<and> state f = EXEC) AssertFail
         (Inr (if t_running_fiber th = Some p then th\<lparr>t_running_fiber := None\<rparr> else th, w')))"

text \<open>\<open>GetThis\<close> creates the thread's root fiber, at the address \<open>fresh\<close>, on first use.\<close>

definition Fiber_GetThis :: "thread \<Rightarrow> 'f fibers \<Rightarrow> nat \<Rightarrow> nat \<times> thread \<times> 'f fibers" where
  "Fiber_GetThis th w fresh =
     (case t_running_fiber th of
        Some p \<Rightarrow> (p, th, w)
      | None \<Rightarrow> (let (th', w') = new_root_Fiber th w fresh in
          (fresh, th'\<lparr>t_root_fiber := Some fresh\<rparr>, w')))"

section \<open>Switching\<close>

text \<open>\<open>swapcontext(from, to)\<close>: jumping to a context nothing was saved in is undefined.\<close>

definition swapcontext :: "'f fibers \<Rightarrow> nat option \<Rightarrow> nat option \<Rightarrow> fault + 'f fibers" where
  "swapcontext w from_p to_p =
     bindE (getf w from_p) (\<lambda>a. bindE (getf w to_p) (\<lambda>b.
       let w1 = setf w (the from_p) (a\<lparr>saved := True\<rparr>) in
       bindE (getf w1 to_p) (\<lambda>b1.
         guardE (saved b1) OutOfBounds (Inr (setf w1 (the to_p) (b1\<lparr>saved := False\<rparr>))))))"

text \<open>The common part of \<open>sched_resume\<close> and \<open>resume\<close>.\<close>

definition resume_from :: "nat option \<Rightarrow> thread \<Rightarrow> 'f fibers \<Rightarrow> nat \<Rightarrow> fault + thread \<times> 'f fibers" where
  "resume_from here th w p =
     bindE (getf w (Some p)) (\<lambda>f.
       guardE (state f = INIT \<or> state f = READY \<or> state f = HOLD) AssertFail
         (bindE (swapcontext (setf w p (f\<lparr>state := EXEC\<rparr>)) here (Some p)) (\<lambda>w'.
           Inr (th\<lparr>t_running_fiber := Some p\<rparr>, w'))))"

definition sched_resume :: "thread \<Rightarrow> 'f fibers \<Rightarrow> nat \<Rightarrow> fault + thread \<times> 'f fibers" where
  "sched_resume th w p = resume_from (t_scheduler_fiber th) th w p"

definition resume :: "thread \<Rightarrow> 'f fibers \<Rightarrow> nat \<Rightarrow> fault + thread \<times> 'f fibers" where
  "resume th w p =
     guardE (t_root_fiber th \<noteq> None) AssertFail (resume_from (t_root_fiber th) th w p)"

definition sched_yield :: "thread \<Rightarrow> 'f fibers \<Rightarrow> nat \<Rightarrow> fault + thread \<times> 'f fibers" where
  "sched_yield th w p =
     bindE (swapcontext w (Some p) (t_scheduler_fiber th)) (\<lambda>w'.
       Inr (th\<lparr>t_running_fiber := t_scheduler_fiber th\<rparr>, w'))"

definition yield_root :: "thread \<Rightarrow> 'f fibers \<Rightarrow> nat \<Rightarrow> fault + thread \<times> 'f fibers" where
  "yield_root th w p =
     guardE (t_root_fiber th \<noteq> None) AssertFail
       (bindE (swapcontext w (Some p) (t_root_fiber th)) (\<lambda>w'.
         Inr (th\<lparr>t_running_fiber := t_root_fiber th\<rparr>, w')))"

definition reset_fiber :: "'f fibers \<Rightarrow> nat \<Rightarrow> 'f option \<Rightarrow> fault + 'f fibers" where
  "reset_fiber w p cb =
     bindE (getf w (Some p)) (\<lambda>f.
       guardE (stack f) AssertFail
         (Inr (setf w p (f\<lparr>callback := cb, saved := True, state := INIT\<rparr>))))"

text \<open>The choice both \<open>YieldToHold\<close> and \<open>MainFunc\<close> make between scheduler and root.\<close>

definition leave :: "thread \<Rightarrow> 'f fibers \<Rightarrow> nat \<Rightarrow> fault + thread \<times> 'f fibers" where
  "leave th w p =
     (if t_scheduler th \<noteq> None \<and> t_scheduler_fiber th \<noteq> t_running_fiber th
      then sched_yield th w p else yield_root th w p)"

text \<open>\<open>YieldToHold\<close> publishes the state first and switches afterwards.\<close>

definition mark_hold :: "thread \<Rightarrow> 'f fibers \<Rightarrow> nat \<Rightarrow> fault + nat \<times> thread \<times> 'f fibers" where
  "mark_hold th w fresh =
     (let (p, th', w') = Fiber_GetThis th w fresh in
      bindE (getf w' (Some p)) (\<lambda>f. Inr (p, th', setf w' p (f\<lparr>state := HOLD\<rparr>))))"

definition YieldToHold :: "thread \<Rightarrow> 'f fibers \<Rightarrow> nat \<Rightarrow> fault + thread \<times> 'f fibers" where
  "YieldToHold th w fresh = bindE (mark_hold th w fresh) (\<lambda>(p, th', w'). leave th' w' p)"

definition CurrentFiberId :: "thread \<Rightarrow> 'f fibers \<Rightarrow> fault + nat" where
  "CurrentFiberId th w =
     (case t_running_fiber th of None \<Rightarrow> Inr 0
      | Some p \<Rightarrow> bindE (getf w (Some p)) (\<lambda>f. Inr (fid f)))"

text \<open>The end of \<open>MainFunc\<close>, after the callback returned or threw.\<close>

definition MainFunc_end :: "bool \<Rightarrow> thread \<Rightarrow> 'f fibers \<Rightarrow> nat \<Rightarrow> fault + thread \<times> 'f fibers" where
  "MainFunc_end threw th w p =
     bindE (getf w (Some p)) (\<lambda>f.
       leave th (setf w p (if threw then f\<lparr>state := EXCEPT\<rparr> else f\<lparr>callback := None, state := TERM_state\<rparr>)) p)"

section \<open>Lemmas\<close>

named_theorems fibers_simp \<open>evaluation of fiber operations\<close>

lemma getf_simps [fibers_simp]:
  "getf w None = Inl NullDeref" "heap w p = Some f \<Longrightarrow> getf w (Some p) = Inr f"
  by (simp_all add: getf_def)

lemma getf_eq_Inr [faults]: "getf w q = Inr f \<longleftrightarrow> (\<exists>p. q = Some p \<and> heap w p = Some f)"
  by (cases q) (auto simp: getf_def split: option.splits)

lemma heap_setf [fibers_simp]: "heap (setf w p x) = (heap w)(p \<mapsto> x)"
  by (simp add: setf_def)

text \<open>A switch between two different fibers.\<close>

lemma swapcontext_eq [fibers_simp]:
  assumes "heap w a = Some fa" and "heap w b = Some fb" and "a \<noteq> b"
  shows "swapcontext w (Some a) (Some b) =
    (if saved fb then Inr (setf (setf w a (fa\<lparr>saved := True\<rparr>)) b (fb\<lparr>saved := False\<rparr>)) else Inl OutOfBounds)"
  using assms by (simp add: swapcontext_def getf_def setf_def guardE_def)

text \<open>A thread in its scheduler fiber \<open>s\<close>, and one running \<open>p\<close> that was resumed from there.\<close>

definition in_scheduler :: "thread \<Rightarrow> 'f fibers \<Rightarrow> nat \<Rightarrow> bool" where
  "in_scheduler th w s \<longleftrightarrow> t_scheduler th \<noteq> None \<and> t_scheduler_fiber th = Some s
     \<and> t_running_fiber th = Some s \<and> (\<exists>f. heap w s = Some f \<and> \<not> saved f)"

definition in_fiber :: "thread \<Rightarrow> 'f fibers \<Rightarrow> nat \<Rightarrow> nat \<Rightarrow> bool" where
  "in_fiber th w s p \<longleftrightarrow> t_scheduler th \<noteq> None \<and> t_scheduler_fiber th = Some s \<and> s \<noteq> p
     \<and> t_running_fiber th = Some p \<and> (\<exists>f. heap w s = Some f \<and> saved f)
     \<and> (\<exists>f. heap w p = Some f \<and> \<not> saved f \<and> state f = EXEC)"

lemma sched_resume_ok:
  assumes "in_scheduler th w s" and "heap w p = Some f" and "p \<noteq> s" and "saved f"
    and "state f \<in> {INIT, READY, HOLD}"
  obtains th' w' where "sched_resume th w p = Inr (th', w')" and "in_fiber th' w' s p"
    and "heap w' p = Some (f\<lparr>state := EXEC, saved := False\<rparr>)"
    and "\<And>q. q \<noteq> p \<Longrightarrow> q \<noteq> s \<Longrightarrow> heap w' q = heap w q"
    and "map_option state (heap w' s) = map_option state (heap w s)"
proof -
  obtain fs where fs: "heap w s = Some fs" using assms(1) by (auto simp: in_scheduler_def)
  let ?w = "setf w p (f\<lparr>state := EXEC\<rparr>)"
  have "swapcontext ?w (Some s) (Some p)
      = Inr (setf (setf ?w s (fs\<lparr>saved := True\<rparr>)) p (f\<lparr>state := EXEC, saved := False\<rparr>))"
    using fs assms(3,4) by (simp add: swapcontext_eq [of ?w s fs p "f\<lparr>state := EXEC\<rparr>"] heap_setf)
  then show ?thesis
    using assms fs
    by (intro that [of "th\<lparr>t_running_fiber := Some p\<rparr>"
          "setf (setf ?w s (fs\<lparr>saved := True\<rparr>)) p (f\<lparr>state := EXEC, saved := False\<rparr>)"])
      (auto simp: sched_resume_def resume_from_def fibers_simp guardE_def in_fiber_def in_scheduler_def)
qed

lemma leave_ok:
  assumes "in_fiber th w s p" and "heap w p = Some f"
  obtains th' w' where "leave th (setf w p (f\<lparr>state := st\<rparr>)) p = Inr (th', w')"
    and "in_scheduler th' w' s" and "heap w' p = Some (f\<lparr>state := st, saved := True\<rparr>)"
    and "\<And>q. q \<noteq> p \<Longrightarrow> q \<noteq> s \<Longrightarrow> heap w' q = heap w q"
proof -
  obtain fs where fs: "heap w s = Some fs" "saved fs" "s \<noteq> p" using assms(1) by (auto simp: in_fiber_def)
  let ?w = "setf w p (f\<lparr>state := st\<rparr>)"
  have "swapcontext ?w (Some p) (Some s)
      = Inr (setf (setf ?w p (f\<lparr>state := st, saved := True\<rparr>)) s (fs\<lparr>saved := False\<rparr>))"
    using fs by (simp add: swapcontext_eq [of ?w p "f\<lparr>state := st\<rparr>" s fs] heap_setf)
  then show ?thesis
    using assms fs
    by (intro that [of "th\<lparr>t_running_fiber := Some s\<rparr>"
          "setf (setf ?w p (f\<lparr>state := st, saved := True\<rparr>)) s (fs\<lparr>saved := False\<rparr>)"])
      (auto simp: leave_def sched_yield_def fibers_simp in_fiber_def in_scheduler_def)
qed

lemma in_fiber_running: "in_fiber th w s p \<Longrightarrow> Fiber_GetThis th w fresh = (p, th, w)"
  by (simp add: in_fiber_def Fiber_GetThis_def)

lemma YieldToHold_in_fiber:
  "in_fiber th w s p \<Longrightarrow> heap w p = Some f \<Longrightarrow>
   YieldToHold th w fresh = leave th (setf w p (f\<lparr>state := HOLD\<rparr>)) p"
  by (simp add: YieldToHold_def mark_hold_def in_fiber_running fibers_simp)

lemma MainFunc_end_in_fiber:
  "heap w p = Some f \<Longrightarrow>
   MainFunc_end threw th w p =
     leave th (setf w p ((if threw then f else f\<lparr>callback := None\<rparr>)
       \<lparr>state := (if threw then EXCEPT else TERM_state)\<rparr>)) p"
  by (simp add: MainFunc_end_def fibers_simp)

lemma MainFunc_end_leaves:
  assumes "in_fiber th w s p" and "heap w p = Some f"
  shows "\<exists>th' w' g. MainFunc_end threw th w p = Inr (th', w') \<and> in_scheduler th' w' s
    \<and> heap w' p = Some g \<and> finish g"
proof -
  let ?f = "if threw then f else f\<lparr>callback := None\<rparr>"
  let ?st = "if threw then EXCEPT else TERM_state"
  let ?v = "setf w p ?f"
  have "setf ?v p (?f\<lparr>state := ?st\<rparr>) = setf w p (?f\<lparr>state := ?st\<rparr>)" by (simp add: setf_def)
  moreover have v: "in_fiber th ?v s p" "heap ?v p = Some ?f"
    using assms by (auto simp: in_fiber_def heap_setf)
  moreover obtain th' w' where "leave th (setf ?v p (?f\<lparr>state := ?st\<rparr>)) p = Inr (th', w')"
      "in_scheduler th' w' s" "heap w' p = Some (?f\<lparr>state := ?st, saved := True\<rparr>)"
    by (rule leave_ok [OF v, of ?st])
  ultimately show ?thesis
    unfolding MainFunc_end_in_fiber [OF assms(2)]
    by (intro exI [of _ th'] exI [of _ w'] exI [of _ "?f\<lparr>state := ?st, saved := True\<rparr>"])
      (simp add: finish_def)
qed

section \<open>Properties\<close>

text \<open>
  C18. A resumed fiber runs and comes back: from its scheduler fiber a thread resumes a
  suspended fiber, which then is the running one in state \<open>EXEC\<close>; when it yields, the thread is
  back in the scheduler fiber and the fiber is suspended in \<open>HOLD\<close>; when its callback returns
  or throws, the thread is back too and the fiber is finished. A fiber that is running or
  finished is not resumed: the assertion fails.
\<close>

theorem resume_and_return:
  assumes "in_scheduler th w s" and "heap w p = Some f" and "p \<noteq> s" and "saved f"
  shows "if state f \<in> {INIT, READY, HOLD}
    then \<exists>th1 w1. sched_resume th w p = Inr (th1, w1) \<and> in_fiber th1 w1 s p
      \<and> (\<exists>th2 w2 g. YieldToHold th1 w1 fresh = Inr (th2, w2) \<and> in_scheduler th2 w2 s
           \<and> heap w2 p = Some g \<and> state g = HOLD \<and> saved g)
      \<and> (\<exists>th2 w2 g. MainFunc_end threw th1 w1 p = Inr (th2, w2) \<and> in_scheduler th2 w2 s
           \<and> heap w2 p = Some g \<and> finish g)
    else sched_resume th w p = Inl AssertFail"
proof (cases "state f \<in> {INIT, READY, HOLD}")
  case True
  obtain th1 w1 where r: "sched_resume th w p = Inr (th1, w1)" "in_fiber th1 w1 s p"
    by (rule sched_resume_ok [OF assms True])
  obtain g where g: "heap w1 p = Some g" using r(2) by (auto simp: in_fiber_def)
  obtain th2 w2 where "leave th1 (setf w1 p (g\<lparr>state := HOLD\<rparr>)) p = Inr (th2, w2)"
      "in_scheduler th2 w2 s" "heap w2 p = Some (g\<lparr>state := HOLD, saved := True\<rparr>)"
    by (rule leave_ok [OF r(2) g])
  then have "\<exists>th2 w2 g. YieldToHold th1 w1 fresh = Inr (th2, w2) \<and> in_scheduler th2 w2 s
      \<and> heap w2 p = Some g \<and> state g = HOLD \<and> saved g"
    unfolding YieldToHold_in_fiber [OF r(2) g] by auto
  then show ?thesis using True r MainFunc_end_leaves [OF r(2) g, of threw] by auto
next
  case False
  then show ?thesis
    using assms(2) by (auto simp: sched_resume_def resume_from_def fibers_simp)
qed

text \<open>A thread in its scheduler fiber 11, with a new fiber at address 12.\<close>

definition example_thread :: "nat \<Rightarrow> thread" where
  "example_thread s = \<lparr>t_running_fiber = Some s, t_root_fiber = Some s, t_scheduler = Some 0,
                       t_scheduler_fiber = Some s\<rparr>"

definition example_root :: "'f fiber" where
  "example_root = \<lparr>fid = 0, stacksize = 0, state = EXEC, stack = False, callback = None, saved = False\<rparr>"

definition example_fiber :: "'f \<Rightarrow> 'f fiber" where
  "example_fiber c = \<lparr>fid = 1, stacksize = 8, state = INIT, stack = True, callback = Some c, saved = True\<rparr>"

definition example_fibers :: "'f \<Rightarrow> 'f fibers" where
  "example_fibers c = \<lparr>heap = [11 \<mapsto> example_root, 12 \<mapsto> example_fiber c, 13 \<mapsto> example_root],
     numsCreated = 1, fiber_count = 3\<rparr>"

lemma example_world:
  "in_scheduler (example_thread 11) (example_fibers c) 11" "in_scheduler (example_thread 13) (example_fibers c) 13"
  "heap (example_fibers c) 12 = Some (example_fiber c)" "saved (example_fiber c)" "state (example_fiber c) = INIT"
  "heap (example_fibers c) 13 = Some example_root" "\<not> saved example_root"
  by (simp_all add: in_scheduler_def example_thread_def example_fibers_def example_root_def example_fiber_def)

theorem resume_and_return_witness:
  "\<exists>th1 w1. sched_resume (example_thread 11) (example_fibers ()) 12 = Inr (th1, w1) \<and> in_fiber th1 w1 11 12"
  using resume_and_return [OF example_world(1) [of "()"] example_world(3) [of "()"] _ example_world(4), where fresh = 0 and threw = False]
    example_world(5) [of "()"] by auto

text \<open>
  \<open>YieldToHold\<close> publishes \<open>HOLD\<close> before the context is saved: another thread that takes
  the fiber in between passes the assertion of \<open>sched_resume\<close> and jumps to a context that is
  not there.
\<close>

theorem yield_publishes_too_early:
  assumes "in_fiber th w s p" and "in_scheduler th2 w s2" and "s2 \<noteq> p"
  shows "\<exists>w'. mark_hold th w fresh = Inr (p, th, w') \<and> sched_resume th2 w' p = Inl OutOfBounds"
proof -
  obtain f where f: "heap w p = Some f" "\<not> saved f" using assms(1) by (auto simp: in_fiber_def)
  obtain fs where fs: "heap w s2 = Some fs" "t_scheduler_fiber th2 = Some s2"
    using assms(2) by (auto simp: in_scheduler_def)
  let ?w = "setf w p (f\<lparr>state := HOLD\<rparr>)"
  have "swapcontext (setf ?w p (f\<lparr>state := EXEC\<rparr>)) (Some s2) (Some p) = Inl OutOfBounds"
    using f fs assms(3) by (simp add: swapcontext_eq [of _ s2 fs p "f\<lparr>state := EXEC\<rparr>"] heap_setf)
  then have "sched_resume th2 ?w p = Inl OutOfBounds"
    using f fs by (simp add: sched_resume_def resume_from_def getf_simps heap_setf)
  moreover have "mark_hold th w fresh = Inr (p, th, ?w)"
    using f by (simp add: mark_hold_def in_fiber_running [OF assms(1)] getf_simps)
  ultimately show ?thesis by blast
qed

theorem yield_publishes_too_early_witness:
  "\<exists>th (w :: unit fibers) w'. in_fiber th w 11 12 \<and> mark_hold th w 9 = Inr (12, th, w')
     \<and> sched_resume (example_thread 13) w' 12 = Inl OutOfBounds"
proof -
  obtain th1 w1 where r: "in_fiber th1 w1 11 12"
      and others: "\<And>q. q \<noteq> 12 \<Longrightarrow> q \<noteq> 11 \<Longrightarrow> heap w1 q = heap (example_fibers ()) q"
    by (rule sched_resume_ok [OF example_world(1) [of "()"] example_world(3) [of "()"] _ example_world(4)])
      (simp_all add: example_world)
  have "in_scheduler (example_thread 13) w1 13"
    using others [of 13] example_world(2) [of "()"] by (simp add: in_scheduler_def)
  from yield_publishes_too_early [OF r this, of 9] r show ?thesis by auto
qed

end
