(* ===== verification/Scheduler.thy ===== *)
theory Scheduler imports Fiber begin

text \<open>
  \<open>easy/base/Scheduler.h\<close>, \<open>easy/base/Scheduler.cc\<close>: the task queue, its scheduling and taking,
  the worker loop \<open>run\<close> one iteration at a time, \<open>start\<close> and \<open>stop\<close>. What a fiber does between
  being resumed and switching back is the argument \<open>body\<close>; the virtual \<open>weakup\<close> is the
  argument \<open>wk\<close>. The interface \<open>task_queue\<close> is what the code that posts tasks relies on.
\<close>

section \<open>The interface of a task queue\<close>

locale task_queue =
  fixes post :: "'s \<Rightarrow> 't \<Rightarrow> 's"
    and queued :: "'s \<Rightarrow> 't list"
    and null_task :: "'t \<Rightarrow> bool"
  assumes queued_post: "queued (post s t) = queued s @ (if null_task t then [] else [t])"
begin

text \<open>Posting several tasks one after the other keeps their order and drops only null ones.\<close>

lemma queued_post_all: "queued (foldl post s ts) = queued s @ filter (\<lambda>t. \<not> null_task t) ts"
  by (induction ts arbitrary: s) (simp_all add: queued_post)

lemma post_keeps: "set (queued s) \<subseteq> set (queued (post s t))"
  by (auto simp: queued_post)

end

section \<open>State\<close>

text \<open>A \<open>Task\<close>: a fiber or a callback, and the thread it is pinned to (-1 for any).\<close>

record 'c task =
  task_fiber :: "nat option"
  task_cb :: "'c option"
  threadId :: int

text \<open>\<open>weakups\<close> counts the bytes \<open>weakup\<close> has put into the pipe of an \<open>IOManager\<close>.\<close>

record 'c sched =
  callerTid :: int
  threadIds :: "int list"
  threadNums :: nat
  activeThreadNums :: int
  idleThreadNums :: int
  running :: bool
  threads :: "int list"
  tasks :: "'c task list"
  callerFiber :: "nat option"
  weakups :: nat

definition fiber_task :: "nat \<Rightarrow> 'c task" where
  "fiber_task p = \<lparr>task_fiber = Some p, task_cb = None, threadId = -1\<rparr>"

definition cb_task :: "'c option \<Rightarrow> 'c task" where
  "cb_task f = \<lparr>task_fiber = None, task_cb = f, threadId = -1\<rparr>"

text \<open>
  The constructor: with \<open>use_caller\<close> the calling thread \<open>tid\<close> is one of the workers, and its
  fiber at address \<open>fresh\<close> runs the loop. \<open>nested\<close> is whether the thread has a scheduler.
\<close>

definition new_Scheduler :: "int \<Rightarrow> bool \<Rightarrow> int \<Rightarrow> bool \<Rightarrow> nat \<Rightarrow> fault + 'c sched" where
  "new_Scheduler n use_caller tid nested fresh =
     guardE (0 < n) AssertFail
      (let s = \<lparr>callerTid = -1, threadIds = [], threadNums = nat n, activeThreadNums = 0,
                idleThreadNums = 0, running = False, threads = [], tasks = [],
                callerFiber = None, weakups = 0\<rparr> in
       if use_caller
       then guardE (\<not> nested) AssertFail
         (Inr (s\<lparr>callerTid := tid, threadIds := [tid], threadNums := nat (n - 1),
                 callerFiber := Some fresh\<rparr>))
       else Inr s)"

definition canStop :: "'c sched \<Rightarrow> bool" where
  "canStop s \<longleftrightarrow> \<not> running s \<and> tasks s = [] \<and> activeThreadNums s = 0"

definition hasIdleThread :: "'c sched \<Rightarrow> bool" where
  "hasIdleThread s \<longleftrightarrow> 0 < idleThreadNums s"

section \<open>Scheduling\<close>

definition null_task :: "'c task \<Rightarrow> bool" where
  "null_task t \<longleftrightarrow> task_fiber t = None \<and> task_cb t = None"

definition scheduleNonBlock :: "'c sched \<Rightarrow> 'c task \<Rightarrow> bool \<times> 'c sched" where
  "scheduleNonBlock s t =
     (tasks s = [],
      if task_fiber t \<noteq> None \<or> task_cb t \<noteq> None then s\<lparr>tasks := tasks s @ [t]\<rparr> else s)"

definition schedule :: "('c sched \<Rightarrow> 'c sched) \<Rightarrow> 'c sched \<Rightarrow> 'c task \<Rightarrow> 'c sched" where
  "schedule wk s t =
     (let (should_weakup, s') = scheduleNonBlock s t in if should_weakup then wk s' else s')"

fun schedule_loop :: "bool \<Rightarrow> 'c sched \<Rightarrow> 'c task list \<Rightarrow> bool \<times> 'c sched" where
  "schedule_loop need s [] = (need, s)"
| "schedule_loop need s (t # ts) =
     (let (w, s') = scheduleNonBlock s t in schedule_loop (w \<or> need) s' ts)"

definition schedule_range :: "('c sched \<Rightarrow> 'c sched) \<Rightarrow> 'c sched \<Rightarrow> 'c task list \<Rightarrow> 'c sched" where
  "schedule_range wk s ts =
     (let (need_weakup, s') = schedule_loop False s ts in if need_weakup then wk s' else s')"

text \<open>\<open>Scheduler::weakup\<close> does nothing; \<open>IOManager::weakup\<close> writes a byte for an idle thread.\<close>

definition weakup :: "'c sched \<Rightarrow> 'c sched" where
  "weakup s = s"

definition io_weakup :: "'c sched \<Rightarrow> 'c sched" where
  "io_weakup s = (if \<not> hasIdleThread s then s else s\<lparr>weakups := weakups s + 1\<rparr>)"

section \<open>Taking\<close>

text \<open>The loop of \<open>take\<close> on thread \<open>tid\<close>; \<open>ex p\<close> is whether the fiber \<open>p\<close> is in \<open>EXEC\<close>.\<close>

fun take_scan :: "(nat \<Rightarrow> bool) \<Rightarrow> int \<Rightarrow> 'c task list \<Rightarrow> fault + ('c task \<times> 'c task list) option" where
  "take_scan ex tid [] = Inr None"
| "take_scan ex tid (t # ts) =
     (let skip = bindE (take_scan ex tid ts) (\<lambda>r. Inr (map_option (\<lambda>(u, us). (u, t # us)) r)) in
      if threadId t \<noteq> -1 \<and> threadId t \<noteq> tid then skip
      else if task_fiber t = None \<and> task_cb t = None then Inl AssertFail
      else if (case task_fiber t of None \<Rightarrow> False | Some p \<Rightarrow> ex p) then skip
      else Inr (Some (t, ts)))"

definition take_task :: "(nat \<Rightarrow> bool) \<Rightarrow> int \<Rightarrow> 'c sched \<Rightarrow> fault + 'c task option \<times> 'c sched" where
  "take_task ex tid s =
     bindE (take_scan ex tid (tasks s)) (\<lambda>r.
       Inr (case r of None \<Rightarrow> (None, s) | Some (t, ts) \<Rightarrow> (Some t, s\<lparr>tasks := ts\<rparr>)))"

section \<open>The worker loop\<close>

text \<open>The callback of a fiber: what a task came with, or the scheduler's own \<open>idle\<close> (\<open>std::bind(&Scheduler::idle, this)\<close>).\<close>

datatype 'c job = Job 'c | IdleLoop

text \<open>
  What a worker sees: its thread-local pointers, the fibers and the scheduler, and \<open>outside\<close> what the callbacks themselves
  work on, which the scheduler never looks at.
\<close>

record ('c, 'k) world =
  thr :: thread
  fib :: "'c job fibers"
  sch :: "'c sched"
  outside :: 'k

definition exec_state :: "'f fibers \<Rightarrow> nat \<Rightarrow> bool" where
  "exec_state fb p \<longleftrightarrow> (case heap fb p of None \<Rightarrow> False | Some f \<Rightarrow> state f = EXEC)"

text \<open>
  \<open>handleFiber\<close>: resume the fiber, and when it has switched back look at its state.
\<close>

definition handleFiber ::
    "(nat \<Rightarrow> ('c, 'k) world \<Rightarrow> fault + ('c, 'k) world) \<Rightarrow> ('c sched \<Rightarrow> 'c sched) \<Rightarrow> nat \<Rightarrow> ('c, 'k) world \<Rightarrow> fault + ('c, 'k) world" where
  "handleFiber body wk p w =
     bindE (sched_resume (thr w) (fib w) p) (\<lambda>(th, fb).
       bindE (body p (w\<lparr>thr := th, fib := fb\<rparr>)) (\<lambda>w'.
         bindE (getf (fib w') (Some p)) (\<lambda>f.
           Inr (case state f of
                  INIT \<Rightarrow> w'\<lparr>fib := setf (fib w') p (f\<lparr>state := HOLD\<rparr>)\<rparr>
                | EXEC \<Rightarrow> w'\<lparr>fib := setf (fib w') p (f\<lparr>state := HOLD\<rparr>)\<rparr>
                | HOLD \<Rightarrow> w'\<lparr>fib := setf (fib w') p (f\<lparr>state := HOLD\<rparr>)\<rparr>
                | READY \<Rightarrow> w'\<lparr>sch := schedule wk (sch w') (fiber_task p)\<rparr>
                | TERM_state \<Rightarrow> w'
                | EXCEPT \<Rightarrow> w'))))"

definition with_idle :: "int \<Rightarrow> ('c, 'k) world \<Rightarrow> ('c, 'k) world" where
  "with_idle d w = w\<lparr>sch := (sch w)\<lparr>idleThreadNums := idleThreadNums (sch w) + d\<rparr>\<rparr>"

definition with_active :: "int \<Rightarrow> ('c, 'k) world \<Rightarrow> ('c, 'k) world" where
  "with_active d w = w\<lparr>sch := (sch w)\<lparr>activeThreadNums := activeThreadNums (sch w) + d\<rparr>\<rparr>"

text \<open>A taken task with a callback gets a fiber of its own, at the address \<open>fresh\<close>.\<close>

definition task_to_fiber :: "nat \<Rightarrow> nat \<Rightarrow> 'c task \<Rightarrow> ('c, 'k) world \<Rightarrow> fault + nat option \<times> ('c, 'k) world" where
  "task_to_fiber default_size fresh t w =
     (if task_cb t \<noteq> None
      then guardE (task_fiber t = None) AssertFail
        (bindE (NewFiber default_size (fib w) fresh (map_option Job (task_cb t)) 0) (\<lambda>fb. Inr (Some fresh, w\<lparr>fib := fb\<rparr>)))
      else Inr (task_fiber t, w))"

text \<open>
  One iteration of \<open>run\<close> on thread \<open>tid\<close> with the idle fiber \<open>idle\<close>; \<open>False\<close> is the \<open>break\<close>.
\<close>

definition run_once ::
    "(nat \<Rightarrow> ('c, 'k) world \<Rightarrow> fault + ('c, 'k) world) \<Rightarrow> ('c sched \<Rightarrow> 'c sched) \<Rightarrow> nat \<Rightarrow> int \<Rightarrow> nat \<Rightarrow> nat \<Rightarrow>
     ('c, 'k) world \<Rightarrow> fault + bool \<times> ('c, 'k) world" where
  "run_once body wk default_size tid idle fresh w0 =
     bindE (take_task (exec_state (fib w0)) tid (sch w0)) (\<lambda>(task, s).
       let w = w0\<lparr>sch := s\<rparr> in
       bindE (getf (fib w) (Some idle)) (\<lambda>i.
         if finish i then Inr (False, w)
         else case task of
           None \<Rightarrow>
             bindE (handleFiber body wk idle (with_idle 1 w)) (\<lambda>w'. Inr (True, with_idle (-1) w'))
         | Some t \<Rightarrow>
             bindE (task_to_fiber default_size fresh t w) (\<lambda>(p, w1).
               case p of None \<Rightarrow> Inr (True, w1)
               | Some p \<Rightarrow>
                   bindE (getf (fib w1) (Some p)) (\<lambda>f.
                     if finish f then Inr (True, w1)
                     else bindE (handleFiber body wk p (with_active 1 w1)) (\<lambda>w'.
                       Inr (True, with_active (-1) w'))))))"

section \<open>Starting and stopping\<close>

text \<open>\<open>ids\<close> are the thread ids the created \<open>Thread\<close>s report.\<close>

definition start :: "int list \<Rightarrow> 'c sched \<Rightarrow> fault + 'c sched" where
  "start ids s =
     (if running s then Inr s
      else guardE (threads s = []) AssertFail
        (Inr (s\<lparr>running := True, threads := take (threadNums s) ids,
                threadIds := threadIds s @ take (threadNums s) ids\<rparr>)))"

text \<open>
  \<open>stop\<close>: \<open>can\<close> is the virtual \<open>canStop\<close>, \<open>caller_done\<close> whether the caller fiber is finished or
  in \<open>INIT\<close>, \<open>run_caller\<close> what resuming it does, \<open>join\<close> what the workers do until they end.
\<close>

definition stop ::
    "('c sched \<Rightarrow> 'c sched) \<Rightarrow> ('c sched \<Rightarrow> bool) \<Rightarrow> bool \<Rightarrow> ('c sched \<Rightarrow> 'c sched) \<Rightarrow> ('c sched \<Rightarrow> 'c sched) \<Rightarrow>
     'c sched \<Rightarrow> 'c sched" where
  "stop wk can caller_done run_caller join s =
     (let alone = (callerFiber s \<noteq> None \<and> threadNums s = 0 \<and> caller_done);
          s1 = s\<lparr>running := False\<rparr> in
      if alone \<and> can s1 then s1
      else let s2 = (wk ^^ threadNums s1) s1;
               s3 = (if callerFiber s2 \<noteq> None
                     then (let s' = wk s2 in if \<not> can s' then run_caller s' else s') else s2) in
        (join s3)\<lparr>threads := []\<rparr>)"

section \<open>The queue\<close>

named_theorems sched_simp \<open>evaluation of scheduler operations\<close>

lemma io_weakup_fields [sched_simp]:
  "tasks (io_weakup s) = tasks s" "idleThreadNums (io_weakup s) = idleThreadNums s"
  "activeThreadNums (io_weakup s) = activeThreadNums s" "running (io_weakup s) = running s"
  by (simp_all add: io_weakup_def)

lemma scheduleNonBlock_eq:
  "scheduleNonBlock s t = (tasks s = [], s\<lparr>tasks := tasks s @ (if null_task t then [] else [t])\<rparr>)"
  by (auto simp: scheduleNonBlock_def null_task_def)

lemma schedule_fields [sched_simp]:
  "tasks (schedule io_weakup s t) = tasks s @ (if null_task t then [] else [t])"
  "idleThreadNums (schedule io_weakup s t) = idleThreadNums s"
  "activeThreadNums (schedule io_weakup s t) = activeThreadNums s"
  "running (schedule io_weakup s t) = running s"
  by (simp_all add: schedule_def scheduleNonBlock_eq sched_simp)

interpretation io_queue: task_queue "schedule io_weakup" tasks null_task
  by unfold_locales (simp add: sched_simp)

interpretation base_queue: task_queue "schedule weakup" tasks null_task
  by unfold_locales (simp add: schedule_def scheduleNonBlock_eq weakup_def)

lemma schedule_loop_eq:
  "schedule_loop need s ts =
     (need \<or> (tasks s = [] \<and> ts \<noteq> []), s\<lparr>tasks := tasks s @ filter (\<lambda>t. \<not> null_task t) ts\<rparr>)"
  by (induction ts arbitrary: need s) (auto simp: scheduleNonBlock_eq)

lemma schedule_range_eq:
  "schedule_range wk s ts =
     (let s' = s\<lparr>tasks := tasks s @ filter (\<lambda>t. \<not> null_task t) ts\<rparr> in
      if tasks s = [] \<and> ts \<noteq> [] then wk s' else s')"
  by (simp add: schedule_range_def schedule_loop_eq Let_def)

lemma schedule_range_tasks [sched_simp]:
  "tasks (schedule_range io_weakup s ts) = tasks s @ filter (\<lambda>t. \<not> null_task t) ts"
  by (simp add: schedule_range_eq Let_def sched_simp)

section \<open>Taking\<close>

definition eligible :: "(nat \<Rightarrow> bool) \<Rightarrow> int \<Rightarrow> 'c task \<Rightarrow> bool" where
  "eligible ex tid t \<longleftrightarrow> (threadId t = -1 \<or> threadId t = tid)
     \<and> (case task_fiber t of None \<Rightarrow> True | Some p \<Rightarrow> \<not> ex p)"

text \<open>The queue as \<open>schedule\<close> builds it: no null task.\<close>

definition queue_ok :: "'c sched \<Rightarrow> bool" where
  "queue_ok s \<longleftrightarrow> (\<forall>t \<in> set (tasks s). \<not> null_task t)"

lemma take_scan_none:
  "\<forall>t \<in> set ts. \<not> null_task t \<and> \<not> eligible ex tid t \<Longrightarrow> take_scan ex tid ts = Inr None"
  by (induction ts) (auto simp: eligible_def null_task_def Let_def split: option.splits)

lemma take_scan_some:
  "\<forall>t \<in> set pre. \<not> null_task t \<and> \<not> eligible ex tid t \<Longrightarrow> \<not> null_task t \<Longrightarrow> eligible ex tid t \<Longrightarrow>
   take_scan ex tid (pre @ t # post) = Inr (Some (t, pre @ post))"
  by (induction pre) (auto simp: eligible_def null_task_def Let_def split: option.splits)

lemma take_task_cases:
  assumes "queue_ok s"
  obtains (none) "\<forall>t \<in> set (tasks s). \<not> eligible ex tid t" "take_task ex tid s = Inr (None, s)"
  | (some) pre t post where "tasks s = pre @ t # post" "\<forall>u \<in> set pre. \<not> eligible ex tid u"
      "eligible ex tid t" "\<not> null_task t" "take_task ex tid s = Inr (Some t, s\<lparr>tasks := pre @ post\<rparr>)"
proof (cases "\<exists>t \<in> set (tasks s). eligible ex tid t")
  case True
  then obtain pre t post where *: "tasks s = pre @ t # post" "eligible ex tid t"
      "\<forall>u \<in> set pre. \<not> eligible ex tid u"
    using split_list_first_prop [of "tasks s" "eligible ex tid"] by blast
  then have "take_scan ex tid (tasks s) = Inr (Some (t, pre @ post))"
    using assms unfolding queue_ok_def *(1) by (intro take_scan_some) auto
  with * assms show ?thesis by (intro some) (auto simp: take_task_def queue_ok_def)
next
  case False
  then have "take_scan ex tid (tasks s) = Inr None"
    using assms by (intro take_scan_none) (auto simp: queue_ok_def)
  with False show ?thesis by (intro none) (auto simp: take_task_def)
qed

text \<open>
  \<open>take\<close> serves the queue in order: it removes the first task that is not pinned to
  another thread and whose fiber is not running, leaves all others in their order, and finds
  none only if there is none.
\<close>

theorem take_first_eligible:
  assumes "queue_ok s"
  shows "(\<exists>pre t post. tasks s = pre @ t # post \<and> eligible ex tid t
       \<and> (\<forall>u \<in> set pre. \<not> eligible ex tid u)
       \<and> take_task ex tid s = Inr (Some t, s\<lparr>tasks := pre @ post\<rparr>))
    \<or> (\<forall>t \<in> set (tasks s). \<not> eligible ex tid t) \<and> take_task ex tid s = Inr (None, s)"
  using assms by (cases rule: take_task_cases [where ex = ex and tid = tid]) blast+

definition three_tasks :: "nat sched" where
  "three_tasks = \<lparr>callerTid = -1, threadIds = [], threadNums = 1, activeThreadNums = 0, idleThreadNums = 0,
     running = True, threads = [],
     tasks = [\<lparr>task_fiber = None, task_cb = Some 1, threadId = 77\<rparr>, fiber_task 12, cb_task (Some 2)],
     callerFiber = None, weakups = 0\<rparr>"

lemma three_tasks_ok: "queue_ok three_tasks"
  by (simp add: queue_ok_def three_tasks_def fiber_task_def cb_task_def null_task_def)

theorem take_first_eligible_witness:
  "\<exists>s. take_task (\<lambda>p. p = 12) 5 three_tasks = Inr (Some (cb_task (Some 2)), s)"
  using take_first_eligible [OF three_tasks_ok, of "\<lambda>p. p = 12" 5]
  by (auto simp: three_tasks_def eligible_def fiber_task_def cb_task_def Cons_eq_append_conv)

text \<open>
  Scheduling a batch is scheduling its tasks one by one, as far as the queue goes: the
  non-null tasks are appended in order, and an idle worker is woken by one byte exactly when
  the queue was empty before.
\<close>

theorem schedule_range_appends:
  "tasks (schedule_range io_weakup s ts) = tasks s @ filter (\<lambda>t. \<not> null_task t) ts
   \<and> tasks (schedule_range io_weakup s ts) = tasks (foldl (schedule io_weakup) s ts)
   \<and> weakups (schedule_range io_weakup s ts)
       = weakups s + (if tasks s = [] \<and> ts \<noteq> [] \<and> hasIdleThread s then 1 else 0)"
  using io_queue.queued_post_all [of s ts]
  by (simp add: schedule_range_eq Let_def io_weakup_def hasIdleThread_def)

section \<open>One iteration of the worker loop\<close>

text \<open>
  What a fiber's code may do to the scheduler while it runs: post tasks. The counters are
  changed by the loop only.
\<close>

definition only_posts :: "('c, 'k) world \<Rightarrow> ('c, 'k) world \<Rightarrow> bool" where
  "only_posts w w' \<longleftrightarrow> (\<exists>new. tasks (sch w') = tasks (sch w) @ new)
     \<and> activeThreadNums (sch w') = activeThreadNums (sch w)
     \<and> idleThreadNums (sch w') = idleThreadNums (sch w)"

lemma only_posts_refl: "sch w' = sch w \<Longrightarrow> only_posts w w'"
  by (simp add: only_posts_def)

lemma only_posts_trans: "only_posts a b \<Longrightarrow> only_posts b c \<Longrightarrow> only_posts a c"
  by (auto simp: only_posts_def)

lemma handleFiber_posts:
  assumes body: "\<And>p w w'. body p w = Inr w' \<Longrightarrow> only_posts w w'"
    and "handleFiber body io_weakup p w = Inr w'"
  shows "only_posts w w'"
proof -
  obtain th fb w1 f where w1: "body p (w\<lparr>thr := th, fib := fb\<rparr>) = Inr w1"
      and w': "w' = (case state f of
                  INIT \<Rightarrow> w1\<lparr>fib := setf (fib w1) p (f\<lparr>state := HOLD\<rparr>)\<rparr>
                | EXEC \<Rightarrow> w1\<lparr>fib := setf (fib w1) p (f\<lparr>state := HOLD\<rparr>)\<rparr>
                | HOLD \<Rightarrow> w1\<lparr>fib := setf (fib w1) p (f\<lparr>state := HOLD\<rparr>)\<rparr>
                | READY \<Rightarrow> w1\<lparr>sch := schedule io_weakup (sch w1) (fiber_task p)\<rparr>
                | TERM_state \<Rightarrow> w1
                | EXCEPT \<Rightarrow> w1)"
    using assms(2) by (auto simp: handleFiber_def bindE_eq_Inr)
  have "only_posts w (w\<lparr>thr := th, fib := fb\<rparr>)" by (rule only_posts_refl) simp
  moreover have "only_posts w1 w'"
    unfolding w' by (cases "state f") (simp_all add: only_posts_def sched_simp)
  ultimately show ?thesis using body [OF w1] only_posts_trans by blast
qed

lemma handleFiber_idle:
  assumes body: "\<And>p w w'. body p w = Inr w' \<Longrightarrow> only_posts w w'"
    and "handleFiber body io_weakup p (with_idle 1 w) = Inr w'"
  shows "only_posts w (with_idle (-1) w')"
  using handleFiber_posts [OF assms] by (auto simp: only_posts_def with_idle_def)

lemma handleFiber_active:
  assumes body: "\<And>p w w'. body p w = Inr w' \<Longrightarrow> only_posts w w'"
    and "handleFiber body io_weakup p (with_active 1 w) = Inr w'"
  shows "only_posts w (with_active (-1) w')"
  using handleFiber_posts [OF assms] by (auto simp: only_posts_def with_active_def)

lemma task_to_fiber_posts: "task_to_fiber n fresh t w = Inr (p, w') \<Longrightarrow> only_posts w w'"
  by (auto simp: task_to_fiber_def faults only_posts_def split: if_splits)

text \<open>
  C17. One iteration of a worker takes at most one task: the first in the queue that is not pinned to another thread and whose
  fiber is not running, and none only if there is no such task. When the iteration ends all other tasks are still queued in their
  order, with what was posted meanwhile behind them, and the counters of active and idle threads are what they were before.
\<close>

theorem run_once_keeps_queue:
  assumes "queue_ok (sch w)"
    and "\<And>p u u'. body p u = Inr u' \<Longrightarrow> only_posts u u'"
    and "run_once body io_weakup n tid idle fresh w = Inr (go, w')"
  shows "((\<exists>pre t post new. tasks (sch w) = pre @ t # post \<and> eligible (exec_state (fib w)) tid t
          \<and> (\<forall>u \<in> set pre. \<not> eligible (exec_state (fib w)) tid u) \<and> tasks (sch w') = pre @ post @ new)
       \<or> (\<forall>t \<in> set (tasks (sch w)). \<not> eligible (exec_state (fib w)) tid t)
          \<and> (\<exists>new. tasks (sch w') = tasks (sch w) @ new))
    \<and> activeThreadNums (sch w') = activeThreadNums (sch w)
    \<and> idleThreadNums (sch w') = idleThreadNums (sch w)"
proof -
  have rest: "only_posts (w\<lparr>sch := s\<rparr>) w'" if "take_task (exec_state (fib w)) tid (sch w) = Inr (task, s)" for task s
    using assms(3) that
    by (auto simp: run_once_def Let_def bindE_eq_Inr only_posts_refl
        split: if_splits option.splits prod.splits
        intro: handleFiber_idle [OF assms(2)] task_to_fiber_posts
          only_posts_trans [OF task_to_fiber_posts handleFiber_active [OF assms(2)]])
  show ?thesis
  proof (rule take_task_cases [OF assms(1), of "exec_state (fib w)" tid])
    assume none: "\<forall>t \<in> set (tasks (sch w)). \<not> eligible (exec_state (fib w)) tid t"
      and t: "take_task (exec_state (fib w)) tid (sch w) = Inr (None, sch w)"
    show ?thesis using rest [OF t] none by (simp add: only_posts_def)
  next
    fix pre t post
    assume "tasks (sch w) = pre @ t # post" "\<forall>u \<in> set pre. \<not> eligible (exec_state (fib w)) tid u"
      and "eligible (exec_state (fib w)) tid t"
      and t: "take_task (exec_state (fib w)) tid (sch w) = Inr (Some t, (sch w)\<lparr>tasks := pre @ post\<rparr>)"
    then show ?thesis using rest [OF t] by (auto simp: only_posts_def)
  qed
qed

definition example_done :: "'f fiber" where
  "example_done = \<lparr>fid = 2, stacksize = 8, state = TERM_state, stack = True, callback = None, saved = True\<rparr>"

text \<open>A worker on the thread of scheduler fiber 11; fiber 14 has finished.\<close>

definition example_worker :: "(nat, unit) world" where
  "example_worker = \<lparr>thr = example_thread 11, fib = setf (example_fibers (Job 0)) 14 example_done, sch = three_tasks, outside = ()\<rparr>"

lemma example_worker_heap:
  "heap (fib example_worker) 12 = Some (example_fiber (Job 0))" "heap (fib example_worker) 13 = Some example_root"
  "heap (fib example_worker) 14 = Some example_done" "in_scheduler (thr example_worker) (fib example_worker) 11"
  using example_world
  by (simp_all add: example_worker_def heap_setf in_scheduler_def)

lemma example_worker_take:
  "take_task (exec_state (fib example_worker)) 5 (sch example_worker)
     = Inr (Some (fiber_task 12), three_tasks\<lparr>tasks := [hd (tasks three_tasks), cb_task (Some 2)]\<rparr>)"
  "queue_ok (sch example_worker)" "fiber_task 12 \<in> set (tasks (sch example_worker))"
  "eligible (exec_state (fib example_worker)) 5 (fiber_task 12 :: nat task)"
proof -
  have "sch example_worker = three_tasks" by (simp add: example_worker_def)
  moreover have "\<not> exec_state (fib example_worker) 12"
    by (simp add: exec_state_def example_worker_heap example_world)
  ultimately show "take_task (exec_state (fib example_worker)) 5 (sch example_worker)
      = Inr (Some (fiber_task 12), three_tasks\<lparr>tasks := [hd (tasks three_tasks), cb_task (Some 2)]\<rparr>)"
    "queue_ok (sch example_worker)" "fiber_task 12 \<in> set (tasks (sch example_worker))"
    "eligible (exec_state (fib example_worker)) 5 (fiber_task 12 :: nat task)"
    using three_tasks_ok
    by (simp_all add: take_task_def three_tasks_def fiber_task_def cb_task_def Let_def eligible_def)
qed

theorem run_once_keeps_queue_witness:
  "\<exists>w' new. run_once (\<lambda>_ u. Inr u) io_weakup 8 5 13 15 example_worker = Inr (True, w')
     \<and> activeThreadNums (sch w') = 0
     \<and> tasks (sch w') = [hd (tasks three_tasks), cb_task (Some 2)] @ new"
proof -
  let ?w = "example_worker\<lparr>sch := three_tasks\<lparr>tasks := [hd (tasks three_tasks), cb_task (Some 2)]\<rparr>\<rparr>"
  have in_s: "in_scheduler (thr example_worker) (fib example_worker) 11" by (rule example_worker_heap(4))
  obtain th fb where r: "sched_resume (thr example_worker) (fib example_worker) 12 = Inr (th, fb)"
      "in_fiber th fb 11 12"
    by (rule sched_resume_ok [OF in_s example_worker_heap(1)]) (simp_all add: example_world)
  have "\<not> finish (example_root :: nat job fiber)" "\<not> finish (example_fiber (Job (0::nat)))"
    by (simp_all add: finish_def example_root_def example_fiber_def)
  moreover obtain f where "heap fb 12 = Some f" "state f = EXEC" using r(2) by (auto simp: in_fiber_def)
  ultimately obtain w' where go:
      "run_once (\<lambda>_ u. Inr u) io_weakup 8 5 13 15 example_worker = Inr (True, w')"
    using r(1) example_worker_heap
    by (simp add: run_once_def example_worker_take(1) getf_simps task_to_fiber_def fiber_task_def
        handleFiber_def with_active_def)
  have ex: "\<not> exec_state (fib example_worker) 12"
    by (simp add: exec_state_def example_worker_heap example_world)
  have e: "eligible (exec_state (fib example_worker)) 5 t \<longleftrightarrow> t \<noteq> hd (tasks three_tasks)"
    if "t \<in> set (tasks (sch example_worker))" for t
    using that ex by (auto simp: example_worker_def three_tasks_def eligible_def fiber_task_def cb_task_def)
  have old: "tasks (sch example_worker) = [hd (tasks three_tasks), fiber_task 12, cb_task (Some 2)]"
      "activeThreadNums (sch example_worker) = 0" "fiber_task 12 \<noteq> hd (tasks three_tasks)"
    by (simp_all add: example_worker_def three_tasks_def fiber_task_def)
  have "\<And>p u u'. (\<lambda>_ u. Inr u) p u = Inr u' \<Longrightarrow> only_posts u u'" by (simp add: only_posts_refl)
  from run_once_keeps_queue [OF example_worker_take(2) this go] show ?thesis
    using go e old by (auto simp: Cons_eq_append_conv)
qed

text \<open>
  A worker about to leave can drop a task: \<open>run\<close> takes a task before it looks whether the
  idle fiber has finished, so a task queued after the idle fiber's last \<open>canStop\<close> is removed
  from the queue by the iteration that ends the loop, and never run.
\<close>

theorem run_once_drops_task:
  assumes "queue_ok (sch w)" and "heap (fib w) idle = Some i" and "finish i"
    and "t \<in> set (tasks (sch w))" and "eligible (exec_state (fib w)) tid t"
  shows "\<exists>pre u post. tasks (sch w) = pre @ u # post
    \<and> run_once body wk n tid idle fresh w = Inr (False, w\<lparr>sch := (sch w)\<lparr>tasks := pre @ post\<rparr>\<rparr>)"
proof (rule take_task_cases [OF assms(1), of "exec_state (fib w)" tid])
  assume "\<forall>t \<in> set (tasks (sch w)). \<not> eligible (exec_state (fib w)) tid t"
  then show ?thesis using assms(4,5) by blast
next
  fix pre u post
  assume "tasks (sch w) = pre @ u # post"
    and "take_task (exec_state (fib w)) tid (sch w) = Inr (Some u, (sch w)\<lparr>tasks := pre @ post\<rparr>)"
  then show ?thesis
    using assms(2,3) by (intro exI [of _ pre] exI [of _ u] exI [of _ post])
      (simp add: run_once_def getf_simps)
qed

theorem run_once_drops_task_witness:
  "\<exists>s. run_once (\<lambda>_ u. Inr u) io_weakup 8 5 14 15 example_worker = Inr (False, example_worker\<lparr>sch := s\<rparr>)
     \<and> length (tasks s) < length (tasks (sch example_worker))"
proof -
  have "finish (example_done :: nat job fiber)" by (simp add: finish_def example_done_def)
  from run_once_drops_task [OF example_worker_take(2) example_worker_heap(3) this example_worker_take(3,4),
      of "\<lambda>_ u. Inr u" io_weakup 8 15]
  obtain pre u post where "tasks (sch example_worker) = pre @ u # post"
      "run_once (\<lambda>_ u. Inr u) io_weakup 8 5 14 15 example_worker
        = Inr (False, example_worker\<lparr>sch := (sch example_worker)\<lparr>tasks := pre @ post\<rparr>\<rparr>)" by blast
  then show ?thesis by (intro exI [of _ "(sch example_worker)\<lparr>tasks := pre @ post\<rparr>"]) simp
qed

end
