(* ===== verification/Channel.thy ===== *)
theory Channel imports Scheduler begin

text \<open>
  \<open>easy/base/Channel.h\<close>, \<open>easy/base/Channel.cc\<close>: what a file descriptor waits for. A channel
  keeps, for reading and for writing, who to schedule when the event fires; firing posts one
  task and clears the entry. The \<open>move\<close>d-from callback and pointer are empty.
\<close>

definition NONE :: u32 where "NONE = 0"
definition READ :: u32 where "READ = 1"
definition WRITE :: u32 where "WRITE = 4"

text \<open>\<open>EPOLLIN\<close> and \<open>EPOLLOUT\<close> are \<open>READ\<close> and \<open>WRITE\<close>; the others of \<open><sys/epoll.h>\<close>.\<close>

definition EPOLLERR :: u32 where "EPOLLERR = 8"
definition EPOLLHUP :: u32 where "EPOLLHUP = 16"
definition EPOLLET :: u32 where "EPOLLET = 0x80000000"

record 'c event_ctx =
  ctx_scheduler :: "nat option"
  ctx_fiber :: "nat option"
  ctx_cb :: "'c option"

record 'c channel =
  read_ctx :: "'c event_ctx"
  write_ctx :: "'c event_ctx"
  ch_fd :: int
  ch_events :: u32

definition no_ctx :: "'c event_ctx" where
  "no_ctx = \<lparr>ctx_scheduler = None, ctx_fiber = None, ctx_cb = None\<rparr>"

definition new_channel :: "nat \<Rightarrow> 'c channel" where
  "new_channel i = \<lparr>read_ctx = no_ctx, write_ctx = no_ctx, ch_fd = int i, ch_events = NONE\<rparr>"

text \<open>\<open>getEventCtx\<close> returns a reference: reading it, and writing through it.\<close>

definition getEventCtx :: "'c channel \<Rightarrow> u32 \<Rightarrow> fault + 'c event_ctx" where
  "getEventCtx ch event =
     (if event = READ then Inr (read_ctx ch)
      else if event = WRITE then Inr (write_ctx ch) else Inl AssertFail)"

definition setEventCtx :: "'c channel \<Rightarrow> u32 \<Rightarrow> 'c event_ctx \<Rightarrow> 'c channel" where
  "setEventCtx ch event ctx =
     (if event = READ then ch\<lparr>read_ctx := ctx\<rparr>
      else if event = WRITE then ch\<lparr>write_ctx := ctx\<rparr> else ch)"

definition cleanUp :: "'c event_ctx \<Rightarrow> 'c event_ctx" where
  "cleanUp ctx = ctx\<lparr>ctx_scheduler := None, ctx_fiber := None, ctx_cb := None\<rparr>"

text \<open>
  \<open>handleEvent\<close>: \<open>post s t w\<close> is \<open>schedule\<close> called on the scheduler at address \<open>s\<close>.
\<close>

definition handleEvent ::
    "(nat \<Rightarrow> 'c task \<Rightarrow> 'w \<Rightarrow> 'w) \<Rightarrow> u32 \<Rightarrow> 'c channel \<Rightarrow> 'w \<Rightarrow> fault + 'c channel \<times> 'w" where
  "handleEvent post event ch w =
     (if ch_events ch AND event = 0 then Inr (ch, w)
      else let ch1 = ch\<lparr>ch_events := ch_events ch AND NOT event\<rparr> in
        bindE (getEventCtx ch1 event) (\<lambda>ctx.
          case ctx_scheduler ctx of None \<Rightarrow> Inl NullDeref
          | Some s \<Rightarrow>
              (if ctx_cb ctx \<noteq> None
               then guardE (ctx_fiber ctx = None) AssertFail
                 (Inr (setEventCtx ch1 event (ctx\<lparr>ctx_cb := None, ctx_scheduler := None\<rparr>),
                       post s (cb_task (ctx_cb ctx)) w))
               else Inr (setEventCtx ch1 event (ctx\<lparr>ctx_fiber := None, ctx_scheduler := None\<rparr>),
                         post s \<lparr>task_fiber = ctx_fiber ctx, task_cb = None, threadId = -1\<rparr> w))))"

section \<open>Well-formed channels\<close>

text \<open>An entry is empty, or names a scheduler and exactly one of a fiber and a callback.\<close>

definition ctx_ready :: "'c event_ctx \<Rightarrow> bool" where
  "ctx_ready c \<longleftrightarrow> ctx_scheduler c \<noteq> None \<and> (ctx_cb c = None \<longleftrightarrow> ctx_fiber c \<noteq> None)"

definition chan_ok :: "'c channel \<Rightarrow> bool" where
  "chan_ok ch \<longleftrightarrow> ch_events ch \<in> {0, READ, WRITE, READ OR WRITE}
     \<and> (if ch_events ch AND READ = 0 then read_ctx ch = no_ctx else ctx_ready (read_ctx ch))
     \<and> (if ch_events ch AND WRITE = 0 then write_ctx ch = no_ctx else ctx_ready (write_ctx ch))"

definition ctx_of :: "'c channel \<Rightarrow> u32 \<Rightarrow> 'c event_ctx" where
  "ctx_of ch event = (if event = READ then read_ctx ch else write_ctx ch)"

lemma getEventCtx_eq: "event \<in> {READ, WRITE} \<Longrightarrow> getEventCtx ch event = Inr (ctx_of ch event)"
  by (auto simp: getEventCtx_def ctx_of_def)

text \<open>The task an entry stands for.\<close>

definition ctx_task :: "'c event_ctx \<Rightarrow> 'c task" where
  "ctx_task c = \<lparr>task_fiber = ctx_fiber c, task_cb = ctx_cb c, threadId = -1\<rparr>"

definition event_count :: "u32 \<Rightarrow> int" where
  "event_count ev = (if ev AND READ = 0 then 0 else 1) + (if ev AND WRITE = 0 then 0 else 1)"

lemmas event_defs = NONE_def READ_def WRITE_def EPOLLERR_def EPOLLHUP_def EPOLLET_def

lemma ctx_ready_task: "ctx_ready c \<Longrightarrow> \<not> null_task (ctx_task c)"
  by (auto simp: ctx_ready_def null_task_def ctx_task_def)

text \<open>The channel without an event, whose entry is empty.\<close>

definition drop_event :: "'c channel \<Rightarrow> u32 \<Rightarrow> 'c channel" where
  "drop_event ch event = setEventCtx (ch\<lparr>ch_events := ch_events ch AND NOT event\<rparr>) event no_ctx"

lemma chan_ok_events:
  assumes "chan_ok ch"
  obtains "ch_events ch = 0" | "ch_events ch = 1" | "ch_events ch = 4" | "ch_events ch = 5"
  using assms by (auto simp: chan_ok_def event_defs)

lemma event_cases: "event \<in> {READ, WRITE} \<Longrightarrow> event = 1 \<or> event = 4"
  by (auto simp: event_defs)

lemma registered_event:
  assumes "chan_ok ch" and "event \<in> {READ, WRITE}" and "ch_events ch AND event \<noteq> 0"
  shows "event AND ch_events ch = event"
  using event_cases [OF assms(2)] assms(3) by (cases rule: chan_ok_events [OF assms(1)]) auto

lemma drop_event_ok:
  assumes "chan_ok ch" and "event \<in> {READ, WRITE}"
  shows "chan_ok (drop_event ch event)" and "ch_fd (drop_event ch event) = ch_fd ch"
    and "ch_events (drop_event ch event) = ch_events ch AND NOT event"
proof -
  show "ch_fd (drop_event ch event) = ch_fd ch"
    "ch_events (drop_event ch event) = ch_events ch AND NOT event"
    by (simp_all add: drop_event_def setEventCtx_def)
  show "chan_ok (drop_event ch event)"
    using event_cases [OF assms(2)] assms(1)
    by (cases rule: chan_ok_events [OF assms(1)])
      (auto simp: chan_ok_def drop_event_def setEventCtx_def event_defs)
qed

text \<open>Firing a registered event posts its one task and drops the event.\<close>

lemma handleEvent_fires:
  assumes "chan_ok ch" and "event \<in> {READ, WRITE}" and "ch_events ch AND event \<noteq> 0"
  obtains s where "ctx_scheduler (ctx_of ch event) = Some s" and "ctx_ready (ctx_of ch event)"
    and "handleEvent post event ch w = Inr (drop_event ch event, post s (ctx_task (ctx_of ch event)) w)"
proof -
  have ready: "ctx_ready (ctx_of ch event)"
    using assms by (auto simp: chan_ok_def ctx_of_def)
  then obtain s where s: "ctx_scheduler (ctx_of ch event) = Some s" by (auto simp: ctx_ready_def)
  let ?ch = "ch\<lparr>ch_events := ch_events ch AND NOT event\<rparr>"
  have get: "getEventCtx ?ch event = Inr (ctx_of ch event)"
    using getEventCtx_eq [OF assms(2), of ?ch] by (simp add: ctx_of_def)
  have "handleEvent post event ch w = Inr (drop_event ch event, post s (ctx_task (ctx_of ch event)) w)"
  proof (cases "ctx_cb (ctx_of ch event)")
    case None
    then have "(ctx_of ch event)\<lparr>ctx_fiber := None, ctx_scheduler := None\<rparr> = no_ctx"
      by (simp add: no_ctx_def)
    with None show ?thesis
      using assms(3) get s by (simp add: handleEvent_def Let_def drop_event_def ctx_task_def)
  next
    case (Some f)
    then have fib: "ctx_fiber (ctx_of ch event) = None" using ready by (auto simp: ctx_ready_def)
    then have "(ctx_of ch event)\<lparr>ctx_cb := None, ctx_scheduler := None\<rparr> = no_ctx"
      by (simp add: no_ctx_def)
    with Some fib show ?thesis
      using assms(3) get s by (simp add: handleEvent_def Let_def drop_event_def ctx_task_def cb_task_def)
  qed
  with s ready show ?thesis by (rule that)
qed

lemma handleEvent_idle: "ch_events ch AND event = 0 \<Longrightarrow> handleEvent post event ch w = Inr (ch, w)"
  by (simp add: handleEvent_def)

text \<open>Registering an event that was not there.\<close>

lemma add_event_ok:
  assumes "chan_ok ch" and "event \<in> {READ, WRITE}" and "ch_events ch AND event = 0" and "ctx_ready c"
  shows "chan_ok (setEventCtx (ch\<lparr>ch_events := ch_events ch OR event\<rparr>) event c)"
    and "event_count (ch_events ch OR event) = event_count (ch_events ch) + 1"
  using event_cases [OF assms(2)] assms
  by (cases rule: chan_ok_events [OF assms(1)];
      auto simp: chan_ok_def setEventCtx_def event_count_def event_defs)+

lemma event_count_drop:
  assumes "chan_ok ch" and "event \<in> {READ, WRITE}"
  shows "event_count (ch_events ch AND NOT event)
    = event_count (ch_events ch) - (if ch_events ch AND event = 0 then 0 else 1)"
  using event_cases [OF assms(2)]
  by (cases rule: chan_ok_events [OF assms(1)]; auto simp: event_count_def event_defs)

end
