(* ===== verification/Timer.thy ===== *)
theory Timer imports OrderedSet Timestamp begin

text \<open>
  \<open>easy/base/Timer.h\<close>, \<open>easy/base/Timer.cc\<close>: timers and the \<open>TimerManager\<close>. Timer objects live
  in a store from addresses to objects; the manager keeps a \<open>std::set\<close> of pointers ordered by
  expiration and then address, and a \<open>timerfd\<close> armed for the earliest. Times read from the
  clock are arguments of the operations; where one call reads the clock more than once (for the expiration of a
  timer or the timers that are due, and again in \<open>howMuchTimeFromNow\<close> when the descriptor is armed) one \<open>now\<close> stands for all readings. The lemmas show that the set and the callbacks stay
  consistent, that exactly the due timers fire, and that a cancelled timer never does.
\<close>

section \<open>State\<close>

text \<open>\<open>OnTimer\<close> binds a weak pointer to a condition object and a callback.\<close>

datatype callback = Plain nat | OnTimer nat nat

record timer =
  repeat :: bool
  interval :: int
  expiration :: timestamp
  cb :: "callback option"

text \<open>
  \<open>store\<close> holds the objects by address, \<open>live\<close> the addresses some \<open>shared_ptr\<close> refers to, and
  \<open>armed\<close> the moment the \<open>timerfd\<close> will become readable, \<open>None\<close> when it is not armed.
  Address 0 is the null pointer.
\<close>

record tmgr =
  store :: "nat \<Rightarrow> timer"
  live :: "nat list"
  timers :: "nat list"
  previous :: timestamp
  armed :: "timestamp option"

definition Comparator :: "(nat \<Rightarrow> timer) \<Rightarrow> nat \<Rightarrow> nat \<Rightarrow> bool" where
  "Comparator st lhs rhs =
     (if lhs = 0 \<and> rhs = 0 then False
      else if lhs = 0 then True
      else if rhs = 0 then False
      else if expiration (st lhs) < expiration (st rhs) then True
      else if expiration (st rhs) < expiration (st lhs) then False
      else lhs < rhs)"

interpretation timer_set: ordered_set "Comparator st" for st
  by unfold_locales (auto simp: Comparator_def split: if_splits)

definition new_Timer :: "timestamp \<Rightarrow> int \<Rightarrow> callback option \<Rightarrow> bool \<Rightarrow> timer" where
  "new_Timer now itv f rep = \<lparr>repeat = rep, interval = itv, expiration = addTime now itv, cb = f\<rparr>"

definition new_TimerManager :: "timestamp \<Rightarrow> tmgr" where
  "new_TimerManager now =
     \<lparr>store = (\<lambda>_. \<lparr>repeat = False, interval = 0, expiration = 0, cb = None\<rparr>),
      live = [], timers = [], previous = now, armed = None\<rparr>"

section \<open>The timer descriptor\<close>

definition howMuchTimeFromNow :: "timestamp \<Rightarrow> timestamp \<Rightarrow> int \<times> int" where
  "howMuchTimeFromNow now when =
     (let d = to_i64 (when - now); us = (if d < 100 then 100 else d) in
      (us sdiv kMicroSecondsPerSecond, (us smod kMicroSecondsPerSecond) * 1000))"

text \<open>A relative timer set at \<open>now\<close> becomes readable when the seconds and nanoseconds have passed.\<close>

definition resetTimerfd :: "timestamp \<Rightarrow> tmgr \<Rightarrow> timestamp \<Rightarrow> tmgr" where
  "resetTimerfd now m expire =
     (let (sec, nsec) = howMuchTimeFromNow now expire in
      m\<lparr>armed := Some (now + sec * 1000000 + nsec div 1000)\<rparr>)"

section \<open>Operations of the manager and of a timer\<close>

definition insertTimer :: "timestamp \<Rightarrow> tmgr \<Rightarrow> nat \<Rightarrow> tmgr" where
  "insertTimer now m t =
     (let m' = m\<lparr>timers := set_insert (Comparator (store m)) t (timers m)\<rparr> in
      if hd (timers m') = t then resetTimerfd now m' (expiration (store m t)) else m')"

text \<open>
  \<open>addTimer(interval, cb, repeat)\<close>: the object is created at an address \<open>t\<close> the allocator
  gives; the unsigned interval becomes an \<open>int64_t\<close>.
\<close>

definition addTimer :: "timestamp \<Rightarrow> tmgr \<Rightarrow> nat \<Rightarrow> nat \<Rightarrow> callback option \<Rightarrow> bool \<Rightarrow> tmgr" where
  "addTimer now m t itv f rep =
     insertTimer now (m\<lparr>store := (store m)(t := new_Timer now (to_i64 (int itv)) f rep),
                       live := t # live m\<rparr>) t"

definition addConditionTimer :: "timestamp \<Rightarrow> tmgr \<Rightarrow> nat \<Rightarrow> nat \<Rightarrow> nat \<Rightarrow> nat \<Rightarrow> bool \<Rightarrow> tmgr" where
  "addConditionTimer now m t itv f weak_cond rep = addTimer now m t itv (Some (OnTimer weak_cond f)) rep"

text \<open>Running a callback: \<open>OnTimer\<close> calls only if the condition object is still there.\<close>

definition run_callback :: "(nat \<Rightarrow> bool) \<Rightarrow> callback \<Rightarrow> nat list" where
  "run_callback alive f = (case f of Plain k \<Rightarrow> [k] | OnTimer w k \<Rightarrow> if alive w then [k] else [])"

text \<open>Erasing the iterator \<open>end()\<close> is undefined.\<close>

definition cancel :: "tmgr \<Rightarrow> nat \<Rightarrow> fault + bool \<times> tmgr" where
  "cancel m t =
     (if cb (store m t) \<noteq> None
      then let m' = m\<lparr>store := (store m)(t := (store m t)\<lparr>cb := None\<rparr>)\<rparr> in
        (case set_find (Comparator (store m')) t (timers m') of
           None \<Rightarrow> Inl EndDeref
         | Some x \<Rightarrow> Inr (True, m'\<lparr>timers := set_erase x (timers m')\<rparr>))
      else Inr (False, m))"

definition refresh :: "timestamp \<Rightarrow> tmgr \<Rightarrow> nat \<Rightarrow> bool \<times> tmgr" where
  "refresh now m t =
     (if cb (store m t) = None then (False, m)
      else case set_find (Comparator (store m)) t (timers m) of
        None \<Rightarrow> (False, m)
      | Some x \<Rightarrow>
          let ts = set_erase x (timers m);
              st = (store m)(t := (store m t)\<lparr>expiration := addTime now (interval (store m t))\<rparr>) in
          (True, m\<lparr>store := st, timers := set_insert (Comparator st) t ts\<rparr>))"

definition reset :: "timestamp \<Rightarrow> tmgr \<Rightarrow> nat \<Rightarrow> int \<Rightarrow> bool \<Rightarrow> bool \<times> tmgr" where
  "reset now m t itv from_now =
     (if itv = interval (store m t) \<and> \<not> from_now then (True, m)
      else if cb (store m t) = None then (False, m)
      else case set_find (Comparator (store m)) t (timers m) of
        None \<Rightarrow> (False, m)
      | Some x \<Rightarrow>
          let ts = set_erase x (timers m);
              start = (if from_now then now
                       else addTime (expiration (store m t)) (- interval (store m t)));
              st = (store m)(t := (store m t)\<lparr>interval := itv, expiration := addTime start itv\<rparr>) in
          (True, insertTimer now (m\<lparr>store := st, timers := ts\<rparr>) t))"

definition hasTimer :: "tmgr \<Rightarrow> bool" where
  "hasTimer m \<longleftrightarrow> timers m \<noteq> []"

definition detectClockRollover :: "timestamp \<Rightarrow> tmgr \<Rightarrow> bool \<times> tmgr" where
  "detectClockRollover now m =
     (now < previous m \<and> now < addTime (previous m) (- kSecondsPerHour), m\<lparr>previous := now\<rparr>)"

text \<open>The loop over the expired timers: collect the callback, then re-add or disarm.\<close>

fun fire :: "timestamp \<Rightarrow> nat list \<Rightarrow> tmgr \<Rightarrow> callback option list \<times> tmgr" where
  "fire now [] m = ([], m)"
| "fire now (t # ts) m =
     (let x = store m t;
          m' = (if repeat x
                then insertTimer now
                       (m\<lparr>store := (store m)(t := x\<lparr>expiration := addTime now (interval x)\<rparr>)\<rparr>) t
                else m\<lparr>store := (store m)(t := x\<lparr>cb := None\<rparr>)\<rparr>);
          (cbs, m'') = fire now ts m' in
      (cb x # cbs, m''))"

text \<open>
  The end of the expired range: the lower bound of a probe timer with expiration \<open>now\<close> at
  address \<open>probe\<close>, moved past the timers that expire at \<open>now\<close> exactly.
\<close>

definition expired_end :: "timestamp \<Rightarrow> nat \<Rightarrow> tmgr \<Rightarrow> nat list" where
  "expired_end now probe m =
     (let st = (store m)(probe := \<lparr>repeat = False, interval = 0, expiration = now, cb = None\<rparr>) in
      dropWhile (\<lambda>t. expiration (st t) = now) (set_from (Comparator st) probe (timers m)))"

text \<open>
  \<open>listExpiredCallback\<close> looks at the set under the read lock, and works under the write lock
  it takes afterwards; other threads can run in between, so the two halves are definitions
  of their own.
\<close>

definition take_expired :: "timestamp \<Rightarrow> tmgr \<Rightarrow> nat list \<Rightarrow> callback option list \<times> tmgr" where
  "take_expired now m rest =
     (let expired = take (length (timers m) - length rest) (timers m);
          (cbs, m') = fire now expired (m\<lparr>timers := rest\<rparr>);
          nextExpire = (if timers m' = [] then 0 else expiration (store m' (hd (timers m')))) in
      (cbs, if valid nextExpire then resetTimerfd now m' nextExpire else m'))"

definition listExpired_locked ::
    "timestamp \<Rightarrow> nat \<Rightarrow> tmgr \<Rightarrow> fault + callback option list \<times> tmgr" where
  "listExpired_locked now probe m0 =
     (let (rollover, m) = detectClockRollover now m0 in
      if \<not> rollover \<and> timers m = [] then Inl EndDeref
      else if \<not> rollover \<and> now < expiration (store m (hd (timers m))) then Inr ([], m)
      else Inr (take_expired now m (if rollover then [] else expired_end now probe m)))"

definition listExpiredCallback ::
    "timestamp \<Rightarrow> nat \<Rightarrow> tmgr \<Rightarrow> fault + callback option list \<times> tmgr" where
  "listExpiredCallback now probe m =
     (if timers m = [] then Inr ([], m) else listExpired_locked now probe m)"

section \<open>The invariant\<close>

text \<open>
  The set is in order, its pointers are live and not null, and a live timer whose callback is
  still there is in the set: so \<open>cancel\<close> finds it.
\<close>

definition tmgr_ok :: "tmgr \<Rightarrow> bool" where
  "tmgr_ok m \<longleftrightarrow> sorted_wrt (Comparator (store m)) (timers m)
     \<and> set (timers m) \<subseteq> set (live m) \<and> 0 \<notin> set (live m)
     \<and> (\<forall>t \<in> set (live m). cb (store m t) \<noteq> None \<longrightarrow> t \<in> set (timers m))"

named_theorems tmgr \<open>field rules of the timer manager's operations\<close>

lemma resetTimerfd_fields [tmgr]:
  "store (resetTimerfd now m e) = store m" "live (resetTimerfd now m e) = live m"
  "timers (resetTimerfd now m e) = timers m" "previous (resetTimerfd now m e) = previous m"
  by (simp_all add: resetTimerfd_def split: prod.split)

lemma insertTimer_fields [tmgr]:
  "store (insertTimer now m t) = store m" "live (insertTimer now m t) = live m"
  "timers (insertTimer now m t) = set_insert (Comparator (store m)) t (timers m)"
  "previous (insertTimer now m t) = previous m"
  by (simp_all add: insertTimer_def Let_def tmgr)

lemma detectClockRollover_fields [tmgr]:
  "store (snd (detectClockRollover now m)) = store m"
  "live (snd (detectClockRollover now m)) = live m"
  "timers (snd (detectClockRollover now m)) = timers m"
  by (simp_all add: detectClockRollover_def)

text \<open>Changing an object outside the set does not disturb the order.\<close>

lemma sorted_update:
  "t \<notin> set xs \<Longrightarrow> sorted_wrt (Comparator (st(t := x))) xs = sorted_wrt (Comparator st) xs"
  by (rule sorted_wrt_cong) (auto simp: Comparator_def)

lemma Comparator_cb: "Comparator (st(t := (st t)\<lparr>cb := f\<rparr>)) = Comparator st"
  by (intro ext) (auto simp: Comparator_def)

lemma tmgr_ok_sorted: "tmgr_ok m \<Longrightarrow> sorted_wrt (Comparator (store m)) (timers m)"
  and tmgr_ok_distinct: "tmgr_ok m \<Longrightarrow> distinct (timers m)"
  by (auto simp: tmgr_ok_def intro: timer_set.sorted_distinct)

lemma find_timer:
  "tmgr_ok m \<Longrightarrow>
   set_find (Comparator (store m)) t (timers m) = (if t \<in> set (timers m) then Some t else None)"
  by (rule timer_set.find_iff) (rule tmgr_ok_sorted)

lemma addTimer_ok:
  assumes "tmgr_ok m" and "t \<noteq> 0" and "t \<notin> set (live m)"
  shows "tmgr_ok (addTimer now m t itv f rep)"
    and "set (timers (addTimer now m t itv f rep)) = insert t (set (timers m))"
proof -
  have t: "t \<notin> set (timers m)" using assms by (auto simp: tmgr_ok_def)
  then show "tmgr_ok (addTimer now m t itv f rep)"
    using assms
    by (auto simp: tmgr_ok_def addTimer_def tmgr timer_set.set_set_insert sorted_update
        intro!: timer_set.sorted_insert)
  show "set (timers (addTimer now m t itv f rep)) = insert t (set (timers m))"
    by (simp add: addTimer_def tmgr timer_set.set_set_insert)
qed

text \<open>The result of a successful \<open>cancel\<close>; the iterator is never \<open>end()\<close>.\<close>

lemma cancel_eq:
  assumes "tmgr_ok m" and "t \<in> set (live m)"
  shows "cancel m t =
    (if cb (store m t) = None then Inr (False, m)
     else Inr (True, m\<lparr>store := (store m)(t := (store m t)\<lparr>cb := None\<rparr>),
                       timers := set_erase t (timers m)\<rparr>))"
  using assms find_timer [OF assms(1), of t]
  by (auto simp: cancel_def Let_def Comparator_cb tmgr_ok_def)

lemma cancel_ok:
  assumes "tmgr_ok m" and "t \<in> set (live m)" and "cancel m t = Inr (r, m')"
  shows "tmgr_ok m'" and "live m' = live m"
    and "set (timers m') = (if r then set (timers m) - {t} else set (timers m))"
    and "r \<longleftrightarrow> cb (store m t) \<noteq> None" and "cb (store m' t) = None"
    and "u \<noteq> t \<Longrightarrow> store m' u = store m u"
proof -
  note eq = cancel_eq [OF assms(1,2)] assms(3)
  have sorted: "sorted_wrt (Comparator (store m)) (timers m)" using assms(1) by (rule tmgr_ok_sorted)
  show "tmgr_ok m'"
    using assms(1) eq timer_set.sorted_erase [OF sorted] timer_set.set_set_erase [OF sorted]
    by (auto simp: tmgr_ok_def Comparator_cb split: if_splits)
  show "live m' = live m" "r \<longleftrightarrow> cb (store m t) \<noteq> None" "cb (store m' t) = None"
    "set (timers m') = (if r then set (timers m) - {t} else set (timers m))"
    using eq timer_set.set_set_erase [OF sorted] by (auto split: if_splits)
  show "u \<noteq> t \<Longrightarrow> store m' u = store m u" using eq by (auto split: if_splits)
qed

text \<open>Moving a timer to a new expiration: the common part of \<open>refresh\<close> and \<open>reset\<close>.\<close>

lemma move_ok:
  assumes "tmgr_ok m" and "t \<in> set (timers m)" and "cb x = cb (store m t)"
    and "st = (store m)(t := x)" and "ts = set_insert (Comparator st) t (set_erase t (timers m))"
  shows "sorted_wrt (Comparator st) ts" and "set ts = set (timers m)"
    and "tmgr_ok (m\<lparr>store := st, timers := ts, armed := a\<rparr>)"
proof -
  note sorted = tmgr_ok_sorted [OF assms(1)]
  have "t \<notin> set (set_erase t (timers m))" using timer_set.set_set_erase [OF sorted] by simp
  then show *: "sorted_wrt (Comparator st) ts"
    using timer_set.sorted_erase [OF sorted] assms(4,5)
    by (simp add: timer_set.sorted_insert sorted_update)
  show set: "set ts = set (timers m)"
    using assms(2,5) timer_set.set_set_erase [OF sorted] by (auto simp: timer_set.set_set_insert)
  show "tmgr_ok (m\<lparr>store := st, timers := ts, armed := a\<rparr>)"
    using assms(1,3,4) * set by (auto simp: tmgr_ok_def)
qed

lemma refresh_ok:
  assumes "tmgr_ok m" and "t \<in> set (live m)" and "refresh now m t = (r, m')"
  shows "tmgr_ok m'" and "live m' = live m" and "set (timers m') = set (timers m)"
    and "r \<longleftrightarrow> cb (store m t) \<noteq> None" and "cb (store m' u) = cb (store m u)"
proof -
  have "refresh now m t = (if cb (store m t) = None then (False, m) else
      (True, m\<lparr>store := (store m)(t := (store m t)\<lparr>expiration := addTime now (interval (store m t))\<rparr>),
        timers := set_insert (Comparator ((store m)(t := (store m t)\<lparr>expiration := addTime now (interval (store m t))\<rparr>)))
          t (set_erase t (timers m)), armed := armed m\<rparr>))"
    using assms(1,2) find_timer [OF assms(1), of t] by (auto simp: refresh_def Let_def tmgr_ok_def)
  with assms show "tmgr_ok m'" "live m' = live m" "set (timers m') = set (timers m)"
    "r \<longleftrightarrow> cb (store m t) \<noteq> None" "cb (store m' u) = cb (store m u)"
    using move_ok(2,3) [OF assms(1) _ _ refl refl] by (auto simp: tmgr_ok_def split: if_splits)
qed

lemma insertTimer_eq:
  obtains a where "insertTimer now m t =
    m\<lparr>timers := set_insert (Comparator (store m)) t (timers m), armed := a\<rparr>"
proof
  show "insertTimer now m t = m\<lparr>timers := set_insert (Comparator (store m)) t (timers m),
      armed := armed (insertTimer now m t)\<rparr>"
    by (rule tmgr.equality) (simp_all add: tmgr)
qed

lemma reset_ok:
  assumes "tmgr_ok m" and "t \<in> set (live m)" and "reset now m t itv from_now = (r, m')"
  shows "tmgr_ok m'" and "live m' = live m" and "set (timers m') = set (timers m)"
    and "cb (store m' u) = cb (store m u)"
proof -
  let ?x = "(store m t)\<lparr>interval := itv, expiration := addTime (if from_now then now
              else addTime (expiration (store m t)) (- interval (store m t))) itv\<rparr>"
  let ?st = "(store m)(t := ?x)"
  have "tmgr_ok m' \<and> live m' = live m \<and> set (timers m') = set (timers m)
      \<and> cb (store m' u) = cb (store m u)"
  proof (cases "(itv = interval (store m t) \<and> \<not> from_now) \<or> cb (store m t) = None")
    case True
    then show ?thesis using assms by (auto simp: reset_def split: if_splits)
  next
    case False
    then have t: "t \<in> set (timers m)" using assms(1,2) by (auto simp: tmgr_ok_def)
    obtain a where a: "insertTimer now (m\<lparr>store := ?st, timers := set_erase t (timers m)\<rparr>) t
        = m\<lparr>store := ?st, timers := set_insert (Comparator ?st) t (set_erase t (timers m)), armed := a\<rparr>"
      by (rule insertTimer_eq [of now "m\<lparr>store := ?st, timers := set_erase t (timers m)\<rparr>" t]) simp
    then have "m' = m\<lparr>store := ?st, timers := set_insert (Comparator ?st) t (set_erase t (timers m)), armed := a\<rparr>"
      using False t assms(3) find_timer [OF assms(1), of t] by (auto simp: reset_def Let_def)
    then show ?thesis using move_ok(2,3) [OF assms(1) t, of ?x ?st] by auto
  qed
  then show "tmgr_ok m'" "live m' = live m" "set (timers m') = set (timers m)"
    "cb (store m' u) = cb (store m u)" by auto
qed

section \<open>Firing\<close>

text \<open>What the loop over the expired timers does, given they are outside the set.\<close>

definition fired_timer :: "timestamp \<Rightarrow> timer \<Rightarrow> timer" where
  "fired_timer now x =
     (if repeat x then x\<lparr>expiration := addTime now (interval x)\<rparr> else x\<lparr>cb := None\<rparr>)"

lemma fire_correct:
  assumes "distinct ts" and "set ts \<inter> set (timers m) = {}"
    and "sorted_wrt (Comparator (store m)) (timers m)" and "fire now ts m = (cbs, m')"
  shows "cbs = map (\<lambda>t. cb (store m t)) ts
    \<and> store m' = (\<lambda>t. if t \<in> set ts then fired_timer now (store m t) else store m t)
    \<and> set (timers m') = set (timers m) \<union> {t \<in> set ts. repeat (store m t)}
    \<and> sorted_wrt (Comparator (store m')) (timers m')
    \<and> live m' = live m \<and> previous m' = previous m"
  using assms
proof (induction ts arbitrary: m cbs)
  case Nil
  then show ?case by simp
next
  case (Cons t ts)
  let ?st = "(store m)(t := fired_timer now (store m t))"
  define m1 where "m1 = (if repeat (store m t) then insertTimer now (m\<lparr>store := ?st\<rparr>) t
                         else m\<lparr>store := ?st\<rparr>)"
  obtain cbs' where fire: "fire now ts m1 = (cbs', m')" "cbs = cb (store m t) # cbs'"
    using Cons.prems(4) by (auto simp: m1_def fired_timer_def Let_def split: prod.splits if_splits)
  have m1: "store m1 = ?st" "live m1 = live m" "previous m1 = previous m"
      "set (timers m1) = set (timers m) \<union> (if repeat (store m t) then {t} else {})"
    by (simp_all add: m1_def tmgr timer_set.set_set_insert)
  have t: "t \<notin> set ts" "t \<notin> set (timers m)" using Cons.prems(1,2) by auto
  have "sorted_wrt (Comparator (store m1)) (timers m1)"
    unfolding m1(1) using Cons.prems(3) t(2)
    by (simp add: m1_def tmgr sorted_update timer_set.sorted_insert)
  then have IH: "cbs' = map (\<lambda>u. cb (store m1 u)) ts
    \<and> store m' = (\<lambda>u. if u \<in> set ts then fired_timer now (store m1 u) else store m1 u)
    \<and> set (timers m') = set (timers m1) \<union> {u \<in> set ts. repeat (store m1 u)}
    \<and> sorted_wrt (Comparator (store m')) (timers m')
    \<and> live m' = live m1 \<and> previous m' = previous m1"
    using Cons.prems(1,2) t m1(4) by (intro Cons.IH fire(1)) auto
  have "store m' = (\<lambda>u. if u \<in> set (t # ts) then fired_timer now (store m u) else store m u)"
    using IH m1(1) t by (auto simp: fun_eq_iff)
  moreover have "cbs = map (\<lambda>u. cb (store m u)) (t # ts)"
    using IH m1(1) t fire(2) by auto
  moreover have "set (timers m') = set (timers m) \<union> {u \<in> set (t # ts). repeat (store m u)}"
    using IH m1(1,4) t by auto
  moreover have "live m' = live m" "previous m' = previous m" using IH m1(2,3) by simp_all
  ultimately show ?case using IH by blast
qed

lemma dropWhile_equal:
  "sorted_wrt (\<lambda>a b. f a \<le> f b) xs \<Longrightarrow> \<forall>x \<in> set xs. n \<le> f x \<Longrightarrow>
   dropWhile (\<lambda>x. f x = n) xs = filter (\<lambda>x. n < f x) xs" for f :: "'a \<Rightarrow> int"
proof (induction xs)
  case (Cons x xs)
  then have "filter (\<lambda>x. n < f x) xs = xs" if "n < f x" using that by (auto simp: filter_id_conv)
  with Cons show ?case by (cases "f x = n") auto
qed simp

lemma filter_split:
  "sorted_wrt (\<lambda>a b. f a \<le> f b) xs \<Longrightarrow>
   xs = filter (\<lambda>x. f x \<le> n) xs @ filter (\<lambda>x. n < f x) xs" for f :: "'a \<Rightarrow> int"
proof (induction xs)
  case (Cons x xs)
  show ?case
  proof (cases "f x \<le> n")
    case False
    then have "filter (\<lambda>x. f x \<le> n) xs = []" "filter (\<lambda>x. n < f x) xs = xs"
      using Cons.prems by (auto simp: filter_empty_conv filter_id_conv)
    with False show ?thesis by simp
  qed (use Cons in auto)
qed simp

lemma Comparator_le: "Comparator st a b \<Longrightarrow> a \<noteq> 0 \<Longrightarrow> b \<noteq> 0 \<Longrightarrow> expiration (st a) \<le> expiration (st b)"
  by (auto simp: Comparator_def split: if_splits)

lemma sorted_expiration:
  assumes "sorted_wrt (Comparator st) xs" and "0 \<notin> set xs"
  shows "sorted_wrt (\<lambda>a b. expiration (st a) \<le> expiration (st b)) xs"
  by (rule sorted_wrt_mono_rel [OF _ assms(1)]) (metis assms(2) Comparator_le)

text \<open>The range left behind is exactly the timers that expire later.\<close>

lemma expired_end_eq:
  assumes "sorted_wrt (Comparator (store m)) (timers m)" and "0 \<notin> set (timers m)"
    and "probe \<noteq> 0" and "probe \<notin> set (timers m)"
  shows "expired_end now probe m = filter (\<lambda>t. now < expiration (store m t)) (timers m)"
proof -
  let ?st = "(store m)(probe := \<lparr>repeat = False, interval = 0, expiration = now, cb = None\<rparr>)"
  have sorted: "sorted_wrt (Comparator ?st) (timers m)" using assms(1,4) by (simp add: sorted_update)
  have "set_from (Comparator ?st) probe (timers m)
      = filter (\<lambda>t. \<not> Comparator ?st t probe) (timers m)" (is "_ = ?from")
    using sorted by (rule timer_set.set_from_filter)
  moreover have "dropWhile (\<lambda>t. expiration (?st t) = now) ?from = filter (\<lambda>t. now < expiration (?st t)) ?from"
  proof (rule dropWhile_equal)
    show "sorted_wrt (\<lambda>a b. expiration (?st a) \<le> expiration (?st b)) ?from"
      using sorted_expiration [OF sorted assms(2)] by (rule sorted_wrt_filter)
    show "\<forall>t \<in> set ?from. now \<le> expiration (?st t)"
      using assms(2-4) by (auto simp: Comparator_def split: if_splits)
  qed
  moreover have "filter (\<lambda>t. now < expiration (?st t)) ?from = filter (\<lambda>t. now < expiration (store m t)) (timers m)"
    unfolding filter_filter using assms(2-4) by (intro filter_cong) (auto simp: Comparator_def)
  ultimately show ?thesis by (simp only: expired_end_def Let_def)
qed

section \<open>Expiry as a whole\<close>

text \<open>A timer is due at \<open>now\<close> when it has expired or the clock was set back.\<close>

definition rolled_back :: "timestamp \<Rightarrow> tmgr \<Rightarrow> bool" where
  "rolled_back now m = fst (detectClockRollover now m)"

definition due :: "timestamp \<Rightarrow> tmgr \<Rightarrow> nat \<Rightarrow> bool" where
  "due now m t \<longleftrightarrow> rolled_back now m \<or> expiration (store m t) \<le> now"

lemma timers_split:
  fixes now :: timestamp
  assumes "tmgr_ok m" and "probe \<noteq> 0" and "probe \<notin> set (live m)"
  defines "rest \<equiv> (if rolled_back now m then [] else expired_end now probe m)"
  shows "take (length (timers m) - length rest) (timers m) = filter (due now m) (timers m)"
    and "rest = filter (\<lambda>t. \<not> due now m t) (timers m)"
proof -
  note sorted = tmgr_ok_sorted [OF assms(1)]
  have nz: "0 \<notin> set (timers m)" "probe \<notin> set (timers m)" using assms(1,3) by (auto simp: tmgr_ok_def)
  show rest: "rest = filter (\<lambda>t. \<not> due now m t) (timers m)"
    using expired_end_eq [OF sorted nz(1) assms(2) nz(2)]
    by (auto simp: rest_def due_def not_le intro!: filter_cong)
  have "timers m = filter (due now m) (timers m) @ rest"
  proof (cases "rolled_back now m")
    case True
    then show ?thesis by (simp add: rest_def due_def)
  next
    case False
    then have "due now m = (\<lambda>t. expiration (store m t) \<le> now)" by (simp add: due_def fun_eq_iff)
    then show ?thesis
      using filter_split [OF sorted_expiration [OF sorted nz(1)], of now]
      unfolding rest by (simp add: not_le)
  qed
  then show "take (length (timers m) - length rest) (timers m) = filter (due now m) (timers m)"
    by (metis append_eq_conv_conj length_append add_diff_cancel_right')
qed

lemma tmgr_ok_fired:
  assumes "tmgr_ok m" and "store m' = (\<lambda>t. if t \<in> T then fired_timer now (store m t) else store m t)"
    and "set (timers m') = (set (timers m) - T) \<union> {t \<in> T. repeat (store m t)}" and "T \<subseteq> set (timers m)"
    and "sorted_wrt (Comparator (store m')) (timers m')" and "live m' = live m"
  shows "tmgr_ok m'"
  using assms unfolding tmgr_ok_def fired_timer_def by (auto split: if_splits)

lemma detectClockRollover_eq:
  "detectClockRollover now m = (rolled_back now m, m\<lparr>previous := now\<rparr>)"
  by (simp add: rolled_back_def detectClockRollover_def)

text \<open>The second half of \<open>listExpiredCallback\<close>, in any state its lock can find.\<close>

lemma listExpired_locked_correct:
  fixes now :: timestamp
  assumes "tmgr_ok m" and "probe \<noteq> 0" and "probe \<notin> set (live m)"
    and "timers m \<noteq> [] \<or> rolled_back now m"
  defines "D \<equiv> filter (due now m) (timers m)"
  obtains m' where "listExpired_locked now probe m = Inr (map (\<lambda>t. cb (store m t)) D, m')"
    and "tmgr_ok m'" and "live m' = live m"
    and "store m' = (\<lambda>t. if t \<in> set D then fired_timer now (store m t) else store m t)"
    and "set (timers m') = {t \<in> set (timers m). due now m t \<longrightarrow> repeat (store m t)}"
proof (cases "\<not> rolled_back now m \<and> now < expiration (store m (hd (timers m)))")
  case True
  have "\<forall>t \<in> set (timers m). now < expiration (store m t)"
  proof (cases "timers m")
    case (Cons u us)
    have "0 \<notin> set (timers m)" using assms(1) by (auto simp: tmgr_ok_def)
    then have "\<forall>x \<in> set us. expiration (store m u) \<le> expiration (store m x)"
      using sorted_expiration [OF tmgr_ok_sorted [OF assms(1)]] Cons by simp
    then show ?thesis using True Cons by auto
  qed simp
  then have none: "D = []" and stay: "{t \<in> set (timers m). due now m t \<longrightarrow> repeat (store m t)} = set (timers m)"
    using True by (auto simp: D_def due_def filter_empty_conv)
  have "listExpired_locked now probe m = Inr ([], m\<lparr>previous := now\<rparr>)"
    using True assms(4) by (simp add: listExpired_locked_def detectClockRollover_eq)
  then show ?thesis
    using assms(1) none stay by (intro that [of "m\<lparr>previous := now\<rparr>"]) (simp_all add: tmgr_ok_def)
next
  case False
  let ?m = "m\<lparr>previous := now\<rparr>"
  define rest where "rest = (if rolled_back now m then [] else expired_end now probe ?m)"
  have rest': "rest = (if rolled_back now m then [] else expired_end now probe m)"
    by (simp add: rest_def expired_end_def)
  note split = timers_split [OF assms(1-3), of now, folded rest' D_def]
  obtain cbs m1 where fire: "fire now D (?m\<lparr>timers := rest\<rparr>) = (cbs, m1)" by fastforce
  define m' where "m' = (if valid (if timers m1 = [] then 0 else expiration (store m1 (hd (timers m1))))
     then resetTimerfd now m1 (if timers m1 = [] then 0 else expiration (store m1 (hd (timers m1)))) else m1)"
  have m': "store m' = store m1" "timers m' = timers m1" "live m' = live m1"
    by (simp_all add: m'_def tmgr)
  have "take_expired now ?m rest = (cbs, m')"
    using fire split(1) by (simp add: take_expired_def Let_def m'_def)
  then have "listExpired_locked now probe m = Inr (cbs, m')"
    using False assms(4) unfolding rest_def
    by (simp add: listExpired_locked_def detectClockRollover_eq split del: if_split) auto
  moreover have "cbs = map (\<lambda>t. cb (store (?m\<lparr>timers := rest\<rparr>) t)) D
    \<and> store m1 = (\<lambda>t. if t \<in> set D then fired_timer now (store (?m\<lparr>timers := rest\<rparr>) t)
                      else store (?m\<lparr>timers := rest\<rparr>) t)
    \<and> set (timers m1) = set (timers (?m\<lparr>timers := rest\<rparr>))
        \<union> {t \<in> set D. repeat (store (?m\<lparr>timers := rest\<rparr>) t)}
    \<and> sorted_wrt (Comparator (store m1)) (timers m1)
    \<and> live m1 = live (?m\<lparr>timers := rest\<rparr>) \<and> previous m1 = previous (?m\<lparr>timers := rest\<rparr>)"
    using tmgr_ok_distinct [OF assms(1)] tmgr_ok_sorted [OF assms(1)]
    by (intro fire_correct [OF _ _ _ fire])
      (auto simp: D_def split(2) intro: sorted_wrt_filter)
  then have f: "cbs = map (\<lambda>t. cb (store m t)) D"
      "store m1 = (\<lambda>t. if t \<in> set D then fired_timer now (store m t) else store m t)"
      "set (timers m1) = (set (timers m) - set D) \<union> {t \<in> set D. repeat (store m t)}"
      "sorted_wrt (Comparator (store m1)) (timers m1)" "live m1 = live m"
    by (simp_all add: split(2)) (auto simp: D_def)
  moreover have "tmgr_ok m'"
    using assms(1) f m' by (intro tmgr_ok_fired [of m m' "set D" now]) (auto simp: D_def)
  moreover have "set (timers m') = {t \<in> set (timers m). due now m t \<longrightarrow> repeat (store m t)}"
    unfolding m'(2) f(3) by (auto simp: D_def)
  ultimately show ?thesis by (intro that [of m']) (simp_all add: m')
qed

section \<open>Properties\<close>

text \<open>
  C13. \<open>listExpiredCallback\<close> fires exactly the due timers: on a well-formed manager it returns
  the callbacks of the timers that have expired by \<open>now\<close> (of all, when the clock was set
  back), in the order of expiration and address; the repeating ones stay, rescheduled from
  \<open>now\<close>, the others leave the set with their callback cleared, and no other timer changes.
\<close>

theorem listExpiredCallback_fires_due:
  assumes "tmgr_ok m" and "timers m \<noteq> []" and "probe \<noteq> 0" and "probe \<notin> set (live m)"
  shows "\<exists>m'. listExpiredCallback now probe m
      = Inr (map (\<lambda>t. cb (store m t)) (filter (due now m) (timers m)), m')
    \<and> tmgr_ok m'
    \<and> set (timers m') = {t \<in> set (timers m). due now m t \<longrightarrow> repeat (store m t)}
    \<and> (\<forall>t. store m' t = (if t \<in> set (timers m) \<and> due now m t
          then fired_timer now (store m t) else store m t))"
proof -
  obtain m' where "listExpired_locked now probe m
        = Inr (map (\<lambda>t. cb (store m t)) (filter (due now m) (timers m)), m')"
      "tmgr_ok m'"
      "store m' = (\<lambda>t. if t \<in> set (filter (due now m) (timers m))
         then fired_timer now (store m t) else store m t)"
      "set (timers m') = {t \<in> set (timers m). due now m t \<longrightarrow> repeat (store m t)}"
    using listExpired_locked_correct [OF assms(1,3,4), of now] assms(2) by blast
  then show ?thesis using assms(2) by (intro exI [of _ m']) (simp add: listExpiredCallback_def)
qed


text \<open>A manager with one one-shot and one repeating timer, 10 and 20 milliseconds ahead.\<close>

definition two_timers :: tmgr where
  "two_timers =
     addTimer 0 (addTimer 0 (new_TimerManager 0) 16 10 (Some (Plain 7)) False) 32 20 (Some (Plain 8)) True"

lemma new_TimerManager_ok: "tmgr_ok (new_TimerManager now)"
  by (simp add: tmgr_ok_def new_TimerManager_def)

lemma two_timers_fields:
  "timers two_timers = [16, 32]" "live two_timers = [32, 16]" "previous two_timers = 0"
  "store two_timers 16 = \<lparr>repeat = False, interval = 10, expiration = 10000, cb = Some (Plain 7)\<rparr>"
  "store two_timers 32 = \<lparr>repeat = True, interval = 20, expiration = 20000, cb = Some (Plain 8)\<rparr>"
  "armed two_timers = Some 10000"
  by code_simp+

lemma two_timers_ok: "tmgr_ok two_timers"
  unfolding two_timers_def
  by (intro addTimer_ok(1) new_TimerManager_ok) (simp_all add: addTimer_def tmgr new_TimerManager_def)

theorem listExpiredCallback_fires_due_witness:
  "\<exists>m'. listExpiredCallback 15000 99 two_timers = Inr ([Some (Plain 7)], m') \<and> set (timers m') = {32}"
proof -
  have d: "due 15000 two_timers 16" "\<not> due 15000 two_timers 32"
    by (simp_all add: due_def rolled_back_def detectClockRollover_def two_timers_fields)
  show ?thesis
    using listExpiredCallback_fires_due [OF two_timers_ok, of 99 15000] d
    by (auto simp: two_timers_fields)
qed

text \<open>
  Everything that happens to a manager: its own operations under the lock, on timers someone
  still holds, the descriptor becoming readable and being drained, a handle being dropped.
\<close>

inductive tmgr_step :: "tmgr \<Rightarrow> tmgr \<Rightarrow> bool" where
  step_add: "t \<noteq> 0 \<Longrightarrow> t \<notin> set (live m) \<Longrightarrow> tmgr_step m (addTimer now m t itv f rep)"
| step_cancel: "t \<in> set (live m) \<Longrightarrow> cancel m t = Inr (r, m') \<Longrightarrow> tmgr_step m m'"
| step_refresh: "t \<in> set (live m) \<Longrightarrow> refresh now m t = (r, m') \<Longrightarrow> tmgr_step m m'"
| step_reset: "t \<in> set (live m) \<Longrightarrow> reset now m t itv from_now = (r, m') \<Longrightarrow> tmgr_step m m'"
| step_expire: "probe \<noteq> 0 \<Longrightarrow> probe \<notin> set (live m) \<Longrightarrow>
    listExpired_locked now probe m = Inr (cbs, m') \<Longrightarrow> tmgr_step m m'"
| step_drain: "tmgr_step m (m\<lparr>armed := None\<rparr>)"
| step_drop: "t \<notin> set (timers m) \<Longrightarrow> tmgr_step m (m\<lparr>live := removeAll t (live m)\<rparr>)"

inductive tmgr_reachable :: "tmgr \<Rightarrow> bool" where
  reach_init: "tmgr_reachable (new_TimerManager now)"
| reach_next: "tmgr_reachable m \<Longrightarrow> tmgr_step m m' \<Longrightarrow> tmgr_reachable m'"

lemma listExpired_locked_cases:
  assumes "tmgr_ok m" and "probe \<noteq> 0" and "probe \<notin> set (live m)"
    and "listExpired_locked now probe m = Inr (cbs, m')"
  shows "tmgr_ok m'" and "live m' = live m"
    and "store m' = (\<lambda>t. if t \<in> set (timers m) \<and> due now m t then fired_timer now (store m t) else store m t)"
    and "set (timers m') = {t \<in> set (timers m). due now m t \<longrightarrow> repeat (store m t)}"
    and "cbs = map (\<lambda>t. cb (store m t)) (filter (due now m) (timers m))"
proof -
  have ne: "timers m \<noteq> [] \<or> rolled_back now m"
    using assms(4) by (auto simp: listExpired_locked_def detectClockRollover_eq split: if_splits)
  obtain m1 where m1: "listExpired_locked now probe m
        = Inr (map (\<lambda>t. cb (store m t)) (filter (due now m) (timers m)), m1)"
      "tmgr_ok m1" "live m1 = live m"
      "store m1 = (\<lambda>t. if t \<in> set (filter (due now m) (timers m)) then fired_timer now (store m t) else store m t)"
      "set (timers m1) = {t \<in> set (timers m). due now m t \<longrightarrow> repeat (store m t)}"
    by (rule listExpired_locked_correct [OF assms(1-3) ne])
  then have eq: "m1 = m'" "cbs = map (\<lambda>t. cb (store m t)) (filter (due now m) (timers m))"
    using assms(4) by simp_all
  show "tmgr_ok m'" "live m' = live m"
    "set (timers m') = {t \<in> set (timers m). due now m t \<longrightarrow> repeat (store m t)}"
    "store m' = (\<lambda>t. if t \<in> set (timers m) \<and> due now m t then fired_timer now (store m t) else store m t)"
    "cbs = map (\<lambda>t. cb (store m t)) (filter (due now m) (timers m))"
    using m1 eq by simp_all
qed

lemma tmgr_step_keeps: "tmgr_step m m' \<Longrightarrow> tmgr_ok m \<Longrightarrow> tmgr_ok m'"
proof (induction rule: tmgr_step.induct)
  case (step_drop t m)
  then show ?case by (auto simp: tmgr_ok_def)
next
  case (step_drain m)
  then show ?case by (simp add: tmgr_ok_def)
qed (auto intro: addTimer_ok(1) cancel_ok(1) refresh_ok(1) reset_ok(1) listExpired_locked_cases(1))

lemma tmgr_reachable_ok: "tmgr_reachable m \<Longrightarrow> tmgr_ok m"
  by (induction rule: tmgr_reachable.induct) (auto intro: new_TimerManager_ok tmgr_step_keeps)


section \<open>Cancelled timers stay cancelled\<close>

definition spent :: "tmgr \<Rightarrow> nat \<Rightarrow> bool" where
  "spent m t \<longleftrightarrow> cb (store m t) = None \<and> t \<notin> set (timers m)"

text \<open>Any sequence of steps during which someone keeps holding \<open>t\<close>.\<close>

inductive held_steps :: "nat \<Rightarrow> tmgr \<Rightarrow> tmgr \<Rightarrow> bool" for t where
  held_refl: "held_steps t m m"
| held_step: "held_steps t m m1 \<Longrightarrow> tmgr_step m1 m2 \<Longrightarrow> t \<in> set (live m2) \<Longrightarrow> held_steps t m m2"

lemma spent_step:
  assumes "tmgr_step m m'" and "tmgr_ok m" and "t \<in> set (live m)" and "spent m t"
  shows "spent m' t"
  using assms
proof (induction rule: tmgr_step.induct)
  case (step_add u m now itv f rep)
  then have "t \<noteq> u" by auto
  then show ?case
    using step_add by (simp add: spent_def addTimer_ok(2)) (simp add: addTimer_def tmgr)
next
  case (step_cancel u m r m')
  then show ?case
    using cancel_ok(3,5,6) [OF step_cancel(3,1,2)]
    by (cases "t = u") (auto simp: spent_def split: if_splits)
next
  case (step_refresh u m now r m')
  then show ?case using refresh_ok(3,5) [OF step_refresh(3,1,2)] by (simp add: spent_def)
next
  case (step_reset u m now itv from_now r m')
  then show ?case using reset_ok(3,4) [OF step_reset(3,1,2)] by (simp add: spent_def)
next
  case (step_expire probe m now cbs m')
  then show ?case using listExpired_locked_cases(3,4) [OF step_expire(4,1,2,3)] by (simp add: spent_def)
qed (simp_all add: spent_def)

lemma spent_held:
  "held_steps t m m' \<Longrightarrow> tmgr_ok m \<Longrightarrow> t \<in> set (live m) \<Longrightarrow> spent m t \<Longrightarrow>
   tmgr_ok m' \<and> t \<in> set (live m') \<and> spent m' t"
  by (induction rule: held_steps.induct) (auto intro: tmgr_step_keeps spent_step)

text \<open>
  C14. A cancelled timer never fires again: in every state the manager can reach, \<open>cancel\<close> of
  a held timer is defined, answers whether it was still pending, and after a successful one,
  whatever happens while the timer is held, it is never in the set again, no expiry returns
  its callback, and \<open>cancel\<close> and \<open>refresh\<close> answer no.
\<close>

theorem cancelled_timer_is_final:
  assumes "tmgr_reachable m" and "t \<in> set (live m)"
  shows "\<exists>r m1. cancel m t = Inr (r, m1) \<and> (r \<longleftrightarrow> cb (store m t) \<noteq> None)
    \<and> (\<forall>m2. r \<longrightarrow> held_steps t m1 m2 \<longrightarrow>
         t \<notin> set (timers m2) \<and> cb (store m2 t) = None
         \<and> cancel m2 t = Inr (False, m2) \<and> refresh now m2 t = (False, m2))"
proof -
  have ok: "tmgr_ok m" using assms(1) by (rule tmgr_reachable_ok)
  obtain r m1 where c: "cancel m t = Inr (r, m1)" using cancel_eq [OF ok assms(2)] by (cases "cb (store m t)") auto
  note c_ok = cancel_ok [OF ok assms(2) c]
  have "t \<notin> set (timers m2) \<and> cb (store m2 t) = None
      \<and> cancel m2 t = Inr (False, m2) \<and> refresh now m2 t = (False, m2)"
    if r: r and held: "held_steps t m1 m2" for m2
  proof -
    have "spent m1 t" using c_ok(3,5) r by (simp add: spent_def)
    then have "spent m2 t" using spent_held [OF held c_ok(1)] c_ok(2) assms(2) by simp
    then show ?thesis by (simp add: spent_def cancel_def refresh_def)
  qed
  with c c_ok(4) show ?thesis by blast
qed

lemma reach_add:
  "tmgr_reachable m \<Longrightarrow> t \<noteq> 0 \<Longrightarrow> t \<notin> set (live m) \<Longrightarrow> tmgr_reachable (addTimer now m t itv f rep)"
  by (rule reach_next) (auto intro: step_add)

lemma two_timers_reachable: "tmgr_reachable two_timers"
  unfolding two_timers_def
  by (intro reach_add reach_init) (simp_all add: addTimer_def tmgr new_TimerManager_def)

theorem cancelled_timer_is_final_witness:
  "\<exists>m1. cancel two_timers 16 = Inr (True, m1) \<and> refresh 5 m1 16 = (False, m1)"
  using cancelled_timer_is_final [OF two_timers_reachable, of 16 5]
  by (simp add: two_timers_fields) (metis held_refl)

text \<open>
  C35. Arming: \<open>resetTimerfd\<close> makes the descriptor readable at the given time, or 100
  microseconds from now if that is later, and the \<open>timespec\<close> it passes is normalised.
\<close>

theorem resetTimerfd_deadline:
  assumes "in_range now" and "in_range e"
  shows "armed (resetTimerfd now m e) = Some (max e (now + 100))
    \<and> (case howMuchTimeFromNow now e of (sec, nsec) \<Rightarrow> 0 \<le> sec \<and> 0 \<le> nsec \<and> nsec < 1000000000)"
proof -
  define us where "us = max (e - now) 100"
  have "to_i64 (e - now) = e - now" using assms by (intro to_i64_id) (auto simp: in_range_def)
  then have h: "howMuchTimeFromNow now e = (us sdiv 1000000, us smod 1000000 * 1000)"
    by (simp add: howMuchTimeFromNow_def Let_def time_constants us_def max_def)
  have us: "0 < us" by (simp add: us_def)
  then have q: "us sdiv 1000000 = us div 1000000" "us smod 1000000 = us mod 1000000"
    by (simp_all add: signed_divide_int_def signed_modulo_int_def sgn_if)
  have "now + us div 1000000 * 1000000 + us mod 1000000 * 1000 div 1000 = now + us" by simp
  moreover have "now + us = max e (now + 100)" by (simp add: us_def max_def)
  moreover have "0 \<le> us div 1000000" "0 \<le> us mod 1000000" "us mod 1000000 < 1000000"
    using us by (simp_all add: pos_imp_zdiv_nonneg_iff)
  ultimately show ?thesis unfolding resetTimerfd_def h q by simp
qed

theorem resetTimerfd_deadline_witness:
  "armed (resetTimerfd 1000000 two_timers 20000) = Some 1000100"
  using resetTimerfd_deadline [of 1000000 20000 two_timers] by (simp add: in_range_def)

text \<open>
  The clock counts as set back when it is more than 3.6 seconds behind the previous
  reading: \<open>kSecondsPerHour\<close> seconds are passed to \<open>addTime\<close>, which takes milliseconds.
\<close>

theorem rollover_threshold:
  assumes "in_range (previous m)"
  shows "fst (detectClockRollover now m) \<longleftrightarrow> now < previous m - 3600000"
proof -
  have "addTime (previous m) (- 3600) = previous m + (- 3600) * 1000"
    using assms by (rule addTime_exact) (simp add: in_range_def)
  then show ?thesis by (auto simp: detectClockRollover_def kSecondsPerHour_def)
qed

theorem rollover_threshold_witness:
  "fst (detectClockRollover 1000000 (new_TimerManager 5000000))"
  using rollover_threshold [of "new_TimerManager 5000000" 1000000]
  by (simp add: new_TimerManager_def in_range_def)

text \<open>
  Wake-ups can be lost: the descriptor is armed for the earliest timer, \<open>cancel\<close> leaves
  it armed, and when it becomes readable before the next timer is due,
  \<open>listExpiredCallback\<close> returns early without arming it again. From a reachable state the
  second timer is left pending with the descriptor disarmed.
\<close>

theorem wakeup_lost_after_cancel:
  "tmgr_reachable two_timers
   \<and> (\<exists>m1 m2. cancel two_timers 16 = Inr (True, m1) \<and> armed m1 = Some 10000
        \<and> listExpiredCallback 10000 99 (m1\<lparr>armed := None\<rparr>) = Inr ([], m2)
        \<and> timers m2 = [32] \<and> expiration (store m2 32) = 20000 \<and> armed m2 = None)"
proof -
  obtain m1 where m1: "cancel two_timers 16 = Inr (True, m1)" "timers m1 = [32]" "armed m1 = Some 10000"
      "store m1 32 = store two_timers 32" "previous m1 = 0"
    using cancel_eq [OF two_timers_ok, of 16] by (simp add: two_timers_fields set_erase_def)
  then have "listExpiredCallback 10000 99 (m1\<lparr>armed := None\<rparr>) = Inr ([], m1\<lparr>armed := None, previous := 10000\<rparr>)"
    by (simp add: listExpiredCallback_def listExpired_locked_def detectClockRollover_def two_timers_fields)
  with m1 show ?thesis
    by (intro conjI two_timers_reachable exI [of _ m1] exI [of _ "m1\<lparr>armed := None, previous := 10000\<rparr>"])
      (simp_all add: two_timers_fields)
qed

text \<open>
  The set can be emptied between the two locks of \<open>listExpiredCallback\<close>: with one timer
  pending the check passes, and if another thread cancels it before the write lock is taken,
  the dereference of \<open>begin()\<close> is that of \<open>end()\<close>.
\<close>

theorem expiry_races_with_cancel:
  "\<exists>m m1. tmgr_reachable m \<and> timers m \<noteq> [] \<and> cancel m 16 = Inr (True, m1)
     \<and> listExpired_locked 10000 99 m1 = Inl EndDeref"
proof -
  let ?m = "addTimer 0 (new_TimerManager 0) 16 10 (Some (Plain 7)) False"
  have fields: "timers ?m = [16]" "live ?m = [16]" "cb (store ?m 16) = Some (Plain 7)" "previous ?m = 0"
    by (simp_all add: addTimer_def tmgr new_TimerManager_def new_Timer_def)
  have reach: "tmgr_reachable ?m"
    by (intro reach_add reach_init) (simp_all add: new_TimerManager_def)
  obtain m1 where "cancel ?m 16 = Inr (True, m1)" "timers m1 = []" "previous m1 = 0"
    using cancel_eq [OF tmgr_reachable_ok [OF reach], of 16] by (simp add: fields set_erase_def)
  then show ?thesis
    using reach fields
    by (intro exI [of _ ?m] exI [of _ m1]) (simp add: listExpired_locked_def detectClockRollover_def)
qed

end
