(* ===== verification/IOManager.thy ===== *)
theory IOManager imports Channel Timer begin

text \<open>
  \<open>easy/base/IOManager.h\<close>, \<open>easy/base/IOManager.cc\<close>: the reactor. It ties the channels, the
  interest list of the \<open>epoll\<close> instance, the count of pending events, the timers and the
  scheduler together. \<open>epoll_ctl\<close> is the argument \<open>ctl\<close>: whether a call with an operation, a
  descriptor and the current interest list succeeds. The lemmas show how far channels, interest
  list and count agree in every state: exactly (\<open>iom_ok\<close>) as long as no report of the kernel is late, no \<open>grow\<close> shrinks the
  table and no descriptor is closed without the reactor, and by how much they differ otherwise; and that an event fires once.
\<close>

section \<open>State\<close>

datatype epoll_op = EPOLL_CTL_ADD | EPOLL_CTL_MOD | EPOLL_CTL_DEL

type_synonym epoll_ctl = "epoll_op \<Rightarrow> int \<Rightarrow> (int \<Rightarrow> u32) \<Rightarrow> bool"

text \<open>
  \<open>registered\<close> is what the kernel watches per descriptor, 0 when nothing; \<open>scheds\<close> the
  schedulers by address, \<open>self\<close> the address of this one.
\<close>

record iom =
  channels :: "callback channel list"
  pendingEventCount :: int
  registered :: "int \<Rightarrow> u32"
  scheds :: "nat \<Rightarrow> callback sched"
  self :: nat
  tm :: tmgr

definition post :: "nat \<Rightarrow> callback task \<Rightarrow> (nat \<Rightarrow> callback sched) \<Rightarrow> (nat \<Rightarrow> callback sched)" where
  "post s t w = w(s := schedule io_weakup (w s) t)"

interpretation channel_queue: task_queue "\<lambda>w t. post s t w" "\<lambda>w. tasks (w s)" null_task for s
  by unfold_locales (simp add: post_def sched_simp)

definition resizeChannels :: "nat \<Rightarrow> iom \<Rightarrow> fault + iom" where
  "resizeChannels sz m =
     (if max_size < sz then Inl LengthError
      else Inr (m\<lparr>channels := take sz (channels m) @ map new_channel [length (channels m)..<sz]\<rparr>))"

definition new_IOManager :: "(nat \<Rightarrow> callback sched) \<Rightarrow> nat \<Rightarrow> tmgr \<Rightarrow> iom" where
  "new_IOManager ss me t =
     \<lparr>channels = map new_channel [0..<32], pendingEventCount = 0, registered = (\<lambda>_. 0),
      scheds = ss, self = me, tm = t\<rparr>"

text \<open>A call of \<open>epoll_ctl\<close>: \<open>None\<close> when it fails.\<close>

definition do_ctl :: "epoll_ctl \<Rightarrow> epoll_op \<Rightarrow> int \<Rightarrow> u32 \<Rightarrow> iom \<Rightarrow> iom option" where
  "do_ctl ctl op fd ev m =
     (if ctl op fd (registered m)
      then Some (m\<lparr>registered := (registered m)(fd := (if op = EPOLL_CTL_DEL then 0 else ev))\<rparr>)
      else None)"

definition with_channel :: "iom \<Rightarrow> nat \<Rightarrow> callback channel \<Rightarrow> iom" where
  "with_channel m i ch = m\<lparr>channels := (channels m)[i := ch]\<rparr>"

definition count_by :: "int \<Rightarrow> iom \<Rightarrow> iom" where
  "count_by d m = m\<lparr>pendingEventCount := pendingEventCount m + d\<rparr>"

section \<open>Registering\<close>

text \<open>
  The first half of \<open>addEvent\<close> finds the channel, growing the table if it must: the size is
  looked at under the read lock, \<open>grow\<close> runs under the write lock taken afterwards.
\<close>

definition grow :: "int \<Rightarrow> iom \<Rightarrow> fault + iom" where
  "grow fd m =
     bindE (resizeChannels (fd_index fd * 2 mod 2 ^ 64) m) (\<lambda>m'.
       guardE (fd_index fd < length (channels m')) OutOfBounds (Inr m'))"

definition find_channel :: "int \<Rightarrow> iom \<Rightarrow> fault + iom" where
  "find_channel fd m = (if fd_index fd < length (channels m) then Inr m else grow fd m)"

text \<open>
  The second half, under the channel's lock. \<open>this_sched\<close> is \<open>Scheduler::GetThis()\<close>,
  \<open>this_fiber\<close> is \<open>Fiber::GetThis()\<close> and \<open>in_exec\<close> whether it is in state \<open>EXEC\<close>.
\<close>

definition addEvent_locked ::
    "epoll_ctl \<Rightarrow> nat option \<Rightarrow> nat \<Rightarrow> bool \<Rightarrow> int \<Rightarrow> u32 \<Rightarrow> callback option \<Rightarrow> iom \<Rightarrow> fault + int \<times> iom" where
  "addEvent_locked ctl this_sched this_fiber in_exec fd event f m =
     (let i = fd_index fd; ch = channels m ! i in
      if ch_events ch AND event \<noteq> 0 then Inr (-1, m)
      else let op = (if ch_events ch \<noteq> 0 then EPOLL_CTL_MOD else EPOLL_CTL_ADD) in
        case do_ctl ctl op fd (EPOLLET OR (ch_events ch OR event)) m of
          None \<Rightarrow> Inr (-1, m)
        | Some m1 \<Rightarrow>
            let m2 = count_by 1 m1; ch1 = ch\<lparr>ch_events := ch_events ch OR event\<rparr> in
            bindE (getEventCtx ch1 event) (\<lambda>ctx.
              guardE (ctx_scheduler ctx = None \<and> ctx_fiber ctx = None \<and> ctx_cb ctx = None) AssertFail
                (if f \<noteq> None
                 then Inr (0, with_channel m2 i (setEventCtx ch1 event
                        (ctx\<lparr>ctx_scheduler := this_sched, ctx_cb := f\<rparr>)))
                 else guardE in_exec AssertFail
                   (Inr (0, with_channel m2 i (setEventCtx ch1 event
                        (ctx\<lparr>ctx_scheduler := this_sched, ctx_fiber := Some this_fiber\<rparr>)))))))"

definition addEvent ::
    "epoll_ctl \<Rightarrow> nat option \<Rightarrow> nat \<Rightarrow> bool \<Rightarrow> int \<Rightarrow> u32 \<Rightarrow> callback option \<Rightarrow> iom \<Rightarrow> fault + int \<times> iom" where
  "addEvent ctl this_sched this_fiber in_exec fd event f m =
     bindE (find_channel fd m) (addEvent_locked ctl this_sched this_fiber in_exec fd event f)"

definition removeEvent :: "epoll_ctl \<Rightarrow> int \<Rightarrow> u32 \<Rightarrow> iom \<Rightarrow> fault + bool \<times> iom" where
  "removeEvent ctl fd event m =
     (let i = fd_index fd in
      if length (channels m) \<le> i then Inr (False, m)
      else let ch = channels m ! i in
        if ch_events ch AND event = 0 then Inr (False, m)
        else let new_events = ch_events ch AND NOT event;
                 option = (if new_events \<noteq> 0 then EPOLL_CTL_MOD else EPOLL_CTL_DEL) in
          case do_ctl ctl option fd (EPOLLET OR new_events) m of
            None \<Rightarrow> Inr (False, m)
          | Some m1 \<Rightarrow>
              let m2 = count_by (-1) m1; ch1 = ch\<lparr>ch_events := new_events\<rparr> in
              bindE (getEventCtx ch1 event) (\<lambda>ctx.
                Inr (True, with_channel m2 i (setEventCtx ch1 event (cleanUp ctx)))))"

text \<open>\<open>channel->handleEvent(event); pendingEventCount_.decrement()\<close>\<close>

definition fire_event :: "nat \<Rightarrow> u32 \<Rightarrow> iom \<Rightarrow> fault + iom" where
  "fire_event i event m =
     bindE (handleEvent post event (channels m ! i) (scheds m)) (\<lambda>(ch, ss).
       Inr (count_by (-1) (with_channel (m\<lparr>scheds := ss\<rparr>) i ch)))"

definition cancelEvent :: "epoll_ctl \<Rightarrow> int \<Rightarrow> u32 \<Rightarrow> iom \<Rightarrow> fault + bool \<times> iom" where
  "cancelEvent ctl fd event m =
     (let i = fd_index fd in
      if length (channels m) \<le> i then Inr (False, m)
      else let ch = channels m ! i in
        if ch_events ch AND event = 0 then Inr (False, m)
        else let new_events = ch_events ch AND NOT event;
                 option = (if new_events \<noteq> 0 then EPOLL_CTL_MOD else EPOLL_CTL_DEL) in
          case do_ctl ctl option fd (EPOLLET OR new_events) m of
            None \<Rightarrow> Inr (False, m)
          | Some m1 \<Rightarrow> bindE (fire_event i event m1) (\<lambda>m2. Inr (True, m2)))"

definition fire_if_registered :: "nat \<Rightarrow> u32 \<Rightarrow> iom \<Rightarrow> fault + iom" where
  "fire_if_registered i event m =
     (if ch_events (channels m ! i) AND event \<noteq> 0 then fire_event i event m else Inr m)"

definition cancelAll :: "epoll_ctl \<Rightarrow> int \<Rightarrow> iom \<Rightarrow> fault + bool \<times> iom" where
  "cancelAll ctl fd m =
     (let i = fd_index fd in
      if length (channels m) \<le> i then Inr (False, m)
      else if ch_events (channels m ! i) = 0 then Inr (False, m)
      else case do_ctl ctl EPOLL_CTL_DEL fd 0 m of
          None \<Rightarrow> Inr (False, m)
        | Some m1 \<Rightarrow>
            bindE (fire_if_registered i READ m1) (\<lambda>m2.
              bindE (fire_if_registered i WRITE m2) (\<lambda>m3.
                guardE (ch_events (channels m3 ! i) = 0) AssertFail (Inr (True, m3)))))"

section \<open>The event loop\<close>

definition io_canStop :: "iom \<Rightarrow> bool" where
  "io_canStop m \<longleftrightarrow> \<not> hasTimer (tm m) \<and> pendingEventCount m = 0 \<and> canStop (scheds m (self m))"

text \<open>What \<open>idle\<close> makes of a reported event mask: errors stand for everything registered.\<close>

definition ready_events :: "u32 \<Rightarrow> u32 \<Rightarrow> u32" where
  "ready_events evs registered_events =
     (let ev = (if evs AND (EPOLLERR OR EPOLLHUP) \<noteq> 0
                then evs OR ((READ OR WRITE) AND registered_events) else evs) in
      (if ev AND READ \<noteq> 0 then READ else NONE) OR (if ev AND WRITE \<noteq> 0 then WRITE else NONE))"

text \<open>One channel event of the loop in \<open>idle\<close>.\<close>

definition dispatch_channel :: "epoll_ctl \<Rightarrow> nat \<Rightarrow> u32 \<Rightarrow> iom \<Rightarrow> fault + iom" where
  "dispatch_channel ctl i evs m =
     (let ch = channels m ! i; revents = ready_events evs (ch_events ch) in
      if ch_events ch AND revents = NONE then Inr m
      else let levents = ch_events ch AND NOT revents;
               op = (if levents \<noteq> 0 then EPOLL_CTL_MOD else EPOLL_CTL_DEL) in
        case do_ctl ctl op (ch_fd ch) (EPOLLET OR levents) m of
          None \<Rightarrow> Inr m
        | Some m1 \<Rightarrow>
            bindE (if revents AND READ \<noteq> 0 then fire_event i READ m1 else Inr m1) (\<lambda>m2.
              if revents AND WRITE \<noteq> 0 then fire_event i WRITE m2 else Inr m2))"

text \<open>The \<open>timerfd\<close> is drained, then the expired callbacks are scheduled as one batch.\<close>

definition dispatch_timer :: "timestamp \<Rightarrow> nat \<Rightarrow> iom \<Rightarrow> fault + iom" where
  "dispatch_timer now probe m =
     bindE (listExpiredCallback now probe ((tm m)\<lparr>armed := None\<rparr>)) (\<lambda>(cbs, t).
       Inr (let m' = m\<lparr>tm := t\<rparr> in
         if cbs = [] then m'
         else m'\<lparr>scheds := (scheds m')(self m' :=
                schedule_range io_weakup (scheds m' (self m')) (map cb_task cbs))\<rparr>))"

definition dispatch_weakup :: "iom \<Rightarrow> iom" where
  "dispatch_weakup m = m\<lparr>scheds := (scheds m)(self m := (scheds m (self m))\<lparr>weakups := 0\<rparr>)\<rparr>"

datatype ready = ReadyWeakup | ReadyTimer timestamp nat | ReadyChannel nat u32

text \<open>The \<open>for\<close> loop over what \<open>epoll_wait\<close> returned.\<close>

fun dispatch_all :: "epoll_ctl \<Rightarrow> ready list \<Rightarrow> iom \<Rightarrow> fault + iom" where
  "dispatch_all ctl [] m = Inr m"
| "dispatch_all ctl (r # rs) m =
     bindE (case r of
              ReadyWeakup \<Rightarrow> Inr (dispatch_weakup m)
            | ReadyTimer now probe \<Rightarrow> dispatch_timer now probe m
            | ReadyChannel i evs \<Rightarrow> dispatch_channel ctl i evs m) (dispatch_all ctl rs)"

section \<open>What the reactor should agree on\<close>

text \<open>
  A table whose channels are well formed and where they belong; what the kernel should watch for a
  descriptor; the number of events registered in the channels. When all three views agree for
  every descriptor the reactor is \<open>iom_ok\<close>. Most operations need less: that channel and kernel
  agree about the descriptor at hand, \<open>in_step\<close>.
\<close>

definition interest :: "callback channel \<Rightarrow> u32" where
  "interest ch = (if ch_events ch = 0 then 0 else EPOLLET OR ch_events ch)"

definition chan_at :: "iom \<Rightarrow> nat \<Rightarrow> bool" where
  "chan_at m i \<longleftrightarrow> i < length (channels m) \<and> chan_ok (channels m ! i) \<and> ch_fd (channels m ! i) = int i"

definition table_ok :: "iom \<Rightarrow> bool" where
  "table_ok m \<longleftrightarrow> channels m \<noteq> [] \<and> (\<forall>i < length (channels m). chan_at m i) \<and> length (channels m) < 2 ^ 63"

definition wanted :: "iom \<Rightarrow> int \<Rightarrow> u32" where
  "wanted m fd = (if 0 \<le> fd \<and> nat fd < length (channels m) then interest (channels m ! nat fd) else 0)"

definition in_step :: "iom \<Rightarrow> int \<Rightarrow> bool" where
  "in_step m fd \<longleftrightarrow> table_ok m \<and> registered m fd = wanted m fd"

definition pending_events :: "iom \<Rightarrow> int" where
  "pending_events m = (\<Sum>i < length (channels m). event_count (ch_events (channels m ! i)))"

definition iom_ok :: "iom \<Rightarrow> bool" where
  "iom_ok m \<longleftrightarrow> table_ok m \<and> (\<forall>fd. registered m fd = wanted m fd) \<and> pendingEventCount m = pending_events m"

definition waiting :: "iom \<Rightarrow> nat \<Rightarrow> u32 \<Rightarrow> bool" where
  "waiting m i event \<longleftrightarrow> i < length (channels m) \<and> ch_events (channels m ! i) AND event \<noteq> 0"

text \<open>
  What \<open>epoll_ctl\<close> documents of the calls for a descriptor: adding fails with \<open>EEXIST\<close> when it is
  registered, modifying and deleting fail with \<open>ENOENT\<close> when it is not. That it fails for nothing
  else says that the descriptor is open and can be polled and that no limit is reached.
\<close>

definition documented_ctl :: "epoll_ctl \<Rightarrow> int \<Rightarrow> bool" where
  "documented_ctl ctl fd \<longleftrightarrow> (\<forall>reg. (ctl EPOLL_CTL_ADD fd reg \<longleftrightarrow> reg fd = 0)
     \<and> (ctl EPOLL_CTL_MOD fd reg \<longleftrightarrow> reg fd \<noteq> 0) \<and> (ctl EPOLL_CTL_DEL fd reg \<longleftrightarrow> reg fd \<noteq> 0))"

lemma table_okD: "table_ok m \<Longrightarrow> i < length (channels m) \<Longrightarrow> chan_at m i"
  by (simp add: table_ok_def)

lemma iom_okD:
  assumes "iom_ok m" and "i < length (channels m)"
  shows "chan_ok (channels m ! i)" and "ch_fd (channels m ! i) = int i" and "chan_at m i"
    and "registered m (int i) = interest (channels m ! i)"
  using assms by (auto simp: iom_ok_def table_ok_def chan_at_def wanted_def)

lemma iom_ok_in_step: "iom_ok m \<Longrightarrow> in_step m fd"
  by (simp add: iom_ok_def in_step_def)

lemma waiting_in_table: "table_ok m \<Longrightarrow> waiting m i event \<Longrightarrow> chan_at m i"
  by (simp add: table_okD waiting_def)

lemma do_ctl_eq:
  "do_ctl ctl op fd ev m = Some m1 \<longleftrightarrow>
     ctl op fd (registered m)
     \<and> m1 = m\<lparr>registered := (registered m)(fd := (if op = EPOLL_CTL_DEL then 0 else ev))\<rparr>"
  by (auto simp: do_ctl_def)

lemma EPOLLET_or: "EPOLLET OR ev \<noteq> 0"
proof -
  have "bit (EPOLLET OR ev) 31" by (simp add: bit_or_iff EPOLLET_def bit_numeral_rec)
  then show ?thesis by (metis bit_0_eq bot_apply bot_bool_def)
qed

lemma interest_0 [simp]: "interest ch = 0 \<longleftrightarrow> ch_events ch = 0"
  by (simp add: interest_def EPOLLET_or)

lemma event_count_bounds: "0 \<le> event_count ev" by (simp add: event_count_def)

section \<open>The effect of an operation on one channel\<close>

text \<open>
  An operation that has found its channel changes nothing but this channel, the kernel's interest
  in its descriptor and the count; \<open>d\<close> is by how much the count is lowered for events that were
  not registered.
\<close>

definition chan_effect :: "nat \<Rightarrow> int \<Rightarrow> iom \<Rightarrow> iom \<Rightarrow> bool" where
  "chan_effect i d m m' \<longleftrightarrow>
     (\<exists>ch. channels m' = (channels m)[i := ch] \<and> chan_ok ch \<and> ch_fd ch = int i
        \<and> pendingEventCount m' = pendingEventCount m
            + (event_count (ch_events ch) - event_count (ch_events (channels m ! i))) - d
        \<and> (registered m' = (registered m)(int i := interest ch)
           \<or> registered m' = registered m \<and> ch_events ch = ch_events (channels m ! i)))"

lemma chan_effect_refl: "chan_at m i \<Longrightarrow> chan_effect i 0 m m"
  unfolding chan_effect_def chan_at_def by (intro exI [of _ "channels m ! i"]) simp

lemma chan_effect_table:
  assumes "table_ok m" and "chan_effect i d m m'"
  shows "table_ok m'"
proof -
  obtain ch where ch: "channels m' = (channels m)[i := ch]" "chan_ok ch" "ch_fd ch = int i"
    using assms(2) by (auto simp: chan_effect_def)
  have "chan_at m' j" if "j < length (channels m)" for j
    using table_okD [OF assms(1) that] ch that by (cases "j = i") (simp_all add: chan_at_def)
  then show ?thesis using assms(1) ch(1) by (simp add: table_ok_def)
qed

lemma chan_effect_length: "chan_effect i d m m' \<Longrightarrow> length (channels m') = length (channels m)"
  by (auto simp: chan_effect_def)

lemma chan_effect_wanted:
  assumes "chan_effect i d m m'" and "i < length (channels m)" and "registered m fd = wanted m fd"
  shows "registered m' fd = wanted m' fd"
proof -
  obtain ch where ch: "channels m' = (channels m)[i := ch]" "registered m' = (registered m)(int i := interest ch)
      \<or> registered m' = registered m \<and> ch_events ch = ch_events (channels m ! i)"
    using assms(1) by (auto simp: chan_effect_def)
  show ?thesis
  proof (cases "fd = int i")
    case True
    then show ?thesis using ch assms(2,3) by (auto simp: wanted_def interest_def)
  next
    case False
    then have "wanted m' fd = wanted m fd" using ch(1) by (auto simp: wanted_def nth_list_update)
    then show ?thesis using ch(2) assms(3) False by auto
  qed
qed

lemma chan_effect_in_step:
  assumes "chan_effect i d m m'" and "i < length (channels m)" and "in_step m fd"
  shows "in_step m' fd"
  using chan_effect_wanted [OF assms(1,2)] chan_effect_table [OF _ assms(1)] assms(3) by (simp add: in_step_def)

lemma pending_events_update:
  assumes "i < length (channels m)" and "channels m' = (channels m)[i := ch]"
  shows "pending_events m' = pending_events m
    + (event_count (ch_events ch) - event_count (ch_events (channels m ! i)))"
proof -
  let ?n = "\<lambda>c. event_count (ch_events c)"
  have "pending_events m'
      = (\<Sum>j < length (channels m). ?n (channels m ! j) + (if j = i then ?n ch - ?n (channels m ! i) else 0))"
    unfolding pending_events_def assms(2) using assms(1) by (intro sum.cong) (auto simp: nth_list_update)
  then show ?thesis using assms(1) by (simp add: sum.distrib pending_events_def)
qed

lemma chan_effect_count:
  assumes "chan_effect i d m m'" and "i < length (channels m)"
  shows "pendingEventCount m' - pending_events m' = pendingEventCount m - pending_events m - d"
  using assms pending_events_update [OF assms(2)] by (auto simp: chan_effect_def)

lemma chan_effect_ok: "iom_ok m \<Longrightarrow> i < length (channels m) \<Longrightarrow> chan_effect i 0 m m' \<Longrightarrow> iom_ok m'"
  using chan_effect_table [of m i 0 m'] chan_effect_wanted [of i 0 m m'] chan_effect_count [of i 0 m m']
  by (simp add: iom_ok_def)

section \<open>Finding the channel\<close>

lemma chan_ok_new: "chan_ok (new_channel i)"
  by (simp add: chan_ok_def new_channel_def event_defs)

lemma resize_ok:
  assumes "table_ok m" and "length (channels m) \<le> n" and "n \<le> max_size"
  shows "\<exists>m'. resizeChannels n m = Inr m' \<and> table_ok m' \<and> length (channels m') = n
    \<and> (\<forall>fd. wanted m' fd = wanted m fd) \<and> pending_events m' = pending_events m
    \<and> (\<forall>i event. waiting m' i event = waiting m i event)
    \<and> m' = m\<lparr>channels := channels m @ map new_channel [length (channels m)..<n]\<rparr>"
proof -
  let ?l = "length (channels m)"
  let ?cs = "channels m @ map new_channel [?l..<n]"
  let ?m = "m\<lparr>channels := ?cs\<rparr>"
  have r: "resizeChannels n m = Inr ?m"
    using assms(2,3) by (simp add: resizeChannels_def)
  have old: "?cs ! i = channels m ! i" if "i < ?l" for i using that by (simp add: nth_append)
  have new: "?cs ! i = new_channel i" if "?l \<le> i" "i < n" for i
    using that by (simp add: nth_append)
  have len: "length ?cs = n" using assms(2) by simp
  have none: "ch_events (new_channel i :: callback channel) = 0" for i by (simp add: new_channel_def NONE_def)
  have "(\<Sum>i < n. event_count (ch_events (?cs ! i))) = (\<Sum>i < ?l. event_count (ch_events (channels m ! i)))"
    using assms(2) old new none
    by (intro sum.mono_neutral_cong_right) (auto simp: event_count_def)
  then have count: "pending_events ?m = pending_events m" using len by (simp add: pending_events_def)
  have "chan_at ?m i" if "i < n" for i
  proof (cases "i < ?l")
    case True
    then show ?thesis using assms(1) old that len table_okD [OF assms(1) True] by (simp add: chan_at_def)
  next
    case False
    then show ?thesis
      using that new [of i] chan_ok_new [of i] len by (simp add: chan_at_def new_channel_def)
  qed
  then have "table_ok ?m"
    using assms len unfolding table_ok_def by (simp add: max_size_def del: length_append)
  moreover have "wanted ?m fd = wanted m fd" for fd
    using assms(2) old new [of "nat fd"] none len by (auto simp: wanted_def interest_def simp del: length_append)
  moreover have "waiting ?m i event = waiting m i event" for i event
    using assms(2) old new [of i] none len by (cases "i < ?l") (auto simp: waiting_def simp del: length_append)
  ultimately show ?thesis using r len count by (intro exI [of _ ?m]) simp
qed

lemma grow_index:
  assumes "0 \<le> fd" and "fd < 2 ^ 31"
  shows "fd_index fd = nat fd" and "nat fd * 2 mod 2 ^ 64 = nat fd * 2" and "nat fd * 2 \<le> max_size"
  using assms fd_index_nonneg by (auto simp: max_size_def)

lemma find_channel_ok:
  assumes "table_ok m" and "0 \<le> fd" and "fd < 2 ^ 31"
  obtains m' where "find_channel fd m = Inr m'" and "table_ok m'" and "nat fd < length (channels m')"
    and "\<And>fd. wanted m' fd = wanted m fd" and "pending_events m' = pending_events m"
    and "\<And>i event. waiting m' i event = waiting m i event"
    and "registered m' = registered m" and "pendingEventCount m' = pendingEventCount m"
    and "scheds m' = scheds m" and "tm m' = tm m"
proof (cases "nat fd < length (channels m)")
  case True
  then show ?thesis using assms by (intro that [of m]) (simp_all add: find_channel_def fd_index_nonneg)
next
  case False
  note idx = grow_index [OF assms(2,3)]
  have "0 < length (channels m)" using assms(1) by (simp add: table_ok_def)
  then have "length (channels m) \<le> nat fd * 2" "nat fd < nat fd * 2" using False by linarith+
  with resize_ok [OF assms(1), of "nat fd * 2"] idx(3) obtain m' where m':
    "resizeChannels (nat fd * 2) m = Inr m'" "table_ok m'" "nat fd < length (channels m')"
    "\<forall>fd. wanted m' fd = wanted m fd" "pending_events m' = pending_events m"
    "\<forall>i event. waiting m' i event = waiting m i event"
    "m' = m\<lparr>channels := channels m @ map new_channel [length (channels m)..<nat fd * 2]\<rparr>" by auto
  then have "grow fd m = Inr m'" unfolding grow_def idx(1,2) by simp
  then have "find_channel fd m = Inr m'" using False by (simp add: find_channel_def idx)
  moreover have "registered m' = registered m" "pendingEventCount m' = pendingEventCount m"
      "scheds m' = scheds m" "tm m' = tm m"
    by (simp_all add: m'(7))
  ultimately show ?thesis using m'(2-6) by (intro that [of m']) simp_all
qed

section \<open>Firing and removing\<close>

text \<open>Firing a registered event posts its task; firing one that is not registered only counts.\<close>

definition posted :: "iom \<Rightarrow> nat \<Rightarrow> u32 \<Rightarrow> iom \<Rightarrow> bool" where
  "posted m i event m' \<longleftrightarrow>
     (\<exists>s. ctx_scheduler (ctx_of (channels m ! i) event) = Some s
        \<and> scheds m' = post s (ctx_task (ctx_of (channels m ! i) event)) (scheds m)
        \<and> \<not> null_task (ctx_task (ctx_of (channels m ! i) event)))"

definition fired :: "iom \<Rightarrow> nat \<Rightarrow> u32 \<Rightarrow> iom \<Rightarrow> bool" where
  "fired m i event m' \<longleftrightarrow> (if waiting m i event then posted m i event m' else scheds m' = scheds m)"

definition after_event :: "callback channel \<Rightarrow> u32 \<Rightarrow> callback channel" where
  "after_event ch event = (if ch_events ch AND event = 0 then ch else drop_event ch event)"

lemma after_event_ok:
  assumes "chan_ok ch" and "event \<in> {READ, WRITE}"
  shows "chan_ok (after_event ch event)" and "ch_fd (after_event ch event) = ch_fd ch"
    and "ch_events (after_event ch event) = ch_events ch AND NOT event"
    and "event_count (ch_events (after_event ch event))
      = event_count (ch_events ch) - (if ch_events ch AND event = 0 then 0 else 1)"
proof -
  note drop = drop_event_ok [OF assms]
  show "chan_ok (after_event ch event)" "ch_fd (after_event ch event) = ch_fd ch"
    using assms(1) drop(1,2) by (simp_all add: after_event_def)
  show "ch_events (after_event ch event) = ch_events ch AND NOT event"
    using event_cases [OF assms(2)] drop(3)
    by (cases rule: chan_ok_events [OF assms(1)]) (auto simp: after_event_def)
  then show "event_count (ch_events (after_event ch event))
      = event_count (ch_events ch) - (if ch_events ch AND event = 0 then 0 else 1)"
    using event_count_drop [OF assms] by simp
qed

lemma fire_event_eq:
  assumes "chan_at m i" and "event \<in> {READ, WRITE}"
  obtains m' where "fire_event i event m = Inr m'" and "fired m i event m'"
    and "channels m' = (channels m)[i := after_event (channels m ! i) event]"
    and "pendingEventCount m' = pendingEventCount m - 1" and "registered m' = registered m"
    and "tm m' = tm m" and "self m' = self m"
proof (cases "ch_events (channels m ! i) AND event = 0")
  case True
  let ?m = "count_by (-1) (with_channel (m\<lparr>scheds := scheds m\<rparr>) i (channels m ! i))"
  have "fire_event i event m = Inr ?m"
    using True by (simp add: fire_event_def handleEvent_idle)
  then show ?thesis
    using True
    by (intro that [of ?m]) (simp_all add: with_channel_def count_by_def fired_def waiting_def after_event_def)
next
  case False
  have ok: "chan_ok (channels m ! i)" and i: "i < length (channels m)" using assms(1) by (simp_all add: chan_at_def)
  obtain s where s: "ctx_scheduler (ctx_of (channels m ! i) event) = Some s"
      "ctx_ready (ctx_of (channels m ! i) event)"
      "handleEvent post event (channels m ! i) (scheds m)
        = Inr (drop_event (channels m ! i) event, post s (ctx_task (ctx_of (channels m ! i) event)) (scheds m))"
    by (rule handleEvent_fires [OF ok assms(2) False, of post "scheds m"])
  let ?m = "count_by (-1) (with_channel (m\<lparr>scheds := post s (ctx_task (ctx_of (channels m ! i) event)) (scheds m)\<rparr>)
      i (drop_event (channels m ! i) event))"
  have "fire_event i event m = Inr ?m" using s(3) by (simp add: fire_event_def)
  then show ?thesis
    using s(1) ctx_ready_task [OF s(2)] False i
    by (intro that [of ?m])
      (simp_all add: posted_def fired_def waiting_def after_event_def with_channel_def count_by_def)
qed

text \<open>\<open>epoll_ctl\<close> for what is left of a channel's events leaves the interest of that rest.\<close>

definition rest_op :: "u32 \<Rightarrow> epoll_op" where
  "rest_op rest = (if rest \<noteq> 0 then EPOLL_CTL_MOD else EPOLL_CTL_DEL)"

lemma rest_ctl:
  assumes "do_ctl ctl (rest_op rest) fd (EPOLLET OR rest) m = Some m1"
  shows "m1 = m\<lparr>registered := (registered m)(fd := (if rest = 0 then 0 else EPOLLET OR rest))\<rparr>"
  using assms by (auto simp: do_ctl_eq rest_op_def)

lemma rest_ctl_succeeds:
  assumes "documented_ctl ctl (int i)" and "in_step m (int i)" and "waiting m i event"
  shows "ctl (rest_op rest) (int i) (registered m)"
proof -
  have "ch_events (channels m ! i) \<noteq> 0" "i < length (channels m)" using assms(3) by (auto simp: waiting_def)
  then have "registered m (int i) \<noteq> 0" using assms(2) by (simp add: in_step_def wanted_def)
  then show ?thesis using assms(1) by (simp add: documented_ctl_def rest_op_def)
qed

lemma event_not_empty: "event \<in> {READ, WRITE} \<Longrightarrow> event \<noteq> 0"
  by (auto simp: event_defs)

lemma removeEvent_ok:
  assumes "chan_at m (nat fd)" and "0 \<le> fd" and "fd < 2 ^ 31" and "event \<in> {READ, WRITE}"
  obtains r m' where "removeEvent ctl fd event m = Inr (r, m')" and "chan_effect (nat fd) 0 m m'"
    and "scheds m' = scheds m"
    and "if r then waiting m (nat fd) event \<and> \<not> waiting m' (nat fd) event else m' = m"
proof -
  let ?ch = "channels m ! nat fd"
  let ?new = "ch_events ?ch AND NOT event"
  note idx = fd_index_nonneg [OF assms(2,3)]
  have at: "nat fd < length (channels m)" "chan_ok ?ch" "ch_fd ?ch = fd" "int (nat fd) = fd"
    using assms(1,2) by (simp_all add: chan_at_def)
  note drop = drop_event_ok [OF at(2) assms(4)]
  consider (no) "removeEvent ctl fd event m = Inr (False, m)"
    | (yes) m1 where "waiting m (nat fd) event" "do_ctl ctl (rest_op ?new) fd (EPOLLET OR ?new) m = Some m1"
  proof (cases "waiting m (nat fd) event")
    case False
    then show ?thesis
      using at(1) by (intro no) (auto simp: removeEvent_def Let_def idx waiting_def)
  next
    case True
    then show ?thesis
      using at(1) no yes
      by (cases "do_ctl ctl (rest_op ?new) fd (EPOLLET OR ?new) m")
        (auto simp: removeEvent_def Let_def idx waiting_def rest_op_def)
  qed
  then show ?thesis
  proof cases
    case no
    then show ?thesis using assms(1) by (intro that [of False m]) (simp_all add: chan_effect_refl)
  next
    case yes
    have ev: "ch_events ?ch AND event \<noteq> 0" using yes(1) by (simp add: waiting_def)
    note m1 = rest_ctl [OF yes(2)]
    obtain ctx where get: "getEventCtx (?ch\<lparr>ch_events := ?new\<rparr>) event = Inr ctx"
      using getEventCtx_eq [OF assms(4)] by blast
    have "cleanUp ctx = no_ctx" by (simp add: cleanUp_def no_ctx_def)
    then have res: "removeEvent ctl fd event m
        = Inr (True, with_channel (count_by (-1) m1) (nat fd) (drop_event ?ch event))"
      using at(1) ev yes(2) get by (simp add: removeEvent_def Let_def idx drop_event_def flip: rest_op_def)
    let ?m = "with_channel (count_by (-1) m1) (nat fd) (drop_event ?ch event)"
    have "chan_effect (nat fd) 0 m ?m"
      unfolding chan_effect_def
      using drop at event_count_drop [OF at(2) assms(4)] ev
      by (intro exI [of _ "drop_event ?ch event"])
        (simp add: with_channel_def count_by_def m1 interest_def)
    moreover have "\<not> waiting ?m (nat fd) event"
      using at(1) drop(3) by (simp add: waiting_def with_channel_def count_by_def m1 and.assoc)
    ultimately show ?thesis
      using res yes(1) by (intro that [of True ?m]) (simp_all add: with_channel_def count_by_def m1)
  qed
qed

lemma cancelEvent_ok:
  assumes "chan_at m (nat fd)" and "0 \<le> fd" and "fd < 2 ^ 31" and "event \<in> {READ, WRITE}"
  obtains r m' where "cancelEvent ctl fd event m = Inr (r, m')" and "chan_effect (nat fd) 0 m m'"
    and "if r then waiting m (nat fd) event \<and> posted m (nat fd) event m' \<and> \<not> waiting m' (nat fd) event
         else m' = m"
    and "documented_ctl ctl fd \<and> in_step m fd \<Longrightarrow> r \<longleftrightarrow> waiting m (nat fd) event"
proof -
  let ?ch = "channels m ! nat fd"
  let ?new = "ch_events ?ch AND NOT event"
  note idx = fd_index_nonneg [OF assms(2,3)]
  have at: "nat fd < length (channels m)" "chan_ok ?ch" "ch_fd ?ch = fd" "int (nat fd) = fd"
    using assms(1,2) by (simp_all add: chan_at_def)
  note drop = drop_event_ok [OF at(2) assms(4)]
  consider (no) "\<not> waiting m (nat fd) event"
    | (fails) "waiting m (nat fd) event" "do_ctl ctl (rest_op ?new) fd (EPOLLET OR ?new) m = None"
    | (yes) m1 where "waiting m (nat fd) event" "do_ctl ctl (rest_op ?new) fd (EPOLLET OR ?new) m = Some m1"
    by fastforce
  then show ?thesis
  proof cases
    case no
    then have "cancelEvent ctl fd event m = Inr (False, m)"
      using at(1) by (auto simp: cancelEvent_def Let_def idx waiting_def)
    then show ?thesis using assms(1) no by (intro that [of False m]) (simp_all add: chan_effect_refl)
  next
    case fails
    then have "cancelEvent ctl fd event m = Inr (False, m)"
      using at(1) by (simp add: cancelEvent_def Let_def idx waiting_def flip: rest_op_def)
    moreover have "\<not> ctl (rest_op ?new) fd (registered m)" using fails(2) by (auto simp: do_ctl_def split: if_splits)
    then have "\<not> (documented_ctl ctl fd \<and> in_step m fd)"
      using rest_ctl_succeeds [of ctl "nat fd" m event] fails(1) at(4) by auto
    ultimately show ?thesis using assms(1) by (intro that [of False m]) (simp_all add: chan_effect_refl)
  next
    case yes
    have ev: "ch_events ?ch AND event \<noteq> 0" using yes(1) by (simp add: waiting_def)
    note m1 = rest_ctl [OF yes(2)]
    have at1: "chan_at m1 (nat fd)" using assms(1) by (simp add: chan_at_def m1)
    obtain m2 where m2: "fire_event (nat fd) event m1 = Inr m2" "fired m1 (nat fd) event m2"
        "channels m2 = (channels m1)[nat fd := after_event (channels m1 ! nat fd) event]"
        "pendingEventCount m2 = pendingEventCount m1 - 1" "registered m2 = registered m1"
      by (rule fire_event_eq [OF at1 assms(4)])
    have res: "cancelEvent ctl fd event m = Inr (True, m2)"
      using at(1) ev yes(2) m2(1) by (simp add: cancelEvent_def Let_def idx flip: rest_op_def)
    have "after_event ?ch event = drop_event ?ch event" using ev by (simp add: after_event_def)
    then have ch: "channels m2 = (channels m)[nat fd := drop_event ?ch event]" using m2(3) by (simp add: m1)
    have "chan_effect (nat fd) 0 m m2"
      unfolding chan_effect_def
      using drop at event_count_drop [OF at(2) assms(4)] ev m2(4,5) ch
      by (intro exI [of _ "drop_event ?ch event"]) (simp add: m1 interest_def)
    moreover have "\<not> waiting m2 (nat fd) event"
      using at(1) drop(3) by (simp add: waiting_def ch and.assoc)
    moreover have "posted m (nat fd) event m2"
      using m2(2) yes(1) by (simp add: fired_def posted_def waiting_def m1)
    ultimately show ?thesis using res yes(1) by (intro that [of True m2]) simp_all
  qed
qed

text \<open>Firing several events of one channel, registered or not, as \<open>cancelAll\<close> and \<open>idle\<close> do.\<close>

lemma maybe_fire:
  assumes "chan_at m i" and "event \<in> {READ, WRITE}"
  obtains m' where "(if r then fire_event i event m else Inr m) = Inr m'"
    and "if r then fired m i event m' else m' = m"
    and "channels m' = (channels m)[i := (if r then after_event (channels m ! i) event else channels m ! i)]"
    and "pendingEventCount m' = pendingEventCount m - (if r then 1 else 0)" and "registered m' = registered m"
proof (cases r)
  case True
  obtain m' where m': "fire_event i event m = Inr m'" "fired m i event m'"
      "channels m' = (channels m)[i := after_event (channels m ! i) event]"
      "pendingEventCount m' = pendingEventCount m - 1" "registered m' = registered m"
    by (rule fire_event_eq [OF assms])
  show ?thesis by (rule that [of m']) (simp_all add: True m')
next
  case False
  show ?thesis by (rule that [of m]) (simp_all add: False)
qed

lemma fire_both:
  assumes "chan_at m i"
  obtains m2 m3 ch where "(if r then fire_event i READ m else Inr m) = Inr m2"
    and "(if w then fire_event i WRITE m2 else Inr m2) = Inr m3"
    and "if r then fired m i READ m2 else m2 = m" and "if w then fired m2 i WRITE m3 else m3 = m2"
    and "channels m3 = (channels m)[i := ch]" and "chan_ok ch" and "ch_fd ch = int i"
    and "ch_events ch = ch_events (channels m ! i) AND NOT ((if r then READ else 0) OR (if w then WRITE else 0))"
    and "event_count (ch_events ch) = event_count (ch_events (channels m ! i))
           - (if r \<and> waiting m i READ then 1 else 0) - (if w \<and> waiting m i WRITE then 1 else 0)"
    and "pendingEventCount m3 = pendingEventCount m - (if r then 1 else 0) - (if w then 1 else 0)"
    and "registered m3 = registered m" and "waiting m2 i WRITE = waiting m i WRITE"
    and "ctx_of (channels m2 ! i) WRITE = ctx_of (channels m ! i) WRITE"
    and "length (channels m2) = length (channels m)"
proof -
  let ?ch = "channels m ! i"
  have i: "i < length (channels m)" and ok: "chan_ok ?ch" "ch_fd ?ch = int i"
    using assms by (simp_all add: chan_at_def)
  define c1 where "c1 = (if r then after_event ?ch READ else ?ch)"
  define ch where "ch = (if w then after_event c1 WRITE else c1)"
  note rd = after_event_ok [OF ok(1), of READ]

  have "NOT READ AND WRITE = WRITE" by (simp add: event_defs)
  then have "ch_events (after_event ?ch READ) AND WRITE = ch_events ?ch AND WRITE"
    unfolding rd(3) [simplified] and.assoc by simp
  moreover have "ctx_of (after_event ?ch READ) WRITE = ctx_of ?ch WRITE"
    by (simp add: ctx_of_def after_event_def drop_event_def setEventCtx_def event_defs)
  ultimately have c1: "chan_ok c1" "ch_fd c1 = int i" "ch_events c1 AND WRITE = ch_events ?ch AND WRITE"
      "ctx_of c1 WRITE = ctx_of ?ch WRITE"
    using ok rd(1,2) by (simp_all add: c1_def)
  obtain m2 where m2: "(if r then fire_event i READ m else Inr m) = Inr m2"
      "if r then fired m i READ m2 else m2 = m" "channels m2 = (channels m)[i := c1]"
      "pendingEventCount m2 = pendingEventCount m - (if r then 1 else 0)" "registered m2 = registered m"
    unfolding c1_def by (rule maybe_fire [OF assms, of READ r]) simp_all
  have at: "channels m2 ! i = c1" "i < length (channels m2)" using m2(3) i by simp_all
  have at2: "chan_at m2 i" using at c1 by (simp add: chan_at_def)
  obtain m3 where m3: "(if w then fire_event i WRITE m2 else Inr m2) = Inr m3"
      "if w then fired m2 i WRITE m3 else m3 = m2" "channels m3 = (channels m2)[i := ch]"
      "pendingEventCount m3 = pendingEventCount m2 - (if w then 1 else 0)" "registered m3 = registered m2"
    unfolding ch_def at(1) [symmetric] by (rule maybe_fire [OF at2, of WRITE w]) simp_all
  note wr = after_event_ok [OF c1(1), of WRITE]
  have ch: "chan_ok ch" "ch_fd ch = int i" using c1(1,2) wr(1,2) by (simp_all add: ch_def)
  have ev: "ch_events ch = ch_events ?ch AND NOT ((if r then READ else 0) OR (if w then WRITE else 0))"
    using rd(3) wr(3) by (simp add: ch_def c1_def and.assoc)
  have w: "waiting m i READ \<longleftrightarrow> ch_events ?ch AND READ \<noteq> 0" "waiting m i WRITE \<longleftrightarrow> ch_events c1 AND WRITE \<noteq> 0"
    using i c1(3) by (simp_all add: waiting_def)
  have "event_count (ch_events c1) = event_count (ch_events ?ch) - (if r \<and> waiting m i READ then 1 else 0)"
    unfolding w(1) c1_def using rd(4) by simp
  then have n: "event_count (ch_events ch) = event_count (ch_events ?ch)
      - (if r \<and> waiting m i READ then 1 else 0) - (if w \<and> waiting m i WRITE then 1 else 0)"
    unfolding w(2) ch_def using wr(4) by simp
  have "channels m3 = (channels m)[i := ch]" "registered m3 = registered m"
      "pendingEventCount m3 = pendingEventCount m - (if r then 1 else 0) - (if w then 1 else 0)"
    using m2(3-5) m3(3-5) by simp_all
  moreover have "waiting m2 i WRITE = waiting m i WRITE" using at i c1(3) by (simp add: waiting_def)
  moreover have "ctx_of (channels m2 ! i) WRITE = ctx_of ?ch WRITE" using c1(4) at(1) by simp
  moreover have "length (channels m2) = length (channels m)" using m2(3) by simp
  ultimately show ?thesis using that m2(1,2) m3(1,2) ch ev n by blast
qed

lemma posted_registered [simp]: "posted (m\<lparr>registered := f\<rparr>) i event m' = posted m i event m'"
  "fired (m\<lparr>registered := f\<rparr>) i event m' = fired m i event m'"
  "waiting (m\<lparr>registered := f\<rparr>) i event = waiting m i event"
  "chan_at (m\<lparr>registered := f\<rparr>) i = chan_at m i"
  by (simp_all add: posted_def fired_def waiting_def chan_at_def)

lemma cancelAll_ok:
  assumes "chan_at m (nat fd)" and "0 \<le> fd" and "fd < 2 ^ 31"
  obtains r m' where "cancelAll ctl fd m = Inr (r, m')" and "chan_effect (nat fd) 0 m m'"
    and "if r then \<not> waiting m' (nat fd) READ \<and> \<not> waiting m' (nat fd) WRITE
           \<and> (\<exists>m2. fired m (nat fd) READ m2 \<and> fired m2 (nat fd) WRITE m'
               \<and> waiting m2 (nat fd) WRITE = waiting m (nat fd) WRITE
               \<and> ctx_of (channels m2 ! nat fd) WRITE = ctx_of (channels m ! nat fd) WRITE)
         else m' = m"
proof -
  let ?i = "nat fd" and ?ch = "channels m ! nat fd"
  note idx = fd_index_nonneg [OF assms(2,3)]
  have i: "?i < length (channels m)" "chan_ok ?ch" "ch_fd ?ch = int ?i" "int ?i = fd"
    using assms(1,2) by (simp_all add: chan_at_def)
  consider (no) "ch_events ?ch = 0 \<or> do_ctl ctl EPOLL_CTL_DEL fd 0 m = None"
    | (yes) m1 where "ch_events ?ch \<noteq> 0" "do_ctl ctl EPOLL_CTL_DEL fd 0 m = Some m1"
    by fastforce
  then show ?thesis
  proof cases
    case no
    then have "cancelAll ctl fd m = Inr (False, m)" using i(1) by (auto simp: cancelAll_def Let_def idx)
    then show ?thesis using assms(1) by (intro that [of False m]) (simp_all add: chan_effect_refl)
  next
    case yes
    then have m1: "m1 = m\<lparr>registered := (registered m)(fd := 0)\<rparr>" by (auto simp: do_ctl_eq)
    let ?r = "ch_events ?ch AND READ \<noteq> 0" and ?w = "ch_events ?ch AND WRITE \<noteq> 0"
    have ch1: "channels m1 = channels m" "chan_at m1 ?i" using assms(1) by (simp_all add: m1)
    obtain m2 m3 ch where f: "(if ?r then fire_event ?i READ m1 else Inr m1) = Inr m2"
        "(if ?w then fire_event ?i WRITE m2 else Inr m2) = Inr m3"
        "if ?r then fired m1 ?i READ m2 else m2 = m1" "if ?w then fired m2 ?i WRITE m3 else m3 = m2"
        "channels m3 = (channels m1)[?i := ch]" "chan_ok ch" "ch_fd ch = int ?i"
        "ch_events ch = ch_events (channels m1 ! ?i) AND NOT ((if ?r then READ else 0) OR (if ?w then WRITE else 0))"
        "event_count (ch_events ch) = event_count (ch_events (channels m1 ! ?i))
           - (if ?r \<and> waiting m1 ?i READ then 1 else 0) - (if ?w \<and> waiting m1 ?i WRITE then 1 else 0)"
        "pendingEventCount m3 = pendingEventCount m1 - (if ?r then 1 else 0) - (if ?w then 1 else 0)"
        "registered m3 = registered m1" "waiting m2 ?i WRITE = waiting m1 ?i WRITE"
        "ctx_of (channels m2 ! ?i) WRITE = ctx_of (channels m1 ! ?i) WRITE" "length (channels m2) = length (channels m1)"
      by (rule fire_both [OF ch1(2), of ?r ?w])
    have w: "waiting m1 ?i READ \<longleftrightarrow> ?r" "waiting m1 ?i WRITE \<longleftrightarrow> ?w" using i(1) by (simp_all add: waiting_def m1)
    have none: "ch_events ch = 0"
      unfolding f(8) ch1 by (cases rule: chan_ok_events [OF i(2)]) (simp_all add: event_defs)
    have at: "channels m3 ! ?i = ch" "length (channels m3) = length (channels m)"
      using f(5) i(1) ch1 by simp_all
    have "chan_effect ?i 0 m m3"
      unfolding chan_effect_def
      using f(5-7,9-11) w none i(3,4) by (intro exI [of _ ch]) (simp add: m1 interest_def)
    moreover have w2: "ch_events (channels m2 ! ?i) AND WRITE \<noteq> 0 \<longleftrightarrow> ?w"
      using f(12,14) w(2) ch1(1) i(1) by (simp add: waiting_def)
    then have "cancelAll ctl fd m = Inr (True, m3)"
      using yes i(1) f(1,2) none at(1) ch1
      by (simp add: cancelAll_def Let_def idx fire_if_registered_def guardE_def)
    moreover have "fired m ?i READ m2" using f(3) w(1) by (auto simp: fired_def m1 split: if_splits)
    moreover have "fired m2 ?i WRITE m3" using f(4,12) w(2) by (auto simp: fired_def split: if_splits)
    moreover have "waiting m2 ?i WRITE = waiting m ?i WRITE"
        "ctx_of (channels m2 ! ?i) WRITE = ctx_of (channels m ! ?i) WRITE"
      using f(12,13) by (simp_all add: m1)
    moreover have "\<not> waiting m3 ?i READ" "\<not> waiting m3 ?i WRITE" using none at by (simp_all add: waiting_def)
    ultimately show ?thesis by (intro that [of True m3]) auto
  qed
qed

lemma cancelAll_keeps:
  assumes "iom_ok m" and "0 \<le> fd" and "fd < 2 ^ 31"
  obtains r m' where "cancelAll ctl fd m = Inr (r, m')" and "iom_ok m'"
proof (cases "nat fd < length (channels m)")
  case True
  show ?thesis
    by (rule cancelAll_ok [OF iom_okD(3) [OF assms(1) True] assms(2,3), where ctl = ctl])
      (use that chan_effect_ok [OF assms(1) True] in blast)
next
  case False
  then have "cancelAll ctl fd m = Inr (False, m)"
    by (simp add: cancelAll_def Let_def fd_index_nonneg [OF assms(2,3)])
  then show ?thesis using that assms(1) by blast
qed

section \<open>Dispatching a report\<close>

lemma ready_events_cases:
  obtains "ready_events evs ev = 0" | "ready_events evs ev = 1" | "ready_events evs ev = 4" | "ready_events evs ev = 5"
proof -
  have "ready_events evs ev \<in> {0, READ, WRITE, READ OR WRITE}" by (simp add: ready_events_def Let_def NONE_def)
  then show ?thesis using that by (auto simp: event_defs)
qed

text \<open>
  A report is acted on when it names a registered event and \<open>epoll_ctl\<close> takes what is left. Every
  event it names counts then, registered or not.
\<close>

definition acted_on :: "epoll_ctl \<Rightarrow> nat \<Rightarrow> u32 \<Rightarrow> iom \<Rightarrow> bool" where
  "acted_on ctl i evs m \<longleftrightarrow>
     (let ch = channels m ! i; revents = ready_events evs (ch_events ch) in
      ch_events ch AND revents \<noteq> NONE
      \<and> ctl (rest_op (ch_events ch AND NOT revents)) (ch_fd ch) (registered m))"

definition stale_events :: "epoll_ctl \<Rightarrow> nat \<Rightarrow> u32 \<Rightarrow> iom \<Rightarrow> int" where
  "stale_events ctl i evs m =
     (let ev = ch_events (channels m ! i) in
      if acted_on ctl i evs m then event_count (ready_events evs ev AND NOT ev) else 0)"

definition reports :: "u32 \<Rightarrow> nat \<Rightarrow> u32 \<Rightarrow> iom \<Rightarrow> bool" where
  "reports evs i event m \<longleftrightarrow> ready_events evs (ch_events (channels m ! i)) AND event \<noteq> 0"

lemma dispatch_channel_ok:
  assumes "chan_at m i"
  obtains m' where "dispatch_channel ctl i evs m = Inr m'" and "chan_effect i (stale_events ctl i evs m) m m'"
    and "if acted_on ctl i evs m
         then ch_events (channels m' ! i) = ch_events (channels m ! i) AND NOT (ready_events evs (ch_events (channels m ! i)))
           \<and> (\<exists>m2. (if reports evs i READ m then fired m i READ m2 else scheds m2 = scheds m)
               \<and> (if reports evs i WRITE m then fired m2 i WRITE m' else scheds m' = scheds m2)
               \<and> waiting m2 i WRITE = waiting m i WRITE
               \<and> ctx_of (channels m2 ! i) WRITE = ctx_of (channels m ! i) WRITE)
         else m' = m"
proof -
  let ?ch = "channels m ! i"
  define rv where "rv = ready_events evs (ch_events ?ch)"
  let ?rest = "ch_events ?ch AND NOT rv"
  have i: "i < length (channels m)" "chan_ok ?ch" "ch_fd ?ch = int i" using assms by (simp_all add: chan_at_def)
  show ?thesis
  proof (cases "acted_on ctl i evs m")
    case False
    then have "ch_events ?ch AND rv = NONE \<or> do_ctl ctl (rest_op ?rest) (ch_fd ?ch) (EPOLLET OR ?rest) m = None"
      by (auto simp: acted_on_def Let_def do_ctl_def rv_def)
    then have "dispatch_channel ctl i evs m = Inr m"
      by (auto simp: dispatch_channel_def Let_def simp flip: rv_def rest_op_def)
    then show ?thesis
      using False chan_effect_refl [OF assms] by (intro that [of m]) (simp_all add: stale_events_def)
  next
    case True
    then obtain m1 where act: "ch_events ?ch AND rv \<noteq> NONE"
        and ctl: "do_ctl ctl (rest_op ?rest) (ch_fd ?ch) (EPOLLET OR ?rest) m = Some m1"
      by (auto simp: acted_on_def Let_def do_ctl_def rv_def)
    note m1 = rest_ctl [OF ctl]
    let ?r = "rv AND READ \<noteq> 0" and ?w = "rv AND WRITE \<noteq> 0"
    have ch1: "channels m1 = channels m" "chan_at m1 i" using assms by (simp_all add: m1)
    obtain m2 m3 ch where f: "(if ?r then fire_event i READ m1 else Inr m1) = Inr m2"
        "(if ?w then fire_event i WRITE m2 else Inr m2) = Inr m3"
        "if ?r then fired m1 i READ m2 else m2 = m1" "if ?w then fired m2 i WRITE m3 else m3 = m2"
        "channels m3 = (channels m1)[i := ch]" "chan_ok ch" "ch_fd ch = int i"
        "ch_events ch = ch_events (channels m1 ! i) AND NOT ((if ?r then READ else 0) OR (if ?w then WRITE else 0))"
        "event_count (ch_events ch) = event_count (ch_events (channels m1 ! i))
           - (if ?r \<and> waiting m1 i READ then 1 else 0) - (if ?w \<and> waiting m1 i WRITE then 1 else 0)"
        "pendingEventCount m3 = pendingEventCount m1 - (if ?r then 1 else 0) - (if ?w then 1 else 0)"
        "registered m3 = registered m1" "waiting m2 i WRITE = waiting m1 i WRITE"
        "ctx_of (channels m2 ! i) WRITE = ctx_of (channels m1 ! i) WRITE" "length (channels m2) = length (channels m1)"
      by (rule fire_both [OF ch1(2), of ?r ?w])
    have mask: "((if ?r then READ else 0) OR (if ?w then WRITE else 0)) = rv"
      unfolding rv_def by (cases evs "ch_events ?ch" rule: ready_events_cases) (simp_all add: event_defs)
    have left: "ch_events ch = ?rest" using f(8) ch1(1) mask by simp
    have w: "waiting m1 i READ \<longleftrightarrow> ch_events ?ch AND READ \<noteq> 0" "waiting m1 i WRITE \<longleftrightarrow> ch_events ?ch AND WRITE \<noteq> 0"
      using i(1) by (simp_all add: waiting_def m1)
    have "event_count (rv AND NOT (ch_events ?ch))
        = (if ?r \<and> ch_events ?ch AND READ = 0 then 1 else 0) + (if ?w \<and> ch_events ?ch AND WRITE = 0 then 1 else 0)"
      unfolding rv_def
      by (cases rule: chan_ok_events [OF i(2)]; cases evs "ch_events ?ch" rule: ready_events_cases)
        (simp_all add: event_count_def event_defs)
    then have "stale_events ctl i evs m
        = (if ?r \<and> ch_events ?ch AND READ = 0 then 1 else 0) + (if ?w \<and> ch_events ?ch AND WRITE = 0 then 1 else 0)"
      using True by (simp add: stale_events_def flip: rv_def)
    then have "pendingEventCount m3 = pendingEventCount m
        + (event_count (ch_events ch) - event_count (ch_events ?ch)) - stale_events ctl i evs m"
      using f(9,10) w by (auto simp: m1)
    moreover have "registered m3 = (registered m)(int i := interest ch)"
      using f(11) left i(3) by (simp add: m1 interest_def)
    ultimately have "chan_effect i (stale_events ctl i evs m) m m3"
      unfolding chan_effect_def using f(5-7) by (intro exI [of _ ch]) (simp add: m1)
    moreover have "dispatch_channel ctl i evs m = Inr m3"
      using act ctl f(1,2) by (simp add: dispatch_channel_def Let_def flip: rv_def rest_op_def)
    moreover have "channels m3 ! i = ch" using f(5) i(1) ch1(1) by simp
    moreover have "if ?r then fired m i READ m2 else scheds m2 = scheds m" using f(3) by (simp add: m1 split: if_splits)
    moreover have "if ?w then fired m2 i WRITE m3 else scheds m3 = scheds m2" using f(4) by (simp split: if_splits)
    moreover have "waiting m2 i WRITE = waiting m i WRITE"
        "ctx_of (channels m2 ! i) WRITE = ctx_of (channels m ! i) WRITE"
      using f(12,13) by (simp_all add: m1)
    ultimately show ?thesis
      using True left by (intro that [of m3]) (auto simp: reports_def simp flip: rv_def)
  qed
qed

text \<open>
  Of what is reported, whatever it is, one event is registered: it fires, and nothing else does.
\<close>

lemma dispatch_one:
  assumes "in_step m (int i)" and "documented_ctl ctl (int i)" and "event \<in> {READ, WRITE}"
    and "waiting m i event" and "ready_events evs (ch_events (channels m ! i)) AND ch_events (channels m ! i) = event"
  obtains m' where "dispatch_channel ctl i evs m = Inr m'" and "posted m i event m'" and "in_step m' (int i)"
    and "\<not> waiting m' i event"
proof -
  let ?ev = "ch_events (channels m ! i)"
  let ?rv = "ready_events evs ?ev"
  have at: "chan_at m i" using assms(1,4) waiting_in_table by (simp add: in_step_def)
  then have i: "i < length (channels m)" "chan_ok (channels m ! i)" "ch_fd (channels m ! i) = int i"
    by (simp_all add: chan_at_def)
  have rv: "reports evs i event m" "e \<in> {READ, WRITE} \<Longrightarrow> e \<noteq> event \<Longrightarrow> reports evs i e m \<Longrightarrow> \<not> waiting m i e" for e
    using assms(3,5) i(1)
    by (cases rule: chan_ok_events [OF i(2)]; cases evs ?ev rule: ready_events_cases;
        auto simp: reports_def waiting_def event_defs)+
  have "?ev AND ?rv \<noteq> NONE"
    using assms(5) event_not_empty [OF assms(3)] by (simp add: NONE_def and.commute)
  then have act: "acted_on ctl i evs m"
    using rest_ctl_succeeds [OF assms(2,1,4)] i(3) by (simp add: acted_on_def Let_def)
  obtain m' where m': "dispatch_channel ctl i evs m = Inr m'" "chan_effect i (stale_events ctl i evs m) m m'"
      "if acted_on ctl i evs m
         then ch_events (channels m' ! i) = ?ev AND NOT ?rv
           \<and> (\<exists>m2. (if reports evs i READ m then fired m i READ m2 else scheds m2 = scheds m)
               \<and> (if reports evs i WRITE m then fired m2 i WRITE m' else scheds m' = scheds m2)
               \<and> waiting m2 i WRITE = waiting m i WRITE
               \<and> ctx_of (channels m2 ! i) WRITE = ctx_of (channels m ! i) WRITE)
         else m' = m"
    by (rule dispatch_channel_ok [OF at])
  obtain m2 where m2: "if reports evs i READ m then fired m i READ m2 else scheds m2 = scheds m"
      "if reports evs i WRITE m then fired m2 i WRITE m' else scheds m' = scheds m2"
      "waiting m2 i WRITE = waiting m i WRITE" "ctx_of (channels m2 ! i) WRITE = ctx_of (channels m ! i) WRITE"
    using m'(3) act by auto
  have ne: "READ \<noteq> WRITE" by (simp add: event_defs)
  have "posted m i event m'"
  proof (cases "event = READ")
    case True
    have "posted m i READ m2" using m2(1) rv(1) assms(4) True by (simp add: fired_def)
    moreover have "scheds m' = scheds m2"
      using m2(2,3) rv(2) [of WRITE] ne True by (auto simp: fired_def split: if_splits)
    ultimately show ?thesis using True by (simp add: posted_def)
  next
    case False
    then have e: "event = WRITE" using assms(3) by simp
    have "scheds m2 = scheds m"
      using m2(1) rv(2) [of READ] ne e by (auto simp: fired_def split: if_splits)
    moreover have "posted m2 i WRITE m'" using m2(2,3) rv(1) assms(4) e by (simp add: fired_def)
    ultimately show ?thesis using m2(4) e by (simp add: posted_def)
  qed
  moreover have "in_step m' (int i)" by (rule chan_effect_in_step [OF m'(2) i(1) assms(1)])
  moreover have "?ev AND NOT ?rv AND event = 0"
    using rv(1) assms(3) by (cases evs ?ev rule: ready_events_cases) (auto simp: reports_def event_defs)
  then have "\<not> waiting m' i event" using m'(3) act by (simp add: waiting_def and.assoc)
  ultimately show ?thesis using that m'(1) by blast
qed

section \<open>Adding\<close>

text \<open>The context an \<open>addEvent\<close> stores.\<close>

definition stored_ctx :: "nat \<Rightarrow> nat \<Rightarrow> callback option \<Rightarrow> callback event_ctx" where
  "stored_ctx s this_fiber f =
     \<lparr>ctx_scheduler = Some s, ctx_fiber = (if f = None then Some this_fiber else None), ctx_cb = f\<rparr>"

lemma addEvent_locked_ok:
  assumes "chan_at m (nat fd)" and "0 \<le> fd" and "fd < 2 ^ 31" and "event \<in> {READ, WRITE}"
    and "f \<noteq> None \<or> in_exec"
  obtains r m' where "addEvent_locked ctl (Some s) this_fiber in_exec fd event f m = Inr (r, m')"
    and "chan_effect (nat fd) 0 m m'" and "scheds m' = scheds m"
    and "if r = 0 then \<not> waiting m (nat fd) event \<and> waiting m' (nat fd) event
           \<and> ctx_of (channels m' ! nat fd) event = stored_ctx s this_fiber f
         else r = -1 \<and> m' = m"
    and "documented_ctl ctl fd \<and> in_step m fd \<Longrightarrow> r = 0 \<longleftrightarrow> \<not> waiting m (nat fd) event"
proof -
  let ?ch = "channels m ! nat fd"
  let ?op = "if ch_events ?ch \<noteq> 0 then EPOLL_CTL_MOD else EPOLL_CTL_ADD"
  let ?new = "EPOLLET OR (ch_events ?ch OR event)"
  note idx = fd_index_nonneg [OF assms(2,3)]
  have at: "nat fd < length (channels m)" "chan_ok ?ch" "ch_fd ?ch = fd" "int (nat fd) = fd"
    using assms(1,2) by (simp_all add: chan_at_def)
  consider (there) "ch_events ?ch AND event \<noteq> 0"
    | (fails) "ch_events ?ch AND event = 0" "do_ctl ctl ?op fd ?new m = None"
    | (added) m1 where "ch_events ?ch AND event = 0" "do_ctl ctl ?op fd ?new m = Some m1" by auto
  then show ?thesis
  proof cases
    case there
    then have "addEvent_locked ctl (Some s) this_fiber in_exec fd event f m = Inr (-1, m)"
      by (simp add: addEvent_locked_def Let_def idx)
    then show ?thesis
      using chan_effect_refl [OF assms(1)] at(1) there by (intro that [of "-1" m]) (simp_all add: waiting_def)
  next
    case fails
    then have refused: "addEvent_locked ctl (Some s) this_fiber in_exec fd event f m = Inr (-1, m)"
      by (simp add: addEvent_locked_def Let_def idx)
    have "\<not> ctl ?op fd (registered m)" using fails(2) by (auto simp: do_ctl_def split: if_splits)
    moreover have "ctl ?op fd (registered m)" if "documented_ctl ctl fd" "in_step m fd"
    proof -
      have "registered m fd = interest ?ch" using that(2) at(1) assms(2) by (simp add: in_step_def wanted_def)
      then show ?thesis using that(1) by (simp add: documented_ctl_def)
    qed
    ultimately have "\<not> (documented_ctl ctl fd \<and> in_step m fd)" by blast
    then show ?thesis
      using refused chan_effect_refl [OF assms(1)] by (intro that [of "-1" m]) simp_all
  next
    case added
    let ?ctx = "stored_ctx s this_fiber f"
    let ?ch' = "setEventCtx (?ch\<lparr>ch_events := ch_events ?ch OR event\<rparr>) event ?ctx"
    have empty: "ctx_of ?ch event = no_ctx"
      using added(1) at(2) assms(4) by (auto simp: chan_ok_def ctx_of_def)
    then have get: "getEventCtx (?ch\<lparr>ch_events := ch_events ?ch OR event\<rparr>) event = Inr no_ctx"
      using getEventCtx_eq [OF assms(4), of "?ch\<lparr>ch_events := ch_events ?ch OR event\<rparr>"]
      by (simp add: ctx_of_def split: if_splits)
    have m1: "m1 = m\<lparr>registered := (registered m)(fd := ?new)\<rparr>"
      using added(2) by (auto simp: do_ctl_eq split: if_splits)
    let ?m = "with_channel (count_by 1 m1) (nat fd) ?ch'"
    have res: "addEvent_locked ctl (Some s) this_fiber in_exec fd event f m = Inr (0, ?m)"
      using added assms(5) get
      by (cases f) (simp_all add: addEvent_locked_def Let_def idx no_ctx_def stored_ctx_def)
    have "ctx_ready ?ctx" by (cases f) (simp_all add: ctx_ready_def stored_ctx_def)
    note new = add_event_ok [OF at(2) assms(4) added(1) this]
    have ev: "ch_events ?ch' = ch_events ?ch OR event" "ch_fd ?ch' = int (nat fd)" "ctx_of ?ch' event = ?ctx"
      using at(3,4) assms(4) by (auto simp: setEventCtx_def ctx_of_def)
    have "(ch_events ?ch OR event) AND event = event" by (simp add: bit.conj_disj_distrib2)
    moreover have "event \<noteq> 0" by (rule event_not_empty [OF assms(4)])
    moreover have "(0 :: u32) AND event = 0" by simp
    ultimately have there: "ch_events ?ch' AND event \<noteq> 0" "ch_events ?ch' \<noteq> 0"
      unfolding ev(1) by metis+
    have m: "channels ?m = (channels m)[nat fd := ?ch']" "scheds ?m = scheds m"
        "registered ?m = (registered m)(int (nat fd) := interest ?ch')"
        "pendingEventCount ?m = pendingEventCount m + 1"
      using there(2) at(4) by (simp_all add: with_channel_def count_by_def m1 interest_def ev(1))
    have "chan_effect (nat fd) 0 m ?m"
      unfolding chan_effect_def m(1,3,4)
      using new ev(1,2) by (intro exI [of _ ?ch']) simp
    moreover have "waiting ?m (nat fd) event" "channels ?m ! nat fd = ?ch'"
      using at(1) there(1) by (simp_all add: waiting_def m(1))
    ultimately show ?thesis
      using res added(1) ev(3) m(2) by (intro that [of 0 ?m]) (simp_all add: waiting_def)
  qed
qed

lemma addEvent_ok:
  assumes "table_ok m" and "0 \<le> fd" and "fd < 2 ^ 31" and "event \<in> {READ, WRITE}" and "f \<noteq> None \<or> in_exec"
  obtains r m' where "addEvent ctl (Some s) this_fiber in_exec fd event f m = Inr (r, m')"
    and "table_ok m'" and "\<And>fd'. in_step m fd' \<Longrightarrow> in_step m' fd'" and "iom_ok m \<Longrightarrow> iom_ok m'"
    and "scheds m' = scheds m"
    and "if r = 0 then \<not> waiting m (nat fd) event \<and> waiting m' (nat fd) event
           \<and> ctx_of (channels m' ! nat fd) event = stored_ctx s this_fiber f
         else r = -1 \<and> pending_events m' = pending_events m"
    and "documented_ctl ctl fd \<and> in_step m fd \<Longrightarrow> r = 0 \<longleftrightarrow> \<not> waiting m (nat fd) event"
proof -
  obtain m1 where m1: "find_channel fd m = Inr m1" "table_ok m1" "nat fd < length (channels m1)"
      "\<And>fd. wanted m1 fd = wanted m fd" "pending_events m1 = pending_events m"
      "\<And>i event. waiting m1 i event = waiting m i event"
      "registered m1 = registered m" "pendingEventCount m1 = pendingEventCount m" "scheds m1 = scheds m"
    by (rule find_channel_ok [OF assms(1-3)]) blast
  have st: "in_step m1 fd'" if "in_step m fd'" for fd'
    using that m1(2,4,7) by (simp add: in_step_def)
  have ok: "iom_ok m1" if "iom_ok m" using that m1(2,4,5,7,8) by (simp add: iom_ok_def)
  obtain r m' where r: "addEvent_locked ctl (Some s) this_fiber in_exec fd event f m1 = Inr (r, m')"
      "chan_effect (nat fd) 0 m1 m'" "scheds m' = scheds m1"
      "if r = 0 then \<not> waiting m1 (nat fd) event \<and> waiting m' (nat fd) event
           \<and> ctx_of (channels m' ! nat fd) event = stored_ctx s this_fiber f
         else r = -1 \<and> m' = m1"
      "documented_ctl ctl fd \<and> in_step m1 fd \<Longrightarrow> r = 0 \<longleftrightarrow> \<not> waiting m1 (nat fd) event"
    by (rule addEvent_locked_ok [OF table_okD [OF m1(2,3)] assms(2-5),
        where ctl = ctl and s = s and this_fiber = this_fiber]) blast
  show ?thesis
  proof (rule that [of r m'])
    show "addEvent ctl (Some s) this_fiber in_exec fd event f m = Inr (r, m')"
      using m1(1) r(1) by (simp add: addEvent_def)
    show "table_ok m'" by (rule chan_effect_table [OF m1(2) r(2)])
    show "in_step m' fd'" if "in_step m fd'" for fd'
      by (rule chan_effect_in_step [OF r(2) m1(3) st [OF that]])
    show "iom_ok m'" if "iom_ok m" by (rule chan_effect_ok [OF ok [OF that] m1(3) r(2)])
    show "scheds m' = scheds m" using r(3) m1(9) by simp
    show "if r = 0 then \<not> waiting m (nat fd) event \<and> waiting m' (nat fd) event
           \<and> ctx_of (channels m' ! nat fd) event = stored_ctx s this_fiber f
         else r = -1 \<and> pending_events m' = pending_events m"
      using r(4) m1(5,6) by (simp split: if_splits)
    show "r = 0 \<longleftrightarrow> \<not> waiting m (nat fd) event" if "documented_ctl ctl fd \<and> in_step m fd"
      using r(5) that st m1(6) by blast
  qed
qed

lemma dispatch_timer_frame:
  assumes "dispatch_timer now probe m = Inr m'"
  shows "channels m' = channels m" and "registered m' = registered m" and "pendingEventCount m' = pendingEventCount m"
  using assms by (auto simp: dispatch_timer_def faults Let_def split: prod.splits if_splits)

section \<open>All reachable reactors\<close>

text \<open>
  An operation on a channel that has been found, under the channel's lock: the ones of the program
  and the dispatch of a report of the kernel, which may name anything, also events that have been
  removed since. \<open>d\<close> is the number of events the report is wrong about.
\<close>

inductive chan_step :: "epoll_ctl \<Rightarrow> nat \<Rightarrow> int \<Rightarrow> iom \<Rightarrow> iom \<Rightarrow> bool" for ctl where
  cs_add: "0 \<le> fd \<Longrightarrow> fd < 2 ^ 31 \<Longrightarrow> event \<in> {READ, WRITE} \<Longrightarrow> f \<noteq> None \<or> in_exec \<Longrightarrow>
    addEvent_locked ctl (Some s) this_fiber in_exec fd event f m = Inr (r, m') \<Longrightarrow> chan_step ctl (nat fd) 0 m m'"
| cs_remove: "0 \<le> fd \<Longrightarrow> fd < 2 ^ 31 \<Longrightarrow> event \<in> {READ, WRITE} \<Longrightarrow>
    removeEvent ctl fd event m = Inr (ok, m') \<Longrightarrow> chan_step ctl (nat fd) 0 m m'"
| cs_cancel: "0 \<le> fd \<Longrightarrow> fd < 2 ^ 31 \<Longrightarrow> event \<in> {READ, WRITE} \<Longrightarrow>
    cancelEvent ctl fd event m = Inr (ok, m') \<Longrightarrow> chan_step ctl (nat fd) 0 m m'"
| cs_cancelAll: "0 \<le> fd \<Longrightarrow> fd < 2 ^ 31 \<Longrightarrow> cancelAll ctl fd m = Inr (ok, m') \<Longrightarrow> chan_step ctl (nat fd) 0 m m'"
| cs_report: "dispatch_channel ctl i evs m = Inr m' \<Longrightarrow> chan_step ctl i (stale_events ctl i evs m) m m'"

lemma chan_step_effect: "chan_step ctl i d m m' \<Longrightarrow> chan_at m i \<Longrightarrow> chan_effect i d m m'"
proof (induction rule: chan_step.induct)
  case (cs_add fd event f in_exec s this_fiber m r m')
  then show ?case
    using addEvent_locked_ok [OF cs_add(6,1-4), of ctl s this_fiber] by (metis Inr_inject prod.inject)
next
  case (cs_remove fd event m ok m')
  then show ?case using removeEvent_ok [OF cs_remove(5,1-3), of ctl] by (metis Inr_inject prod.inject)
next
  case (cs_cancel fd event m ok m')
  then show ?case using cancelEvent_ok [OF cs_cancel(5,1-3), of ctl] by (metis Inr_inject prod.inject)
next
  case (cs_cancelAll fd m ok m')
  then show ?case using cancelAll_ok [OF cs_cancelAll(4,1,2), of ctl] by (metis Inr_inject prod.inject)
next
  case (cs_report i evs m m')
  then show ?case using dispatch_channel_ok [OF cs_report(2), of ctl evs] by (metis Inr_inject)
qed

text \<open>
  A reactor with its past: the sizes the table has had, which a thread may have read before it
  waited for the write lock; the channels a racing \<open>grow\<close> has cut off, which are leaked but stay
  known to the kernel and to threads that hold them; the descriptors channel and kernel no longer
  agree about; and how many events reports were wrong about.
\<close>

record io_world =
  reactor_of :: iom
  seen_sizes :: "nat set"
  leaked :: "callback channel list"
  estranged :: "int set"
  stale_count :: int

definition with_channels :: "callback channel list \<Rightarrow> iom \<Rightarrow> iom" where
  "with_channels cs m = m\<lparr>channels := cs\<rparr>"

text \<open>
  A step finds a channel in the table and works on it; works on a leaked one, for which the table
  is stood in for by one with this channel in its place; grows the table, late or not; closes a
  descriptor without the reactor, so that the kernel forgets it; or serves timers and the wake-up
  pipe. Schedulers and timers change on their own.
\<close>

inductive io_step :: "epoll_ctl \<Rightarrow> io_world \<Rightarrow> io_world \<Rightarrow> bool" for ctl where
  io_channel: "i < length (channels (reactor_of w)) \<Longrightarrow> chan_step ctl i d (reactor_of w) m' \<Longrightarrow>
    io_step ctl w (w\<lparr>reactor_of := m', stale_count := stale_count w + d\<rparr>)"
| io_leaked: "j < length (leaked w) \<Longrightarrow> ch = leaked w ! j \<Longrightarrow> i = nat (ch_fd ch) \<Longrightarrow>
    chan_step ctl i d (with_channels (replicate (Suc i) ch) (reactor_of w)) m' \<Longrightarrow>
    io_step ctl w (w\<lparr>reactor_of := with_channels (channels (reactor_of w)) m',
      leaked := (leaked w)[j := channels m' ! i], stale_count := stale_count w + d\<rparr>)"
| io_grow: "n \<in> seen_sizes w \<Longrightarrow> n \<le> nat fd \<Longrightarrow> 0 \<le> fd \<Longrightarrow> fd < 2 ^ 31 \<Longrightarrow> grow fd (reactor_of w) = Inr m' \<Longrightarrow>
    io_step ctl w (w\<lparr>reactor_of := m', seen_sizes := insert (length (channels m')) (seen_sizes w),
      leaked := leaked w @ drop (length (channels m')) (channels (reactor_of w)),
      estranged := estranged w \<union> int ` {length (channels m')..<length (channels (reactor_of w))}\<rparr>)"
| io_close: "m = reactor_of w \<Longrightarrow>
    io_step ctl w (w\<lparr>reactor_of := m\<lparr>registered := (registered m)(fd := 0)\<rparr>,
      estranged := (if registered m fd = 0 then estranged w else insert fd (estranged w))\<rparr>)"
| io_timer: "dispatch_timer now probe (reactor_of w) = Inr m' \<Longrightarrow> io_step ctl w (w\<lparr>reactor_of := m'\<rparr>)"
| io_weak: "io_step ctl w (w\<lparr>reactor_of := dispatch_weakup (reactor_of w)\<rparr>)"
| io_other: "io_step ctl w (w\<lparr>reactor_of := (reactor_of w)\<lparr>scheds := ss, tm := t\<rparr>\<rparr>)"

definition new_world :: "(nat \<Rightarrow> callback sched) \<Rightarrow> nat \<Rightarrow> tmgr \<Rightarrow> io_world" where
  "new_world ss me t =
     \<lparr>reactor_of = new_IOManager ss me t, seen_sizes = {32}, leaked = [], estranged = {}, stale_count = 0\<rparr>"

inductive io_reachable :: "epoll_ctl \<Rightarrow> io_world \<Rightarrow> bool" for ctl where
  io_init: "io_reachable ctl (new_world ss me t)"
| io_next: "io_reachable ctl w \<Longrightarrow> io_step ctl w w' \<Longrightarrow> io_reachable ctl w'"

definition leaked_events :: "io_world \<Rightarrow> int" where
  "leaked_events w = (\<Sum>ch \<leftarrow> leaked w. event_count (ch_events ch))"

definition world_ok :: "io_world \<Rightarrow> bool" where
  "world_ok w \<longleftrightarrow> table_ok (reactor_of w) \<and> 0 \<notin> seen_sizes w
     \<and> (\<forall>fd. fd \<notin> estranged w \<longrightarrow> registered (reactor_of w) fd = wanted (reactor_of w) fd)
     \<and> (\<forall>ch \<in> set (leaked w). chan_ok ch \<and> 0 \<le> ch_fd ch \<and> ch_fd ch \<in> estranged w)
     \<and> pendingEventCount (reactor_of w) = pending_events (reactor_of w) + leaked_events w - stale_count w"

lemma pending_events_list: "pending_events m = (\<Sum>ch \<leftarrow> channels m. event_count (ch_events ch))"
  by (simp add: pending_events_def sum_list_sum_nth atLeast0LessThan)

lemma sum_list_update_int:
  "j < length xs \<Longrightarrow> (\<Sum>x \<leftarrow> xs[j := y]. f x) = (\<Sum>x \<leftarrow> xs. f x) + f y - (f (xs ! j) :: int)"
  by (induction xs arbitrary: j) (auto split: nat.splits)

lemma new_world_ok: "world_ok (new_world ss me t)"
proof -
  have "ch_events (new_channel i :: callback channel) = 0" for i by (simp add: new_channel_def NONE_def)
  then have "sum_list (map (\<lambda>ch. event_count (ch_events ch)) (map new_channel ks :: callback channel list)) = 0" for ks
    by (induction ks) (simp_all add: event_count_def)
  moreover have "chan_at (new_IOManager ss me t) i" if "i < 32" for i
    using that chan_ok_new by (simp add: chan_at_def new_IOManager_def new_channel_def)
  moreover have "wanted (new_IOManager ss me t) fd = 0" for fd
    by (auto simp: wanted_def new_IOManager_def interest_def new_channel_def NONE_def)
  ultimately show ?thesis
    by (simp add: world_ok_def new_world_def table_ok_def leaked_events_def pending_events_list new_IOManager_def)
qed

text \<open>Growing too late cuts the table off; otherwise nothing is lost.\<close>

lemma grow_effect:
  assumes "table_ok m" and "0 < nat fd" and "fd < 2 ^ 31"
  obtains m' where "grow fd m = Inr m'" and "table_ok m'" and "length (channels m') = 2 * nat fd"
    and "registered m' = registered m" and "pendingEventCount m' = pendingEventCount m"
    and "scheds m' = scheds m" and "tm m' = tm m" and "self m' = self m"
    and "pending_events m' + (\<Sum>ch \<leftarrow> drop (2 * nat fd) (channels m). event_count (ch_events ch)) = pending_events m"
    and "\<And>d. d \<notin> int ` {2 * nat fd..<length (channels m)} \<Longrightarrow> wanted m' d = wanted m d"
    and "\<And>i event. waiting m' i event \<longleftrightarrow> waiting m i event \<and> i < 2 * nat fd"
proof -
  have fd: "0 \<le> fd" using assms(2) by linarith
  note idx = grow_index [OF fd assms(3)]
  have grow: "grow fd m = bindE (resizeChannels (nat fd * 2) m)
      (\<lambda>m'. guardE (nat fd < length (channels m')) OutOfBounds (Inr m'))"
    unfolding grow_def idx(1,2) ..
  show ?thesis
  proof (cases "length (channels m) \<le> nat fd * 2")
    case True
    then obtain m' where m': "resizeChannels (nat fd * 2) m = Inr m'" "table_ok m'" "length (channels m') = nat fd * 2"
        "\<forall>fd. wanted m' fd = wanted m fd" "pending_events m' = pending_events m"
        "\<forall>i event. waiting m' i event = waiting m i event"
        "m' = m\<lparr>channels := channels m @ map new_channel [length (channels m)..<nat fd * 2]\<rparr>"
      using resize_ok [OF assms(1) _ idx(3)] by blast
    have "registered m' = registered m" "pendingEventCount m' = pendingEventCount m" "scheds m' = scheds m"
        "tm m' = tm m" "self m' = self m"
      by (simp_all add: m'(7))
    moreover have "grow fd m = Inr m'" unfolding grow m'(1) using m'(3) assms(2) by simp
    moreover have "drop (2 * nat fd) (channels m) = []" using True by simp
    moreover have "waiting m' i event \<longleftrightarrow> waiting m i event \<and> i < 2 * nat fd" for i event
      using m'(6) True by (auto simp: waiting_def)
    ultimately show ?thesis using that [of m'] m'(2-5) by simp
  next
    case False
    let ?m = "m\<lparr>channels := take (nat fd * 2) (channels m)\<rparr>"
    have res: "resizeChannels (nat fd * 2) m = Inr ?m" using False idx(3) by (simp add: resizeChannels_def)
    have len: "length (channels ?m) = 2 * nat fd" using False by simp
    have "chan_at ?m i" if "i < 2 * nat fd" for i
      using table_okD [OF assms(1), of i] that False by (simp add: chan_at_def)
    then have "table_ok ?m" using assms(1,2) False by (simp add: table_ok_def)
    moreover have "grow fd m = Inr ?m" unfolding grow res using len assms(2) by simp
    moreover have "pending_events ?m + (\<Sum>ch \<leftarrow> drop (2 * nat fd) (channels m). event_count (ch_events ch))
        = pending_events m"
      unfolding pending_events_list
      by (simp add: mult.commute flip: sum_list.append map_append)
    moreover have "wanted ?m d = wanted m d" if "d \<notin> int ` {2 * nat fd..<length (channels m)}" for d
    proof (cases "0 \<le> d")
      case True
      then have "d = int (nat d)" by simp
      with that have "nat d < 2 * nat fd \<or> length (channels m) \<le> nat d" by (metis atLeastLessThan_iff imageI linorder_not_le)
      then show ?thesis using False by (auto simp: wanted_def)
    qed (simp add: wanted_def)
    moreover have "waiting ?m i event \<longleftrightarrow> waiting m i event \<and> i < 2 * nat fd" for i event
      using False by (auto simp: waiting_def)
    ultimately show ?thesis using that [of ?m] len by simp
  qed
qed

lemma world_okD:
  assumes "world_ok w"
  shows "table_ok (reactor_of w)" and "0 \<notin> seen_sizes w"
    and "fd \<notin> estranged w \<Longrightarrow> registered (reactor_of w) fd = wanted (reactor_of w) fd"
    and "ch \<in> set (leaked w) \<Longrightarrow> chan_ok ch \<and> 0 \<le> ch_fd ch \<and> ch_fd ch \<in> estranged w"
    and "pendingEventCount (reactor_of w) = pending_events (reactor_of w) + leaked_events w - stale_count w"
  using assms by (simp_all add: world_ok_def)

lemma world_ok_same:
  assumes "world_ok w" and "channels m' = channels (reactor_of w)" and "registered m' = registered (reactor_of w)"
    and "pendingEventCount m' = pendingEventCount (reactor_of w)"
  shows "world_ok (w\<lparr>reactor_of := m'\<rparr>)"
  using assms
  by (simp add: world_ok_def table_ok_def chan_at_def wanted_def pending_events_def leaked_events_def)

lemma leaked_step_ok:
  assumes "world_ok w" and "j < length (leaked w)" and "ch = leaked w ! j" and "i = nat (ch_fd ch)"
    and "chan_step ctl i d (with_channels (replicate (Suc i) ch) (reactor_of w)) m'"
  shows "world_ok (w\<lparr>reactor_of := with_channels (channels (reactor_of w)) m',
      leaked := (leaked w)[j := channels m' ! i], stale_count := stale_count w + d\<rparr>)"
proof -
  let ?m = "reactor_of w" and ?n = "\<lambda>ch. event_count (ch_events ch)"
  let ?w = "w\<lparr>reactor_of := with_channels (channels ?m) m', leaked := (leaked w)[j := channels m' ! i],
      stale_count := stale_count w + d\<rparr>"
  note ok = world_okD [OF assms(1)]
  have "ch \<in> set (leaked w)" using assms(2,3) by simp
  then have ch: "chan_ok ch" "0 \<le> ch_fd ch" "ch_fd ch \<in> estranged w" using ok(4) by simp_all
  then have i: "ch_fd ch = int i" using assms(4) by simp
  have rep: "replicate (Suc i) ch ! i = ch" by (rule nth_replicate) simp
  have "chan_at (with_channels (replicate (Suc i) ch) ?m) i"
    using ch(1) i rep by (simp add: chan_at_def with_channels_def)
  from chan_step_effect [OF assms(5) this] obtain c where c: "channels m' = (replicate (Suc i) ch)[i := c]" "chan_ok c"
      "ch_fd c = int i" "pendingEventCount m' = pendingEventCount ?m + (?n c - ?n ch) - d"
      "registered m' = (registered ?m)(int i := interest c) \<or> registered m' = registered ?m"
    unfolding chan_effect_def using rep by (auto simp: with_channels_def simp del: replicate_Suc)
  have "channels m' ! i = c" unfolding c(1) by (rule nth_list_update_eq) simp
  then have new: "leaked ?w = (leaked w)[j := c]" by simp
  have "leaked_events ?w = leaked_events w + ?n c - ?n ch"
    unfolding leaked_events_def new using sum_list_update_int [OF assms(2)] assms(3) by simp
  moreover have "pending_events (reactor_of ?w) = pending_events ?m"
    by (simp add: pending_events_def with_channels_def)
  ultimately have "pendingEventCount (reactor_of ?w) = pending_events (reactor_of ?w) + leaked_events ?w - stale_count ?w"
    using ok(5) c(4) by (simp add: with_channels_def)
  moreover have "chan_ok c' \<and> 0 \<le> ch_fd c' \<and> ch_fd c' \<in> estranged w" if "c' \<in> set (leaked ?w)" for c'
    using that ok(4) c(2,3) ch(3) i set_update_subset_insert [of "leaked w" j c] unfolding new by auto
  moreover have "registered (reactor_of ?w) fd = wanted (reactor_of ?w) fd" if "fd \<notin> estranged w" for fd
    using ok(3) [OF that] c(5) ch(3) i that by (auto simp: with_channels_def wanted_def)
  moreover have "table_ok (reactor_of ?w)"
    using ok(1) by (simp add: table_ok_def with_channels_def chan_at_def)
  ultimately show ?thesis using ok(2) by (simp add: world_ok_def)
qed

lemma grow_step_ok:
  assumes "world_ok w" and "n \<in> seen_sizes w" and "n \<le> nat fd" and "fd < 2 ^ 31"
    and "grow fd (reactor_of w) = Inr m'"
  shows "world_ok (w\<lparr>reactor_of := m', seen_sizes := insert (length (channels m')) (seen_sizes w),
      leaked := leaked w @ drop (length (channels m')) (channels (reactor_of w)),
      estranged := estranged w \<union> int ` {length (channels m')..<length (channels (reactor_of w))}\<rparr>)"
proof -
  let ?m = "reactor_of w"
  note ok = world_okD [OF assms(1)]
  have pos: "0 < nat fd" using ok(2) assms(2,3) by (cases n) auto
  obtain m1 where "grow fd ?m = Inr m1" and m1: "table_ok m1" "length (channels m1) = 2 * nat fd"
      "registered m1 = registered ?m" "pendingEventCount m1 = pendingEventCount ?m"
      "pending_events m1 + (\<Sum>ch \<leftarrow> drop (2 * nat fd) (channels ?m). event_count (ch_events ch)) = pending_events ?m"
      "\<And>d. d \<notin> int ` {2 * nat fd..<length (channels ?m)} \<Longrightarrow> wanted m1 d = wanted ?m d"
    by (rule grow_effect [OF ok(1) pos assms(4)]) (rule that)
  then have m': "m' = m1" using assms(5) by simp
  have "chan_ok ch \<and> 0 \<le> ch_fd ch \<and> ch_fd ch \<in> int ` {2 * nat fd..<length (channels ?m)}"
    if mem: "ch \<in> set (drop (2 * nat fd) (channels ?m))" for ch
  proof -
    obtain k where "ch = drop (2 * nat fd) (channels ?m) ! k" "k < length (drop (2 * nat fd) (channels ?m))"
      using mem unfolding in_set_conv_nth by blast
    then have k: "ch = channels ?m ! (2 * nat fd + k)" "2 * nat fd + k < length (channels ?m)" by simp_all
    have "chan_at ?m (2 * nat fd + k)" by (rule table_okD [OF ok(1) k(2)])
    then have "chan_ok ch" "ch_fd ch = int (2 * nat fd + k)" by (simp_all only: chan_at_def k(1))
    moreover have "2 * nat fd + k \<in> {2 * nat fd..<length (channels ?m)}" using k(2) by simp
    ultimately show ?thesis by (metis imageI of_nat_0_le_iff)
  qed
  moreover have "leaked_events (w\<lparr>reactor_of := m', seen_sizes := insert (length (channels m')) (seen_sizes w),
      leaked := leaked w @ drop (length (channels m')) (channels ?m),
      estranged := estranged w \<union> int ` {length (channels m')..<length (channels ?m)}\<rparr>)
      = leaked_events w + (\<Sum>ch \<leftarrow> drop (2 * nat fd) (channels ?m). event_count (ch_events ch))"
    by (simp add: leaked_events_def m' m1(2))
  ultimately show ?thesis
    unfolding world_ok_def using ok m1 pos by (auto simp: m')
qed

lemma io_step_keeps: "io_step ctl w w' \<Longrightarrow> world_ok w \<Longrightarrow> world_ok w'"
proof (induction rule: io_step.induct)
  case (io_channel i w d m')
  note ok = world_okD [OF io_channel(3)]
  have eff: "chan_effect i d (reactor_of w) m'"
    by (rule chan_step_effect [OF io_channel(2) table_okD [OF ok(1) io_channel(1)]])
  show ?case
    using ok chan_effect_table [OF ok(1) eff] chan_effect_wanted [OF eff io_channel(1)]
      chan_effect_count [OF eff io_channel(1)]
    by (simp add: world_ok_def leaked_events_def)
next
  case (io_leaked j w ch i d m')
  then show ?case by (intro leaked_step_ok)
next
  case (io_grow n w fd m')
  then show ?case by (intro grow_step_ok)
next
  case (io_close m w fd)
  note ok = world_okD [OF io_close(2)]
  have "table_ok (m\<lparr>registered := f\<rparr>)" "wanted (m\<lparr>registered := f\<rparr>) fd' = wanted m fd'" "pending_events (m\<lparr>registered := f\<rparr>) = pending_events m"
    if "m = reactor_of w" for f fd'
    using ok(1) that by (simp_all add: table_ok_def chan_at_def wanted_def pending_events_def)
  then show ?case using ok io_close(1) by (auto simp: world_ok_def leaked_events_def)
next
  case (io_timer now probe w m')
  show ?case by (rule world_ok_same [OF io_timer(2)]) (use dispatch_timer_frame [OF io_timer(1)] in simp_all)
next
  case (io_weak w)
  show ?case by (rule world_ok_same [OF io_weak]) (simp_all add: dispatch_weakup_def)
next
  case (io_other w ss t)
  show ?case by (rule world_ok_same [OF io_other]) simp_all
qed

lemma io_reachable_ok: "io_reachable ctl w \<Longrightarrow> world_ok w"
  by (induction rule: io_reachable.induct) (auto intro: new_world_ok io_step_keeps)

lemma reachable_in_step: "io_reachable ctl w \<Longrightarrow> fd \<notin> estranged w \<Longrightarrow> in_step (reactor_of w) fd"
  using io_reachable_ok world_okD(1,3) by (auto simp: in_step_def)

text \<open>\<open>addEvent\<close> without a race is a growing step, if need be, and an operation on the channel found.\<close>

lemma addEvent_reachable:
  assumes "io_reachable ctl w" and "length (channels (reactor_of w)) \<in> seen_sizes w"
    and "0 \<le> fd" and "fd < 2 ^ 31" and "event \<in> {READ, WRITE}" and "f \<noteq> None \<or> in_exec"
    and "addEvent ctl (Some s) this_fiber in_exec fd event f (reactor_of w) = Inr (r, m')"
  obtains w' where "io_reachable ctl w'" and "reactor_of w' = m'" and "length (channels m') \<in> seen_sizes w'"
    and "stale_count w' = stale_count w" and "estranged w' = estranged w" and "leaked w' = leaked w"
    and "seen_sizes w \<subseteq> seen_sizes w'"
proof -
  let ?m = "reactor_of w"
  have ok: "table_ok ?m" using io_reachable_ok [OF assms(1)] world_okD(1) by blast
  obtain m1 where m1: "find_channel fd ?m = Inr m1"
      "addEvent_locked ctl (Some s) this_fiber in_exec fd event f m1 = Inr (r, m')"
    using assms(7) by (auto simp: addEvent_def faults)
  obtain m2 where m2: "find_channel fd ?m = Inr m2" "table_ok m2" "nat fd < length (channels m2)"
    by (rule find_channel_ok [OF ok assms(3,4)])
  then have i: "nat fd < length (channels m1)" "table_ok m1" using m1(1) by simp_all
  have step: "chan_step ctl (nat fd) 0 m1 m'" by (rule cs_add [OF assms(3-6) m1(2)])
  have len: "length (channels m') = length (channels m1)"
    by (rule chan_effect_length [OF chan_step_effect [OF step table_okD [OF i(2,1)]]])
  obtain w1 where w1: "io_reachable ctl w1" "reactor_of w1 = m1" "length (channels m1) \<in> seen_sizes w1"
      "stale_count w1 = stale_count w" "estranged w1 = estranged w" "leaked w1 = leaked w" "seen_sizes w \<subseteq> seen_sizes w1"
  proof (cases "nat fd < length (channels ?m)")
    case True
    then have "m1 = ?m" using m1(1) fd_index_nonneg [OF assms(3,4)] by (simp add: find_channel_def)
    then show ?thesis using assms(1,2) by (intro that [of w]) simp_all
  next
    case False
    then have g: "grow fd ?m = Inr m1" using m1(1) fd_index_nonneg [OF assms(3,4)] by (simp add: find_channel_def)
    have "0 < length (channels ?m)" using ok by (simp add: table_ok_def)
    then have pos: "0 < nat fd" using False by linarith
    obtain m3 where "grow fd ?m = Inr m3" "length (channels m3) = 2 * nat fd"
      by (rule grow_effect [OF ok pos assms(4)])
    then have "length (channels ?m) \<le> length (channels m1)" using g False by simp
    then have "drop (length (channels m1)) (channels ?m) = []" "int ` {length (channels m1)..<length (channels ?m)} = {}"
      by simp_all
    then have "io_reachable ctl (w\<lparr>reactor_of := m1, seen_sizes := insert (length (channels m1)) (seen_sizes w)\<rparr>)"
      using io_next [OF assms(1) io_grow [OF assms(2) _ assms(3,4) g]] False by simp
    then show ?thesis by (rule that) auto
  qed
  have "io_step ctl w1 (w1\<lparr>reactor_of := m', stale_count := stale_count w1 + 0\<rparr>)"
    using step i(1) w1(2) by (intro io_channel) auto
  from io_next [OF w1(1) this] show ?thesis by (rule that) (use w1 len in auto)
qed

section \<open>Properties\<close>

text \<open>
  C1. What the reactor's three views agree on, in every state the program can reach: by operations
  on channels found in the table or held since before, reports of the kernel that may name events
  removed in the meantime, a \<open>grow\<close> by a thread that has waited for the write lock, descriptors
  closed without the reactor, timers and wake-ups. The pending-event count is the number of events
  registered in the channels, those a late \<open>grow\<close> has cut off included, less one for every event a
  report was wrong about; the kernel watches for every descriptor exactly the events of its channel,
  edge-triggered, except for the descriptors of channels cut off and those closed without the
  reactor; and when \<open>canStop\<close> says so as many events are still waited for as reports were wrong
  about, none if no report was.
\<close>

theorem reactor_consistent:
  assumes "io_reachable ctl w"
  shows "pendingEventCount (reactor_of w)
      = (\<Sum>ch \<leftarrow> channels (reactor_of w) @ leaked w. event_count (ch_events ch)) - stale_count w
    \<and> (\<forall>fd. fd \<notin> estranged w \<longrightarrow> registered (reactor_of w) fd
          = (if 0 \<le> fd \<and> nat fd < length (channels (reactor_of w))
             then interest (channels (reactor_of w) ! nat fd) else 0))
    \<and> (io_canStop (reactor_of w) \<longrightarrow>
         (\<Sum>ch \<leftarrow> channels (reactor_of w) @ leaked w. event_count (ch_events ch)) = stale_count w
       \<and> (stale_count w = 0 \<longrightarrow> event \<in> {READ, WRITE} \<longrightarrow> \<not> waiting (reactor_of w) i event))"
proof -
  let ?m = "reactor_of w" and ?n = "\<lambda>ch. event_count (ch_events ch)"
  note ok = world_okD [OF io_reachable_ok [OF assms]]
  have sum: "pendingEventCount ?m = (\<Sum>ch \<leftarrow> channels ?m @ leaked w. ?n ch) - stale_count w"
    using ok(5) by (simp add: pending_events_list leaked_events_def)
  have "\<not> waiting ?m i event"
    if "(\<Sum>ch \<leftarrow> channels ?m @ leaked w. ?n ch) = 0" "event \<in> {READ, WRITE}"
  proof
    assume w: "waiting ?m i event"
    then have "channels ?m ! i \<in> set (channels ?m)" by (simp add: waiting_def)
    then have "?n (channels ?m ! i) \<in> set (map ?n (channels ?m @ leaked w))" by simp
    moreover have "\<forall>x \<in> set (map ?n (channels ?m @ leaked w)). 0 \<le> x" by (auto simp: event_count_bounds)
    ultimately have "?n (channels ?m ! i) \<le> (\<Sum>ch \<leftarrow> channels ?m @ leaked w. ?n ch)"
      by (intro member_le_sum_list) auto
    then show False using that w by (auto simp: waiting_def event_count_def split: if_splits)
  qed
  then show ?thesis using sum ok(3) by (auto simp: io_canStop_def wanted_def)
qed

text \<open>
  \<open>epoll_ctl\<close> as it is documented, for descriptors it does not refuse. A reactor whose own
  scheduler is at address 7, alone and with a writer waiting on descriptor \<open>n\<close>.
\<close>

definition linux_ctl :: epoll_ctl where
  "linux_ctl op fd reg \<longleftrightarrow> (if op = EPOLL_CTL_ADD then reg fd = 0 else reg fd \<noteq> 0)"

lemma linux_documented [simp]: "documented_ctl linux_ctl fd"
  by (simp add: documented_ctl_def linux_ctl_def)

definition idle_sched :: "callback sched" where
  "idle_sched = \<lparr>callerTid = -1, threadIds = [], threadNums = 1, activeThreadNums = 0, idleThreadNums = 1,
     running = True, threads = [], tasks = [], callerFiber = None, weakups = 0\<rparr>"

definition example_iom :: iom where
  "example_iom = new_IOManager (\<lambda>_. idle_sched) 7 (new_TimerManager 0)"

definition example_world :: io_world where
  "example_world = new_world (\<lambda>_. idle_sched) 7 (new_TimerManager 0)"

lemma example_reachable: "io_reachable ctl example_world"
  unfolding example_world_def by (rule io_init)

lemma example_world_fields [simp]:
  "reactor_of example_world = example_iom" "estranged example_world = {}" "stale_count example_world = 0"
  "leaked example_world = []" "seen_sizes example_world = {32}" "length (channels example_iom) = 32"
  by (simp_all add: example_world_def new_world_def example_iom_def new_IOManager_def)

lemma example_iom_ok: "iom_ok example_iom"
  using io_reachable_ok [OF example_reachable [of linux_ctl]]
  by (simp add: world_ok_def iom_ok_def leaked_events_def)

lemma example_not_waiting: "event \<in> {READ, WRITE} \<Longrightarrow> \<not> waiting example_iom i event"
  by (cases "i < 32") (auto simp: waiting_def example_iom_def new_IOManager_def new_channel_def NONE_def)

lemma example_with_writer:
  assumes "n < 2 ^ 31"
  obtains w where "io_reachable linux_ctl w" and "waiting (reactor_of w) n WRITE" and "\<not> waiting (reactor_of w) n READ"
    and "length (channels (reactor_of w)) \<in> seen_sizes w" and "32 \<in> seen_sizes w"
    and "stale_count w = 0" and "estranged w = {}" and "leaked w = []"
proof -
  have pre: "0 \<le> int n" "int n < 2 ^ 31" "WRITE \<in> {READ, WRITE}" "(None :: callback option) \<noteq> None \<or> True"
    using assms by simp_all
  have ok: "table_ok example_iom" "in_step example_iom (int n)"
    using example_iom_ok iom_ok_in_step by (simp_all add: iom_ok_def)
  obtain r m where m: "addEvent linux_ctl (Some 7) 3 True (int n) WRITE None example_iom = Inr (r, m)"
      "if r = 0 then \<not> waiting example_iom (nat (int n)) WRITE \<and> waiting m (nat (int n)) WRITE
           \<and> ctx_of (channels m ! nat (int n)) WRITE = stored_ctx 7 3 None
         else r = -1 \<and> pending_events m = pending_events example_iom"
      "documented_ctl linux_ctl (int n) \<and> in_step example_iom (int n) \<Longrightarrow> r = 0 \<longleftrightarrow> \<not> waiting example_iom (nat (int n)) WRITE"
    by (rule addEvent_ok [OF ok(1) pre, where ctl = linux_ctl and s = 7 and this_fiber = 3]) blast
  have r: "r = 0" using m(3) ok(2) example_not_waiting by simp
  obtain w where w: "io_reachable linux_ctl w" "reactor_of w = m" "length (channels m) \<in> seen_sizes w"
      "stale_count w = 0" "estranged w = {}" "leaked w = []" "{32} \<subseteq> seen_sizes w"
    by (rule addEvent_reachable [OF example_reachable _ pre(1-4), of linux_ctl 7 3 r m]) (use m(1) in auto)
  have wr: "waiting m n WRITE" using m(2) r by simp
  have "\<not> waiting m n READ"
  proof -
    obtain m1 where m1: "find_channel (int n) example_iom = Inr m1" "\<And>i event. waiting m1 i event = waiting example_iom i event"
        "nat (int n) < length (channels m1)"
      by (rule find_channel_ok [OF ok(1) pre(1,2)]) blast
    have "addEvent_locked linux_ctl (Some 7) 3 True (int n) WRITE None m1 = Inr (0, m)"
      using m(1) m1(1) r by (simp add: addEvent_def)
    moreover have "\<not> waiting m1 n READ" "\<not> waiting m1 n WRITE" using m1(2) example_not_waiting by simp_all
    then have "ch_events (channels m1 ! n) AND READ = 0" using m1(3) by (simp add: waiting_def)
    moreover have "fd_index (int n) = n" using fd_index_nonneg [OF pre(1,2)] by simp
    ultimately have "ch_events (channels m ! n) AND READ = 0"
      using m1(3)
      by (auto simp: addEvent_locked_def Let_def do_ctl_eq faults with_channel_def count_by_def setEventCtx_def
          event_defs bit.conj_disj_distrib2 split: option.splits if_splits)
    then show ?thesis by (simp add: waiting_def)
  qed
  then show ?thesis using that [of w] w wr by simp
qed

theorem reactor_consistent_witness:
  "\<exists>w. io_reachable linux_ctl w \<and> stale_count w = 1 \<and> pendingEventCount (reactor_of w)
     = (\<Sum>ch \<leftarrow> channels (reactor_of w) @ leaked w. event_count (ch_events ch)) - 1"
proof -
  obtain w where w: "io_reachable linux_ctl w" "waiting (reactor_of w) 5 WRITE" "\<not> waiting (reactor_of w) 5 READ"
      "stale_count w = 0" "estranged w = {}" "leaked w = []"
    by (rule example_with_writer [of 5]) auto
  let ?m = "reactor_of w"
  have st: "in_step ?m (int 5)" using reachable_in_step [OF w(1)] w(5) by simp
  have at: "chan_at ?m 5" using waiting_in_table [OF _ w(2)] st by (simp add: in_step_def)
  then have i: "5 < length (channels ?m)" "chan_ok (channels ?m ! 5)" "ch_fd (channels ?m ! 5) = int 5"
    by (simp_all add: chan_at_def)
  have ev: "ch_events (channels ?m ! 5) = WRITE"
    using w(2,3) i(1) by (cases rule: chan_ok_events [OF i(2)]) (auto simp: waiting_def event_defs)
  have rv: "ready_events (READ OR WRITE) WRITE = READ OR WRITE"
    by (simp add: ready_events_def Let_def event_defs)
  have "linux_ctl (rest_op (WRITE AND NOT (READ OR WRITE))) (int 5) (registered ?m)"
    by (rule rest_ctl_succeeds [OF linux_documented st w(2)])
  then have "acted_on linux_ctl 5 (READ OR WRITE) ?m"
    using i(3) by (simp add: acted_on_def ev rv) (simp add: event_defs)
  then have stale: "stale_events linux_ctl 5 (READ OR WRITE) ?m = 1"
    by (simp add: stale_events_def ev rv) (simp add: event_defs event_count_def)
  obtain m' where m': "dispatch_channel linux_ctl 5 (READ OR WRITE) ?m = Inr m'"
    by (rule dispatch_channel_ok [OF at])
  let ?w = "w\<lparr>reactor_of := m', stale_count := stale_count w + stale_events linux_ctl 5 (READ OR WRITE) ?m\<rparr>"
  have "io_reachable linux_ctl ?w" by (rule io_next [OF w(1) io_channel [OF i(1) cs_report [OF m']]])
  then show ?thesis using reactor_consistent [of linux_ctl ?w] stale w(4) by (intro exI [of _ ?w]) simp
qed

text \<open>
  C2. An event fires once. From any reachable state, for a descriptor channel and kernel agree about
  and for which \<open>epoll_ctl\<close> refuses only what it documents, \<open>EEXIST\<close> and \<open>ENOENT\<close>, \<open>addEvent\<close>
  answers 0 for an event that was not registered and -1 otherwise; after a 0 a \<open>cancelEvent\<close>, and a
  report of the kernel that names this event and no other registered one, posts exactly the
  registered callback, or the registering fiber, to the registering scheduler, and the event cannot
  be triggered a second time.
\<close>

theorem event_fires_once:
  fixes s this_fiber :: nat
  assumes "io_reachable ctl w" and "fd \<notin> estranged w" and "documented_ctl ctl fd"
    and "0 \<le> fd" and "fd < 2 ^ 31" and "event \<in> {READ, WRITE}" and "f \<noteq> None \<or> in_exec"
  defines "m \<equiv> reactor_of w"
  defines "once \<equiv> \<lambda>m2. scheds m2 = post s (ctx_task (stored_ctx s this_fiber f)) (scheds m)
      \<and> cancelEvent ctl fd event m2 = Inr (False, m2)"
  shows "\<exists>r m1. addEvent ctl (Some s) this_fiber in_exec fd event f m = Inr (r, m1)
    \<and> (if \<not> waiting m (nat fd) event
       then r = 0
         \<and> (\<exists>m2. cancelEvent ctl fd event m1 = Inr (True, m2) \<and> once m2)
         \<and> (\<forall>evs. (let ev = ch_events (channels m1 ! nat fd) in ready_events evs ev AND ev = event) \<longrightarrow>
              (\<exists>m2. dispatch_channel ctl (nat fd) evs m1 = Inr m2 \<and> once m2))
       else r = -1)"
proof -
  have st: "in_step m fd" unfolding m_def by (rule reachable_in_step [OF assms(1,2)])
  then have ok: "table_ok m" by (simp add: in_step_def)
  obtain r m1 where a: "addEvent ctl (Some s) this_fiber in_exec fd event f m = Inr (r, m1)"
      "in_step m1 fd" "scheds m1 = scheds m"
      "if r = 0 then \<not> waiting m (nat fd) event \<and> waiting m1 (nat fd) event
           \<and> ctx_of (channels m1 ! nat fd) event = stored_ctx s this_fiber f
         else r = -1 \<and> pending_events m1 = pending_events m"
      "r = 0 \<longleftrightarrow> \<not> waiting m (nat fd) event"
    by (rule addEvent_ok [OF ok assms(4-7), where ctl = ctl and s = s and this_fiber = this_fiber])
      (use st assms(3) in blast)
  show ?thesis
  proof (cases "waiting m (nat fd) event")
    case True
    then show ?thesis using a(1,4,5) by auto
  next
    case False
    then have r: "r = 0" and wait: "waiting m1 (nat fd) event"
        and ctx: "ctx_of (channels m1 ! nat fd) event = stored_ctx s this_fiber f"
      using a(4,5) by auto
    have fd: "int (nat fd) = fd" using assms(4) by simp
    have at: "chan_at m1 (nat fd)" using waiting_in_table [OF _ wait] a(2) by (simp add: in_step_def)
    have dn: "once m2" if "posted m1 (nat fd) event m2" "\<not> waiting m2 (nat fd) event" for m2
      using that assms(4,5) ctx a(3)
      by (auto simp: once_def posted_def stored_ctx_def cancelEvent_def Let_def fd_index_nonneg waiting_def)
    obtain c m2 where c: "cancelEvent ctl fd event m1 = Inr (c, m2)"
        "if c then waiting m1 (nat fd) event \<and> posted m1 (nat fd) event m2 \<and> \<not> waiting m2 (nat fd) event
         else m2 = m1" "c \<longleftrightarrow> waiting m1 (nat fd) event"
      by (rule cancelEvent_ok [OF at assms(4-6), where ctl = ctl]) (use a(2) assms(3) in blast)
    have "\<exists>m2. dispatch_channel ctl (nat fd) evs m1 = Inr m2 \<and> once m2"
      if "ready_events evs (ch_events (channels m1 ! nat fd)) AND ch_events (channels m1 ! nat fd) = event" for evs
      by (rule dispatch_one [of m1 "nat fd" ctl event evs]) (use a(2) assms(3,6) wait that dn fd in auto)
    then show ?thesis using False a(1) r c wait dn by (auto simp: Let_def)
  qed
qed

theorem event_fires_once_witness:
  "\<exists>w m1 m2. io_reachable linux_ctl w \<and> waiting (reactor_of w) 5 WRITE
     \<and> addEvent linux_ctl (Some 7) 3 True 5 READ None (reactor_of w) = Inr (0, m1)
     \<and> cancelEvent linux_ctl 5 READ m1 = Inr (True, m2) \<and> cancelEvent linux_ctl 5 READ m2 = Inr (False, m2)"
proof -
  obtain w where w: "io_reachable linux_ctl w" "waiting (reactor_of w) 5 WRITE" "\<not> waiting (reactor_of w) 5 READ"
      "estranged w = {}"
    by (rule example_with_writer [of 5]) auto
  show ?thesis
    using event_fires_once [OF w(1), of 5 READ None True 7 3] w by auto
qed

text \<open>
  Timers reach the scheduler: when the \<open>timerfd\<close> becomes readable with timers pending, the
  loop schedules the callbacks of exactly the due timers, in the order of expiration, behind
  what is queued, as one batch.
\<close>

theorem due_timers_are_scheduled:
  assumes "tmgr_ok (tm m)" and "timers (tm m) \<noteq> []" and "probe \<noteq> 0" and "probe \<notin> set (live (tm m))"
  shows "\<exists>m'. dispatch_timer now probe m = Inr m'
    \<and> tasks (scheds m' (self m)) = tasks (scheds m (self m))
        @ [cb_task (cb (store (tm m) t)). t \<leftarrow> timers (tm m), due now (tm m) t \<and> cb (store (tm m) t) \<noteq> None]
    \<and> tmgr_ok (tm m') \<and> channels m' = channels m"
proof -
  let ?t = "(tm m)\<lparr>armed := None\<rparr>"
  let ?cbs = "map (\<lambda>t. cb (store (tm m) t)) (filter (due now (tm m)) (timers (tm m)))"
  have due: "due now ?t = due now (tm m)"
    by (simp add: due_def rolled_back_def detectClockRollover_def fun_eq_iff)
  have "tmgr_ok ?t" using assms(1) by (simp add: tmgr_ok_def)
  then obtain t' where t': "listExpired_locked now probe ?t = Inr (?cbs, t')" "tmgr_ok t'"
    using listExpired_locked_correct [of ?t probe now] assms(2-4) due by auto
  have "filter (\<lambda>t. \<not> null_task t) (map cb_task ?cbs) = map cb_task (filter (\<lambda>f. f \<noteq> None) ?cbs)"
    by (simp add: filter_map comp_def null_task_def cb_task_def)
  also have "\<dots> = [cb_task (cb (store (tm m) t)). t \<leftarrow> timers (tm m),
      due now (tm m) t \<and> cb (store (tm m) t) \<noteq> None]"
    by (simp add: filter_map comp_def concat_map_if)
  finally have q: "tasks (schedule_range io_weakup ss (map cb_task ?cbs)) = tasks ss
      @ [cb_task (cb (store (tm m) t)). t \<leftarrow> timers (tm m), due now (tm m) t \<and> cb (store (tm m) t) \<noteq> None]" for ss
    unfolding schedule_range_tasks by (rule arg_cong)
  show ?thesis
  proof (cases "?cbs = []")
    case True
    then have "[cb_task (cb (store (tm m) t)). t \<leftarrow> timers (tm m), due now (tm m) t \<and> cb (store (tm m) t) \<noteq> None] = []"
      by (auto simp: filter_empty_conv)
    then show ?thesis
      using True t' assms(2) by (intro exI [of _ "m\<lparr>tm := t'\<rparr>"])
        (simp add: dispatch_timer_def listExpiredCallback_def)
  next
    case False
    let ?m = "m\<lparr>tm := t', scheds := (scheds m)(self m := schedule_range io_weakup (scheds m (self m)) (map cb_task ?cbs))\<rparr>"
    have "dispatch_timer now probe m = Inr ?m"
      using False t'(1) assms(2) by (simp add: dispatch_timer_def listExpiredCallback_def)
    then show ?thesis using q t'(2) by (intro exI [of _ ?m]) simp
  qed
qed

theorem due_timers_are_scheduled_witness:
  "\<exists>m'. dispatch_timer 15000 99 (example_iom\<lparr>tm := two_timers\<rparr>) = Inr m'
     \<and> tasks (scheds m' 7) = [cb_task (Some (Plain 7))]"
proof -
  have d: "due 15000 two_timers 16" "\<not> due 15000 two_timers 32"
    by (simp_all add: due_def rolled_back_def detectClockRollover_def two_timers_fields)
  show ?thesis
    using due_timers_are_scheduled [of "example_iom\<lparr>tm := two_timers\<rparr>" 99 15000] two_timers_ok d
    by (auto simp: two_timers_fields example_iom_def new_IOManager_def idle_sched_def)
qed

text \<open>
  Growing can shrink: the size is checked under the read lock only, so a thread that found
  the table too small for \<open>fd\<close> resizes it to \<open>2 * fd\<close> even if it has grown past that in the
  meantime. A channel above loses its event: it is no longer in the table, while the kernel
  still watches the descriptor and the count still includes it.
\<close>

theorem growing_can_shrink:
  assumes "in_step m (int i)" and "waiting m i event" and "0 < fd" and "fd < 2 ^ 31" and "2 * nat fd \<le> i"
  shows "\<exists>m'. grow fd m = Inr m' \<and> length (channels m') = 2 * nat fd \<and> \<not> waiting m' i event
    \<and> registered m' (int i) \<noteq> 0 \<and> pendingEventCount m' = pendingEventCount m"
proof -
  have "0 < nat fd" using assms(3) by simp
  then obtain m' where m': "grow fd m = Inr m'" "length (channels m') = 2 * nat fd" "registered m' = registered m"
      "pendingEventCount m' = pendingEventCount m" "\<And>i event. waiting m' i event \<longleftrightarrow> waiting m i event \<and> i < 2 * nat fd"
    using assms(1) by (auto simp: in_step_def intro: grow_effect [OF _ _ assms(4)])
  have "ch_events (channels m ! i) \<noteq> 0" "i < length (channels m)" using assms(2) by (auto simp: waiting_def)
  then have "registered m (int i) \<noteq> 0" using assms(1) by (simp add: in_step_def wanted_def)
  then show ?thesis using m' assms(5) by (intro exI [of _ m']) auto
qed

text \<open>A thread that has read 32 for descriptor 40, and another that has grown the table for 100.\<close>

theorem growing_can_shrink_witness:
  "\<exists>w w'. io_reachable linux_ctl w \<and> waiting (reactor_of w) 100 WRITE \<and> io_step linux_ctl w w'
     \<and> \<not> waiting (reactor_of w') 100 WRITE"
proof -
  obtain w where w: "io_reachable linux_ctl w" "waiting (reactor_of w) 100 WRITE" "32 \<in> seen_sizes w" "estranged w = {}"
    by (rule example_with_writer [of 100]) auto
  have st: "in_step (reactor_of w) (int 100)" using reachable_in_step [OF w(1)] w(4) by simp
  obtain m' where m': "grow 40 (reactor_of w) = Inr m'" "\<not> waiting m' 100 WRITE"
    using growing_can_shrink [OF st w(2), of 40] by auto
  have "\<exists>w'. io_step linux_ctl w w' \<and> reactor_of w' = m'"
    using io_grow [OF w(3) _ _ _ m'(1), of linux_ctl] by fastforce
  then show ?thesis using m'(2) w(1,2) by metis
qed

end
