(* ===== verification/FdManager.thy ===== *)
theory FdManager imports Prelude begin

text \<open>
  \<open>easy/base/FdManager.h\<close>, \<open>easy/base/FdManager.cc\<close>: what the hooked system calls remember per
  descriptor. Contexts are shared objects in a store; the manager keeps a table of pointers to
  them. \<open>fstat\<close> is an argument: \<open>None\<close> when it fails, else whether the descriptor is a socket;
  the descriptors' status flags are part of the state.
\<close>

section \<open>State\<close>

definition O_NONBLOCK :: u32 where "O_NONBLOCK = 0x800"
definition SO_RCVTIMEO :: int where "SO_RCVTIMEO = 20"

record fdctx =
  isInit :: bool
  isSocket :: bool
  sysNonblock :: bool
  userNonblock :: bool
  isClosed :: bool
  ctx_fd :: int
  recvTimeout :: u64
  sendTimeout :: u64

type_synonym fstat = "int \<Rightarrow> bool option"

record fdmgr =
  datas :: "nat option list"
  ctxs :: "nat \<Rightarrow> fdctx"
  kflags :: "int \<Rightarrow> u32"

section \<open>A descriptor's context\<close>

definition FdCtx_init :: "fstat \<Rightarrow> fdctx \<Rightarrow> (int \<Rightarrow> u32) \<Rightarrow> bool \<times> fdctx \<times> (int \<Rightarrow> u32)" where
  "FdCtx_init fstat c flags =
     (if isInit c then (True, c, flags)
      else let c1 = c\<lparr>recvTimeout := -1, sendTimeout := -1\<rparr>;
               c2 = (case fstat (ctx_fd c1) of
                       None \<Rightarrow> c1\<lparr>isInit := False, isSocket := False\<rparr>
                     | Some sock \<Rightarrow> c1\<lparr>isInit := True, isSocket := sock\<rparr>);
               flags' = (if isSocket c2 \<and> flags (ctx_fd c2) AND O_NONBLOCK = 0
                         then flags(ctx_fd c2 := flags (ctx_fd c2) OR O_NONBLOCK) else flags);
               c3 = c2\<lparr>sysNonblock := isSocket c2, userNonblock := False, isClosed := False\<rparr> in
        (isInit c3, c3, flags'))"

definition new_FdCtx :: "fstat \<Rightarrow> int \<Rightarrow> (int \<Rightarrow> u32) \<Rightarrow> fdctx \<times> (int \<Rightarrow> u32)" where
  "new_FdCtx fstat fd flags =
     (let (_, c, flags') = FdCtx_init fstat
        \<lparr>isInit = False, isSocket = False, sysNonblock = False, userNonblock = False, isClosed = False,
         ctx_fd = fd, recvTimeout = -1, sendTimeout = -1\<rparr> flags in (c, flags'))"

definition setTimeout :: "fdctx \<Rightarrow> int \<Rightarrow> u64 \<Rightarrow> fdctx" where
  "setTimeout c type ms =
     (if type = SO_RCVTIMEO then c\<lparr>recvTimeout := ms\<rparr> else c\<lparr>sendTimeout := ms\<rparr>)"

definition getTimeout :: "fdctx \<Rightarrow> int \<Rightarrow> u64" where
  "getTimeout c type = (if type = SO_RCVTIMEO then recvTimeout c else sendTimeout c)"

section \<open>The manager\<close>

definition new_FdManager :: "(int \<Rightarrow> u32) \<Rightarrow> fdmgr" where
  "new_FdManager flags =
     \<lparr>datas = replicate 64 None,
      ctxs = (\<lambda>_. \<lparr>isInit = False, isSocket = False, sysNonblock = False, userNonblock = False,
                   isClosed = False, ctx_fd = 0, recvTimeout = 0, sendTimeout = 0\<rparr>),
      kflags = flags\<rparr>"

text \<open>
  The part of \<open>getFdCtx\<close> under the read lock: \<open>Some p\<close> returns the pointer \<open>p\<close>, \<open>None\<close> goes on
  to create a context.
\<close>

definition getFdCtx_read :: "int \<Rightarrow> bool \<Rightarrow> fdmgr \<Rightarrow> nat option option" where
  "getFdCtx_read fd autoCreate m =
     (if fd = -1 then Some None
      else let idx = fd_index fd in
        if length (datas m) \<le> idx then (if \<not> autoCreate then Some None else None)
        else if datas m ! idx \<noteq> None \<or> \<not> autoCreate then Some (datas m ! idx) else None)"

text \<open>The part under the write lock: the new context is at the address \<open>fresh\<close>.\<close>

definition getFdCtx_create :: "fstat \<Rightarrow> nat \<Rightarrow> int \<Rightarrow> fdmgr \<Rightarrow> fault + nat option \<times> fdmgr" where
  "getFdCtx_create fstat fresh fd m =
     (let idx = fd_index fd; (c, flags) = new_FdCtx fstat fd (kflags m);
          sz = idx * 2 mod 2 ^ 64;
          m1 = m\<lparr>ctxs := (ctxs m)(fresh := c), kflags := flags\<rparr> in
      if length (datas m1) \<le> idx \<and> max_size < sz then Inl LengthError
      else let ds = (if length (datas m1) \<le> idx
                     then take sz (datas m1) @ replicate (sz - length (datas m1)) None else datas m1) in
        if length ds \<le> idx then Inl OutOfBounds
        else Inr (Some fresh, m1\<lparr>datas := ds[idx := Some fresh]\<rparr>))"

definition getFdCtx :: "fstat \<Rightarrow> nat \<Rightarrow> int \<Rightarrow> bool \<Rightarrow> fdmgr \<Rightarrow> fault + nat option \<times> fdmgr" where
  "getFdCtx fstat fresh fd autoCreate m =
     (case getFdCtx_read fd autoCreate m of
        Some p \<Rightarrow> Inr (p, m)
      | None \<Rightarrow> getFdCtx_create fstat fresh fd m)"

definition removeFdCtx :: "int \<Rightarrow> fdmgr \<Rightarrow> fdmgr" where
  "removeFdCtx fd m =
     (let idx = fd_index fd in
      if length (datas m) \<le> idx then m else m\<lparr>datas := (datas m)[idx := None]\<rparr>)"

section \<open>Lemmas\<close>

text \<open>The entry a lookup finds.\<close>

definition entry :: "fdmgr \<Rightarrow> int \<Rightarrow> nat option" where
  "entry m fd = (if nat fd < length (datas m) then datas m ! nat fd else None)"

lemma getFdCtx_lookup:
  "0 \<le> fd \<Longrightarrow> fd < 2 ^ 31 \<Longrightarrow> getFdCtx fstat fresh fd False m = Inr (entry m fd, m)"
  by (auto simp: getFdCtx_def getFdCtx_read_def Let_def fd_index_nonneg entry_def)

lemma getFdCtx_found:
  "0 \<le> fd \<Longrightarrow> fd < 2 ^ 31 \<Longrightarrow> entry m fd = Some p \<Longrightarrow> getFdCtx fstat fresh fd True m = Inr (Some p, m)"
  by (auto simp: getFdCtx_def getFdCtx_read_def Let_def fd_index_nonneg entry_def split: if_splits)

lemma getFdCtx_create_ok:
  assumes "0 \<le> fd" and "fd < 2 ^ 31" and "datas m \<noteq> []"
  obtains m' where "getFdCtx_create fstat fresh fd m = Inr (Some fresh, m')"
    and "\<And>x. 0 \<le> x \<Longrightarrow> entry m' x = (if x = fd then Some fresh else entry m x)"
    and "ctxs m' = (ctxs m)(fresh := fst (new_FdCtx fstat fd (kflags m)))"
    and "kflags m' = snd (new_FdCtx fstat fd (kflags m))" and "datas m' \<noteq> []"
proof -
  obtain c flags where c: "new_FdCtx fstat fd (kflags m) = (c, flags)" by fastforce
  note idx = fd_index_nonneg [OF assms(1,2)]
  let ?sz = "nat fd * 2"
  let ?ds = "if length (datas m) \<le> nat fd
             then take ?sz (datas m) @ replicate (?sz - length (datas m)) None else datas m"
  have sz: "?sz mod 2 ^ 64 = ?sz" "?sz \<le> max_size" using assms(1,2) by (auto simp: max_size_def)
  have "0 < length (datas m)" using assms(3) by blast
  then have pos: "length (datas m) \<le> nat fd \<longrightarrow> 0 < fd" by linarith
  then have len: "nat fd < length ?ds" by simp
  let ?m = "m\<lparr>ctxs := (ctxs m)(fresh := c), kflags := flags, datas := ?ds[nat fd := Some fresh]\<rparr>"
  have "getFdCtx_create fstat fresh fd m = Inr (Some fresh, ?m)"
    using sz pos by (simp add: getFdCtx_create_def c idx Let_def)
  moreover have "entry ?m x = (if x = fd then Some fresh else entry m x)" if "0 \<le> x" for x
  proof -
    have fill: "i < n \<Longrightarrow> replicate n (None :: nat option) ! i = None" for i n by simp
    show ?thesis
      using that assms(1) len by (auto simp: entry_def nth_append nth_list_update intro!: fill diff_less_mono)
  qed
  ultimately show ?thesis using c len by (intro that [of ?m]) auto
qed

section \<open>Properties\<close>

text \<open>
  C34. \<open>FdManager\<close> is a map from descriptors to contexts: \<open>getFdCtx\<close> with \<open>autoCreate\<close> returns the
  context that is there or a new one; from then on every lookup returns that context until
  \<open>removeFdCtx\<close>, after which there is none; no other descriptor's context is touched. A new
  socket context has no timeouts and its descriptor is non-blocking.
\<close>

theorem fd_contexts_are_a_map:
  assumes "0 \<le> fd" and "fd < 2 ^ 31" and "0 \<le> other" and "other < 2 ^ 31" and "other \<noteq> fd"
    and "datas m \<noteq> []"
  shows "\<exists>p m'. getFdCtx fstat fresh fd True m = Inr (Some p, m')
    \<and> getFdCtx fstat fresh2 fd True m' = Inr (Some p, m')
    \<and> getFdCtx fstat fresh2 fd False m' = Inr (Some p, m')
    \<and> getFdCtx fstat fresh2 other False m' = Inr (entry m other, m')
    \<and> getFdCtx fstat fresh2 fd False (removeFdCtx fd m') = Inr (None, removeFdCtx fd m')
    \<and> (entry m fd = None \<and> fstat fd = Some True \<longrightarrow> p = fresh
        \<and> kflags m' fd AND O_NONBLOCK \<noteq> 0 \<and> sysNonblock (ctxs m' p)
        \<and> getTimeout (ctxs m' p) type = - 1)"
proof (cases "entry m fd")
  case (Some p)
  then have "entry (removeFdCtx fd m) fd = None"
    using assms(1,2) by (auto simp: entry_def removeFdCtx_def Let_def fd_index_nonneg split: if_splits)
  then show ?thesis
    using Some assms by (intro exI [of _ p] exI [of _ m]) (simp add: getFdCtx_found getFdCtx_lookup)
next
  case None
  obtain m' where m': "getFdCtx_create fstat fresh fd m = Inr (Some fresh, m')"
      "\<And>x. 0 \<le> x \<Longrightarrow> entry m' x = (if x = fd then Some fresh else entry m x)"
      "ctxs m' = (ctxs m)(fresh := fst (new_FdCtx fstat fd (kflags m)))"
      "kflags m' = snd (new_FdCtx fstat fd (kflags m))"
    by (rule getFdCtx_create_ok [OF assms(1,2,6), where fstat = fstat and fresh = fresh]) blast
  have get: "getFdCtx fstat fresh fd True m = Inr (Some fresh, m')"
    using None m'(1) assms(1,2)
    by (auto simp: getFdCtx_def getFdCtx_read_def Let_def fd_index_nonneg entry_def split: if_splits)
  have "(kflags m fd OR O_NONBLOCK) AND O_NONBLOCK = O_NONBLOCK" by (simp add: bit.conj_disj_distrib2)
  moreover have "O_NONBLOCK \<noteq> 0" by (simp add: O_NONBLOCK_def)
  ultimately have nb: "fstat fd = Some True \<Longrightarrow> kflags m' fd AND O_NONBLOCK \<noteq> 0 \<and> sysNonblock (ctxs m' fresh)
      \<and> getTimeout (ctxs m' fresh) type = - 1"
    unfolding m'(3,4) by (auto simp: new_FdCtx_def FdCtx_init_def Let_def getTimeout_def)
  have "entry (removeFdCtx fd m') fd = None"
    using assms(1,2) by (auto simp: entry_def removeFdCtx_def Let_def fd_index_nonneg)
  then show ?thesis
    using get nb m'(2) assms
    by (intro exI [of _ fresh] exI [of _ m']) (simp add: getFdCtx_found getFdCtx_lookup)
qed

theorem fd_contexts_are_a_map_witness:
  "\<exists>m'. getFdCtx (\<lambda>_. Some True) 9 100 True (new_FdManager (\<lambda>_. 0)) = Inr (Some 9, m')
     \<and> kflags m' 100 AND O_NONBLOCK \<noteq> 0"
proof -
  have "entry (new_FdManager (\<lambda>_. 0)) 100 = None" by (simp add: entry_def new_FdManager_def)
  moreover have "datas (new_FdManager (\<lambda>_. 0)) \<noteq> []" by (simp add: new_FdManager_def)
  ultimately show ?thesis
    using fd_contexts_are_a_map [of 100 3 "new_FdManager (\<lambda>_. 0)" "\<lambda>_. Some True" 9 8 0] by auto
qed

text \<open>
  Creation is not checked again under the write lock: of two threads that both found no
  context, the second replaces the first one's, and a timeout set through the first is lost.
\<close>

theorem racing_creation_replaces:
  assumes "0 \<le> fd" and "fd < 2 ^ 31" and "datas m \<noteq> []" and "entry m fd = None" and "a \<noteq> b"
  shows "getFdCtx_read fd True m = None
    \<and> (\<exists>m1 m2. getFdCtx_create fstat a fd m = Inr (Some a, m1)
      \<and> getFdCtx_create fstat b fd (m1\<lparr>ctxs := (ctxs m1)(a := setTimeout (ctxs m1 a) SO_RCVTIMEO ms)\<rparr>)
          = Inr (Some b, m2)
      \<and> getFdCtx fstat c fd False m2 = Inr (Some b, m2)
      \<and> getTimeout (ctxs m2 b) SO_RCVTIMEO = - 1 \<and> getTimeout (ctxs m2 a) SO_RCVTIMEO = ms)"
proof -
  obtain m1 where m1: "getFdCtx_create fstat a fd m = Inr (Some a, m1)" "datas m1 \<noteq> []"
    by (rule getFdCtx_create_ok [OF assms(1-3), where fstat = fstat and fresh = a]) blast
  let ?m = "m1\<lparr>ctxs := (ctxs m1)(a := setTimeout (ctxs m1 a) SO_RCVTIMEO ms)\<rparr>"
  have "datas ?m \<noteq> []" using m1(2) by simp
  from getFdCtx_create_ok [OF assms(1,2) this, of fstat b]
  obtain m2 where m2: "getFdCtx_create fstat b fd ?m = Inr (Some b, m2)"
      "\<And>x. 0 \<le> x \<Longrightarrow> entry m2 x = (if x = fd then Some b else entry ?m x)"
      "ctxs m2 = (ctxs ?m)(b := fst (new_FdCtx fstat fd (kflags ?m)))" by blast
  have "getTimeout (ctxs m2 b) SO_RCVTIMEO = - 1"
    unfolding m2(3) by (auto simp: new_FdCtx_def FdCtx_init_def Let_def getTimeout_def split: option.splits)
  moreover have "getTimeout (ctxs m2 a) SO_RCVTIMEO = ms"
    unfolding m2(3) using assms(5) by (simp add: getTimeout_def setTimeout_def)
  moreover have "getFdCtx_read fd True m = None"
    using assms(1,2,4) by (auto simp: getFdCtx_read_def Let_def fd_index_nonneg entry_def split: if_splits)
  ultimately show ?thesis
    using m1(1) m2(1,2) assms(1,2) by (simp add: getFdCtx_lookup)
qed

theorem racing_creation_replaces_witness:
  "\<exists>m1 m2. getFdCtx_create (\<lambda>_. Some True) 8 5 (new_FdManager (\<lambda>_. 0)) = Inr (Some 8, m1)
     \<and> getFdCtx (\<lambda>_. Some True) 7 5 False m2 = Inr (Some 9, m2)
     \<and> getTimeout (ctxs m2 9) SO_RCVTIMEO = - 1 \<and> getTimeout (ctxs m2 8) SO_RCVTIMEO = 300"
proof -
  have "entry (new_FdManager (\<lambda>_. 0)) 5 = None" by (simp add: entry_def new_FdManager_def)
  moreover have "datas (new_FdManager (\<lambda>_. 0)) \<noteq> []" by (simp add: new_FdManager_def)
  ultimately show ?thesis
    using racing_creation_replaces [of 5 "new_FdManager (\<lambda>_. 0)" 8 9 "\<lambda>_. Some True" 300 7] by force
qed

end
