(* ===== verification/Hook.thy ===== *)
theory Hook imports IOManager FdManager begin

text \<open>
  \<open>easy/base/hook.cc\<close>: the system calls the library replaces. A call that would block registers
  the descriptor with the reactor, arms a timer for the descriptor's timeout and yields; it goes
  on when the event or the timer resumes its fiber. A call is therefore modelled as what it does
  until it yields, returning a frame with the variables it keeps, and what it does when resumed.
  The original system calls are arguments: functions of the state \<open>'k\<close> of the kernel that give a
  result and an error number. The lemmas show what a blocked call leaves behind and how it ends.
\<close>

section \<open>State\<close>

text \<open>
  The closures timers hold, by the number under which \<open>callback\<close> names them: the one of \<open>do_io\<close>
  and \<open>connect_with_timeout\<close>, and the \<open>schedule\<close> of a fiber that \<open>sleep\<close> binds.
\<close>

datatype closure = TimedOut nat int u32 | Wake nat

text \<open>
  \<open>enabled\<close> is \<open>t_hook_enable\<close>, \<open>in_io\<close> whether \<open>IOManager::GetThis()\<close> is not null,
  \<open>running_fiber\<close> is \<open>Fiber::GetThis()\<close>. \<open>tinfos\<close> holds the \<open>timer_info\<close> objects: \<open>None\<close> once
  the last \<open>shared_ptr\<close> is gone, else the flag \<open>cancelled\<close>.
\<close>

record 'k hook =
  enabled :: bool
  fds :: fdmgr
  reactor :: iom
  in_io :: bool
  running_fiber :: nat
  tinfos :: "nat \<Rightarrow> bool option"
  closures :: "nat \<Rightarrow> closure option"
  errno :: int
  kern :: 'k

type_synonym 'k syscall = "'k \<Rightarrow> (int \<times> int) \<times> 'k"

text \<open>The clock and the addresses the allocator gives for what a call creates.\<close>

record fresh =
  at_now :: timestamp
  at_timer :: nat
  at_tinfo :: nat
  at_closure :: nat

text \<open>The variables of a call that waits.\<close>

record io_frame =
  io_fd :: int
  io_event :: u32
  io_ms :: u64
  io_tinfo :: nat
  io_timer :: "nat option"

datatype outcome = Ret int | Park io_frame

definition EINTR :: int where "EINTR = 4"
definition EBADF :: int where "EBADF = 9"
definition EAGAIN :: int where "EAGAIN = 11"
definition ETIMEDOUT :: int where "ETIMEDOUT = 110"
definition EINPROGRESS :: int where "EINPROGRESS = 115"

text \<open>A worker's \<open>run\<close> turns the hooks of its thread on.\<close>

definition SetHookEnable :: "bool \<Rightarrow> 'k hook \<Rightarrow> 'k hook" where
  "SetHookEnable flag w = w\<lparr>enabled := flag\<rparr>"

definition sys :: "'k syscall \<Rightarrow> 'k hook \<Rightarrow> int \<times> 'k hook" where
  "sys f w =
     (let ((n, e), k) = f (kern w) in (n, w\<lparr>kern := k, errno := (if n = -1 then e else errno w)\<rparr>))"

definition passed :: "int \<times> 'k hook \<Rightarrow> fault + outcome \<times> 'k hook" where
  "passed = (\<lambda>(n, w). Inr (Ret n, w))"

text \<open>\<open>FdMgr::GetInstance()->getFdCtx(fd)\<close>: the context and its address.\<close>

definition fd_ctx :: "'k hook \<Rightarrow> int \<Rightarrow> (nat \<times> fdctx) option" where
  "fd_ctx w fd =
     (case getFdCtx_read fd False (fds w) of
        Some (Some p) \<Rightarrow> Some (p, ctxs (fds w) p) | _ \<Rightarrow> None)"

definition with_ctx :: "nat \<Rightarrow> fdctx \<Rightarrow> 'k hook \<Rightarrow> 'k hook" where
  "with_ctx p c w = w\<lparr>fds := (fds w)\<lparr>ctxs := (ctxs (fds w))(p := c)\<rparr>\<rparr>"

definition with_timers :: "tmgr \<Rightarrow> 'k hook \<Rightarrow> 'k hook" where
  "with_timers t w = w\<lparr>reactor := (reactor w)\<lparr>tm := t\<rparr>\<rparr>"

section \<open>Timers of a call\<close>

text \<open>\<open>timer_info::cancelled\<close> is a \<open>bool\<close>: assigning \<open>ETIMEDOUT\<close> makes it \<open>true\<close>, that is 1.\<close>

definition run_closure :: "epoll_ctl \<Rightarrow> closure \<Rightarrow> 'k hook \<Rightarrow> fault + 'k hook" where
  "run_closure ctl c w =
     (case c of
        Wake f \<Rightarrow> Inr (w\<lparr>reactor := (reactor w)\<lparr>scheds :=
            post (self (reactor w)) (fiber_task f) (scheds (reactor w))\<rparr>\<rparr>)
      | TimedOut t fd event \<Rightarrow>
          (if tinfos w t \<noteq> Some False then Inr w
           else let w1 = w\<lparr>tinfos := (tinfos w)(t := Some (ETIMEDOUT \<noteq> 0))\<rparr> in
             bindE (cancelEvent ctl fd event (reactor w1)) (\<lambda>(_, m). Inr (w1\<lparr>reactor := m\<rparr>))))"

fun run_closures :: "epoll_ctl \<Rightarrow> nat list \<Rightarrow> 'k hook \<Rightarrow> fault + 'k hook" where
  "run_closures ctl [] w = Inr w"
| "run_closures ctl (k # ks) w =
     bindE (case closures w k of None \<Rightarrow> Inr w | Some c \<Rightarrow> run_closure ctl c w) (run_closures ctl ks)"

text \<open>What a timer's callback does when the scheduler runs it.\<close>

definition run_timer_callback :: "epoll_ctl \<Rightarrow> callback \<Rightarrow> 'k hook \<Rightarrow> fault + 'k hook" where
  "run_timer_callback ctl f w = run_closures ctl (run_callback (\<lambda>a. tinfos w a \<noteq> None) f) w"

definition arm_timeout :: "fresh \<Rightarrow> io_frame \<Rightarrow> 'k hook \<Rightarrow> nat option \<times> 'k hook" where
  "arm_timeout e fr w =
     (if io_ms fr \<noteq> - 1
      then (Some (at_timer e), with_timers
              (addConditionTimer (at_now e) (tm (reactor w)) (at_timer e) (unat (io_ms fr)) (at_closure e)
                 (io_tinfo fr) False)
              (w\<lparr>closures := (closures w)(at_closure e \<mapsto> TimedOut (io_tinfo fr) (io_fd fr) (io_event fr))\<rparr>))
      else (None, w))"

definition cancel_timer :: "nat option \<Rightarrow> 'k hook \<Rightarrow> fault + 'k hook" where
  "cancel_timer t w =
     (case t of None \<Rightarrow> Inr w
      | Some a \<Rightarrow> bindE (cancel (tm (reactor w)) a) (\<lambda>(_, m). Inr (with_timers m w)))"

text \<open>Leaving the call drops its \<open>shared_ptr\<close> to the \<open>timer_info\<close>.\<close>

definition io_return :: "io_frame \<Rightarrow> int \<Rightarrow> 'k hook \<Rightarrow> fault + outcome \<times> 'k hook" where
  "io_return fr n w = Inr (Ret n, w\<lparr>tinfos := (tinfos w)(io_tinfo fr := None)\<rparr>)"

text \<open>
  \<open>iom->addEvent(fd, event)\<close> without a callback: the event will resume the running fiber, which
  is in state \<open>EXEC\<close>.
\<close>

definition await_event :: "epoll_ctl \<Rightarrow> io_frame \<Rightarrow> 'k hook \<Rightarrow> fault + int \<times> 'k hook" where
  "await_event ctl fr w =
     bindE (addEvent ctl (Some (self (reactor w))) (running_fiber w) True (io_fd fr) (io_event fr) None
              (reactor w)) (\<lambda>(r, m). Inr (r, w\<lparr>reactor := m\<rparr>))"

section \<open>Reading and writing\<close>

text \<open>\<open>goto retry\<close> while the call is interrupted: it need not end.\<close>

partial_function (option) uninterrupted :: "'k syscall \<Rightarrow> 'k \<Rightarrow> ((int \<times> int) \<times> 'k) option" where
  "uninterrupted f k =
     (case f k of (r, k') \<Rightarrow> if r = (-1, EINTR) then uninterrupted f k' else Some (r, k'))"

text \<open>\<open>EAGAIN\<close>: arm the timer, register the event and yield.\<close>

definition do_io_wait :: "epoll_ctl \<Rightarrow> fresh \<Rightarrow> io_frame \<Rightarrow> 'k hook \<Rightarrow> fault + outcome \<times> 'k hook" where
  "do_io_wait ctl e fr w =
     (if \<not> in_io w then Inl NullDeref
      else let (t, w1) = arm_timeout e fr w in
        bindE (await_event ctl fr w1) (\<lambda>(r, w2).
          if r \<noteq> 0 then bindE (cancel_timer t w2) (io_return fr (-1))
          else Inr (Park (fr\<lparr>io_timer := t\<rparr>), w2)))"

text \<open>The code from \<open>retry\<close> on; \<open>None\<close> when the call is interrupted for ever.\<close>

definition do_io_retry ::
    "epoll_ctl \<Rightarrow> fresh \<Rightarrow> io_frame \<Rightarrow> 'k syscall \<Rightarrow> 'k hook \<Rightarrow> (fault + outcome \<times> 'k hook) option" where
  "do_io_retry ctl e fr f w =
     map_option (\<lambda>((n, er), k).
       let w1 = w\<lparr>kern := k, errno := (if n = -1 then er else errno w)\<rparr> in
       if n = -1 \<and> er = EAGAIN then do_io_wait ctl e fr w1 else io_return fr n w1)
     (uninterrupted f (kern w))"

definition do_io ::
    "epoll_ctl \<Rightarrow> fresh \<Rightarrow> int \<Rightarrow> 'k syscall \<Rightarrow> u32 \<Rightarrow> int \<Rightarrow> 'k hook \<Rightarrow> (fault + outcome \<times> 'k hook) option" where
  "do_io ctl e fd f event timeout_so w =
     (if \<not> enabled w then Some (passed (sys f w))
      else case fd_ctx w fd of
        None \<Rightarrow> Some (passed (sys f w))
      | Some (p, c) \<Rightarrow>
          if isClosed c then Some (Inr (Ret (-1), w\<lparr>errno := EBADF\<rparr>))
          else if \<not> isSocket c \<or> userNonblock c then Some (passed (sys f w))
          else do_io_retry ctl e
                 \<lparr>io_fd = fd, io_event = event, io_ms = getTimeout c timeout_so, io_tinfo = at_tinfo e,
                  io_timer = None\<rparr> f
                 (w\<lparr>tinfos := (tinfos w)(at_tinfo e \<mapsto> False)\<rparr>))"

text \<open>
  After \<open>YieldToHold\<close> has returned: \<open>errno = tinfo->cancelled\<close> converts the \<open>bool\<close>.
\<close>

definition timed_out :: "io_frame \<Rightarrow> 'k hook \<Rightarrow> bool" where
  "timed_out fr w \<longleftrightarrow> tinfos w (io_tinfo fr) = Some True"

definition do_io_resume ::
    "epoll_ctl \<Rightarrow> fresh \<Rightarrow> io_frame \<Rightarrow> 'k syscall \<Rightarrow> 'k hook \<Rightarrow> (fault + outcome \<times> 'k hook) option" where
  "do_io_resume ctl e fr f w =
     (case cancel_timer (io_timer fr) w of
        Inl x \<Rightarrow> Some (Inl x)
      | Inr w1 \<Rightarrow>
          if timed_out fr w1 then Some (io_return fr (-1) (w1\<lparr>errno := of_bool True\<rparr>))
          else do_io_retry ctl e fr f w1)"

definition SO_SNDTIMEO :: int where "SO_SNDTIMEO = 21"

text \<open>The calls that only name their event and timeout.\<close>

definition hook_read where
  "hook_read ctl e fd f w = do_io ctl e fd f READ SO_RCVTIMEO w"

definition hook_readv where
  "hook_readv ctl e fd f w = do_io ctl e fd f READ SO_RCVTIMEO w"

definition hook_recv where
  "hook_recv ctl e fd f w = do_io ctl e fd f READ SO_RCVTIMEO w"

definition hook_recvfrom where
  "hook_recvfrom ctl e fd f w = do_io ctl e fd f READ SO_RCVTIMEO w"

definition hook_recvmsg where
  "hook_recvmsg ctl e fd f w = do_io ctl e fd f READ SO_RCVTIMEO w"

definition hook_write where
  "hook_write ctl e fd f w = do_io ctl e fd f WRITE SO_SNDTIMEO w"

definition hook_writev where
  "hook_writev ctl e fd f w = do_io ctl e fd f WRITE SO_SNDTIMEO w"

definition hook_send where
  "hook_send ctl e fd f w = do_io ctl e fd f WRITE SO_SNDTIMEO w"

definition hook_sendto where
  "hook_sendto ctl e fd f w = do_io ctl e fd f WRITE SO_SNDTIMEO w"

definition hook_sendmsg where
  "hook_sendmsg ctl e fd f w = do_io ctl e fd f WRITE SO_SNDTIMEO w"

text \<open>
  \<open>getFdCtx(fd, true)\<close> for a new descriptor. \<open>accept\<close> registers the descriptor it got when it
  returns, at once or after having waited.
\<close>

definition register_fd :: "fstat \<Rightarrow> nat \<Rightarrow> int \<Rightarrow> 'k hook \<Rightarrow> fault + 'k hook" where
  "register_fd fstat p fd w =
     bindE (getFdCtx fstat p fd True (fds w)) (\<lambda>(_, m). Inr (w\<lparr>fds := m\<rparr>))"

definition accepted :: "fstat \<Rightarrow> nat \<Rightarrow> fault + outcome \<times> 'k hook \<Rightarrow> fault + outcome \<times> 'k hook" where
  "accepted fstat p r =
     bindE r (\<lambda>(out, w). case out of
         Park fr \<Rightarrow> Inr (Park fr, w)
       | Ret n \<Rightarrow> if 0 \<le> n then bindE (register_fd fstat p n w) (\<lambda>w'. Inr (Ret n, w')) else Inr (Ret n, w))"

definition hook_accept ::
    "fstat \<Rightarrow> nat \<Rightarrow> epoll_ctl \<Rightarrow> fresh \<Rightarrow> int \<Rightarrow> 'k syscall \<Rightarrow> 'k hook \<Rightarrow> (fault + outcome \<times> 'k hook) option" where
  "hook_accept fstat p ctl e fd f w =
     map_option (accepted fstat p) (do_io ctl e fd f READ SO_RCVTIMEO w)"

definition accept_resume ::
    "fstat \<Rightarrow> nat \<Rightarrow> epoll_ctl \<Rightarrow> fresh \<Rightarrow> io_frame \<Rightarrow> 'k syscall \<Rightarrow> 'k hook \<Rightarrow> (fault + outcome \<times> 'k hook) option" where
  "accept_resume fstat p ctl e fr f w =
     map_option (accepted fstat p) (do_io_resume ctl e fr f w)"

definition hook_socket :: "fstat \<Rightarrow> nat \<Rightarrow> 'k syscall \<Rightarrow> 'k hook \<Rightarrow> fault + outcome \<times> 'k hook" where
  "hook_socket fstat p f w =
     (let (fd, w1) = sys f w in
      if \<not> enabled w \<or> fd = -1 then Inr (Ret fd, w1)
      else bindE (register_fd fstat p fd w1) (\<lambda>w2. Inr (Ret fd, w2)))"

definition hook_close :: "epoll_ctl \<Rightarrow> int \<Rightarrow> 'k syscall \<Rightarrow> 'k hook \<Rightarrow> fault + outcome \<times> 'k hook" where
  "hook_close ctl fd f w =
     (if \<not> enabled w \<or> fd_ctx w fd = None then passed (sys f w)
      else bindE (if in_io w then bindE (cancelAll ctl fd (reactor w)) (\<lambda>(_, m). Inr (w\<lparr>reactor := m\<rparr>))
                  else Inr w) (\<lambda>w1.
        passed (sys f (w1\<lparr>fds := removeFdCtx fd (fds w1)\<rparr>))))"

section \<open>Sleeping\<close>

text \<open>A timer that schedules the fiber, then the yield; the call returns 0 when resumed.\<close>

definition sleep_for :: "fresh \<Rightarrow> nat \<Rightarrow> 'k hook \<Rightarrow> fault + 'k hook" where
  "sleep_for e ms w =
     (if \<not> in_io w then Inl NullDeref
      else Inr (with_timers (addTimer (at_now e) (tm (reactor w)) (at_timer e) ms (Some (Plain (at_closure e))) False)
        (w\<lparr>closures := (closures w)(at_closure e \<mapsto> Wake (running_fiber w))\<rparr>)))"

text \<open>The milliseconds the three calls ask for: \<open>seconds * 1000\<close> is an \<open>unsigned int\<close>.\<close>

definition sleep_ms :: "u32 \<Rightarrow> nat" where
  "sleep_ms sec = unat (sec * 1000)"

definition usleep_ms :: "u32 \<Rightarrow> nat" where
  "usleep_ms usec = unat (usec div 1000)"

definition nanosleep_ms :: "int \<Rightarrow> int \<Rightarrow> nat" where
  "nanosleep_ms sec nsec = unat (of_int (sec * 1000 + nsec sdiv 1000 sdiv 1000) :: u64)"

text \<open>\<open>Some n\<close> is the result of the original call, \<open>None\<close> that the fiber has yielded.\<close>

definition sleeping :: "fresh \<Rightarrow> nat \<Rightarrow> 'k syscall \<Rightarrow> 'k hook \<Rightarrow> fault + int option \<times> 'k hook" where
  "sleeping e ms f w =
     (if \<not> enabled w then (let (n, w') = sys f w in Inr (Some n, w'))
      else bindE (sleep_for e ms w) (\<lambda>w'. Inr (None, w')))"

definition hook_sleep where
  "hook_sleep e sec f w = sleeping e (sleep_ms sec) f w"

definition hook_usleep where
  "hook_usleep e usec f w = sleeping e (usleep_ms usec) f w"

definition hook_nanosleep where
  "hook_nanosleep e sec nsec f w = sleeping e (nanosleep_ms sec nsec) f w"

section \<open>Connecting\<close>

text \<open>
  \<open>tmo\<close> and \<open>con\<close> are the calls of \<open>setsockopt\<close> and \<open>connect_f\<close>; \<open>so\<close> is \<open>getsockopt(SO_ERROR)\<close>: its
  result, its error number and the error of the socket.
\<close>

definition finish_connect :: "('k \<Rightarrow> (int \<times> int \<times> int) \<times> 'k) \<Rightarrow> 'k hook \<Rightarrow> int \<times> 'k hook" where
  "finish_connect so w =
     (let ((r, e, err), k) = so (kern w); w1 = w\<lparr>kern := k\<rparr> in
      if r = -1 then (-1, w1\<lparr>errno := e\<rparr>)
      else if err = 0 then (0, w1) else (-1, w1\<lparr>errno := err\<rparr>))"

definition finished where
  "finished fr so w = (let (n, w1) = finish_connect so w in io_return fr n w1)"

definition connect_with_timeout ::
    "epoll_ctl \<Rightarrow> fresh \<Rightarrow> int \<Rightarrow> u64 \<Rightarrow> 'k syscall \<Rightarrow> 'k syscall \<Rightarrow> ('k \<Rightarrow> (int \<times> int \<times> int) \<times> 'k) \<Rightarrow>
     'k hook \<Rightarrow> fault + outcome \<times> 'k hook" where
  "connect_with_timeout ctl e fd ms tmo con so w =
     (if \<not> enabled w then passed (sys con (snd (sys tmo w)))
      else case fd_ctx w fd of
        None \<Rightarrow> Inr (Ret (-1), w\<lparr>errno := EBADF\<rparr>)
      | Some (p, c) \<Rightarrow>
          if isClosed c then Inr (Ret (-1), w\<lparr>errno := EBADF\<rparr>)
          else if \<not> isSocket c \<or> userNonblock c then passed (sys con w)
          else let (n, w1) = sys con w in
            if n \<noteq> -1 \<or> errno w1 \<noteq> EINPROGRESS then Inr (Ret n, w1)
            else if \<not> in_io w1 then Inl NullDeref
            else let fr = \<lparr>io_fd = fd, io_event = WRITE, io_ms = ms, io_tinfo = at_tinfo e, io_timer = None\<rparr>;
                     (t, w2) = arm_timeout e fr (w1\<lparr>tinfos := (tinfos w1)(at_tinfo e \<mapsto> False)\<rparr>) in
              bindE (await_event ctl fr w2) (\<lambda>(r, w3).
                if r \<noteq> 0 then bindE (cancel_timer t w3) (finished fr so)
                else Inr (Park (fr\<lparr>io_timer := t\<rparr>), w3)))"

definition connect_resume ::
    "io_frame \<Rightarrow> ('k \<Rightarrow> (int \<times> int \<times> int) \<times> 'k) \<Rightarrow> 'k hook \<Rightarrow> fault + outcome \<times> 'k hook" where
  "connect_resume fr so w =
     bindE (cancel_timer (io_timer fr) w) (\<lambda>w1.
       if timed_out fr w1 then io_return fr (-1) (w1\<lparr>errno := of_bool True\<rparr>)
       else finished fr so w1)"

text \<open>\<open>connect\<close> uses the configured timeout \<open>s_connect_timeout\<close>.\<close>

definition hook_connect where
  "hook_connect s_connect_timeout ctl e fd tmo con so w =
     connect_with_timeout ctl e fd s_connect_timeout tmo con so w"

section \<open>Descriptor flags and options\<close>

definition F_GETFL :: int where "F_GETFL = 3"
definition F_SETFL :: int where "F_SETFL = 4"
definition FIONBIO :: u64 where "FIONBIO = 0x5421"
definition SOL_SOCKET :: int where "SOL_SOCKET = 1"

text \<open>
  On an open descriptor the kernel's \<open>F_SETFL\<close> changes \<open>O_APPEND\<close>, \<open>O_NONBLOCK\<close>, \<open>O_ASYNC\<close>,
  \<open>O_DIRECT\<close> and \<open>O_NOATIME\<close> only; \<open>FIONBIO\<close> sets or clears \<open>O_NONBLOCK\<close>.
\<close>

definition SETFL_MASK :: u32 where "SETFL_MASK = 0x46C00"

definition set_kflags :: "int \<Rightarrow> u32 \<Rightarrow> 'k hook \<Rightarrow> 'k hook" where
  "set_kflags fd flags w =
     w\<lparr>fds := (fds w)\<lparr>kflags := (kflags (fds w))(fd :=
         (kflags (fds w) fd AND NOT SETFL_MASK) OR (flags AND SETFL_MASK))\<rparr>\<rparr>"

definition usable_ctx :: "'k hook \<Rightarrow> int \<Rightarrow> (nat \<times> fdctx) option" where
  "usable_ctx w fd =
     (case fd_ctx w fd of
        None \<Rightarrow> None
      | Some (p, c) \<Rightarrow> if isClosed c \<or> \<not> isSocket c then None else Some (p, c))"

definition fcntl_setfl :: "int \<Rightarrow> u32 \<Rightarrow> 'k hook \<Rightarrow> 'k hook" where
  "fcntl_setfl fd arg w =
     (case usable_ctx w fd of
        None \<Rightarrow> set_kflags fd arg w
      | Some (p, c) \<Rightarrow>
          set_kflags fd (if sysNonblock c then arg OR O_NONBLOCK else arg AND NOT O_NONBLOCK)
            (with_ctx p (c\<lparr>userNonblock := (arg AND O_NONBLOCK \<noteq> 0)\<rparr>) w))"

definition fcntl_getfl :: "int \<Rightarrow> 'k hook \<Rightarrow> u32" where
  "fcntl_getfl fd w =
     (let arg = kflags (fds w) fd in
      case usable_ctx w fd of
        None \<Rightarrow> arg
      | Some (p, c) \<Rightarrow> if userNonblock c then arg OR O_NONBLOCK else arg AND NOT O_NONBLOCK)"

text \<open>All other commands hand their argument through.\<close>

definition hook_fcntl :: "'k syscall \<Rightarrow> int \<Rightarrow> int \<Rightarrow> u32 \<Rightarrow> 'k hook \<Rightarrow> int \<times> 'k hook" where
  "hook_fcntl f fd cmd arg w =
     (if cmd = F_SETFL then (0, fcntl_setfl fd arg w)
      else if cmd = F_GETFL then (uint (fcntl_getfl fd w), w)
      else sys f w)"

definition hook_ioctl :: "'k syscall \<Rightarrow> int \<Rightarrow> u64 \<Rightarrow> int \<Rightarrow> 'k hook \<Rightarrow> int \<times> 'k hook" where
  "hook_ioctl f d request arg w =
     (if request = FIONBIO
      then let w1 = (case usable_ctx w d of
                       None \<Rightarrow> w | Some (p, c) \<Rightarrow> with_ctx p (c\<lparr>userNonblock := (arg \<noteq> 0)\<rparr>) w);
               fl = kflags (fds w1) d in
        (0, set_kflags d (if arg \<noteq> 0 then fl OR O_NONBLOCK else fl AND NOT O_NONBLOCK) w1)
      else sys f w)"

text \<open>The option's value is a \<open>timeval\<close> for the two timeouts.\<close>

definition hook_setsockopt ::
    "'k syscall \<Rightarrow> int \<Rightarrow> int \<Rightarrow> int \<Rightarrow> int \<times> int \<Rightarrow> 'k hook \<Rightarrow> int \<times> 'k hook" where
  "hook_setsockopt f fd level optname tv w =
     (if \<not> enabled w then sys f w
      else sys f
        (if level = SOL_SOCKET \<and> (optname = SO_RCVTIMEO \<or> optname = SO_SNDTIMEO)
         then (case fd_ctx w fd of
                 None \<Rightarrow> w
               | Some (p, c) \<Rightarrow>
                   with_ctx p (setTimeout c optname (of_int (fst tv * 1000 + snd tv sdiv 1000))) w)
         else w))"

section \<open>Lemmas\<close>

text \<open>What the reactor's operations leave alone.\<close>

lemma find_channel_frame:
  assumes "find_channel fd m = Inr m'"
  shows "tm m' = tm m \<and> self m' = self m"
  using assms by (auto simp: find_channel_def grow_def resizeChannels_def Let_def faults split: if_splits)

lemma do_ctl_frame:
  assumes "do_ctl ctl op fd ev m = Some m'"
  shows "tm m' = tm m \<and> self m' = self m"
  using assms by (auto simp: do_ctl_eq split: if_splits)

lemma addEvent_locked_frame:
  assumes "addEvent_locked ctl s f ex fd event g m = Inr (r, m')"
  shows "tm m' = tm m \<and> self m' = self m"
  using assms do_ctl_frame
  by (fastforce simp: addEvent_locked_def faults Let_def with_channel_def count_by_def
      split: if_splits option.splits)

lemma addEvent_frame:
  assumes "addEvent ctl s f ex fd event g m = Inr (r, m')"
  shows "tm m' = tm m" and "self m' = self m"
  using assms find_channel_frame addEvent_locked_frame
  by (auto simp: addEvent_def faults)

lemma fire_event_frame:
  assumes "fire_event i event m = Inr m'"
  shows "tm m' = tm m \<and> self m' = self m"
  using assms by (auto simp: fire_event_def faults with_channel_def count_by_def split: prod.splits)

lemma cancelEvent_frame:
  assumes "cancelEvent ctl fd event m = Inr (r, m')"
  shows "tm m' = tm m" and "self m' = self m"
  using assms do_ctl_frame fire_event_frame
  by (auto simp: cancelEvent_def faults Let_def split: if_splits option.splits)

lemma await_parks:
  assumes "in_step (reactor w) (io_fd fr)" and "0 \<le> io_fd fr" and "io_fd fr < 2 ^ 31" and "io_event fr \<in> {READ, WRITE}"
    and "\<not> waiting (reactor w) (nat (io_fd fr)) (io_event fr)" and "documented_ctl ctl (io_fd fr)"
  obtains m where "await_event ctl fr w = Inr (0, w\<lparr>reactor := m\<rparr>)"
    and "in_step m (io_fd fr)" and "iom_ok (reactor w) \<Longrightarrow> iom_ok m"
    and "waiting m (nat (io_fd fr)) (io_event fr)" and "scheds m = scheds (reactor w)"
    and "tm m = tm (reactor w)" and "self m = self (reactor w)"
    and "ctx_of (channels m ! nat (io_fd fr)) (io_event fr) = stored_ctx (self (reactor w)) (running_fiber w) None"
proof -
  have ok: "table_ok (reactor w)" using assms(1) by (simp add: in_step_def)
  obtain r m where a: "addEvent ctl (Some (self (reactor w))) (running_fiber w) True (io_fd fr) (io_event fr) None
        (reactor w) = Inr (r, m)" "scheds m = scheds (reactor w)"
      "in_step m (io_fd fr)" "iom_ok (reactor w) \<Longrightarrow> iom_ok m"
      "if r = 0 then \<not> waiting (reactor w) (nat (io_fd fr)) (io_event fr) \<and> waiting m (nat (io_fd fr)) (io_event fr)
           \<and> ctx_of (channels m ! nat (io_fd fr)) (io_event fr)
             = stored_ctx (self (reactor w)) (running_fiber w) None
         else r = -1 \<and> pending_events m = pending_events (reactor w)"
      "r = 0 \<longleftrightarrow> \<not> waiting (reactor w) (nat (io_fd fr)) (io_event fr)"
    by (rule addEvent_ok [OF ok assms(2-4) disjI2 [OF TrueI], where f = None and ctl = ctl
          and s = "self (reactor w)" and this_fiber = "running_fiber w"]) (use assms(1,6) in blast)
  have r: "r = 0" using a(6) assms(5) by blast
  have "await_event ctl fr w = Inr (0, w\<lparr>reactor := m\<rparr>)" unfolding await_event_def a(1) r by simp
  moreover have "waiting m (nat (io_fd fr)) (io_event fr)"
      "ctx_of (channels m ! nat (io_fd fr)) (io_event fr) = stored_ctx (self (reactor w)) (running_fiber w) None"
    using a(5) unfolding r by simp_all
  ultimately show ?thesis using a(2-4) addEvent_frame [OF a(1)] by (intro that)
qed

text \<open>Cancelling the call's own timer never fails while the timer object is held.\<close>

lemma cancel_timer_ok:
  assumes "tmgr_ok (tm (reactor w))" and "a \<in> set (live (tm (reactor w)))"
  obtains t where "cancel_timer (Some a) w = Inr (with_timers t w)" and "tmgr_ok t"
    and "cb (store (tm (reactor w)) a) \<noteq> None \<Longrightarrow> a \<notin> set (timers t)"
proof -
  obtain r t where t: "cancel (tm (reactor w)) a = Inr (r, t)" using cancel_eq [OF assms] by fastforce
  show ?thesis
    using t cancel_ok [OF assms t] by (intro that [of t]) (simp_all add: cancel_timer_def)
qed

lemma with_timers_simps [simp]:
  "tinfos (with_timers t w) = tinfos w" "kern (with_timers t w) = kern w" "errno (with_timers t w) = errno w"
  "closures (with_timers t w) = closures w" "tm (reactor (with_timers t w)) = t"
  "channels (reactor (with_timers t w)) = channels (reactor w)"
  "scheds (reactor (with_timers t w)) = scheds (reactor w)" "self (reactor (with_timers t w)) = self (reactor w)"
  "running_fiber (with_timers t w) = running_fiber w" "in_io (with_timers t w) = in_io w"
  "with_timers t (with_timers u w) = with_timers t w"
  by (simp_all add: with_timers_def)

lemma waiting_with_timers [simp]: "waiting (reactor (with_timers t w)) i event = waiting (reactor w) i event"
  by (simp add: waiting_def)

lemma reactor_with_timers [simp]:
  "table_ok (reactor (with_timers t w)) = table_ok (reactor w)"
  "in_step (reactor (with_timers t w)) fd = in_step (reactor w) fd"
  "iom_ok (reactor (with_timers t w)) = iom_ok (reactor w)"
  by (simp_all add: iom_ok_def in_step_def table_ok_def chan_at_def wanted_def pending_events_def with_timers_def)

lemma dispatch_channel_frame:
  assumes "dispatch_channel ctl i evs m = Inr m'"
  shows "tm m' = tm m" and "self m' = self m"
proof -
  define ch where "ch = channels m ! i"
  define rv where "rv = ready_events evs (ch_events ch)"
  define rest where "rest = ch_events ch AND NOT rv"
  have fire: "tm v = tm u \<and> self v = self u" if "(if b then fire_event i ev u else Inr u) = Inr v" for b ev u v
    using that fire_event_frame by (cases b) auto
  have disp: "dispatch_channel ctl i evs m = (if ch_events ch AND rv = NONE then Inr m
      else case do_ctl ctl (if rest \<noteq> 0 then EPOLL_CTL_MOD else EPOLL_CTL_DEL) (ch_fd ch) (EPOLLET OR rest) m of
          None \<Rightarrow> Inr m
        | Some m1 \<Rightarrow>
            bindE (if rv AND READ \<noteq> 0 then fire_event i READ m1 else Inr m1) (\<lambda>m2.
              if rv AND WRITE \<noteq> 0 then fire_event i WRITE m2 else Inr m2))"
    unfolding dispatch_channel_def Let_def ch_def rv_def rest_def ..
  have "tm m' = tm m \<and> self m' = self m"
  proof (cases "ch_events ch AND rv = NONE")
    case True
    then show ?thesis using assms by (simp add: disp)
  next
    case False
    show ?thesis
    proof (cases "do_ctl ctl (if rest \<noteq> 0 then EPOLL_CTL_MOD else EPOLL_CTL_DEL) (ch_fd ch) (EPOLLET OR rest) m")
      case None
      then show ?thesis using assms False by (simp add: disp)
    next
      case (Some m1)
      then have "bindE (if rv AND READ \<noteq> 0 then fire_event i READ m1 else Inr m1) (\<lambda>m2.
          if rv AND WRITE \<noteq> 0 then fire_event i WRITE m2 else Inr m2) = Inr m'"
        using assms False by (simp add: disp)
      then obtain m2 where "(if rv AND READ \<noteq> 0 then fire_event i READ m1 else Inr m1) = Inr m2"
          "(if rv AND WRITE \<noteq> 0 then fire_event i WRITE m2 else Inr m2) = Inr m'"
        unfolding bindE_eq_Inr by blast
      then show ?thesis using fire do_ctl_frame [OF Some] by metis
    qed
  qed
  then show "tm m' = tm m" "self m' = self m" by simp_all
qed

text \<open>A call whose original answers at once.\<close>

lemma uninterrupted_now: "f k = (r, k') \<Longrightarrow> r \<noteq> (-1, EINTR) \<Longrightarrow> uninterrupted f k = Some (r, k')"
  by (simp add: uninterrupted.simps [of f k])

lemma uninterrupted_iter:
  assumes "\<And>i. i < j \<Longrightarrow> fst (f (((snd \<circ> f) ^^ i) k)) = (-1, EINTR)"
    and "f (((snd \<circ> f) ^^ j) k) = (r, k')" and "r \<noteq> (-1, EINTR)"
  shows "uninterrupted f k = Some (r, k')"
  using assms
proof (induction j arbitrary: k)
  case 0
  then show ?case by (simp add: uninterrupted_now)
next
  case (Suc j)
  obtain k1 where k1: "f k = ((-1, EINTR), k1)" using Suc.prems(1) [of 0] by (cases "f k") auto
  have shift: "((snd \<circ> f) ^^ i) k1 = ((snd \<circ> f) ^^ Suc i) k" for i
    by (simp add: funpow_Suc_right k1 del: funpow.simps)
  have "uninterrupted f k1 = Some (r, k')"
  proof (rule Suc.IH)
    show "fst (f (((snd \<circ> f) ^^ i) k1)) = (-1, EINTR)" if "i < j" for i
      unfolding shift using that by (intro Suc.prems(1)) simp
    show "f (((snd \<circ> f) ^^ j) k1) = (r, k')" unfolding shift by (rule Suc.prems(2))
  qed (rule Suc.prems(3))
  then show ?case by (simp add: uninterrupted.simps [of f k] k1)
qed

end
