(* ===== verification/HookCalls.thy ===== *)
theory HookCalls imports Hook begin

text \<open>
  Properties of the hooked system calls of \<open>easy/base/hook.cc\<close>: when a call is the original one,
  what a call that would block leaves behind, how the event and the timeout end it, and what the
  descriptor's flags look like from the program and from the kernel.
\<close>

section \<open>Interrupted calls\<close>

text \<open>The states an interrupted call goes through, and its first answer other than \<open>EINTR\<close>.\<close>

definition after_calls :: "'k syscall \<Rightarrow> nat \<Rightarrow> 'k \<Rightarrow> 'k" where
  "after_calls f j k = ((snd \<circ> f) ^^ j) k"

definition first_answer :: "'k syscall \<Rightarrow> 'k \<Rightarrow> int \<times> int \<Rightarrow> 'k \<Rightarrow> bool" where
  "first_answer f k r k' \<longleftrightarrow> r \<noteq> (-1, EINTR)
     \<and> (\<exists>j. f (after_calls f j k) = (r, k') \<and> (\<forall>i < j. fst (f (after_calls f i k)) = (-1, EINTR)))"

lemma first_answer_next:
  assumes "f k = ((-1, EINTR), k1)" and "first_answer f k1 r k'"
  shows "first_answer f k r k'"
proof -
  have shift: "after_calls f (Suc i) k = after_calls f i k1" for i
    using assms(1) by (simp add: after_calls_def funpow_Suc_right del: funpow.simps)
  obtain j where j: "r \<noteq> (-1, EINTR)" "f (after_calls f j k1) = (r, k')"
      "\<forall>i < j. fst (f (after_calls f i k1)) = (-1, EINTR)"
    using assms(2) unfolding first_answer_def by blast
  have "fst (f (after_calls f i k)) = (-1, EINTR)" if "i < Suc j" for i
  proof (cases i)
    case 0
    then show ?thesis using assms(1) by (simp add: after_calls_def)
  next
    case (Suc n)
    then show ?thesis using that j(3) shift by simp
  qed
  then show ?thesis using j(1,2) shift unfolding first_answer_def by metis
qed

lemma uninterrupted_sound:
  assumes "uninterrupted f k = Some y"
  shows "first_answer f k (fst y) (snd y)"
proof (rule uninterrupted.raw_induct [where P = "\<lambda>f k y. first_answer f k (fst y) (snd y)", OF _ assms])
  fix u f y and k :: 'a
  assume IH: "\<And>f (k :: 'a) y. u f k = Some y \<Longrightarrow> first_answer f k (fst y) (snd y)"
    and step: "(case f k of (r, k') \<Rightarrow> if r = (-1, EINTR) then u f k' else Some (r, k')) = Some y"
  obtain q k1 where q: "f k = (q, k1)" by fastforce
  show "first_answer f k (fst y) (snd y)"
  proof (cases "q = (-1, EINTR)")
    case True
    then have "first_answer f k1 (fst y) (snd y)" using IH step q by simp
    then show ?thesis using True q first_answer_next [of f k k1] by simp
  next
    case False
    then have "y = (q, k1)" using step q by simp
    then show ?thesis
      using False q unfolding first_answer_def by (auto simp: after_calls_def intro!: exI [of _ 0])
  qed
qed

lemma uninterrupted_iff: "uninterrupted f k = Some (r, k') \<longleftrightarrow> first_answer f k r k'"
proof
  assume "first_answer f k r k'"
  then obtain j where "r \<noteq> (-1, EINTR)" "f (((snd \<circ> f) ^^ j) k) = (r, k')"
      "\<And>i. i < j \<Longrightarrow> fst (f (((snd \<circ> f) ^^ i) k)) = (-1, EINTR)"
    unfolding first_answer_def after_calls_def by blast
  then show "uninterrupted f k = Some (r, k')" using uninterrupted_iter [of j f k r k'] by blast
qed (auto dest: uninterrupted_sound)

text \<open>The descriptor is one whose calls may block, and everything is in order.\<close>

definition may_block :: "'k hook \<Rightarrow> int \<Rightarrow> nat \<Rightarrow> fdctx \<Rightarrow> bool" where
  "may_block w fd p c \<longleftrightarrow> enabled w \<and> fd_ctx w fd = Some (p, c)
     \<and> \<not> isClosed c \<and> isSocket c \<and> \<not> userNonblock c"

definition in_reactor :: "'k hook \<Rightarrow> int \<Rightarrow> u32 \<Rightarrow> bool" where
  "in_reactor w fd event \<longleftrightarrow> in_io w \<and> in_step (reactor w) fd \<and> tmgr_ok (tm (reactor w))
     \<and> 0 \<le> fd \<and> fd < 2 ^ 31 \<and> event \<in> {READ, WRITE}"

section \<open>When a call is the original one\<close>

text \<open>
  C3. A hooked call is transparent: without hooks, on an unknown descriptor, on a file and on a
  descriptor the program made non-blocking it is the original call; on a closed one it fails with
  \<open>EBADF\<close> without calling; otherwise the original is repeated as long as it is interrupted, its
  first other answer is the result unless that is \<open>EAGAIN\<close>, and interruptions without end are the
  only way not to return.
\<close>

theorem hooked_call_transparent:
  "(\<not> enabled w \<or> fd_ctx w fd = None \<longrightarrow> do_io ctl e fd f event so w = Some (passed (sys f w)))
   \<and> (\<forall>p c. enabled w \<and> fd_ctx w fd = Some (p, c) \<longrightarrow>
        (isClosed c \<longrightarrow> do_io ctl e fd f event so w = Some (Inr (Ret (-1), w\<lparr>errno := EBADF\<rparr>)))
      \<and> (\<not> isClosed c \<and> (\<not> isSocket c \<or> userNonblock c) \<longrightarrow> do_io ctl e fd f event so w = Some (passed (sys f w))))
   \<and> (\<forall>p c. may_block w fd p c \<longrightarrow>
        (\<forall>n er k. first_answer f (kern w) (n, er) k \<and> \<not> (n = -1 \<and> er = EAGAIN) \<longrightarrow>
           (\<exists>w'. do_io ctl e fd f event so w = Some (Inr (Ret n, w')) \<and> kern w' = k
              \<and> errno w' = (if n = -1 then er else errno w) \<and> fds w' = fds w \<and> reactor w' = reactor w))
      \<and> (do_io ctl e fd f event so w = None \<longleftrightarrow> (\<nexists>r k. first_answer f (kern w) r k)))"
proof (intro conjI allI impI)
  fix p c n er k
  assume m: "may_block w fd p c" and a: "first_answer f (kern w) (n, er) k \<and> \<not> (n = -1 \<and> er = EAGAIN)"
  then have "uninterrupted f (kern w) = Some ((n, er), k)" by (simp add: uninterrupted_iff)
  then show "\<exists>w'. do_io ctl e fd f event so w = Some (Inr (Ret n, w')) \<and> kern w' = k
      \<and> errno w' = (if n = -1 then er else errno w) \<and> fds w' = fds w \<and> reactor w' = reactor w"
    using m a by (auto simp: do_io_def may_block_def do_io_retry_def io_return_def)
next
  fix p c
  assume m: "may_block w fd p c"
  have "uninterrupted f (kern w) = None \<longleftrightarrow> (\<nexists>r k. first_answer f (kern w) r k)"
    unfolding uninterrupted_iff [symmetric] by (cases "uninterrupted f (kern w)") auto
  then show "do_io ctl e fd f event so w = None \<longleftrightarrow> (\<nexists>r k. first_answer f (kern w) r k)"
    using m by (auto simp: do_io_def may_block_def do_io_retry_def)
qed (auto simp: do_io_def)

text \<open>A hook with one socket, descriptor 5, whose calls may block; the kernel is a counter.\<close>

definition example_socket :: fdctx where
  "example_socket = \<lparr>isInit = True, isSocket = True, sysNonblock = True, userNonblock = False, isClosed = False,
     ctx_fd = 5, recvTimeout = 300, sendTimeout = - 1\<rparr>"

definition example_hook :: "nat hook" where
  "example_hook = \<lparr>enabled = True,
     fds = \<lparr>datas = replicate 5 None @ [Some 9], ctxs = (\<lambda>_. example_socket), kflags = (\<lambda>_. O_NONBLOCK)\<rparr>,
     reactor = example_iom, in_io = True, running_fiber = 3, tinfos = (\<lambda>_. None), closures = (\<lambda>_. None),
     errno = 0, kern = 0\<rparr>"

lemma example_ctx: "fd_ctx example_hook 5 = Some (9, example_socket)"
  by (simp add: fd_ctx_def example_hook_def getFdCtx_read_def fd_index_def nth_append)

lemma example_may_block: "may_block example_hook 5 9 example_socket"
  by (simp add: may_block_def example_ctx) (simp add: example_hook_def example_socket_def)

text \<open>A call that is interrupted twice and then has read seven bytes.\<close>

definition twice_interrupted :: "nat syscall" where
  "twice_interrupted k = (if k < 2 then (-1, EINTR) else (7, 0), Suc k)"

theorem hooked_call_transparent_witness:
  "\<exists>w'. do_io linux_ctl \<lparr>at_now = 0, at_timer = 1, at_tinfo = 1, at_closure = 1\<rparr> 5 twice_interrupted READ SO_RCVTIMEO
      example_hook = Some (Inr (Ret 7, w')) \<and> kern w' = 3"
proof -
  have "(snd \<circ> twice_interrupted) ^^ j = (\<lambda>k. k + j)" for j
    by (induction j) (auto simp: twice_interrupted_def)
  then have calls: "after_calls twice_interrupted j k = k + j" for j k
    by (simp add: after_calls_def)
  have "kern example_hook = 0" by (simp add: example_hook_def)
  then have "first_answer twice_interrupted (kern example_hook) (7, 0) 3"
    unfolding first_answer_def calls by (intro conjI exI [of _ 2]) (auto simp: twice_interrupted_def)
  then show ?thesis
    using hooked_call_transparent [of example_hook 5] example_may_block by fastforce
qed

section \<open>A call that blocks\<close>

text \<open>
  The states a call goes through that waits in the frame \<open>fr\<close> with the closure \<open>c\<close>: parked with its
  event registered for the fiber \<open>g\<close> of the scheduler \<open>s\<close>; woken, when the event has fired and the
  fiber has not run yet; expired, when the flag is set. Each says what must hold of the parts that
  belong to the call; all others, the kernel, queues, other channels, timers and descriptors, may be
  what other threads have made of them.
\<close>

definition in_call :: "'k hook \<Rightarrow> io_frame \<Rightarrow> nat \<Rightarrow> bool" where
  "in_call w fr c \<longleftrightarrow> in_step (reactor w) (io_fd fr) \<and> nat (io_fd fr) < length (channels (reactor w))
     \<and> 0 \<le> io_fd fr \<and> io_fd fr < 2 ^ 31 \<and> io_event fr \<in> {READ, WRITE}
     \<and> closures w c = Some (TimedOut (io_tinfo fr) (io_fd fr) (io_event fr)) \<and> tmgr_ok (tm (reactor w))
     \<and> (\<exists>a. io_timer fr = Some a \<and> a \<in> set (live (tm (reactor w)))
          \<and> (a \<in> set (timers (tm (reactor w))) \<longrightarrow> cb (store (tm (reactor w)) a) \<noteq> None))"

definition parked :: "'k hook \<Rightarrow> io_frame \<Rightarrow> nat \<Rightarrow> nat \<Rightarrow> nat \<Rightarrow> bool" where
  "parked w fr c s g \<longleftrightarrow> in_call w fr c \<and> tinfos w (io_tinfo fr) = Some False
     \<and> waiting (reactor w) (nat (io_fd fr)) (io_event fr)
     \<and> ctx_of (channels (reactor w) ! nat (io_fd fr)) (io_event fr) = stored_ctx s g None"

definition woken :: "'k hook \<Rightarrow> io_frame \<Rightarrow> nat \<Rightarrow> bool" where
  "woken w fr c \<longleftrightarrow> in_call w fr c \<and> tinfos w (io_tinfo fr) = Some False
     \<and> \<not> waiting (reactor w) (nat (io_fd fr)) (io_event fr)"

definition expired :: "'k hook \<Rightarrow> io_frame \<Rightarrow> nat \<Rightarrow> bool" where
  "expired w fr c \<longleftrightarrow> in_call w fr c \<and> tinfos w (io_tinfo fr) = Some True
     \<and> \<not> waiting (reactor w) (nat (io_fd fr)) (io_event fr)"

text \<open>A report whose only registered event is the call's.\<close>

definition reported :: "u32 \<Rightarrow> io_frame \<Rightarrow> 'k hook \<Rightarrow> bool" where
  "reported evs fr w \<longleftrightarrow>
     (let ev = ch_events (channels (reactor w) ! nat (io_fd fr)) in ready_events evs ev AND ev = io_event fr)"

text \<open>The timer a wait arms.\<close>

lemma condition_timer:
  assumes "tmgr_ok m" and "t \<noteq> 0" and "t \<notin> set (live m)" and "m1 = addConditionTimer now m t ms c ti False"
  shows "tmgr_ok m1" and "t \<in> set (live m1)" and "t \<in> set (timers m1)" and "cb (store m1 t) = Some (OnTimer ti c)"
  using assms(1-3) unfolding assms(4)
  by (simp_all add: addConditionTimer_def addTimer_ok)
    (simp_all add: addTimer_def tmgr timer_set.set_set_insert new_Timer_def)

text \<open>What a call that would block leaves: its frame, the registered event and the armed timer.\<close>

lemma wait_parks:
  assumes "in_io w" and "in_step (reactor w) (io_fd fr)" and "0 \<le> io_fd fr" and "io_fd fr < 2 ^ 31"
    and "io_event fr \<in> {READ, WRITE}" and "\<not> waiting (reactor w) (nat (io_fd fr)) (io_event fr)"
    and "documented_ctl ctl (io_fd fr)" and "tmgr_ok (tm (reactor w))" and "tinfos w (io_tinfo fr) = Some False"
    and "io_ms fr \<noteq> - 1" and "at_timer e \<noteq> 0" and "at_timer e \<notin> set (live (tm (reactor w)))"
  defines "fr1 \<equiv> fr\<lparr>io_timer := Some (at_timer e)\<rparr>"
    and "tm1 \<equiv> addConditionTimer (at_now e) (tm (reactor w)) (at_timer e) (unat (io_ms fr)) (at_closure e) (io_tinfo fr) False"
  obtains w0 m where "arm_timeout e fr w = (Some (at_timer e), w0)" and "in_io w0"
    and "await_event ctl fr w0 = Inr (0, w0\<lparr>reactor := m\<rparr>)"
    and "parked (w0\<lparr>reactor := m\<rparr>) fr1 (at_closure e) (self (reactor w)) (running_fiber w)"
    and "tm m = tm1" and "scheds m = scheds (reactor w)" and "kern w0 = kern w" and "self m = self (reactor w)"
    and "running_fiber w0 = running_fiber w"
proof -
  let ?w0 = "with_timers tm1 (w\<lparr>closures := (closures w)(at_closure e \<mapsto> TimedOut (io_tinfo fr) (io_fd fr) (io_event fr))\<rparr>)"
  have arm: "arm_timeout e fr w = (Some (at_timer e), ?w0)"
    using assms(10) by (simp add: arm_timeout_def tm1_def)
  note timer = condition_timer [OF assms(8,11,12), of tm1, OF tm1_def [THEN meta_eq_to_obj_eq]]
  have ok: "in_step (reactor ?w0) (io_fd fr)" "\<not> waiting (reactor ?w0) (nat (io_fd fr)) (io_event fr)"
    using assms(2,6) by simp_all
  obtain m where m: "await_event ctl fr ?w0 = Inr (0, ?w0\<lparr>reactor := m\<rparr>)" "in_step m (io_fd fr)"
      "waiting m (nat (io_fd fr)) (io_event fr)" "scheds m = scheds (reactor ?w0)"
      "tm m = tm (reactor ?w0)" "self m = self (reactor ?w0)"
      "ctx_of (channels m ! nat (io_fd fr)) (io_event fr) = stored_ctx (self (reactor ?w0)) (running_fiber ?w0) None"
    by (rule await_parks [OF ok(1) assms(3,4,5) ok(2) assms(7)])
  have "parked (?w0\<lparr>reactor := m\<rparr>) fr1 (at_closure e) (self (reactor w)) (running_fiber w)"
    using m(2,3,5,7) assms(3-5,9) timer
    by (simp add: parked_def in_call_def fr1_def tm1_def) (simp add: waiting_def)
  then show ?thesis
    using arm m(1,4-6) assms(1) by (intro that [of ?w0 m]) simp_all
qed

lemma retry_parks:
  assumes "in_io w" and "in_step (reactor w) (io_fd fr)" and "0 \<le> io_fd fr" and "io_fd fr < 2 ^ 31"
    and "io_event fr \<in> {READ, WRITE}" and "\<not> waiting (reactor w) (nat (io_fd fr)) (io_event fr)"
    and "documented_ctl ctl (io_fd fr)" and "tmgr_ok (tm (reactor w))" and "tinfos w (io_tinfo fr) = Some False"
    and "io_ms fr \<noteq> - 1" and "at_timer e \<noteq> 0" and "at_timer e \<notin> set (live (tm (reactor w)))"
    and "first_answer f (kern w) (-1, EAGAIN) k"
  defines "fr1 \<equiv> fr\<lparr>io_timer := Some (at_timer e)\<rparr>"
  obtains w1 where "do_io_retry ctl e fr f w = Some (Inr (Park fr1, w1))"
    and "parked w1 fr1 (at_closure e) (self (reactor w)) (running_fiber w)"
    and "tm (reactor w1) = addConditionTimer (at_now e) (tm (reactor w)) (at_timer e) (unat (io_ms fr)) (at_closure e)
      (io_tinfo fr) False"
    and "scheds (reactor w1) = scheds (reactor w)" and "kern w1 = k"
proof -
  let ?w = "w\<lparr>kern := k, errno := EAGAIN\<rparr>"
  have call: "uninterrupted f (kern w) = Some ((-1, EAGAIN), k)" using assms(13) by (simp add: uninterrupted_iff)
  obtain w0 m where m: "arm_timeout e fr ?w = (Some (at_timer e), w0)" "await_event ctl fr w0 = Inr (0, w0\<lparr>reactor := m\<rparr>)"
      "parked (w0\<lparr>reactor := m\<rparr>) fr1 (at_closure e) (self (reactor ?w)) (running_fiber ?w)"
      "tm m = addConditionTimer (at_now e) (tm (reactor ?w)) (at_timer e) (unat (io_ms fr)) (at_closure e) (io_tinfo fr) False"
      "scheds m = scheds (reactor ?w)" "kern w0 = kern ?w"
    unfolding fr1_def by (rule wait_parks [where w = ?w and fr = fr and e = e and ctl = ctl]) (use assms(1-12) in simp_all)
  have "do_io_retry ctl e fr f w = Some (Inr (Park fr1, w0\<lparr>reactor := m\<rparr>))"
    using call m(1,2) assms(1) by (simp add: do_io_retry_def do_io_wait_def fr1_def)
  then show ?thesis using m(3-6) by (intro that [of "w0\<lparr>reactor := m\<rparr>"]) simp_all
qed

section \<open>How a parked call goes on\<close>

lemma in_call_reactor:
  assumes "in_call w fr c" and "in_step m (io_fd fr)" and "tm m = tm (reactor w)"
    and "length (channels m) = length (channels (reactor w))"
  shows "in_call (w\<lparr>reactor := m, tinfos := ti\<rparr>) fr c" and "in_call (w\<lparr>reactor := m\<rparr>) fr c"
  using assms by (simp_all add: in_call_def)

text \<open>The reactor's dispatch of a report wakes the fiber, once.\<close>

lemma parked_event:
  assumes "parked w fr c s g" and "documented_ctl ctl (io_fd fr)" and "reported evs fr w"
  shows "\<exists>m. dispatch_channel ctl (nat (io_fd fr)) evs (reactor w) = Inr m
    \<and> scheds m = post s (fiber_task g) (scheds (reactor w)) \<and> woken (w\<lparr>reactor := m\<rparr>) fr c"
proof -
  let ?i = "nat (io_fd fr)" and ?m = "reactor w"
  note p = assms(1) [unfolded parked_def] and ic = assms(1) [unfolded parked_def in_call_def]
  have fd: "int ?i = io_fd fr" using ic by simp
  have at: "chan_at ?m ?i" using ic waiting_in_table [of ?m ?i] by (auto simp: in_step_def)
  obtain m where m: "dispatch_channel ctl ?i evs ?m = Inr m" "posted ?m ?i (io_event fr) m" "in_step m (io_fd fr)"
      "\<not> waiting m ?i (io_event fr)"
    by (rule dispatch_one [of ?m ?i ctl "io_event fr" evs])
      (use ic assms(2,3) fd in \<open>simp_all add: reported_def Let_def\<close>)
  have "length (channels m) = length (channels ?m)"
    using chan_effect_length [OF chan_step_effect [OF cs_report [OF m(1)] at]] .
  then have "in_call (w\<lparr>reactor := m\<rparr>) fr c"
    using in_call_reactor(2) [OF _ m(3)] dispatch_channel_frame(1) [OF m(1)] p by blast
  moreover have "scheds m = post s (fiber_task g) (scheds ?m)"
    using m(2) p by (auto simp: posted_def stored_ctx_def ctx_task_def fiber_task_def)
  ultimately show ?thesis using m(1,4) p by (intro exI [of _ m]) (simp add: woken_def)
qed

lemma closure_runs:
  assumes "in_call w fr c" and "tinfos w (io_tinfo fr) = Some False"
    and "cancelEvent ctl (io_fd fr) (io_event fr) (reactor w) = Inr (b, m)"
  shows "run_timer_callback ctl (OnTimer (io_tinfo fr) c) w
    = Inr (w\<lparr>tinfos := (tinfos w)(io_tinfo fr := Some True), reactor := m\<rparr>)"
  using assms
  by (simp add: in_call_def run_timer_callback_def run_callback_def run_closure_def ETIMEDOUT_def Let_def all_bool_eq)

text \<open>The timeout takes the event back and wakes the fiber; late, it only sets the flag.\<close>

lemma parked_timeout:
  assumes "parked w fr c s g" and "documented_ctl ctl (io_fd fr)"
  shows "\<exists>w1. run_timer_callback ctl (OnTimer (io_tinfo fr) c) w = Inr w1
    \<and> scheds (reactor w1) = post s (fiber_task g) (scheds (reactor w)) \<and> expired w1 fr c \<and> kern w1 = kern w"
proof -
  let ?i = "nat (io_fd fr)" and ?m = "reactor w"
  note p = assms(1) [unfolded parked_def] and ic = assms(1) [unfolded parked_def in_call_def]
  have at: "chan_at ?m ?i" using ic waiting_in_table [of ?m ?i] by (auto simp: in_step_def)
  have r: "0 \<le> io_fd fr" "io_fd fr < 2 ^ 31" "io_event fr \<in> {READ, WRITE}" "in_step ?m (io_fd fr)"
    using ic by simp_all
  obtain b m where m: "cancelEvent ctl (io_fd fr) (io_event fr) ?m = Inr (b, m)" "chan_effect ?i 0 ?m m"
      "if b then waiting ?m ?i (io_event fr) \<and> posted ?m ?i (io_event fr) m \<and> \<not> waiting m ?i (io_event fr) else m = ?m"
      "b \<longleftrightarrow> waiting ?m ?i (io_event fr)"
    by (rule cancelEvent_ok [OF at r(1-3), where ctl = ctl]) (use assms(2) r(4) in blast)
  let ?w = "w\<lparr>tinfos := (tinfos w)(io_tinfo fr := Some True), reactor := m\<rparr>"
  have run: "run_timer_callback ctl (OnTimer (io_tinfo fr) c) w = Inr ?w"
    using p m(1) by (intro closure_runs) simp_all
  have b: "posted ?m ?i (io_event fr) m" "\<not> waiting m ?i (io_event fr)" using m(3,4) p by simp_all
  have "in_step m (io_fd fr)" using chan_effect_in_step [OF m(2) _ r(4)] at by (simp add: chan_at_def)
  then have "in_call ?w fr c"
    using p chan_effect_length [OF m(2)] cancelEvent_frame(1) [OF m(1)] by (simp add: in_call_def)
  moreover have "scheds m = post s (fiber_task g) (scheds ?m)"
    using b(1) p by (auto simp: posted_def stored_ctx_def ctx_task_def fiber_task_def)
  ultimately show ?thesis using run b(2) by (intro exI [of _ ?w]) (simp add: expired_def)
qed

lemma cancelEvent_idle:
  "0 \<le> fd \<Longrightarrow> fd < 2 ^ 31 \<Longrightarrow> \<not> waiting m (nat fd) event \<Longrightarrow> cancelEvent ctl fd event m = Inr (False, m)"
  by (auto simp: cancelEvent_def Let_def fd_index_nonneg waiting_def)

lemma woken_timeout:
  assumes "woken w fr c"
  shows "\<exists>w1. run_timer_callback ctl (OnTimer (io_tinfo fr) c) w = Inr w1
    \<and> reactor w1 = reactor w \<and> expired w1 fr c \<and> kern w1 = kern w"
proof -
  note p = assms [unfolded woken_def] and ic = assms [unfolded woken_def in_call_def]
  have "cancelEvent ctl (io_fd fr) (io_event fr) (reactor w) = Inr (False, reactor w)"
    using ic by (intro cancelEvent_idle) simp_all
  from closure_runs [OF _ _ this] have "run_timer_callback ctl (OnTimer (io_tinfo fr) c) w
      = Inr (w\<lparr>tinfos := (tinfos w)(io_tinfo fr := Some True), reactor := reactor w\<rparr>)"
    using p by simp
  then show ?thesis using ic by (simp add: expired_def in_call_def)
qed

lemma event_alone: "event \<in> {READ, WRITE} \<Longrightarrow> ready_events event ev = event"
  by (auto simp: ready_events_def Let_def event_defs)

lemma dispatch_idle:
  assumes "in_call w fr c" and "\<not> waiting (reactor w) (nat (io_fd fr)) (io_event fr)"
  shows "dispatch_channel ctl (nat (io_fd fr)) (io_event fr) (reactor w) = Inr (reactor w)"
  using assms event_alone [of "io_event fr"] by (simp add: in_call_def waiting_def dispatch_channel_def Let_def NONE_def)

lemma reported_alone:
  assumes "parked w fr c s g"
  shows "reported (io_event fr) fr w"
proof -
  note p = assms [unfolded parked_def in_call_def]
  let ?ch = "channels (reactor w) ! nat (io_fd fr)"
  have "chan_ok ?ch" using p waiting_in_table by (auto simp: in_step_def chan_at_def)
  moreover have "ch_events ?ch AND io_event fr \<noteq> 0" using p by (simp add: waiting_def)
  ultimately have "io_event fr AND ch_events ?ch = io_event fr"
    using registered_event p by blast
  then show ?thesis using p by (simp add: reported_def Let_def event_alone)
qed

lemma expired_timeout:
  "expired w fr c \<Longrightarrow> run_timer_callback ctl (OnTimer (io_tinfo fr) c) w = Inr w"
  by (simp add: expired_def in_call_def run_timer_callback_def run_callback_def run_closure_def)

text \<open>Resuming: the timer is cancelled, then the flag decides.\<close>

lemma in_call_cancels:
  assumes "in_call w fr c"
  obtains t where "cancel_timer (io_timer fr) w = Inr (with_timers t w)" and "tmgr_ok t"
    and "live t = live (tm (reactor w))" and "\<And>a. io_timer fr = Some a \<Longrightarrow> a \<notin> set (timers t)"
proof -
  obtain a where a: "io_timer fr = Some a" "a \<in> set (live (tm (reactor w)))"
      "a \<in> set (timers (tm (reactor w))) \<longrightarrow> cb (store (tm (reactor w)) a) \<noteq> None" "tmgr_ok (tm (reactor w))"
    using assms by (auto simp: in_call_def)
  obtain r t where t: "cancel (tm (reactor w)) a = Inr (r, t)" using cancel_eq [OF a(4,2)] by fastforce
  note ok = cancel_ok [OF a(4,2) t]
  have "a \<notin> set (timers t)" using ok(3,4) a(3) by auto
  then show ?thesis using a(1) t ok(1,2) by (intro that [of t]) (simp_all add: cancel_timer_def)
qed

lemma retry_returns:
  assumes "first_answer f (kern w) (n, er) k" and "\<not> (n = -1 \<and> er = EAGAIN)"
  obtains w' where "do_io_retry ctl e fr f w = Some (Inr (Ret n, w'))" and "kern w' = k"
    and "reactor w' = reactor w" and "tinfos w' = (tinfos w)(io_tinfo fr := None)"
    and "errno w' = (if n = -1 then er else errno w)"
  using assms by (auto simp: do_io_retry_def io_return_def simp flip: uninterrupted_iff)

lemma woken_returns:
  assumes "woken w fr c" and "first_answer f (kern w) (n, er) k" and "\<not> (n = -1 \<and> er = EAGAIN)"
  shows "\<exists>w1. do_io_resume ctl e fr f w = Some (Inr (Ret n, w1)) \<and> kern w1 = k
    \<and> (n = -1 \<longrightarrow> errno w1 = er) \<and> (\<forall>a. io_timer fr = Some a \<longrightarrow> a \<notin> set (timers (tm (reactor w1))))
    \<and> run_timer_callback ctl (OnTimer (io_tinfo fr) c) w1 = Inr w1"
proof -
  note p = assms(1) [unfolded woken_def]
  obtain t where t: "cancel_timer (io_timer fr) w = Inr (with_timers t w)"
      "\<And>a. io_timer fr = Some a \<Longrightarrow> a \<notin> set (timers t)"
    by (rule in_call_cancels [of w fr c]) (use p in auto)
  have "first_answer f (kern (with_timers t w)) (n, er) k" using assms(2) by simp
  then obtain w1 where w1: "do_io_retry ctl e fr f (with_timers t w) = Some (Inr (Ret n, w1))" "kern w1 = k"
      "reactor w1 = reactor (with_timers t w)" "tinfos w1 = (tinfos (with_timers t w))(io_tinfo fr := None)"
      "errno w1 = (if n = -1 then er else errno (with_timers t w))"
    by (rule retry_returns [OF _ assms(3)])
  have "do_io_resume ctl e fr f w = Some (Inr (Ret n, w1))"
    using t(1) p w1(1) by (simp add: do_io_resume_def timed_out_def)
  then show ?thesis
    using w1 t(2) by (intro exI [of _ w1]) (simp add: run_timer_callback_def run_callback_def)
qed

text \<open>When the repeated call would block again it waits again, with a new timer.\<close>

lemma woken_waits_again:
  assumes "woken w fr c" and "in_io w" and "documented_ctl ctl (io_fd fr)" and "io_ms fr \<noteq> - 1"
    and "first_answer f (kern w) (-1, EAGAIN) k"
    and "at_timer e \<noteq> 0" and "at_timer e \<notin> set (live (tm (reactor w)))"
  shows "\<exists>w1. do_io_resume ctl e fr f w = Some (Inr (Park (fr\<lparr>io_timer := Some (at_timer e)\<rparr>), w1))
    \<and> parked w1 (fr\<lparr>io_timer := Some (at_timer e)\<rparr>) (at_closure e) (self (reactor w)) (running_fiber w)"
proof -
  note p = assms(1) [unfolded woken_def] and ic = assms(1) [unfolded woken_def in_call_def]
  obtain t where t: "cancel_timer (io_timer fr) w = Inr (with_timers t w)" "tmgr_ok t"
      "live t = live (tm (reactor w))"
    by (rule in_call_cancels [of w fr c]) (use p in auto)
  let ?w = "with_timers t w"
  obtain w1 where "do_io_retry ctl e fr f ?w = Some (Inr (Park (fr\<lparr>io_timer := Some (at_timer e)\<rparr>), w1))"
      "parked w1 (fr\<lparr>io_timer := Some (at_timer e)\<rparr>) (at_closure e) (self (reactor ?w)) (running_fiber ?w)"
    by (rule retry_parks [where w = ?w and fr = fr and e = e and f = f and k = k and ctl = ctl])
      (use ic assms(2-7) t(2,3) in simp_all)
  then show ?thesis using t(1) p by (simp add: do_io_resume_def timed_out_def)
qed

lemma expired_fails:
  assumes "expired w fr c"
  shows "\<exists>w1. do_io_resume ctl e fr f w = Some (Inr (Ret (-1), w1)) \<and> errno w1 = 1 \<and> kern w1 = kern w"
proof -
  note p = assms [unfolded expired_def]
  obtain t where "cancel_timer (io_timer fr) w = Inr (with_timers t w)"
    by (rule in_call_cancels [of w fr c]) (use p in auto)
  then show ?thesis using p by (simp add: do_io_resume_def timed_out_def io_return_def)
qed

section \<open>Properties of blocked calls\<close>

lemma do_io_parks:
  assumes "may_block w fd p c" and "in_reactor w fd event" and "\<not> waiting (reactor w) (nat fd) event"
    and "documented_ctl ctl fd" and "first_answer f (kern w) (-1, EAGAIN) k"
    and "getTimeout c so \<noteq> - 1" and "at_timer e \<noteq> 0" and "at_timer e \<notin> set (live (tm (reactor w)))"
  obtains fr w1 where "do_io ctl e fd f event so w = Some (Inr (Park fr, w1))"
    and "fr = \<lparr>io_fd = fd, io_event = event, io_ms = getTimeout c so, io_tinfo = at_tinfo e, io_timer = Some (at_timer e)\<rparr>"
    and "parked w1 fr (at_closure e) (self (reactor w)) (running_fiber w)"
    and "tm (reactor w1) = addConditionTimer (at_now e) (tm (reactor w)) (at_timer e) (unat (getTimeout c so))
      (at_closure e) (at_tinfo e) False"
    and "scheds (reactor w1) = scheds (reactor w)" and "kern w1 = k"
proof -
  let ?fr = "\<lparr>io_fd = fd, io_event = event, io_ms = getTimeout c so, io_tinfo = at_tinfo e, io_timer = None\<rparr>"
  let ?w = "w\<lparr>tinfos := (tinfos w)(at_tinfo e \<mapsto> False)\<rparr>"
  note r = assms(2) [unfolded in_reactor_def]
  obtain w1 where w1: "do_io_retry ctl e ?fr f ?w = Some (Inr (Park (?fr\<lparr>io_timer := Some (at_timer e)\<rparr>), w1))"
      "parked w1 (?fr\<lparr>io_timer := Some (at_timer e)\<rparr>) (at_closure e) (self (reactor ?w)) (running_fiber ?w)"
      "tm (reactor w1) = addConditionTimer (at_now e) (tm (reactor ?w)) (at_timer e) (unat (io_ms ?fr)) (at_closure e)
        (io_tinfo ?fr) False"
      "scheds (reactor w1) = scheds (reactor ?w)" "kern w1 = k"
    by (rule retry_parks [where w = ?w and fr = ?fr and e = e and f = f and k = k and ctl = ctl])
      (use r assms(3-8) in simp_all)
  have "do_io ctl e fd f event so w = do_io_retry ctl e ?fr f ?w"
    using assms(1) by (simp add: do_io_def may_block_def)
  then show ?thesis using w1 by (intro that [of "?fr\<lparr>io_timer := Some (at_timer e)\<rparr>" w1]) simp_all
qed

text \<open>
  C4. A call that would block ends by its event or by its timeout, and its fiber is scheduled once.
  For a descriptor for which \<open>epoll_ctl\<close> refuses only what it documents, the call parks its fiber
  with the event registered and a timer armed for the descriptor's timeout. From then on, whatever
  other threads do to the rest of the state: a report of the reactor in which no other registered
  event is named wakes the fiber; the timeout, when it comes first, takes the event back and wakes
  the fiber; when it comes between the event and the fiber, it only sets the flag. What comes later
  wakes nobody. The fiber, when it runs, makes the call again if the flag is not set: the answer is
  returned, the timer is gone and a timeout on its way does nothing, or the call waits again; if the
  flag is set the call fails without being made again, with \<open>errno\<close> 1 and not \<open>ETIMEDOUT\<close>, also
  when the event had fired.
\<close>

theorem blocked_call_ends:
  fixes w :: "'k hook"
  assumes "may_block w fd p c" and "in_reactor w fd event" and "\<not> waiting (reactor w) (nat fd) event"
    and "documented_ctl ctl fd" and "first_answer f (kern w) (-1, EAGAIN) k"
    and "getTimeout c so \<noteq> - 1" and "at_timer e \<noteq> 0" and "at_timer e \<notin> set (live (tm (reactor w)))"
  defines "cl \<equiv> at_closure e" and "timeout \<equiv> OnTimer (at_tinfo e) (at_closure e)"
    and "resumed \<equiv> post (self (reactor w)) (fiber_task (running_fiber w))"
  shows "\<exists>fr w1. do_io ctl e fd f event so w = Some (Inr (Park fr, w1)) \<and> kern w1 = k
    \<and> parked w1 fr cl (self (reactor w)) (running_fiber w) \<and> scheds (reactor w1) = scheds (reactor w)
    \<and> tm (reactor w1) = addConditionTimer (at_now e) (tm (reactor w)) (at_timer e) (unat (getTimeout c so)) cl (at_tinfo e) False
    \<and> (\<forall>v :: 'k hook. parked v fr cl (self (reactor w)) (running_fiber w) \<longrightarrow>
         (\<forall>evs. reported evs fr v \<longrightarrow>
            (\<exists>m. dispatch_channel ctl (nat fd) evs (reactor v) = Inr m \<and> scheds m = resumed (scheds (reactor v))
               \<and> woken (v\<lparr>reactor := m\<rparr>) fr cl))
       \<and> (\<exists>v1. run_timer_callback ctl timeout v = Inr v1 \<and> scheds (reactor v1) = resumed (scheds (reactor v))
            \<and> expired v1 fr cl \<and> kern v1 = kern v))
    \<and> (\<forall>v :: 'k hook. woken v fr cl \<longrightarrow>
         dispatch_channel ctl (nat fd) event (reactor v) = Inr (reactor v)
       \<and> (\<exists>v1. run_timer_callback ctl timeout v = Inr v1 \<and> reactor v1 = reactor v \<and> expired v1 fr cl \<and> kern v1 = kern v)
       \<and> (\<forall>e' n er k'. first_answer f (kern v) (n, er) k' \<and> \<not> (n = -1 \<and> er = EAGAIN) \<longrightarrow>
            (\<exists>v1. do_io_resume ctl e' fr f v = Some (Inr (Ret n, v1)) \<and> kern v1 = k' \<and> (n = -1 \<longrightarrow> errno v1 = er)
               \<and> at_timer e \<notin> set (timers (tm (reactor v1))) \<and> run_timer_callback ctl timeout v1 = Inr v1))
       \<and> (\<forall>e' k'. first_answer f (kern v) (-1, EAGAIN) k' \<and> in_io v \<and> at_timer e' \<noteq> 0
              \<and> at_timer e' \<notin> set (live (tm (reactor v))) \<longrightarrow>
            (\<exists>fr1 v1. do_io_resume ctl e' fr f v = Some (Inr (Park fr1, v1))
               \<and> parked v1 fr1 (at_closure e') (self (reactor v)) (running_fiber v))))
    \<and> (\<forall>v :: 'k hook. expired v fr cl \<longrightarrow>
         dispatch_channel ctl (nat fd) event (reactor v) = Inr (reactor v) \<and> run_timer_callback ctl timeout v = Inr v
       \<and> (\<forall>e'. \<exists>v1. do_io_resume ctl e' fr f v = Some (Inr (Ret (-1), v1)) \<and> errno v1 = 1 \<and> kern v1 = kern v))"
proof -
  obtain fr w1 where w1: "do_io ctl e fd f event so w = Some (Inr (Park fr, w1))"
      "fr = \<lparr>io_fd = fd, io_event = event, io_ms = getTimeout c so, io_tinfo = at_tinfo e, io_timer = Some (at_timer e)\<rparr>"
      "parked w1 fr cl (self (reactor w)) (running_fiber w)"
      "tm (reactor w1) = addConditionTimer (at_now e) (tm (reactor w)) (at_timer e) (unat (getTimeout c so)) cl (at_tinfo e) False"
      "scheds (reactor w1) = scheds (reactor w)" "kern w1 = k"
    unfolding cl_def by (rule do_io_parks [where w = w and f = f and e = e and so = so, OF assms(1-8)])
  have fr: "io_fd fr = fd" "io_event fr = event" "io_timer fr = Some (at_timer e)" "io_ms fr \<noteq> - 1"
      "OnTimer (io_tinfo fr) cl = timeout"
    using assms(6) by (simp_all add: w1(2) timeout_def cl_def)
  have ctl: "documented_ctl ctl (io_fd fr)" using assms(4) fr(1) by simp
  show ?thesis
  proof (rule exI [of _ fr], rule exI [of _ w1], intro conjI allI impI)
    fix v :: "'k hook" and evs assume "parked v fr cl (self (reactor w)) (running_fiber w)" "reported evs fr v"
    from parked_event [OF this(1) ctl this(2)]
    show "\<exists>m. dispatch_channel ctl (nat fd) evs (reactor v) = Inr m \<and> scheds m = resumed (scheds (reactor v))
        \<and> woken (v\<lparr>reactor := m\<rparr>) fr cl"
      by (simp add: fr resumed_def)
  next
    fix v :: "'k hook" assume "parked v fr cl (self (reactor w)) (running_fiber w)"
    from parked_timeout [OF this ctl]
    show "\<exists>v1. run_timer_callback ctl timeout v = Inr v1 \<and> scheds (reactor v1) = resumed (scheds (reactor v))
        \<and> expired v1 fr cl \<and> kern v1 = kern v"
      by (simp add: fr resumed_def)
  next
    fix v :: "'k hook" assume "woken v fr cl"
    then show "dispatch_channel ctl (nat fd) event (reactor v) = Inr (reactor v)"
      using dispatch_idle [of v fr cl ctl] by (simp add: woken_def fr)
  next
    fix v :: "'k hook" assume "woken v fr cl"
    from woken_timeout [OF this]
    show "\<exists>v1. run_timer_callback ctl timeout v = Inr v1 \<and> reactor v1 = reactor v \<and> expired v1 fr cl \<and> kern v1 = kern v"
      by (simp add: fr)
  next
    fix v :: "'k hook" and e' n er k'
    assume "woken v fr cl" "first_answer f (kern v) (n, er) k' \<and> \<not> (n = -1 \<and> er = EAGAIN)"
    from woken_returns [OF this(1), of f n er k'] this(2)
    show "\<exists>v1. do_io_resume ctl e' fr f v = Some (Inr (Ret n, v1)) \<and> kern v1 = k' \<and> (n = -1 \<longrightarrow> errno v1 = er)
        \<and> at_timer e \<notin> set (timers (tm (reactor v1))) \<and> run_timer_callback ctl timeout v1 = Inr v1"
      by (simp add: fr)
  next
    fix v :: "'k hook" and e' :: fresh and k'
    assume "woken v fr cl" and "first_answer f (kern v) (-1, EAGAIN) k' \<and> in_io v \<and> at_timer e' \<noteq> 0
      \<and> at_timer e' \<notin> set (live (tm (reactor v)))"
    then show "\<exists>fr1 v1. do_io_resume ctl e' fr f v = Some (Inr (Park fr1, v1))
        \<and> parked v1 fr1 (at_closure e') (self (reactor v)) (running_fiber v)"
      using woken_waits_again [of v fr cl ctl f k' e'] ctl fr(4) by blast
  next
    fix v :: "'k hook" assume "expired v fr cl"
    then show "dispatch_channel ctl (nat fd) event (reactor v) = Inr (reactor v)"
      using dispatch_idle [of v fr cl ctl] by (simp add: expired_def fr)
  next
    fix v :: "'k hook" assume "expired v fr cl"
    from expired_timeout [OF this] show "run_timer_callback ctl timeout v = Inr v" by (simp add: fr)
  next
    fix v :: "'k hook" and e' assume "expired v fr cl"
    from expired_fails [OF this]
    show "\<exists>v1. do_io_resume ctl e' fr f v = Some (Inr (Ret (-1), v1)) \<and> errno v1 = 1 \<and> kern v1 = kern v" .
  qed (simp_all add: w1(1,3-6))
qed

text \<open>A call that would block once and then has read seven bytes.\<close>

definition later_readable :: "nat syscall" where
  "later_readable k = (if k = 0 then (-1, EAGAIN) else (7, 0), Suc k)"

definition example_fresh :: fresh where
  "example_fresh = \<lparr>at_now = 0, at_timer = 1, at_tinfo = 2, at_closure = 3\<rparr>"

lemma example_in_reactor: "event \<in> {READ, WRITE} \<Longrightarrow> in_reactor example_hook 5 event"
  using iom_ok_in_step [OF example_iom_ok] new_TimerManager_ok
  by (simp add: in_reactor_def example_hook_def) (simp add: example_iom_def new_IOManager_def)

text \<open>The event, and then the fiber; or, in between, the timeout.\<close>

theorem blocked_call_ends_witness:
  "\<exists>fr w1 m v3 v4 v5. do_io linux_ctl example_fresh 5 later_readable READ SO_RCVTIMEO example_hook = Some (Inr (Park fr, w1))
     \<and> dispatch_channel linux_ctl 5 READ (reactor w1) = Inr m
     \<and> do_io_resume linux_ctl example_fresh fr later_readable (w1\<lparr>reactor := m\<rparr>) = Some (Inr (Ret 7, v3))
     \<and> run_timer_callback linux_ctl (OnTimer 2 3) (w1\<lparr>reactor := m\<rparr>) = Inr v4
     \<and> do_io_resume linux_ctl example_fresh fr later_readable v4 = Some (Inr (Ret (-1), v5)) \<and> errno v5 = 1"
proof -
  have w: "reactor example_hook = example_iom" "kern example_hook = 0"
    by (simp_all add: example_hook_def)
  have tm: "tm example_iom = new_TimerManager 0" by (simp add: example_iom_def new_IOManager_def)
  have r: "in_reactor example_hook 5 READ" by (rule example_in_reactor) simp
  have quiet: "\<not> waiting (reactor example_hook) (nat 5) READ" by (simp add: w example_not_waiting)
  have call: "first_answer later_readable (kern example_hook) (-1, EAGAIN) 1"
    unfolding first_answer_def
    by (intro conjI exI [of _ 0]) (auto simp: later_readable_def after_calls_def w EAGAIN_def EINTR_def)
  have t: "getTimeout example_socket SO_RCVTIMEO \<noteq> - 1"
    by (simp add: getTimeout_def example_socket_def)
  have new: "at_timer example_fresh \<noteq> 0" "at_timer example_fresh \<notin> set (live (tm (reactor example_hook)))"
    by (simp_all add: example_fresh_def w tm new_TimerManager_def)
  have answer: "first_answer later_readable 1 (7, 0) 2"
    unfolding first_answer_def by (intro conjI exI [of _ 0]) (auto simp: later_readable_def after_calls_def)
  have e: "at_closure example_fresh = 3" "at_tinfo example_fresh = 2" by (simp_all add: example_fresh_def)
  obtain fr w1 where w1: "do_io linux_ctl example_fresh 5 later_readable READ SO_RCVTIMEO example_hook = Some (Inr (Park fr, w1))"
    and fr: "io_fd fr = 5" "io_event fr = READ"
    by (rule do_io_parks [where ctl = linux_ctl, OF example_may_block r quiet linux_documented call t new]) auto
  note ends = blocked_call_ends [where ctl = linux_ctl, OF example_may_block r quiet linux_documented call t new,
      unfolded w1 e, simplified option.inject sum.inject prod.inject outcome.inject ex_simps simp_thms]
  have p: "parked w1 fr 3 (self (reactor example_hook)) (running_fiber example_hook)" "kern w1 = 1"
    using ends by blast+
  have "reported READ fr w1" using reported_alone [OF p(1)] fr(2) by simp
  then have "\<exists>m. dispatch_channel linux_ctl (nat 5) READ (reactor w1) = Inr m \<and> woken (w1\<lparr>reactor := m\<rparr>) fr 3"
    using ends p(1) by blast
  then obtain m where m: "dispatch_channel linux_ctl 5 READ (reactor w1) = Inr m" "woken (w1\<lparr>reactor := m\<rparr>) fr 3"
    by auto
  have "first_answer later_readable (kern (w1\<lparr>reactor := m\<rparr>)) (7, 0) 2 \<and> \<not> ((7 :: int) = -1 \<and> (0 :: int) = EAGAIN)"
    using answer p(2) by simp
  then obtain v3 where v3: "do_io_resume linux_ctl example_fresh fr later_readable (w1\<lparr>reactor := m\<rparr>) = Some (Inr (Ret 7, v3))"
    using ends m(2) by blast
  obtain v4 where v4: "run_timer_callback linux_ctl (OnTimer 2 3) (w1\<lparr>reactor := m\<rparr>) = Inr v4" "expired v4 fr 3"
    using ends m(2) by blast
  obtain v5 where "do_io_resume linux_ctl example_fresh fr later_readable v4 = Some (Inr (Ret (-1), v5))" "errno v5 = 1"
    using ends v4(2) by blast
  then show ?thesis using w1 m(1) v3 v4(1) by blast
qed

section \<open>Blocking and non-blocking\<close>

lemma usable_after:
  assumes "usable_ctx w fd = Some (p, c)" and "isClosed d = isClosed c" and "isSocket d = isSocket c"
  shows "usable_ctx (set_kflags fd fl (with_ctx p d w)) fd = Some (p, d)"
proof -
  have "getFdCtx_read fd False (fds (set_kflags fd fl (with_ctx p d w))) = getFdCtx_read fd False (fds w)"
    by (simp add: getFdCtx_read_def set_kflags_def with_ctx_def Let_def)
  then show ?thesis
    using assms
    by (auto simp: usable_ctx_def fd_ctx_def set_kflags_def with_ctx_def split: option.splits if_splits)
qed

lemma flag_bits:
  "bit SETFL_MASK 11" "bit O_NONBLOCK n \<longleftrightarrow> n = 11" "O_NONBLOCK \<noteq> 0"
proof -
  have "O_NONBLOCK = 2 ^ 11" by (simp add: O_NONBLOCK_def)
  then have "bit O_NONBLOCK n \<longleftrightarrow> bit (2 ^ 11 :: u32) n" by metis
  then have "bit O_NONBLOCK n \<longleftrightarrow> n < 32 \<and> n = 11"
    unfolding bit_exp_iff possible_bit_word by auto
  then show "bit O_NONBLOCK n \<longleftrightarrow> n = 11" by auto
  show "O_NONBLOCK \<noteq> 0" by (simp add: O_NONBLOCK_def)
  have "bit (0x46C00 :: u32) 11" by simp
  then show "bit SETFL_MASK 11" by (simp add: SETFL_MASK_def)
qed

lemma nonblock_bit: "x AND O_NONBLOCK = (if bit x 11 then O_NONBLOCK else 0)"
  by (rule bit_word_eqI) (auto simp: bit_simps flag_bits)

text \<open>
  What the program and the kernel see of \<open>O_NONBLOCK\<close> on a hooked socket: \<open>fcntl(F_GETFL)\<close>
  reports the flags the program set with \<open>F_SETFL\<close> while the descriptor stays non-blocking, so
  that calls can be suspended. \<open>ioctl(FIONBIO)\<close> is recorded for the program the same way but
  handed to the kernel as it is: \<open>FIONBIO\<close> with 0 makes the descriptor block its thread.
\<close>

theorem nonblock_view:
  fixes w :: "'k hook" and fd v :: int and arg :: u32 and f :: "'k syscall"
  assumes "usable_ctx w fd = Some (p, c)" and "sysNonblock c"
  defines "w1 \<equiv> fcntl_setfl fd arg w" and "w2 \<equiv> snd (hook_ioctl f fd FIONBIO v w)"
  shows "fcntl_getfl fd w1 AND SETFL_MASK = arg AND SETFL_MASK
    \<and> bit (kflags (fds w1) fd) 11
    \<and> (\<exists>d. usable_ctx w1 fd = Some (p, d) \<and> userNonblock d = bit arg 11 \<and> sysNonblock d)
    \<and> bit (fcntl_getfl fd w2) 11 = (v \<noteq> 0) \<and> bit (kflags (fds w2) fd) 11 = (v \<noteq> 0)
    \<and> (\<exists>d. usable_ctx w2 fd = Some (p, d) \<and> userNonblock d = (v \<noteq> 0))"
proof -
  let ?d = "c\<lparr>userNonblock := bit arg 11\<rparr>" and ?d2 = "c\<lparr>userNonblock := v \<noteq> 0\<rparr>"
  have w1: "w1 = set_kflags fd (arg OR O_NONBLOCK) (with_ctx p ?d w)"
    using assms(1,2) by (simp add: w1_def fcntl_setfl_def nonblock_bit flag_bits)
  then have u1: "usable_ctx w1 fd = Some (p, ?d)" using usable_after [OF assms(1)] by simp
  let ?fl = "kflags (fds (with_ctx p ?d2 w)) fd"
  have w2: "w2 = set_kflags fd (if v \<noteq> 0 then ?fl OR O_NONBLOCK else ?fl AND NOT O_NONBLOCK) (with_ctx p ?d2 w)"
    using assms(1) by (simp add: w2_def hook_ioctl_def Let_def)
  then have u2: "usable_ctx w2 fd = Some (p, ?d2)" using usable_after [OF assms(1)] by simp
  have k1: "bit (kflags (fds w1) fd) n = ((bit (kflags (fds w) fd) n \<and> \<not> bit SETFL_MASK n)
      \<or> (bit arg n \<or> n = 11) \<and> bit SETFL_MASK n)" if "n < 32" for n
    unfolding w1 using that by (auto simp: set_kflags_def with_ctx_def bit_simps flag_bits)
  have "fcntl_getfl fd w1 AND SETFL_MASK = arg AND SETFL_MASK"
    using u1 k1 by (intro bit_word_eqI) (auto simp: fcntl_getfl_def Let_def bit_simps flag_bits)
  moreover have "bit (kflags (fds w2) fd) 11 = (v \<noteq> 0)"
    unfolding w2 by (simp add: set_kflags_def with_ctx_def bit_simps flag_bits)
  ultimately show ?thesis
    using u1 u2 k1 [of 11] assms(2)
    by (auto simp: fcntl_getfl_def Let_def bit_simps flag_bits)
qed

theorem nonblock_view_witness:
  "\<not> bit (fcntl_getfl 5 (fcntl_setfl 5 0 example_hook)) 11 \<and> bit (kflags (fds (fcntl_setfl 5 0 example_hook)) 5) 11"
proof -
  have u: "usable_ctx example_hook 5 = Some (9, example_socket)"
    by (simp add: usable_ctx_def example_ctx) (simp add: example_socket_def)
  have s: "sysNonblock example_socket" by (simp add: example_socket_def)
  have "fcntl_getfl 5 (fcntl_setfl 5 0 example_hook) AND SETFL_MASK = 0 AND SETFL_MASK"
      "bit (kflags (fds (fcntl_setfl 5 0 example_hook)) 5) 11"
    using nonblock_view [OF u s, where arg = 0] by blast+
  then show ?thesis using flag_bits(1) by (metis bit_and_iff bit_0_eq bot_apply bot_bool_def zero_and_eq)
qed

end
