(* ===== verification/Endian.thy ===== *)
theory Endian imports Prelude begin

text \<open>
  \<open>easy/net/Endian.h\<close>: byte orders, the object representation of an integer on a host of
  either byte order, \<open>byteswap\<close>, \<open>hostToNetwork\<close> and \<open>networkToHost\<close>.
  The host's byte order (\<open>BYTE_ORDER\<close> of \<open><endian.h>\<close>) is an argument of every definition
  that depends on it. The lemmas show that \<open>byteswap\<close> is an involution that reverses the
  object representation, and that what \<open>hostToNetwork\<close> leaves in memory is big-endian on
  every host.
\<close>

text \<open>\<open>EASY_LITTLE_ENDIAN\<close> and \<open>EASY_BIG_ENDIAN\<close>; \<open>EASY_BYTE_ORDER\<close> is the host's.\<close>

datatype byte_order = EASY_LITTLE_ENDIAN | EASY_BIG_ENDIAN

section \<open>Numbers as bytes\<close>

fun le_bytes :: "nat \<Rightarrow> nat \<Rightarrow> u8 list" where
  "le_bytes 0 v = []"
| "le_bytes (Suc n) v = of_nat (v mod 256) # le_bytes n (v div 256)"

fun le_val :: "u8 list \<Rightarrow> nat" where
  "le_val [] = 0"
| "le_val (b # bs) = unat b + 256 * le_val bs"

lemma length_le_bytes [simp]: "length (le_bytes n v) = n"
  by (induction n arbitrary: v) auto

lemma le_val_le_bytes: "le_val (le_bytes n v) = v mod 256 ^ n"
proof (induction n arbitrary: v)
  case 0
  then show ?case by simp
next
  case (Suc n)
  have "unat (of_nat (v mod 256) :: u8) = v mod 256"
    by (simp add: unat_of_nat take_bit_eq_mod)
  then show ?case
    by (simp add: Suc.IH mod_mult2_eq)
qed

lemma le_val_less: "le_val bs < 256 ^ length bs"
proof (induction bs)
  case Nil
  then show ?case by simp
next
  case (Cons b bs)
  have "unat b < 256" by (rule unat_u8)
  with Cons.IH show ?case by simp
qed

lemma le_bytes_le_val: "le_bytes (length bs) (le_val bs) = bs"
proof (induction bs)
  case Nil
  then show ?case by simp
next
  case (Cons b bs)
  have "unat b < 256" by (rule unat_u8)
  then have "(unat b + 256 * le_val bs) mod 256 = unat b"
    and "(unat b + 256 * le_val bs) div 256 = le_val bs"
    by simp_all
  then show ?case by (simp add: Cons.IH)
qed

section \<open>Object representations\<close>

definition size_of :: "'a::len word \<Rightarrow> nat" where
  "size_of w = LENGTH('a) div 8"

definition object_bytes :: "byte_order \<Rightarrow> 'a::len word \<Rightarrow> u8 list" where
  "object_bytes order w =
     (case order of
        EASY_LITTLE_ENDIAN \<Rightarrow> le_bytes (size_of w) (unat w)
      | EASY_BIG_ENDIAN \<Rightarrow> rev (le_bytes (size_of w) (unat w)))"

definition of_object :: "byte_order \<Rightarrow> u8 list \<Rightarrow> 'a::len word" where
  "of_object order bs =
     of_nat (le_val (case order of EASY_LITTLE_ENDIAN \<Rightarrow> bs | EASY_BIG_ENDIAN \<Rightarrow> rev bs))"

text \<open>\<open>bswap_16\<close>, \<open>bswap_32\<close> and \<open>bswap_64\<close> of \<open><byteswap.h>\<close>: reverse the order of the bytes.\<close>

definition bswap :: "'a::len word \<Rightarrow> 'a word" where
  "bswap w = of_nat (le_val (rev (le_bytes (size_of w) (unat w))))"

text \<open>The three overloads of each template differ only in \<open>sizeof(T)\<close>.\<close>

definition byteswap :: "'a::len word \<Rightarrow> 'a word" where
  "byteswap value = bswap value"

definition hostToNetwork :: "byte_order \<Rightarrow> 'a::len word \<Rightarrow> 'a word" where
  "hostToNetwork host value = (if host = EASY_BIG_ENDIAN then value else bswap value)"

definition networkToHost :: "byte_order \<Rightarrow> 'a::len word \<Rightarrow> 'a word" where
  "networkToHost host value = (if host = EASY_BIG_ENDIAN then value else bswap value)"

section \<open>Whole-byte widths\<close>

text \<open>The laws below hold for the widths the templates admit: 16, 32 and 64 bits (and 8).\<close>

abbreviation whole_bytes :: "'a::len word \<Rightarrow> bool" where
  "whole_bytes w \<equiv> 8 dvd LENGTH('a)"

named_theorems codec \<open>laws of byte encodings\<close>

lemma size_of_simps [simp]:
  "size_of (v8 :: u8) = 1" "size_of (v16 :: u16) = 2"
  "size_of (v32 :: u32) = 4" "size_of (v64 :: u64) = 8"
  by (simp_all add: size_of_def)

lemma length_object_bytes [simp, codec]: "length (object_bytes order w) = size_of w"
  by (simp add: object_bytes_def split: byte_order.split)

lemma power_size_of: "whole_bytes w \<Longrightarrow> 256 ^ size_of (w :: 'a::len word) = (2::nat) ^ LENGTH('a)"
proof -
  assume "8 dvd LENGTH('a)"
  then have "2 ^ LENGTH('a) = (2::nat) ^ (8 * size_of w)"
    by (simp add: size_of_def)
  then show ?thesis by (simp add: power_mult)
qed

lemma le_val_word [codec]:
  fixes w :: "'a::len word"
  assumes "whole_bytes w"
  shows "le_val (le_bytes (size_of w) (unat w)) = unat w"
  using unat_bound [of w] by (simp add: le_val_le_bytes power_size_of [OF assms])

lemma le_val_bound:
  fixes w :: "'a::len word"
  assumes "whole_bytes w" and "length bs = size_of w"
  shows "le_val bs < 2 ^ LENGTH('a)"
  using le_val_less [of bs] assms(2) power_size_of [OF assms(1)] by simp

lemma unat_of_le_val:
  fixes w :: "'a::len word"
  assumes "whole_bytes w" and "length bs = size_of w"
  shows "unat (of_nat (le_val bs) :: 'a word) = le_val bs"
  using le_val_bound [OF assms] by (simp add: unat_of_nat take_bit_eq_mod)

lemma of_object_bytes [codec]:
  fixes w :: "'a::len word"
  assumes "whole_bytes w"
  shows "of_object order (object_bytes order w) = w"
  using assms
  by (cases order) (simp_all add: of_object_def object_bytes_def le_val_word)

lemma object_bytes_of_object:
  fixes w :: "'a::len word"
  assumes "whole_bytes w" and "length bs = size_of w"
  shows "object_bytes order (of_object order bs :: 'a word) = bs"
proof -
  show ?thesis
    using assms unat_of_le_val [OF assms] unat_of_le_val [where w = w and bs = "rev bs"]
      le_bytes_le_val [of bs] le_bytes_le_val [of "rev bs"]
    by (cases order) (simp_all add: of_object_def object_bytes_def size_of_def)
qed

lemma le_bytes_bswap [codec]:
  fixes w :: "'a::len word"
  assumes "whole_bytes w"
  shows "le_bytes (size_of w) (unat (bswap w)) = rev (le_bytes (size_of w) (unat w))"
proof -
  let ?bs = "rev (le_bytes (size_of w) (unat w))"
  have "unat (bswap w) = le_val ?bs"
    using unat_of_le_val [OF assms, of ?bs] by (simp add: bswap_def)
  then show ?thesis using le_bytes_le_val [of ?bs] by simp
qed

lemma size_of_bswap [simp]: "size_of (bswap w) = size_of w"
  by (simp add: size_of_def)

lemma object_bytes_bswap [codec]:
  fixes w :: "'a::len word"
  assumes "whole_bytes w"
  shows "object_bytes order (bswap w) = rev (object_bytes order w)"
  using le_bytes_bswap [OF assms] by (cases order) (simp_all add: object_bytes_def)

lemma bswap_bswap [codec]:
  fixes w :: "'a::len word"
  assumes "whole_bytes w"
  shows "bswap (bswap w) = w"
proof -
  have "object_bytes EASY_LITTLE_ENDIAN (bswap (bswap w)) = object_bytes EASY_LITTLE_ENDIAN w"
    using object_bytes_bswap [OF assms] by simp
  then show ?thesis
    using of_object_bytes [OF assms] of_object_bytes [where w = "bswap (bswap w)"] assms by metis
qed

text \<open>The representation in the other byte order is the reverse.\<close>

lemma object_bytes_big:
  "object_bytes EASY_BIG_ENDIAN w = rev (object_bytes EASY_LITTLE_ENDIAN w)"
  by (simp add: object_bytes_def)

text \<open>Swapping when the orders differ turns the host's representation into the wanted one.\<close>

lemma object_bytes_swapped [codec]:
  fixes w :: "'a::len word"
  assumes "whole_bytes w"
  shows "object_bytes host (if order \<noteq> host then byteswap w else w) = object_bytes order w"
  using object_bytes_bswap [OF assms]
  by (cases order; cases host) (simp_all add: byteswap_def object_bytes_big)

lemma of_object_swapped [codec]:
  fixes w :: "'a::len word"
  assumes "whole_bytes w"
  shows "(let v = of_object host (object_bytes order w) in if order = host then v else byteswap v) = w"
proof -
  have "object_bytes order w = object_bytes host (if order \<noteq> host then bswap w else w)"
    using object_bytes_swapped [OF assms, of host order] unfolding byteswap_def by (rule sym)
  then show ?thesis
    using of_object_bytes [OF assms] of_object_bytes [where w = "bswap w"] assms bswap_bswap [OF assms]
    by (simp add: byteswap_def Let_def)
qed

lemma networkToHost_hostToNetwork [simp]:
  fixes w :: "'a::len word"
  shows "whole_bytes w \<Longrightarrow> networkToHost host (hostToNetwork host w) = w"
  by (simp add: hostToNetwork_def networkToHost_def bswap_bswap)

lemma hostToNetwork_networkToHost [simp]:
  fixes w :: "'a::len word"
  shows "whole_bytes w \<Longrightarrow> hostToNetwork host (networkToHost host w) = w"
  by (simp add: hostToNetwork_def networkToHost_def bswap_bswap)

lemma object_bytes_hostToNetwork:
  fixes w :: "'a::len word"
  assumes "whole_bytes w"
  shows "object_bytes host (hostToNetwork host w) = object_bytes EASY_BIG_ENDIAN w"
  using object_bytes_bswap [OF assms]
  by (cases host) (simp_all add: hostToNetwork_def object_bytes_big)

section \<open>The bits of a byte swap\<close>

lemma bit_le_val: "bit (le_val bs) n \<longleftrightarrow> n div 8 < length bs \<and> bit (bs ! (n div 8)) (n mod 8)"
proof (induction bs arbitrary: n)
  case Nil
  then show ?case by simp
next
  case (Cons b bs)
  have small: "\<not> bit (unat b) k" if "8 \<le> k" for k
    using that by (simp add: bit_unsigned_iff bit_word.rep_eq)
  have "le_val (b # bs) = unat b + push_bit 8 (le_val bs)" by (simp add: push_bit_eq_mult)
  also have "\<dots> = unat b OR push_bit 8 (le_val bs)"
    using small by (intro disjunctive_add) (auto simp: bit_simps)
  finally have eq: "le_val (b # bs) = unat b OR push_bit 8 (le_val bs)" .
  show ?case
  proof (cases "n < 8")
    case True
    then show ?thesis unfolding eq by (simp add: bit_simps)
  next
    case False
    then have "n div 8 = Suc ((n - 8) div 8)" "n mod 8 = (n - 8) mod 8"
      by (simp_all add: le_div_geq le_mod_geq)
    with False show ?thesis unfolding eq using small Cons.IH [of "n - 8"] by (simp add: bit_simps)
  qed
qed

lemma bit_le_bytes:
  "i < n \<Longrightarrow> bit (le_bytes n v ! i) k \<longleftrightarrow> k < 8 \<and> bit v (8 * i + k)"
proof (induction n arbitrary: v i)
  case 0
  then show ?case by simp
next
  case (Suc n)
  show ?case
  proof (cases i)
    case 0
    have "(of_nat (v mod 256) :: u8) = of_nat (take_bit 8 v)" by (simp add: take_bit_eq_mod)
    then show ?thesis using 0 by (auto simp: bit_simps)
  next
    case (Suc j)
    have "v div 256 = drop_bit 8 v" by (simp add: drop_bit_eq_div)
    then show ?thesis
      using Suc Suc.prems Suc.IH [of j "v div 256"] by (simp add: bit_drop_bit_eq add.assoc)
  qed
qed

lemma bit_bswap:
  fixes w :: "'a::len word"
  assumes "whole_bytes w" and "n < LENGTH('a)"
  shows "bit (bswap w) n \<longleftrightarrow> bit w (8 * (size_of w - Suc (n div 8)) + n mod 8)"
proof -
  let ?l = "le_bytes (size_of w) (unat w)"
  have idx: "n div 8 < size_of w" using assms by (auto simp: size_of_def)
  have "bit (bswap w) n \<longleftrightarrow> bit (le_val (rev ?l)) n" using assms(2) by (simp add: bswap_def bit_simps)
  also have "\<dots> \<longleftrightarrow> bit (?l ! (size_of w - Suc (n div 8))) (n mod 8)"
    using idx by (simp add: bit_le_val rev_nth)
  also have "\<dots> \<longleftrightarrow> bit w (8 * (size_of w - Suc (n div 8)) + n mod 8)"
    using idx by (simp add: bit_le_bytes bit_unsigned_iff)
  finally show ?thesis .
qed

lemma bswap_or: "whole_bytes v \<Longrightarrow> bswap (v OR w) = bswap v OR bswap w" for v w :: "'a::len word"
  by (rule bit_word_eqI) (simp add: bit_bswap bit_or_iff size_of_def)

lemma bswap_and: "whole_bytes v \<Longrightarrow> bswap (v AND w) = bswap v AND bswap w" for v w :: "'a::len word"
  by (rule bit_word_eqI) (simp add: bit_bswap bit_and_iff size_of_def)

lemma bswap_not: "whole_bytes (v :: 'a::len word) \<Longrightarrow> bswap (NOT v) = NOT (bswap v)"
proof (rule bit_word_eqI)
  fix n assume w: "whole_bytes v" and n: "n < LENGTH('a)"
  then have "8 * (size_of v - Suc (n div 8)) + n mod 8 < LENGTH('a)"
    by (auto simp: size_of_def)
  then show "bit (bswap (NOT v)) n = bit (NOT (bswap v)) n"
    using w n by (simp add: bit_bswap bit_not_iff size_of_def)
qed

lemma hostToNetwork_0: "8 dvd LENGTH('a::len) \<Longrightarrow> hostToNetwork host (0 :: 'a word) = 0"
  unfolding hostToNetwork_def by (cases "host = EASY_BIG_ENDIAN"; simp; rule bit_word_eqI; simp add: bit_bswap)

lemma hostToNetwork_or:
  "whole_bytes v \<Longrightarrow> hostToNetwork host (v OR w) = hostToNetwork host v OR hostToNetwork host w"
  for v w :: "'a::len word"
  by (simp add: hostToNetwork_def bswap_or)

lemma hostToNetwork_and:
  "whole_bytes v \<Longrightarrow> hostToNetwork host (v AND w) = hostToNetwork host v AND hostToNetwork host w"
  for v w :: "'a::len word"
  by (simp add: hostToNetwork_def bswap_and)

lemma hostToNetwork_not:
  "whole_bytes (v :: 'a::len word) \<Longrightarrow> hostToNetwork host (NOT v) = NOT (hostToNetwork host v)"
  by (simp add: hostToNetwork_def bswap_not)

end
