(* ===== verification/Address.thy ===== *)
theory Address imports Endian begin

text \<open>
  \<open>easy/net/Address.h\<close>, \<open>easy/net/Address.cc\<close>: socket addresses. The fields of the \<open>sockaddr\<close>
  structures are kept as the integers the program reads and writes, in network byte order on
  a host whose order is the argument \<open>host\<close>. The resolver, the interface list and \<open>inet_pton\<close>
  are arguments. The lemmas give the bits of a byte swap, and with them the masks.
\<close>

section \<open>Masks\<close>

text \<open>
  \<open>1 << (sizeof(T) * 8 - bits)\<close> shifts an \<open>int\<close> by a \<open>size_t\<close> difference: 32 or more is
  undefined. The result is truncated to \<open>T\<close>; a shift by 31 sets the sign bit, and taking one
  away wraps around.
\<close>

definition CreateMask :: "'a::len word \<Rightarrow> fault + 'a word" where
  "CreateMask bits =
     (let shift = sub64 (size_of bits * 8) (unat bits) in
      if 32 \<le> shift then Inl ShiftRange else Inr (of_nat (2 ^ shift - 1)))"

function BitCount_loop :: "nat \<Rightarrow> 'a::len word \<Rightarrow> nat" where
  "BitCount_loop result value =
     (if value \<noteq> 0 then BitCount_loop (Suc result) (value AND (value - 1)) else result)"
  by pat_completeness auto
termination
proof (relation "measure (\<lambda>(r, v). unat v)")
  fix v :: "'a word" and r :: nat
  assume "v \<noteq> 0"
  then have "unat (v - 1) < unat v" by (simp add: unat_minus_one unat_gt_0)
  moreover have "unat (v AND (v - 1)) \<le> unat (v - 1)"
    using word_and_le1 [of v "v - 1"] by (simp add: word_le_nat_alt)
  ultimately show "((Suc r, v AND (v - 1)), (r, v)) \<in> measure (\<lambda>(r, v). unat v)" by simp
qed simp

declare BitCount_loop.simps [simp del]

definition BitCount :: "'a::len word \<Rightarrow> nat" where
  "BitCount value = BitCount_loop 0 value"

section \<open>IPv4\<close>

definition AF_INET :: u16 where "AF_INET = 2"
definition AF_INET6 :: u16 where "AF_INET6 = 10"
definition AF_UNIX :: u16 where "AF_UNIX = 1"

record sockaddr_in =
  sin_family :: u16
  sin_port :: u16
  s_addr :: u32
  sin_zero :: "u8 list"

definition IPv4Address :: "byte_order \<Rightarrow> u32 \<Rightarrow> u16 \<Rightarrow> sockaddr_in" where
  "IPv4Address host address port =
     \<lparr>sin_family = AF_INET, sin_port = hostToNetwork host port, s_addr = hostToNetwork host address,
      sin_zero = replicate 8 0\<rparr>"

text \<open>\<open>IPv4Address::Create\<close>: \<open>pton\<close> is \<open>inet_pton(AF_INET, ...)\<close>.\<close>

definition IPv4_Create ::
    "byte_order \<Rightarrow> (u8 list \<Rightarrow> u32 option) \<Rightarrow> u8 list \<Rightarrow> u16 \<Rightarrow> sockaddr_in option" where
  "IPv4_Create host pton address port =
     (let rt = (IPv4Address host 0 0)\<lparr>sin_port := hostToNetwork host port\<rparr> in
      case pton address of None \<Rightarrow> None | Some a \<Rightarrow> Some (rt\<lparr>s_addr := a\<rparr>))"

definition IPv4_port :: "byte_order \<Rightarrow> sockaddr_in \<Rightarrow> u16" where
  "IPv4_port host a = networkToHost host (sin_port a)"

definition IPv4_setPort :: "byte_order \<Rightarrow> sockaddr_in \<Rightarrow> u16 \<Rightarrow> sockaddr_in" where
  "IPv4_setPort host a v = a\<lparr>sin_port := hostToNetwork host v\<rparr>"

text \<open>\<open>None\<close> is the null pointer.\<close>

definition IPv4_broadcastAddress :: "byte_order \<Rightarrow> sockaddr_in \<Rightarrow> u32 \<Rightarrow> fault + sockaddr_in option" where
  "IPv4_broadcastAddress host a prefix_len =
     (if 32 < unat prefix_len then Inr None
      else bindE (CreateMask prefix_len) (\<lambda>m.
        Inr (Some (a\<lparr>s_addr := s_addr a OR hostToNetwork host m\<rparr>))))"

definition IPv4_networdAddress :: "byte_order \<Rightarrow> sockaddr_in \<Rightarrow> u32 \<Rightarrow> fault + sockaddr_in option" where
  "IPv4_networdAddress host a prefix_len =
     (if 32 < unat prefix_len then Inr None
      else bindE (CreateMask prefix_len) (\<lambda>m.
        Inr (Some (a\<lparr>s_addr := s_addr a AND hostToNetwork host m\<rparr>))))"

definition IPv4_subnetMask :: "byte_order \<Rightarrow> u32 \<Rightarrow> fault + sockaddr_in option" where
  "IPv4_subnetMask host prefix_len =
     bindE (CreateMask prefix_len) (\<lambda>m.
       Inr (Some \<lparr>sin_family = AF_INET, sin_port = 0, s_addr = NOT (hostToNetwork host m),
                  sin_zero = replicate 8 0\<rparr>))"

definition dot :: u8 where "dot = 0x2E"
definition colon :: u8 where "colon = 0x3A"

definition IPv4_insert :: "byte_order \<Rightarrow> sockaddr_in \<Rightarrow> u8 list" where
  "IPv4_insert host a =
     (let ad = networkToHost host (s_addr a) in
      show_nat 10 (unat (drop_bit 24 ad AND 0xFF)) @ [dot] @
      show_nat 10 (unat (drop_bit 16 ad AND 0xFF)) @ [dot] @
      show_nat 10 (unat (drop_bit 8 ad AND 0xFF)) @ [dot] @
      show_nat 10 (unat (ad AND 0xFF)) @ [colon] @
      show_nat 10 (unat (networkToHost host (sin_port a))))"

section \<open>IPv6\<close>

record sockaddr_in6 =
  sin6_family :: u16
  sin6_port :: u16
  sin6_flowinfo :: u32
  s6_addr :: "u8 list"
  sin6_scope_id :: u32

definition empty_IPv6Address :: sockaddr_in6 where
  "empty_IPv6Address =
     \<lparr>sin6_family = AF_INET6, sin6_port = 0, sin6_flowinfo = 0, s6_addr = replicate 16 0, sin6_scope_id = 0\<rparr>"

definition IPv6Address :: "byte_order \<Rightarrow> u8 list \<Rightarrow> u16 \<Rightarrow> sockaddr_in6" where
  "IPv6Address host address port =
     empty_IPv6Address\<lparr>sin6_port := hostToNetwork host port, s6_addr := take 16 address\<rparr>"

text \<open>\<open>IPv6Address::Create\<close>: \<open>pton\<close> is \<open>inet_pton(AF_INET6, ...)\<close>.\<close>

definition IPv6_Create ::
    "byte_order \<Rightarrow> (str \<Rightarrow> u8 list option) \<Rightarrow> str \<Rightarrow> u16 \<Rightarrow> sockaddr_in6 option" where
  "IPv6_Create host pton address port =
     (let rt = empty_IPv6Address\<lparr>sin6_port := hostToNetwork host port\<rparr> in
      case pton address of None \<Rightarrow> None | Some a \<Rightarrow> Some (rt\<lparr>s6_addr := a\<rparr>))"

definition IPv6_port :: "byte_order \<Rightarrow> sockaddr_in6 \<Rightarrow> u16" where
  "IPv6_port host a = networkToHost host (sin6_port a)"

definition IPv6_setPort :: "byte_order \<Rightarrow> sockaddr_in6 \<Rightarrow> u16 \<Rightarrow> sockaddr_in6" where
  "IPv6_setPort host a v = a\<lparr>sin6_port := hostToNetwork host v\<rparr>"

text \<open>\<open>CreateMask<uint8_t>(prefix_len % 8)\<close> applied to the byte the prefix ends in.\<close>

definition on_byte :: "u8 list \<Rightarrow> nat \<Rightarrow> (u8 \<Rightarrow> u8 \<Rightarrow> u8) \<Rightarrow> fault + u8 list" where
  "on_byte bs p f =
     (if length bs \<le> p div 8 then Inl OutOfBounds
      else bindE (CreateMask (of_nat (p mod 8))) (\<lambda>m. Inr (bs[p div 8 := f (bs ! (p div 8)) m])))"

text \<open>The loop that sets the bytes from \<open>i\<close> on.\<close>

fun fill_from :: "nat \<Rightarrow> u8 \<Rightarrow> u8 list \<Rightarrow> u8 list" where
  "fill_from i v [] = []"
| "fill_from 0 v (b # bs) = v # fill_from 0 v bs"
| "fill_from (Suc i) v (b # bs) = b # fill_from i v bs"

definition IPv6_broadcastAddress :: "sockaddr_in6 \<Rightarrow> nat \<Rightarrow> fault + sockaddr_in6" where
  "IPv6_broadcastAddress a p =
     bindE (on_byte (s6_addr a) p (\<lambda>old m. old OR m)) (\<lambda>bs.
       Inr (a\<lparr>s6_addr := fill_from (p div 8 + 1) 0xFF bs\<rparr>))"

definition IPv6_networdAddress :: "sockaddr_in6 \<Rightarrow> nat \<Rightarrow> fault + sockaddr_in6" where
  "IPv6_networdAddress a p =
     bindE (on_byte (s6_addr a) p (\<lambda>old m. old AND m)) (\<lambda>bs.
       Inr (a\<lparr>s6_addr := fill_from (p div 8 + 1) 0 bs\<rparr>))"

definition IPv6_subnetMask :: "nat \<Rightarrow> fault + sockaddr_in6" where
  "IPv6_subnetMask p =
     bindE (on_byte (replicate 16 0) p (\<lambda>_ m. NOT m)) (\<lambda>bs.
       Inr (empty_IPv6Address\<lparr>s6_addr := replicate (p div 8) 0xFF @ drop (p div 8) bs\<rparr>))"

text \<open>The loop of \<open>IPv6Address::insert\<close> over the eight 16-bit groups, read in host order.\<close>

fun v6_groups :: "byte_order \<Rightarrow> nat \<Rightarrow> u16 \<Rightarrow> bool \<Rightarrow> u16 list \<Rightarrow> u8 list \<times> bool" where
  "v6_groups host i prev used [] = ([], used)"
| "v6_groups host i prev used (g # gs) =
     (if g = 0 \<and> \<not> used then v6_groups host (Suc i) g used gs
      else let squeeze = (0 < i \<and> prev = 0 \<and> \<not> used);
               used' = (used \<or> squeeze);
               (rest, u) = v6_groups host (Suc i) g used' gs in
        ((if squeeze then [colon] else []) @ (if 0 < i then [colon] else [])
           @ show_nat 16 (unat (networkToHost host g)) @ rest, u))"

fun groups16 :: "byte_order \<Rightarrow> u8 list \<Rightarrow> u16 list" where
  "groups16 host (a # b # bs) = of_object host [a, b] # groups16 host bs"
| "groups16 host _ = []"

definition IPv6_insert :: "byte_order \<Rightarrow> sockaddr_in6 \<Rightarrow> u8 list" where
  "IPv6_insert host a =
     (let gs = groups16 host (s6_addr a); (out, used) = v6_groups host 0 0 False gs in
      [0x5B] @ out @ (if \<not> used \<and> gs ! 7 = 0 then [colon, colon] else []) @ [0x5D, colon]
        @ show_nat 10 (unat (networkToHost host (sin6_port a))))"

section \<open>Unix domain and other families\<close>

text \<open>\<open>sun_path\<close> has 108 bytes at offset 2.\<close>

record sockaddr_un =
  sun_family :: u16
  sun_path :: "u8 list"
  un_length :: nat

definition path_offset :: nat where "path_offset = 2"
definition MAX_PATH_LEN :: nat where "MAX_PATH_LEN = 107"

definition empty_UnixAddress :: sockaddr_un where
  "empty_UnixAddress = \<lparr>sun_family = AF_UNIX, sun_path = replicate 108 0, un_length = path_offset + MAX_PATH_LEN\<rparr>"

definition UnixAddress :: "u8 list \<Rightarrow> fault + sockaddr_un" where
  "UnixAddress path =
     (let len = length path + 1;
          len' = (if path \<noteq> [] \<and> hd path = 0 then len - 1 else len) in
      if 108 < len' then Inl LogicError
      else Inr \<lparr>sun_family = AF_UNIX, sun_path = take len' (path @ [0]) @ replicate (108 - len') 0,
                un_length = len' + path_offset\<rparr>)"

text \<open>Printing a \<open>char*\<close> stops at the terminating zero.\<close>

definition un_path :: "sockaddr_un \<Rightarrow> u8 list" where
  "un_path a =
     (if path_offset < un_length a \<and> hd (sun_path a) = 0
      then [0x5C, 0x30] @ take (un_length a - path_offset - 1) (drop 1 (sun_path a))
      else takeWhile (\<lambda>c. c \<noteq> 0) (sun_path a))"

definition setAddrLen :: "sockaddr_un \<Rightarrow> nat \<Rightarrow> sockaddr_un" where
  "setAddrLen a v = a\<lparr>un_length := v\<rparr>"

record sockaddr =
  sa_family :: u16
  sa_data :: "u8 list"

definition UnknownAddress :: "int \<Rightarrow> sockaddr" where
  "UnknownAddress family = \<lparr>sa_family = of_int family, sa_data = replicate 14 0\<rparr>"

section \<open>Addresses\<close>

text \<open>The subclasses of \<open>Address\<close>, and what they answer to its virtual functions.\<close>

datatype address = V4 sockaddr_in | V6 sockaddr_in6 | Unix sockaddr_un | Unknown sockaddr

text \<open>The bytes of the structure \<open>addr()\<close> points to.\<close>

fun addr_bytes :: "byte_order \<Rightarrow> address \<Rightarrow> u8 list" where
  "addr_bytes host (V4 a) = object_bytes host (sin_family a) @ object_bytes host (sin_port a)
     @ object_bytes host (s_addr a) @ sin_zero a"
| "addr_bytes host (V6 a) = object_bytes host (sin6_family a) @ object_bytes host (sin6_port a)
     @ object_bytes host (sin6_flowinfo a) @ s6_addr a @ object_bytes host (sin6_scope_id a)"
| "addr_bytes host (Unix a) = object_bytes host (sun_family a) @ sun_path a"
| "addr_bytes host (Unknown a) = object_bytes host (sa_family a) @ sa_data a"

fun addrLen :: "address \<Rightarrow> nat" where
  "addrLen (V4 a) = 16"
| "addrLen (V6 a) = 28"
| "addrLen (Unix a) = un_length a"
| "addrLen (Unknown a) = 16"

fun addr_family :: "address \<Rightarrow> u16" where
  "addr_family (V4 a) = sin_family a"
| "addr_family (V6 a) = sin6_family a"
| "addr_family (Unix a) = sun_family a"
| "addr_family (Unknown a) = sa_family a"

fun addr_insert :: "byte_order \<Rightarrow> address \<Rightarrow> str" where
  "addr_insert host (V4 a) = IPv4_insert host a"
| "addr_insert host (V6 a) = IPv6_insert host a"
| "addr_insert host (Unix a) = un_path a"
| "addr_insert host (Unknown a) = chars ''[UnknownAddress family='' @ show_nat 10 (unat (sa_family a)) @ [0x5D]"

text \<open>\<open>memcmp\<close> compares unsigned bytes; reading past a structure is out of bounds.\<close>

fun memcmp :: "u8 list \<Rightarrow> u8 list \<Rightarrow> nat \<Rightarrow> int" where
  "memcmp (a # as) (b # bs) (Suc n) = (if a < b then -1 else if b < a then 1 else memcmp as bs n)"
| "memcmp _ _ _ = 0"

definition compare_bytes :: "byte_order \<Rightarrow> address \<Rightarrow> address \<Rightarrow> nat \<Rightarrow> fault + int" where
  "compare_bytes host a b n =
     (if length (addr_bytes host a) < n \<or> length (addr_bytes host b) < n then Inl OutOfBounds
      else Inr (memcmp (addr_bytes host a) (addr_bytes host b) n))"

definition Address_less :: "byte_order \<Rightarrow> address \<Rightarrow> address \<Rightarrow> fault + bool" where
  "Address_less host a b =
     bindE (compare_bytes host a b (min (addrLen a) (addrLen b))) (\<lambda>result.
       Inr (if result < 0 then False
            else if 0 < result then False
            else if addrLen a < addrLen b then True else False))"

definition Address_equal :: "byte_order \<Rightarrow> address \<Rightarrow> address \<Rightarrow> fault + bool" where
  "Address_equal host a b =
     (if addrLen a = addrLen b
      then bindE (compare_bytes host a b (addrLen a)) (\<lambda>result. Inr (result = 0)) else Inr False)"

definition Address_not_equal :: "byte_order \<Rightarrow> address \<Rightarrow> address \<Rightarrow> fault + bool" where
  "Address_not_equal host a b = bindE (Address_equal host a b) (\<lambda>e. Inr (\<not> e))"

section \<open>Lemmas\<close>

lemma CreateMask_u32:
  fixes p :: u32
  assumes "unat p \<le> 32"
  shows "CreateMask p = (if p = 0 then Inl ShiftRange else Inr (mask (32 - unat p)))"
proof -
  have "unat p = 0 \<longleftrightarrow> p = 0" by (simp add: unat_eq_0)
  moreover have "(of_nat (2 ^ (32 - unat p) - 1) :: u32) = mask (32 - unat p)"
    by (metis mask_eq_exp_minus_1 of_nat_mask_eq)
  ultimately show ?thesis using assms by (auto simp: CreateMask_def Let_def)
qed

lemma CreateMask_u8:
  assumes "k < 8"
  shows "CreateMask (of_nat k :: u8) = Inr (mask (8 - k))"
proof -
  have "unat (of_nat k :: u8) = k" using assms by (simp add: unat_of_nat take_bit_nat_eq_self)
  moreover have "(of_nat (2 ^ (8 - k) - 1) :: u8) = mask (8 - k)"
    by (metis mask_eq_exp_minus_1 of_nat_mask_eq)
  ultimately show ?thesis using assms by (simp add: CreateMask_def Let_def)
qed

lemma IPv4_subnetMask_eq:
  "p \<noteq> 0 \<Longrightarrow> unat p \<le> 32 \<Longrightarrow>
   IPv4_subnetMask host p = Inr (Some (IPv4Address host (NOT (mask (32 - unat p))) 0))"
  by (simp add: IPv4_subnetMask_def CreateMask_u32 IPv4Address_def hostToNetwork_not hostToNetwork_0)

lemma IPv6_subnetMask_eq:
  assumes "p < 128"
  shows "IPv6_subnetMask p = Inr (empty_IPv6Address\<lparr>s6_addr :=
    replicate (p div 8) 0xFF @ NOT (mask (8 - p mod 8)) # replicate (15 - p div 8) 0\<rparr>)"
proof -
  have q: "p div 8 < 16" using assms by simp
  have "drop (p div 8) ((replicate 16 0)[p div 8 := x]) = x # replicate (15 - p div 8) (0 :: u8)" for x
    using q by (simp add: upd_conv_take_nth_drop)
  then show ?thesis using q by (simp add: IPv6_subnetMask_def on_byte_def CreateMask_u8)
qed

lemma length_fill_from [simp]: "length (fill_from i v bs) = length bs"
  by (induction i v bs rule: fill_from.induct) auto

lemma nth_fill_from: "j < length bs \<Longrightarrow> fill_from i v bs ! j = (if i \<le> j then v else bs ! j)"
proof (induction i v bs arbitrary: j rule: fill_from.induct)
  case (2 v b bs)
  then show ?case by (cases j) auto
next
  case (3 i v b bs)
  then show ?case by (cases j) auto
qed simp

text \<open>Bit number \<open>i\<close> of an address, counted from its start as prefix lengths are.\<close>

definition addr_bit :: "u8 list \<Rightarrow> nat \<Rightarrow> bool" where
  "addr_bit bs i = bit (bs ! (i div 8)) (7 - i mod 8)"

lemma bit_mask_u8: "bit (mask (8 - k) :: u8) (7 - j) \<longleftrightarrow> k \<le> j" if "j < 8" "k < 8"
  using that by (auto simp: bit_mask_iff)

lemma bit_ff: "bit (0xFF :: u8) (7 - j)"
proof -
  have "(0xFF :: u8) = -1" by simp
  then show ?thesis by (simp only: bit_minus_1_iff possible_bit_word) simp
qed

lemma prefix_split: "i div 8 < p div 8 \<Longrightarrow> i < (p :: nat)" "p div 8 < i div 8 \<Longrightarrow> p < i"
  "i div 8 = p div 8 \<Longrightarrow> (p \<le> i) = (p mod 8 \<le> i mod 8)"
proof -
  show "i div 8 < p div 8 \<Longrightarrow> i < p" "p div 8 < i div 8 \<Longrightarrow> p < i"
    by (meson div_le_mono leD leI)+
  assume "i div 8 = p div 8"
  moreover have "i = 8 * (i div 8) + i mod 8" "p = 8 * (p div 8) + p mod 8" by simp_all
  ultimately show "(p \<le> i) = (p mod 8 \<le> i mod 8)" by linarith
qed

section \<open>Properties\<close>

text \<open>
  IPv4 masks, on a host of either byte order: for a prefix of 1 to 32 bits,
  \<open>broadcastAddress\<close> sets exactly the host bits and \<open>subnetMask\<close> is the complement of the host
  mask, while \<open>networdAddress\<close> keeps the host bits instead of the network bits. A prefix of 0
  shifts by 32, a longer one gives null, and the port survives.
\<close>

theorem ipv4_masks:
  assumes "unat p \<le> 32"
  defines "hostbits \<equiv> mask (32 - unat p) :: u32"
  shows "if p = 0 then IPv4_broadcastAddress host (IPv4Address host ip port) p = Inl ShiftRange
    else IPv4_broadcastAddress host (IPv4Address host ip port) p
           = Inr (Some (IPv4Address host (ip OR hostbits) port))
      \<and> IPv4_subnetMask host p = Inr (Some (IPv4Address host (NOT hostbits) 0))
      \<and> IPv4_networdAddress host (IPv4Address host ip port) p
           = Inr (Some (IPv4Address host (ip AND hostbits) port))"
  using assms(1)
  by (auto simp: IPv4_broadcastAddress_def IPv4_subnetMask_def IPv4_networdAddress_def CreateMask_u32
      IPv4Address_def hostToNetwork_or hostToNetwork_and hostToNetwork_not hostToNetwork_0 hostbits_def)

theorem ipv4_masks_witness:
  "IPv4_broadcastAddress EASY_LITTLE_ENDIAN (IPv4Address EASY_LITTLE_ENDIAN 0xC0A80105 80) 24
     = Inr (Some (IPv4Address EASY_LITTLE_ENDIAN 0xC0A801FF 80))"
  using ipv4_masks [where p = 24 and host = EASY_LITTLE_ENDIAN and ip = "0xC0A80105" and port = 80] by (simp add: mask_numeral)

text \<open>
  IPv6 masks, bit by bit from the start of the address: for a prefix below 128 bits
  \<open>broadcastAddress\<close> keeps the prefix and sets the rest, \<open>subnetMask\<close> sets exactly the prefix,
  while \<open>networdAddress\<close> clears the prefix bits of the byte the prefix ends in and keeps the
  rest of it. From 128 on all three index past the address.
\<close>

theorem ipv6_masks:
  assumes "length (s6_addr a) = 16"
  shows "if p < 128
    then \<exists>b s n. IPv6_broadcastAddress a p = Inr b \<and> IPv6_subnetMask p = Inr s \<and> IPv6_networdAddress a p = Inr n
      \<and> (\<forall>i. i < 128 \<longrightarrow>
           addr_bit (s6_addr b) i = (p \<le> i \<or> addr_bit (s6_addr a) i)
         \<and> addr_bit (s6_addr s) i = (i < p)
         \<and> addr_bit (s6_addr n) i = (i div 8 \<le> p div 8 \<and> (i div 8 < p div 8 \<or> p \<le> i) \<and> addr_bit (s6_addr a) i))
    else IPv6_broadcastAddress a p = Inl OutOfBounds \<and> IPv6_subnetMask p = Inl OutOfBounds
      \<and> IPv6_networdAddress a p = Inl OutOfBounds"
proof (cases "p < 128")
  case False
  then have "16 \<le> p div 8" by simp
  with False show ?thesis
    using assms by (simp add: IPv6_broadcastAddress_def IPv6_subnetMask_def IPv6_networdAddress_def on_byte_def)
next
  case True
  then have q: "p div 8 < 16" by simp
  let ?m = "mask (8 - p mod 8) :: u8"
  let ?on = "\<lambda>bs f. Inr (bs[p div 8 := f (bs ! (p div 8)) ?m]) :: fault + u8 list"
  have on: "on_byte bs p f = ?on bs f" if "length bs = 16" for bs f
    using that q by (simp add: on_byte_def CreateMask_u8)
  let ?b = "a\<lparr>s6_addr := fill_from (p div 8 + 1) 0xFF ((s6_addr a)[p div 8 := s6_addr a ! (p div 8) OR ?m])\<rparr>"
  let ?n = "a\<lparr>s6_addr := fill_from (p div 8 + 1) 0 ((s6_addr a)[p div 8 := s6_addr a ! (p div 8) AND ?m])\<rparr>"
  let ?s = "empty_IPv6Address\<lparr>s6_addr :=
      replicate (p div 8) 0xFF @ drop (p div 8) ((replicate 16 0)[p div 8 := NOT ?m])\<rparr>"
  have run: "IPv6_broadcastAddress a p = Inr ?b" "IPv6_networdAddress a p = Inr ?n" "IPv6_subnetMask p = Inr ?s"
    using on assms
    by (simp_all add: IPv6_broadcastAddress_def IPv6_networdAddress_def IPv6_subnetMask_def)
  have bits: "addr_bit (s6_addr ?b) i = (p \<le> i \<or> addr_bit (s6_addr a) i)
       \<and> addr_bit (s6_addr ?s) i = (i < p)
       \<and> addr_bit (s6_addr ?n) i = (i div 8 \<le> p div 8 \<and> (i div 8 < p div 8 \<or> p \<le> i) \<and> addr_bit (s6_addr a) i)"
    if "i < 128" for i
  proof -
    have j: "i div 8 < 16" using that by simp
    have m: "bit ?m (7 - i mod 8) \<longleftrightarrow> p mod 8 \<le> i mod 8" by (rule bit_mask_u8) simp_all
    have lt: "7 - i mod 8 < 8" by simp
    consider "i div 8 < p div 8" | "i div 8 = p div 8" | "p div 8 < i div 8" by linarith
    then show ?thesis
    proof cases
      case 1
      then show ?thesis
        using j q assms prefix_split(1) [OF 1] bit_ff
        by (simp add: addr_bit_def nth_fill_from nth_append)
    next
      case 2
      then show ?thesis
        using j q assms prefix_split(3) [OF 2] m lt
        by (auto simp: addr_bit_def nth_fill_from nth_append bit_simps)
    next
      case 3
      then show ?thesis
        using j q assms prefix_split(2) [OF 3] bit_ff
        by (simp add: addr_bit_def nth_fill_from nth_append)
    qed
  qed
  show ?thesis using True run bits by simp
qed

theorem ipv6_masks_witness:
  "\<exists>s. IPv6_subnetMask 64 = Inr s \<and> addr_bit (s6_addr s) 63 \<and> \<not> addr_bit (s6_addr s) 64"
  using ipv6_masks [of "IPv6Address EASY_BIG_ENDIAN (replicate 16 1) 0" 64]
  by (auto simp: IPv6Address_def)

text \<open>
  An IPv4 address means the same on a host of either byte order: its bytes, its port and its
  text do not depend on the host that made it, also after \<open>setPort\<close>, and the text is the dotted
  address and the port.
\<close>

theorem ipv4_host_independent:
  "drop 2 (addr_bytes h1 (V4 (IPv4Address h1 ip port))) = drop 2 (addr_bytes h2 (V4 (IPv4Address h2 ip port)))
   \<and> IPv4_port host (IPv4Address host ip port) = port
   \<and> IPv4_setPort host (IPv4Address host ip port) p' = IPv4Address host ip p'
   \<and> IPv4_insert host (IPv4Address host ip port)
     = show_nat 10 (unat (drop_bit 24 ip AND 0xFF)) @ [dot] @ show_nat 10 (unat (drop_bit 16 ip AND 0xFF)) @ [dot]
       @ show_nat 10 (unat (drop_bit 8 ip AND 0xFF)) @ [dot] @ show_nat 10 (unat (ip AND 0xFF)) @ [colon]
       @ show_nat 10 (unat port)"
  by (simp add: IPv4Address_def IPv4_port_def IPv4_setPort_def IPv4_insert_def object_bytes_hostToNetwork)

lemma memcmp_0:
  "n \<le> length a \<Longrightarrow> n \<le> length b \<Longrightarrow> memcmp a b n = 0 \<longleftrightarrow> take n a = take n b"
  by (induction a b n rule: memcmp.induct) (auto simp: not_less_iff_gr_or_eq)

text \<open>The bytes an address stands for, and those whose length fits its structure.\<close>

definition view :: "byte_order \<Rightarrow> address \<Rightarrow> u8 list" where
  "view host a = take (addrLen a) (addr_bytes host a)"

abbreviation addr_ok :: "byte_order \<Rightarrow> address \<Rightarrow> bool" where
  "addr_ok host a \<equiv> addrLen a \<le> length (addr_bytes host a)"

text \<open>
  \<open>operator==\<close> is equality of the address bytes, but \<open>operator<\<close> answers false whenever the
  bytes differ: an address is below another only if its bytes are a proper prefix of the
  other's, so two addresses of the same IP family are never ordered.
\<close>

theorem address_order_is_prefix:
  assumes "addr_ok host a" and "addr_ok host b"
  shows "Address_less host a b = Inr (\<exists>c. c \<noteq> [] \<and> view host b = view host a @ c)
    \<and> Address_equal host a b = Inr (view host a = view host b)
    \<and> (addrLen a = addrLen b \<longrightarrow> Address_less host a b = Inr False)"
proof -
  have len: "length (view host a) = addrLen a" "length (view host b) = addrLen b"
    using assms by (simp_all add: view_def)
  have cmp: "compare_bytes host a b n = Inr (memcmp (addr_bytes host a) (addr_bytes host b) n)"
      "memcmp (addr_bytes host a) (addr_bytes host b) n = 0 \<longleftrightarrow> take n (view host a) = take n (view host b)"
    if "n \<le> addrLen a" "n \<le> addrLen b" for n
    using that assms by (simp_all add: compare_bytes_def memcmp_0 view_def)
  have "Address_less host a b
      = Inr (take (addrLen a) (view host b) = view host a \<and> addrLen a < addrLen b)"
    using cmp [of "min (addrLen a) (addrLen b)"] len by (auto simp: Address_less_def min_def)
  moreover have "take (addrLen a) (view host b) = view host a \<and> addrLen a < addrLen b
      \<longleftrightarrow> (\<exists>c. c \<noteq> [] \<and> view host b = view host a @ c)"
    unfolding len [symmetric]
    by (metis append_eq_conv_conj append_take_drop_id drop_eq_Nil2 not_le)
  moreover have "Address_equal host a b = Inr (view host a = view host b)"
    using cmp [of "addrLen a"] len by (auto simp: Address_equal_def)
  ultimately show ?thesis by auto
qed

theorem address_order_is_prefix_witness:
  "Address_less EASY_LITTLE_ENDIAN (V4 (IPv4Address EASY_LITTLE_ENDIAN 1 2))
     (V4 (IPv4Address EASY_LITTLE_ENDIAN 3 4)) = Inr False"
  by (rule address_order_is_prefix [THEN conjunct2, THEN conjunct2, rule_format])
    (simp_all add: IPv4Address_def)

lemma takeWhile_path: "0 \<notin> set p \<Longrightarrow> takeWhile (\<lambda>c. c \<noteq> (0 :: u8)) (p @ 0 # r) = p"
  by (induction p) auto

text \<open>
  A \<open>UnixAddress\<close> keeps its path: a path of up to 107 bytes without a zero reads back as it
  is, an abstract name (a leading zero, up to 108 bytes) prints with the zero as \<open>\0\<close>, the
  length counts what is stored, and a longer path is rejected with \<open>logic_error\<close>.
\<close>

theorem unix_path:
  assumes "path \<noteq> []" and "hd path = 0 \<or> 0 \<notin> set path"
  shows "if length path \<le> (if hd path = 0 then 108 else 107)
    then \<exists>a. UnixAddress path = Inr a
      \<and> un_path a = (if hd path = 0 then [0x5C, 0x30] @ tl path else path)
      \<and> un_length a = length path + (if hd path = 0 then 2 else 3) \<and> length (sun_path a) = 108
    else UnixAddress path = Inl LogicError"
proof (cases "hd path = 0")
  case True
  then show ?thesis
    using assms(1) by (cases path) (auto simp: UnixAddress_def un_path_def path_offset_def)
next
  case False
  then have "0 \<notin> set path" using assms by simp
  then show ?thesis
    using False assms(1) takeWhile_path
    by (cases path) (auto simp: UnixAddress_def un_path_def path_offset_def Let_def)
qed

theorem unix_path_witness:
  "\<exists>a. UnixAddress [0x2F, 0x61] = Inr a \<and> un_path a = [0x2F, 0x61] \<and> un_length a = 5"
  using unix_path [of "[0x2F, 0x61]"] by auto

section \<open>The text of an IPv6 address\<close>

text \<open>Hexadecimal groups with colons between them, and with one before each.\<close>

fun hex_join :: "u16 list \<Rightarrow> str" where
  "hex_join [] = []"
| "hex_join [g] = show_nat 16 (unat g)"
| "hex_join (g # gs) = show_nat 16 (unat g) @ [colon] @ hex_join gs"

definition hex_rest :: "u16 list \<Rightarrow> str" where
  "hex_rest gs = concat (map (\<lambda>g. colon # show_nat 16 (unat g)) gs)"

lemma hex_join_Cons: "hex_join (g # gs) = show_nat 16 (unat g) @ hex_rest gs"
  by (induction gs arbitrary: g) (auto simp: hex_rest_def)

lemma hostToNetwork_eq_0: "hostToNetwork host (g :: u16) = 0 \<longleftrightarrow> g = 0"
proof
  assume "hostToNetwork host g = 0"
  then have "networkToHost host (hostToNetwork host g) = networkToHost host (hostToNetwork host 0)"
    by (simp add: hostToNetwork_0)
  then show "g = 0" by simp
qed (simp add: hostToNetwork_0)

lemma groups16_bytes:
  "groups16 host (concat (map (object_bytes EASY_BIG_ENDIAN) gs)) = map (hostToNetwork host) gs"
proof (induction gs)
  case (Cons g gs)
  have "length (object_bytes EASY_BIG_ENDIAN g) = 2" by simp
  then obtain a b where ab: "object_bytes EASY_BIG_ENDIAN g = [a, b]"
    by (metis (no_types) length_0_conv length_Suc_conv numeral_2_eq_2)
  have "of_object host (object_bytes EASY_BIG_ENDIAN g) = hostToNetwork host g"
    using of_object_bytes [where w = "hostToNetwork host g" and order = host]
      object_bytes_hostToNetwork [where w = g and host = host] by simp
  then show ?case using Cons.IH by (simp add: ab)
qed simp

lemma v6_groups_used:
  "v6_groups host (Suc i) prev True (map (hostToNetwork host) gs) = (hex_rest gs, True)"
  by (induction gs arbitrary: i prev) (auto simp: hex_rest_def Let_def)

lemma v6_groups_zeros:
  "v6_groups host i prev False (map (hostToNetwork host) (replicate k 0 @ gs))
   = v6_groups host (i + k) (if k = 0 then prev else 0) False (map (hostToNetwork host) gs)"
  by (induction k arbitrary: i prev) (auto simp: hostToNetwork_0)

lemma v6_groups_post:
  fixes k :: nat
  assumes "post = [] \<or> hd post \<noteq> 0" and "k = 0 \<longrightarrow> post = []" and "0 < k \<longrightarrow> 0 < i \<and> prev = 0"
  shows "v6_groups host i prev False (map (hostToNetwork host) post)
    = (if post = [] then [] else [colon, colon] @ hex_join post, post \<noteq> [])"
proof (cases post)
  case (Cons g gs)
  with assms have "0 < k" by simp
  then have "0 < i" "prev = 0" "g \<noteq> 0" using assms Cons by simp_all
  then show ?thesis
    using Cons v6_groups_used by (simp add: hostToNetwork_eq_0 Let_def hex_join_Cons)
qed simp

lemma v6_groups_pre:
  assumes "0 \<notin> set pre" and "0 < i \<longrightarrow> prev \<noteq> 0"
  shows "v6_groups host i prev False (map (hostToNetwork host) (pre @ gs))
    = (let (out, u) = v6_groups host (i + length pre)
             (if pre = [] then prev else hostToNetwork host (last pre)) False (map (hostToNetwork host) gs) in
       ((if pre = [] then [] else if 0 < i then hex_rest pre else hex_join pre) @ out, u))"
  using assms
proof (induction pre arbitrary: i prev)
  case Nil
  then show ?case by (simp add: Let_def split: prod.splits)
next
  case (Cons g pre)
  have "hostToNetwork host g \<noteq> 0" using Cons.prems by (auto simp: hostToNetwork_eq_0)
  then show ?case
    using Cons.prems Cons.IH [of "Suc i" "hostToNetwork host g"]
    by (auto simp: Let_def hex_join_Cons hex_rest_def split: prod.splits)
qed

text \<open>
  The text of an IPv6 address, on a host of either byte order: its eight groups in
  hexadecimal with colons between them, where the first run of zero groups, however short, and
  only that one is written \<open>::\<close>, in brackets and followed by the port.
\<close>

theorem ipv6_text:
  assumes "length (pre @ replicate k 0 @ post) = 8" and "0 \<notin> set pre"
    and "post = [] \<or> hd post \<noteq> 0" and "k = 0 \<longrightarrow> post = []"
  defines "bytes \<equiv> concat (map (object_bytes EASY_BIG_ENDIAN) (pre @ replicate k 0 @ post :: u16 list))"
  shows "IPv6_insert host (IPv6Address host bytes port)
    = chars ''['' @ hex_join pre @ (if k = 0 then [] else [colon, colon]) @ hex_join post
      @ chars '']:'' @ show_nat 10 (unat port)"
proof -
  let ?gs = "pre @ replicate k 0 @ post"
  have len: "length bytes = 16"
    using assms(1) by (simp add: bytes_def length_concat comp_def sum_list_triv sum_list_replicate)
  let ?i = "length pre + k" and ?prev = "if k = 0 then if pre = [] then 0 else hostToNetwork host (last pre) else 0"
  have "v6_groups host 0 0 False (map (hostToNetwork host) ?gs)
      = (hex_join pre @ (if post = [] then [] else [colon, colon] @ hex_join post), post \<noteq> [])"
    using v6_groups_pre [of pre 0 0 host "replicate k 0 @ post"]
      v6_groups_zeros [of host "length pre" "if pre = [] then 0 else hostToNetwork host (last pre)" k post]
      v6_groups_post [of post k ?i ?prev host] assms(2-4)
    by (cases "k = 0") auto
  moreover have "map (hostToNetwork host) ?gs ! 7 = 0 \<longleftrightarrow> ?gs ! 7 = 0"
    using assms(1) by (simp only: nth_map hostToNetwork_eq_0)
  moreover have "post = [] \<Longrightarrow> ?gs ! 7 = 0 \<longleftrightarrow> k \<noteq> 0"
  proof (cases "k = 0")
    case True
    assume "post = []"
    then have "?gs ! 7 \<in> set pre" using True assms(1) by simp
    then show ?thesis using True assms(2) by auto
  qed (use assms(1) in \<open>auto simp: nth_append\<close>)
  moreover have "groups16 host (s6_addr (IPv6Address host bytes port)) = map (hostToNetwork host) ?gs"
  proof -
    have "s6_addr (IPv6Address host bytes port) = bytes" using len by (simp add: IPv6Address_def)
    then show ?thesis unfolding bytes_def by (simp only: groups16_bytes)
  qed
  ultimately show ?thesis
    using assms(4) by (auto simp: IPv6_insert_def Let_def chars_def colon_def IPv6Address_def)
qed

theorem ipv6_text_witness:
  "IPv6_insert EASY_LITTLE_ENDIAN (IPv6Address EASY_LITTLE_ENDIAN
       (concat (map (object_bytes EASY_BIG_ENDIAN) ([0x20] @ replicate 6 0 @ [1 :: u16]))) 80)
     = chars ''[20::1]:80''"
  using ipv6_text [of "[0x20]" 6 "[1]" EASY_LITTLE_ENDIAN 80]
  by (simp add: chars_def colon_def show_nat.simps digit_def)

end
