(* ===== verification/AddressLookup.thy ===== *)
theory AddressLookup imports Address begin

text \<open>
  \<open>easy/net/Address.cc\<close>, the functions that make addresses from what the system delivers:
  \<open>Address::Create\<close>, \<open>Lookup\<close> and its variants, \<open>IPAddress::Create\<close> and
  \<open>GetInterfaceAddresses\<close>. The resolver's and the interface list's answers are arguments;
  a pointer to a \<open>sockaddr\<close> is null (\<open>None\<close>) or the bytes from there on. The lemmas show that
  \<open>Create\<close> reads back the bytes of an address and that \<open>BitCount\<close> counts the bits of a mask.
\<close>

section \<open>Making addresses\<close>

definition read_in :: "byte_order \<Rightarrow> u8 list \<Rightarrow> sockaddr_in" where
  "read_in host bs =
     \<lparr>sin_family = of_object host (take 2 bs), sin_port = of_object host (take 2 (drop 2 bs)),
      s_addr = of_object host (take 4 (drop 4 bs)), sin_zero = take 8 (drop 8 bs)\<rparr>"

definition read_in6 :: "byte_order \<Rightarrow> u8 list \<Rightarrow> sockaddr_in6" where
  "read_in6 host bs =
     \<lparr>sin6_family = of_object host (take 2 bs), sin6_port = of_object host (take 2 (drop 2 bs)),
      sin6_flowinfo = of_object host (take 4 (drop 4 bs)), s6_addr = take 16 (drop 8 bs),
      sin6_scope_id = of_object host (take 4 (drop 24 bs))\<rparr>"

definition read_sockaddr :: "byte_order \<Rightarrow> u8 list \<Rightarrow> sockaddr" where
  "read_sockaddr host bs =
     \<lparr>sa_family = of_object host (take 2 bs), sa_data = take 14 (drop 2 bs)\<rparr>"

text \<open>The family of the structure a pointer leads to.\<close>

definition family_at :: "byte_order \<Rightarrow> u8 list option \<Rightarrow> fault + u16" where
  "family_at host p =
     (case p of None \<Rightarrow> Inl NullDeref
      | Some bs \<Rightarrow> if length bs < 2 then Inl OutOfBounds else Inr (of_object host (take 2 bs)))"

definition Address_Create :: "byte_order \<Rightarrow> u8 list option \<Rightarrow> fault + address option" where
  "Address_Create host p =
     (case p of None \<Rightarrow> Inr None
      | Some bs \<Rightarrow> bindE (family_at host p) (\<lambda>fam.
          if fam = AF_INET
          then guardE (16 \<le> length bs) OutOfBounds (Inr (Some (V4 (read_in host bs))))
          else if fam = AF_INET6
          then guardE (28 \<le> length bs) OutOfBounds (Inr (Some (V6 (read_in6 host bs))))
          else guardE (16 \<le> length bs) OutOfBounds (Inr (Some (Unknown (read_sockaddr host bs))))))"

section \<open>Looking up\<close>

text \<open>
  The part of \<open>Lookup\<close> that takes the host apart: the node and the service handed to
  \<open>getaddrinfo\<close>, \<open>None\<close> being a null service.
\<close>

definition split_brackets :: "str \<Rightarrow> str \<times> str option" where
  "split_brackets host =
     (if host \<noteq> [] \<and> hd host = 0x5B
      then (case memchr (tl host) 0x5D of
          None \<Rightarrow> ([], None)
        | Some k \<Rightarrow> (take k (tl host),
            if k + 2 < length host \<and> host ! (k + 2) = colon then Some (drop (k + 3) host) else None))
      else ([], None))"

definition split_host :: "str \<Rightarrow> str \<times> str option" where
  "split_host host =
     (let (node, service) = split_brackets host;
          (node1, service1) =
            (if node = []
             then (case memchr host colon of
                 None \<Rightarrow> (node, None)
               | Some k \<Rightarrow> if memchr (drop (k + 1) host) colon = None
                          then (take k host, Some (drop (k + 1) host))
                          else (node, Some (drop k host)))
             else (node, service)) in
      (if node1 = [] then host else node1, service1))"

text \<open>
  \<open>getaddrinfo\<close>, given its hints, delivers the \<open>ai_addr\<close> pointers of a list or an error; each is
  turned into an address and appended to \<open>result\<close>.
\<close>

type_synonym resolver = "str \<Rightarrow> str option \<Rightarrow> u8 list option list option"

definition Lookup ::
    "byte_order \<Rightarrow> resolver \<Rightarrow> address option list \<Rightarrow> str \<Rightarrow> fault + bool \<times> address option list" where
  "Lookup host getaddrinfo result name =
     (let (node, service) = split_host name in
      case getaddrinfo node service of
        None \<Rightarrow> Inr (False, result)
      | Some rs \<Rightarrow> bindE (mapE (Address_Create host) rs) (\<lambda>as.
          Inr (result @ as \<noteq> [], result @ as)))"

definition LookupAny :: "byte_order \<Rightarrow> resolver \<Rightarrow> str \<Rightarrow> fault + address option" where
  "LookupAny host getaddrinfo name =
     bindE (Lookup host getaddrinfo [] name) (\<lambda>(ok, result).
       Inr (if ok then hd result else None))"

text \<open>\<open>std::dynamic_pointer_cast<IPAddress>\<close>.\<close>

definition to_ip :: "address option \<Rightarrow> address option" where
  "to_ip p = (case p of Some (V4 a) \<Rightarrow> p | Some (V6 a) \<Rightarrow> p | _ \<Rightarrow> None)"

fun first_ip :: "address option list \<Rightarrow> address option" where
  "first_ip [] = None"
| "first_ip (p # ps) = (if to_ip p \<noteq> None then to_ip p else first_ip ps)"

definition LookupAnyIPAddress :: "byte_order \<Rightarrow> resolver \<Rightarrow> str \<Rightarrow> fault + address option" where
  "LookupAnyIPAddress host getaddrinfo name =
     bindE (Lookup host getaddrinfo [] name) (\<lambda>(ok, result).
       Inr (if ok then first_ip result else None))"

fun ip_setPort :: "byte_order \<Rightarrow> address \<Rightarrow> u16 \<Rightarrow> address" where
  "ip_setPort host (V4 a) v = V4 (IPv4_setPort host a v)"
| "ip_setPort host (V6 a) v = V6 (IPv6_setPort host a v)"
| "ip_setPort host a v = a"

text \<open>\<open>IPAddress::Create\<close>, with \<open>AI_NUMERICHOST\<close>: the first result, if it is an IP address.\<close>

definition IPAddress_Create :: "byte_order \<Rightarrow> resolver \<Rightarrow> str \<Rightarrow> u16 \<Rightarrow> fault + address option" where
  "IPAddress_Create host getaddrinfo address port =
     (case getaddrinfo address None of
        None \<Rightarrow> Inr None
      | Some [] \<Rightarrow> Inl NullDeref
      | Some (p # _) \<Rightarrow> bindE (Address_Create host p) (\<lambda>a.
          Inr (case to_ip a of None \<Rightarrow> None | Some x \<Rightarrow> Some (ip_setPort host x port))))"

section \<open>Interfaces\<close>

text \<open>
  An entry of \<open>getifaddrs\<close>; both pointers may be null. The multimap of results is the list of
  its entries in the order of insertion, which is the order \<open>equal_range\<close> gives for a name.
\<close>

record ifaddr =
  ifa_name :: str
  ifa_addr :: "u8 list option"
  ifa_netmask :: "u8 list option"

definition AF_UNSPEC :: u16 where "AF_UNSPEC = 0"

text \<open>The bytes \<open>sin_addr\<close> and \<open>sin6_addr\<close> of the mask.\<close>

definition mask_at :: "u8 list option \<Rightarrow> nat \<Rightarrow> nat \<Rightarrow> fault + u8 list" where
  "mask_at p off n = (case p of None \<Rightarrow> Inl NullDeref | Some bs \<Rightarrow> memcpy_out bs off n)"

definition interface_entry :: "byte_order \<Rightarrow> u16 \<Rightarrow> ifaddr \<Rightarrow> fault + (str \<times> address \<times> u32) list" where
  "interface_entry host family e =
     bindE (family_at host (ifa_addr e)) (\<lambda>fam.
       if family \<noteq> AF_UNSPEC \<and> family \<noteq> fam then Inr []
       else if fam = AF_INET
       then bindE (Address_Create host (ifa_addr e)) (\<lambda>a.
         bindE (mask_at (ifa_netmask e) 4 4) (\<lambda>m.
           Inr (case a of None \<Rightarrow> []
                | Some x \<Rightarrow> [(ifa_name e, x, of_nat (BitCount (of_object host m :: u32)))])))
       else if fam = AF_INET6
       then bindE (Address_Create host (ifa_addr e)) (\<lambda>a.
         bindE (mask_at (ifa_netmask e) 8 16) (\<lambda>m.
           Inr (case a of None \<Rightarrow> []
                | Some x \<Rightarrow> [(ifa_name e, x, of_nat (sum_list (map BitCount m)))])))
       else Inr [])"

text \<open>\<open>None\<close> is a failing \<open>getifaddrs\<close>.\<close>

definition GetInterfaceAddresses ::
    "byte_order \<Rightarrow> ifaddr list option \<Rightarrow> (str \<times> address \<times> u32) list \<Rightarrow> u16 \<Rightarrow>
     fault + bool \<times> (str \<times> address \<times> u32) list" where
  "GetInterfaceAddresses host getifaddrs result family =
     (case getifaddrs of
        None \<Rightarrow> Inr (False, result)
      | Some es \<Rightarrow> bindE (mapE (interface_entry host family) es) (\<lambda>rs.
          Inr (result @ concat rs \<noteq> [], result @ concat rs)))"

definition GetInterfaceAddresses_of ::
    "byte_order \<Rightarrow> ifaddr list option \<Rightarrow> (address \<times> u32) list \<Rightarrow> str \<Rightarrow> u16 \<Rightarrow>
     fault + bool \<times> (address \<times> u32) list" where
  "GetInterfaceAddresses_of host getifaddrs result iface family =
     (if iface = [] \<or> iface = chars ''*''
      then Inr (True, result
             @ (if family = AF_INET \<or> family = AF_UNSPEC then [(V4 (IPv4Address host 0 0), 0)] else [])
             @ (if family = AF_INET6 \<or> family = AF_UNSPEC then [(V6 empty_IPv6Address, 0)] else []))
      else bindE (GetInterfaceAddresses host getifaddrs [] family) (\<lambda>(ok, results).
        if \<not> ok then Inr (False, result)
        else let r = result @ map snd (filter (\<lambda>e. fst e = iface) results) in Inr (r \<noteq> [], r)))"

section \<open>Counting bits\<close>

fun pop :: "nat \<Rightarrow> nat" where
  "pop n = (if n = 0 then 0 else n mod 2 + pop (n div 2))"

declare pop.simps [simp del]

lemma pop_simps [simp]: "pop 0 = 0" "pop (Suc 0) = 1" "pop (2 * n) = pop n" "pop (Suc (2 * n)) = Suc (pop n)"
proof -
  show p: "pop 0 = 0" "pop (2 * n) = pop n" "pop (Suc (2 * n)) = Suc (pop n)" for n
    by (simp_all add: pop.simps [of 0] pop.simps [of "2 * n"] pop.simps [of "Suc (2 * n)"])
  show "pop (Suc 0) = 1" using p(3) [of 0] p(1) by simp
qed

lemma pop_append: "b < 2 ^ k \<Longrightarrow> pop (b + 2 ^ k * r) = pop b + pop r"
proof (induction k arbitrary: b)
  case 0
  then show ?case by simp
next
  case (Suc k)
  obtain m where m: "b = 2 * m \<or> b = Suc (2 * m)" by (metis evenE oddE Suc_eq_plus1)
  then have "m < 2 ^ k" using Suc.prems by auto
  then have IH: "pop (m + 2 ^ k * r) = pop m + pop r" by (rule Suc.IH)
  have e: "2 * m + 2 ^ Suc k * r = 2 * (m + 2 ^ k * r)"
    "Suc (2 * m) + 2 ^ Suc k * r = Suc (2 * (m + 2 ^ k * r))" by (simp_all add: algebra_simps)
  have "pop (2 * m + 2 ^ Suc k * r) = pop (2 * m) + pop r" unfolding e pop_simps IH ..
  moreover have "pop (Suc (2 * m) + 2 ^ Suc k * r) = pop (Suc (2 * m)) + pop r"
    unfolding e pop_simps IH by simp
  ultimately show ?case using m by blast
qed

lemma pop_shift: "pop (2 ^ k * n) = pop n"
  using pop_append [of 0 k n] by simp

lemma pop_mask: "pop (2 ^ p - Suc 0) = p"
proof (induction p)
  case 0
  then show ?case by simp
next
  case (Suc p)
  obtain q where "(2::nat) ^ p = Suc q" by (metis not0_implies_Suc power_not_zero zero_neq_numeral)
  then have "2 ^ Suc p - Suc 0 = Suc (2 * (2 ^ p - Suc 0))" by simp
  then show ?case using Suc.IH by (simp only: pop_simps)
qed

text \<open>Taking away one clears the lowest bit that is set, and sets those below.\<close>

lemma pop_kernighan: "0 < n \<Longrightarrow> Suc (pop (n AND (n - Suc 0))) = pop n"
proof (induction n rule: less_induct)
  case (less n)
  obtain m where m: "n = 2 * m \<or> n = Suc (2 * m)" by (metis evenE oddE Suc_eq_plus1)
  then show ?case
  proof
    assume n: "n = 2 * m"
    then have "0 < m" "(2 * m - Suc 0) div 2 = m - Suc 0" using less.prems by auto
    then have "n AND (n - Suc 0) = 2 * (m AND (m - Suc 0))"
      using n by (subst and_rec) simp
    then show ?thesis using less.IH [of m] n \<open>0 < m\<close> by simp
  next
    assume n: "n = Suc (2 * m)"
    then have "n AND (n - Suc 0) = 2 * m" by (subst and_rec) simp
    then show ?thesis using n by simp
  qed
qed

lemma BitCount_loop: "BitCount_loop r v = r + pop (unat v)"
proof (induction r v rule: BitCount_loop.induct)
  case (1 r v)
  show ?case
  proof (cases "v = 0")
    case True
    then show ?thesis by (simp add: BitCount_loop.simps)
  next
    case False
    then have "unat (v AND (v - 1)) = unat v AND (unat v - Suc 0)"
      by (simp add: unsigned_and_eq unat_minus_one)
    moreover have "0 < unat v" using False by (simp add: unat_gt_0)
    ultimately show ?thesis
      using 1 False pop_kernighan [of "unat v"] by (simp add: BitCount_loop.simps [of r v])
  qed
qed

lemma BitCount_pop: "BitCount v = pop (unat v)"
  by (simp add: BitCount_def BitCount_loop)

lemma pop_le_val: "pop (le_val bs) = sum_list (map BitCount bs)"
proof (induction bs)
  case (Cons b bs)
  then show ?case using pop_append [of "unat b" 8 "le_val bs"] unat_u8 [of b] by (simp add: BitCount_pop)
qed simp

lemma BitCount_bytes:
  fixes w :: "'a::len word"
  shows "whole_bytes w \<Longrightarrow> BitCount w = sum_list (map BitCount (le_bytes (size_of w) (unat w)))"
  by (simp add: BitCount_pop le_val_word flip: pop_le_val)

lemma BitCount_hostToNetwork:
  fixes w :: "'a::len word"
  assumes "whole_bytes w"
  shows "BitCount (hostToNetwork host w) = BitCount w"
proof -
  have "BitCount (bswap w) = BitCount w"
    using assms by (simp add: BitCount_bytes le_bytes_bswap flip: rev_map)
  then show ?thesis by (simp add: hostToNetwork_def)
qed

lemma BitCount_netmask:
  assumes "k \<le> LENGTH('a::len)"
  shows "BitCount (NOT (mask k) :: 'a word) = LENGTH('a) - k"
proof -
  have "(2::nat) ^ k \<le> 2 ^ LENGTH('a)" using assms by (simp add: power_increasing)
  then have "take_bit LENGTH('a) ((2::nat) ^ k - 1) = 2 ^ k - 1"
    by (intro take_bit_nat_eq_self) (simp add: less_eq_Suc_le)
  moreover have "unat (mask k :: 'a word) = take_bit LENGTH('a) (2 ^ k - 1)"
    unfolding mask_eq_exp_minus_1 [where 'a = nat, symmetric]
    by (subst of_nat_mask_eq [symmetric]) (simp only: unat_of_nat take_bit_eq_mod)
  ultimately have m: "unat (mask k :: 'a word) = 2 ^ k - 1" by simp
  have "unat (- 1 - mask k :: 'a word) = unat (- 1 :: 'a word) - unat (mask k :: 'a word)"
    by (rule unat_sub) simp
  then have "unat (NOT (mask k) :: 'a word) = 2 ^ LENGTH('a) - 1 - (2 ^ k - 1)"
    using m by (simp add: not_eq_complement unsigned_minus_1_eq_mask mask_eq_exp_minus_1)
  also have "\<dots> = 2 ^ k * (2 ^ (LENGTH('a) - k) - 1)"
    using assms by (simp add: diff_mult_distrib2 flip: power_add)
  finally show ?thesis using pop_shift pop_mask by (simp add: BitCount_pop)
qed

section \<open>Lemmas\<close>

lemma drop_behind: "drop (length xs) (xs @ ys) = ys"
  by simp

text \<open>
  How \<open>Lookup\<close> takes a host apart: \<open>[v6]:port\<close>, \<open>[v6]\<close>, \<open>name:port\<close> and \<open>name\<close> give the node
  and the service meant; but an unbracketed text with two colons, as an IPv6 address has, is
  passed whole as the node together with everything from its first colon as the service.
\<close>

theorem split_host_forms:
  assumes "node \<noteq> []" and "colon \<notin> set node" and "hd node \<noteq> 0x5B"
    and "v6 \<noteq> []" and "0x5D \<notin> set v6" and "colon \<notin> set port"
  shows "split_host ([0x5B] @ v6 @ [0x5D, colon] @ port) = (v6, Some port)
    \<and> split_host ([0x5B] @ v6 @ [0x5D]) = (v6, None)
    \<and> split_host (node @ [colon] @ port) = (node, Some port)
    \<and> split_host node = (node, None)
    \<and> split_host (node @ [colon] @ port @ [colon] @ rest)
        = (node @ [colon] @ port @ [colon] @ rest, Some ([colon] @ port @ [colon] @ rest))"
proof -
  have e: "length v6 + 3 = length (0x5B # v6 @ [0x5D, colon])"
    "0x5B # v6 @ 0x5D # colon # port = (0x5B # v6 @ [0x5D, colon]) @ port" by simp_all
  have behind: "drop (length v6 + 3) (0x5B # v6 @ 0x5D # colon # port) = port"
    unfolding e by (rule drop_behind)
  have br: "split_brackets ([0x5B] @ v6 @ [0x5D, colon] @ port) = (v6, Some port)"
    "split_brackets ([0x5B] @ v6 @ [0x5D]) = (v6, None)"
    using assms(5) behind by (simp_all add: split_brackets_def memchr_first nth_append)
  have none: "split_brackets (node @ xs) = ([], None)" for xs
    using assms(1,3) by (cases node) (simp_all add: split_brackets_def)
  show ?thesis
    using br none [of "[]"] none [of "colon # port"] none [of "colon # port @ colon # rest"] assms
    by (simp add: split_host_def memchr_first memchr_none memchr_none [THEN iffD2])
qed

theorem split_host_forms_witness:
  "split_host [0x5B, 0x31, 0x5D, 0x3A, 0x38] = ([0x31], Some [0x38])"
  using split_host_forms [of "[0x61]" "[0x31]" "[0x38]"] by (simp add: colon_def)


text \<open>
  \<open>reinterpret_cast\<close> back from the bytes gives the address; the bytes of an interface with a
  prefix length as \<open>getifaddrs\<close> delivers them.
\<close>

fun whole_ip :: "address \<Rightarrow> bool" where
  "whole_ip (V4 a) \<longleftrightarrow> sin_family a = AF_INET \<and> length (sin_zero a) = 8"
| "whole_ip (V6 a) \<longleftrightarrow> sin6_family a = AF_INET6 \<and> length (s6_addr a) = 16"
| "whole_ip (Unix a) \<longleftrightarrow> False"
| "whole_ip (Unknown a) \<longleftrightarrow> sa_family a \<noteq> AF_INET \<and> sa_family a \<noteq> AF_INET6 \<and> length (sa_data a) = 14"

lemma read_back:
  "of_object host (take 2 (object_bytes host (w :: u16) @ bs)) = w"
  "of_object host (object_bytes host (w :: u16)) = w"
  "of_object host (object_bytes host (v :: u32)) = v"
  by (simp_all add: of_object_bytes)

lemma family_at_bytes: "family_at host (Some (addr_bytes host a)) = Inr (addr_family a)"
  by (cases a) (simp_all add: family_at_def read_back)

lemma Create_bytes: "whole_ip a \<Longrightarrow> Address_Create host (Some (addr_bytes host a)) = Inr (Some a)"
  by (cases a) (simp_all add: Address_Create_def family_at_bytes [simplified] family_at_def read_back
      read_in_def read_in6_def read_sockaddr_def AF_INET_def AF_INET6_def)

definition netmask_bytes :: "byte_order \<Rightarrow> address \<Rightarrow> nat \<Rightarrow> u8 list option" where
  "netmask_bytes host a p =
     (case a of
        V4 _ \<Rightarrow> (case IPv4_subnetMask host (of_nat p) of Inr (Some m) \<Rightarrow> Some (addr_bytes host (V4 m)) | _ \<Rightarrow> None)
      | V6 _ \<Rightarrow> (case IPv6_subnetMask p of Inr m \<Rightarrow> Some (addr_bytes host (V6 m)) | _ \<Rightarrow> None)
      | _ \<Rightarrow> None)"

definition raw_ifaddr :: "byte_order \<Rightarrow> str \<times> address \<times> nat \<Rightarrow> ifaddr" where
  "raw_ifaddr host = (\<lambda>(name, a, p).
     \<lparr>ifa_name = name, ifa_addr = Some (addr_bytes host a), ifa_netmask = netmask_bytes host a p\<rparr>)"

fun prefix_ok :: "address \<Rightarrow> nat \<Rightarrow> bool" where
  "prefix_ok (V4 _) p \<longleftrightarrow> 0 < p \<and> p \<le> 32"
| "prefix_ok (V6 _) p \<longleftrightarrow> p < 128"
| "prefix_ok _ p \<longleftrightarrow> True"

lemma BitCount_ff: "BitCount (0xFF :: u8) = 8" "BitCount (0 :: u8) = 0"
proof -
  have "(NOT (mask 0) :: u8) = 0xFF" by simp
  then show "BitCount (0xFF :: u8) = 8" using BitCount_netmask [where k = 0 and 'a = 8] by (simp only:) simp
  show "BitCount (0 :: u8) = 0" by (simp add: BitCount_pop)
qed

lemma netmask4: 
  assumes "0 < p" and "p \<le> 32"
  shows "\<exists>m. netmask_bytes host (V4 a) p = Some m
    \<and> bindE (mask_at (Some m) 4 4) (\<lambda>x. Inr (BitCount (of_object host x :: u32))) = Inr p"
proof -
  have "unat (of_nat p :: u32) = p" using assms by (simp add: unat_of_nat)
  then have "IPv4_subnetMask host (of_nat p) = Inr (Some (IPv4Address host (NOT (mask (32 - p))) 0))"
    using IPv4_subnetMask_eq [of "of_nat p" host] assms by (metis less_irrefl unat_0)
  then show ?thesis
    using assms BitCount_netmask [where k = "32 - p" and 'a = 32]
    by (simp add: netmask_bytes_def mask_at_def IPv4Address_def read_back BitCount_hostToNetwork)
qed

lemma netmask6:
  assumes "p < 128"
  shows "\<exists>m. netmask_bytes host (V6 a) p = Some m
    \<and> bindE (mask_at (Some m) 8 16) (\<lambda>x. Inr (sum_list (map BitCount x))) = Inr p"
proof -
  have len: "p div 8 + Suc (15 - p div 8) = 16" using assms by simp
  then have sixteen: "16 - p div 8 = Suc (15 - p div 8)" by simp
  have "BitCount (NOT (mask (8 - p mod 8)) :: u8) = p mod 8"
    using BitCount_netmask [where k = "8 - p mod 8" and 'a = 8] by simp
  then show ?thesis
    using assms len IPv6_subnetMask_eq [OF assms]
    by (simp add: netmask_bytes_def mask_at_def empty_IPv6Address_def BitCount_ff sum_list_replicate sixteen)
qed

text \<open>What the enumeration keeps of an interface.\<close>

definition kept :: "u16 \<Rightarrow> str \<times> address \<times> nat \<Rightarrow> bool" where
  "kept family = (\<lambda>(_, a, _). (addr_family a = AF_INET \<or> addr_family a = AF_INET6)
     \<and> (family = AF_UNSPEC \<or> addr_family a = family))"

lemma interface_entry_raw:
  assumes "whole_ip a" and "prefix_ok a p"
  shows "interface_entry host family (raw_ifaddr host (name, a, p))
    = Inr (if kept family (name, a, p) then [(name, a, of_nat p)] else [])"
proof (cases a)
  case (V4 x)
  with assms obtain m where "netmask_bytes host (V4 x) p = Some m"
      "bindE (mask_at (Some m) 4 4) (\<lambda>x. Inr (BitCount (of_object host x :: u32))) = Inr p"
    using netmask4 by (metis prefix_ok.simps(1))
  then show ?thesis
    using assms V4 Create_bytes [OF assms(1), of host] family_at_bytes [of host a]
    by (auto simp: interface_entry_def raw_ifaddr_def kept_def faults simp del: addr_bytes.simps)
next
  case (V6 x)
  with assms obtain m where "netmask_bytes host (V6 x) p = Some m"
      "bindE (mask_at (Some m) 8 16) (\<lambda>x. Inr (sum_list (map BitCount x))) = Inr p"
    using netmask6 by (metis prefix_ok.simps(2))
  moreover have "AF_INET6 \<noteq> AF_INET" by (simp add: AF_INET_def AF_INET6_def)
  ultimately show ?thesis
    using assms V6 Create_bytes [OF assms(1), of host] family_at_bytes [of host a]
    by (auto simp: interface_entry_def raw_ifaddr_def kept_def faults simp del: addr_bytes.simps)
next
  case (Unknown x)
  then show ?thesis
    using assms family_at_bytes [of host a]
    by (auto simp: interface_entry_def raw_ifaddr_def kept_def simp del: addr_bytes.simps)
qed (use assms in simp)

section \<open>Interface property\<close>

text \<open>
  \<open>GetInterfaceAddresses\<close> of a name delivers exactly the IPv4 and IPv6 addresses of that
  interface and of the family asked for, in the order of the system's list, each with the
  prefix length whose \<open>subnetMask\<close> is its netmask, on a host of either byte order.
\<close>

theorem interface_prefixes:
  fixes host :: byte_order and ifs :: "(str \<times> address \<times> nat) list" and iface :: str and family :: u16
  assumes "\<forall>(name, a, p) \<in> set ifs. whole_ip a \<and> prefix_ok a p"
    and "iface \<noteq> []" and "iface \<noteq> chars ''*''"
  defines "found \<equiv> filter (\<lambda>e. fst e = iface \<and> kept family e) ifs"
  shows "GetInterfaceAddresses_of host (Some (map (raw_ifaddr host) ifs)) [] iface family
    = Inr (found \<noteq> [], map (\<lambda>(_, a, p). (a, of_nat p)) found)"
proof -
  let ?out = "\<lambda>e. if kept family e then [(fst e, fst (snd e), of_nat (snd (snd e)) :: u32)] else []"
  have "mapE (interface_entry host family) (map (raw_ifaddr host) ifs) = Inr (map ?out ifs)"
    using assms(1) interface_entry_raw unfolding mapE_map by (intro mapE_ok) fastforce
  then have "GetInterfaceAddresses host (Some (map (raw_ifaddr host) ifs)) [] family
      = Inr (concat (map ?out ifs) \<noteq> [], concat (map ?out ifs))"
    by (simp add: GetInterfaceAddresses_def)
  moreover have "map snd (filter (\<lambda>e. fst e = iface) (concat (map ?out ifs)))
      = map (\<lambda>(_, a, p). (a, of_nat p)) found"
    unfolding found_def by (induction ifs) auto
  moreover have "concat (map ?out ifs) = [] \<Longrightarrow> found = []"
    unfolding found_def by (auto simp: filter_empty_conv split: if_splits)
  ultimately show ?thesis
    using assms(2,3) by (auto simp: GetInterfaceAddresses_of_def)
qed

theorem interface_prefixes_witness:
  "GetInterfaceAddresses_of EASY_BIG_ENDIAN (Some (map (raw_ifaddr EASY_BIG_ENDIAN)
       [([101], V4 (IPv4Address EASY_BIG_ENDIAN 0x0A000001 0), 24), ([101], V6 empty_IPv6Address, 64)])) [] [101] AF_INET
     = Inr (True, [(V4 (IPv4Address EASY_BIG_ENDIAN 0x0A000001 0), 24)])"
proof -
  let ?ifs = "[([101], V4 (IPv4Address EASY_BIG_ENDIAN 0x0A000001 0), 24), ([101], V6 empty_IPv6Address, 64)]"
  have "\<forall>(name, a, p) \<in> set ?ifs. whole_ip a \<and> prefix_ok a p"
    by (simp add: IPv4Address_def empty_IPv6Address_def)
  moreover have "[101] \<noteq> chars ''*''" by (simp add: chars_def)
  moreover have "filter (\<lambda>e. fst e = [101] \<and> kept AF_INET e) ?ifs = [hd ?ifs]"
    by (simp add: kept_def IPv4Address_def empty_IPv6Address_def AF_INET_def AF_INET6_def AF_UNSPEC_def)
  ultimately show ?thesis
    using interface_prefixes [of ?ifs "[101]" EASY_BIG_ENDIAN AF_INET] by simp
qed

end
