(* ===== verification/Socket.thy ===== *)
theory Socket imports HookCalls AddressLookup FileUtil begin

text \<open>
  \<open>easy/net/Socket.h\<close>, \<open>easy/net/Socket.cc\<close>: sockets over the hooked calls of \<open>easy/base/hook.cc\<close>. An
  operation that may wait is modelled as what it does up to the hooked call, whose outcome it passes
  on, and what it does with the call's result. The system calls that are not hooked, and the originals
  of those that are, are a record of functions of the kernel's state; what is logged is left out.
\<close>

section \<open>The platform\<close>

text \<open>
  \<open>p_fresh\<close> and \<open>p_ctx\<close> are the addresses the allocator gives; \<open>k_getsockname\<close> and \<open>k_getpeername\<close> give
  a result, an error number, the address as the kernel leaves it and its length.
\<close>

record 'k platform =
  p_ctl :: epoll_ctl
  p_fstat :: fstat
  p_fresh :: "'k hook \<Rightarrow> fresh"
  p_ctx :: "'k hook \<Rightarrow> nat"
  p_connect_timeout :: u64
  k_socket :: "int \<Rightarrow> int \<Rightarrow> int \<Rightarrow> 'k syscall"
  k_bind :: "int \<Rightarrow> address \<Rightarrow> 'k syscall"
  k_listen :: "int \<Rightarrow> int \<Rightarrow> 'k syscall"
  k_close :: "int \<Rightarrow> 'k syscall"
  k_accept :: "int \<Rightarrow> 'k syscall"
  k_connect :: "int \<Rightarrow> address \<Rightarrow> 'k syscall"
  k_sndtimeo :: "int \<Rightarrow> u64 \<Rightarrow> 'k syscall"
  k_so_error :: "int \<Rightarrow> 'k \<Rightarrow> (int \<times> int \<times> int) \<times> 'k"
  k_setsockopt :: "int \<Rightarrow> int \<Rightarrow> int \<Rightarrow> int \<times> int \<Rightarrow> 'k syscall"
  k_getsockname :: "int \<Rightarrow> address \<Rightarrow> 'k \<Rightarrow> ((int \<times> int) \<times> address \<times> nat) \<times> 'k"
  k_getpeername :: "int \<Rightarrow> address \<Rightarrow> 'k \<Rightarrow> ((int \<times> int) \<times> address \<times> nat) \<times> 'k"
  k_unlink :: "str \<Rightarrow> 'k syscall"
  k_tcp_state :: "int \<Rightarrow> 'k \<Rightarrow> int"

definition SOCK_STREAM :: int where "SOCK_STREAM = 1"
definition SOCK_DGRAM :: int where "SOCK_DGRAM = 2"
definition SO_REUSEADDR :: int where "SO_REUSEADDR = 2"
definition IPPROTO_TCP :: int where "IPPROTO_TCP = 6"
definition TCP_NODELAY :: int where "TCP_NODELAY = 1"
definition TCP_ESTABLISHED :: int where "TCP_ESTABLISHED = 1"
definition SOMAXCONN :: int where "SOMAXCONN = 4096"

section \<open>State\<close>

record sock =
  s_fd :: int
  s_family :: int
  s_type :: int
  s_protocol :: int
  s_connected :: bool
  s_local :: "address option"
  s_remote :: "address option"

definition new_Socket :: "int \<Rightarrow> int \<Rightarrow> int \<Rightarrow> sock" where
  "new_Socket family type protocol =
     \<lparr>s_fd = -1, s_family = family, s_type = type, s_protocol = protocol, s_connected = False,
      s_local = None, s_remote = None\<rparr>"

definition Socket_isValid :: "sock \<Rightarrow> bool" where
  "Socket_isValid x \<longleftrightarrow> s_fd x \<noteq> -1"

text \<open>The hooked calls that never wait have a result.\<close>

definition result_of :: "outcome \<Rightarrow> int" where
  "result_of out = (case out of Ret n \<Rightarrow> n | Park _ \<Rightarrow> -1)"

section \<open>Options\<close>

definition setOption :: "'k platform \<Rightarrow> int \<Rightarrow> int \<Rightarrow> int \<times> int \<Rightarrow> sock \<Rightarrow> 'k hook \<Rightarrow> bool \<times> 'k hook" where
  "setOption P level option v x w =
     (let (n, w1) = hook_setsockopt (k_setsockopt P (s_fd x) level option v) (s_fd x) level option v w in (n = 0, w1))"

text \<open>The milliseconds as a \<open>timeval\<close>.\<close>

definition timeval :: "int \<Rightarrow> int \<times> int" where
  "timeval v = (v sdiv 1000, v smod 1000 * 1000)"

definition setSendTimeout :: "'k platform \<Rightarrow> int \<Rightarrow> sock \<Rightarrow> 'k hook \<Rightarrow> bool \<times> 'k hook" where
  "setSendTimeout P v x w = setOption P SOL_SOCKET SO_SNDTIMEO (timeval v) x w"

definition setRecvTimeout :: "'k platform \<Rightarrow> int \<Rightarrow> sock \<Rightarrow> 'k hook \<Rightarrow> bool \<times> 'k hook" where
  "setRecvTimeout P v x w = setOption P SOL_SOCKET SO_RCVTIMEO (timeval v) x w"

definition socket_timeout :: "int \<Rightarrow> sock \<Rightarrow> 'k hook \<Rightarrow> int" where
  "socket_timeout so x w = (case fd_ctx w (s_fd x) of None \<Rightarrow> -1 | Some (p, c) \<Rightarrow> sint (getTimeout c so))"

definition getSendTimeout :: "sock \<Rightarrow> 'k hook \<Rightarrow> int" where
  "getSendTimeout x w = socket_timeout SO_SNDTIMEO x w"

definition getRecvTimeout :: "sock \<Rightarrow> 'k hook \<Rightarrow> int" where
  "getRecvTimeout x w = socket_timeout SO_RCVTIMEO x w"

text \<open>\<open>getOption\<close> with what the kernel stores at \<open>result\<close>, \<open>None\<close> when the call fails; \<open>getsockopt\<close> is hooked without effect.\<close>

definition getOption :: "('k \<Rightarrow> (int \<times> int \<times> 'a) \<times> 'k) \<Rightarrow> 'k hook \<Rightarrow> 'a option \<times> 'k hook" where
  "getOption f w =
     (let ((r, e, v), k) = f (kern w) in
      if r \<noteq> 0 then (None, w\<lparr>kern := k, errno := e\<rparr>) else (Some v, w\<lparr>kern := k\<rparr>))"

definition getError :: "'k platform \<Rightarrow> sock \<Rightarrow> 'k hook \<Rightarrow> int \<times> 'k hook" where
  "getError P x w =
     (let (v, w1) = getOption (k_so_error P (s_fd x)) w in
      ((case v of None \<Rightarrow> errno w1 | Some err \<Rightarrow> err), w1))"

definition checkConnected :: "'k platform \<Rightarrow> sock \<Rightarrow> 'k hook \<Rightarrow> bool \<times> sock" where
  "checkConnected P x w =
     (let c = (k_tcp_state P (s_fd x) (kern w) = TCP_ESTABLISHED) in (c, x\<lparr>s_connected := c\<rparr>))"

section \<open>Opening and closing\<close>

definition initSock :: "'k platform \<Rightarrow> sock \<Rightarrow> 'k hook \<Rightarrow> 'k hook" where
  "initSock P x w =
     (let w1 = snd (setOption P SOL_SOCKET SO_REUSEADDR (1, 0) x w) in
      if s_type x = SOCK_STREAM then snd (setOption P IPPROTO_TCP TCP_NODELAY (1, 0) x w1) else w1)"

definition newSock :: "'k platform \<Rightarrow> sock \<Rightarrow> 'k hook \<Rightarrow> fault + sock \<times> 'k hook" where
  "newSock P x w =
     bindE (hook_socket (p_fstat P) (p_ctx P w) (k_socket P (s_family x) (s_type x) (s_protocol x)) w) (\<lambda>(out, w1).
       let x1 = x\<lparr>s_fd := result_of out\<rparr> in
       Inr (if s_fd x1 \<noteq> -1 then (x1, initSock P x1 w1) else (x1, w1)))"

definition Socket_close :: "'k platform \<Rightarrow> sock \<Rightarrow> 'k hook \<Rightarrow> fault + bool \<times> sock \<times> 'k hook" where
  "Socket_close P x w =
     (if \<not> s_connected x \<and> s_fd x = -1 then Inr (True, x, w)
      else let x1 = x\<lparr>s_connected := False\<rparr> in
        if s_fd x1 \<noteq> -1
        then bindE (hook_close (p_ctl P) (s_fd x1) (k_close P (s_fd x1)) w) (\<lambda>(_, w1).
          Inr (False, x1\<lparr>s_fd := -1\<rparr>, w1))
        else Inr (False, x1, w))"

text \<open>The factories. The ones for UDP open the descriptor, the one for Unix datagrams does not.\<close>

definition CreateTCP :: "address \<Rightarrow> sock" where
  "CreateTCP a = new_Socket (uint (addr_family a)) SOCK_STREAM 0"

definition open_udp :: "'k platform \<Rightarrow> int \<Rightarrow> 'k hook \<Rightarrow> fault + sock \<times> 'k hook" where
  "open_udp P family w =
     bindE (newSock P (new_Socket family SOCK_DGRAM 0) w) (\<lambda>(x, w1). Inr (x\<lparr>s_connected := True\<rparr>, w1))"

definition CreateUDP :: "'k platform \<Rightarrow> address \<Rightarrow> 'k hook \<Rightarrow> fault + sock \<times> 'k hook" where
  "CreateUDP P a w = open_udp P (uint (addr_family a)) w"

definition CreateTCPSocket where "CreateTCPSocket = new_Socket (uint AF_INET) SOCK_STREAM 0"
definition CreateUDPSocket where "CreateUDPSocket P w = open_udp P (uint AF_INET) w"
definition CreateTCPSocket6 where "CreateTCPSocket6 = new_Socket (uint AF_INET6) SOCK_STREAM 0"
definition CreateUDPSocket6 where "CreateUDPSocket6 P w = open_udp P (uint AF_INET6) w"
definition CreateUnixTCPSocket where "CreateUnixTCPSocket = new_Socket (uint AF_UNIX) SOCK_STREAM 0"
definition CreateUnixUDPSocket where "CreateUnixUDPSocket = new_Socket (uint AF_UNIX) SOCK_DGRAM 0"

section \<open>Addresses\<close>

definition family_address :: "int \<Rightarrow> byte_order \<Rightarrow> address" where
  "family_address family host =
     (if family = uint AF_INET then V4 (IPv4Address host 0 0)
      else if family = uint AF_INET6 then V6 empty_IPv6Address
      else if family = uint AF_UNIX then Unix empty_UnixAddress
      else Unknown (UnknownAddress family))"

text \<open>What is made of the kernel's answer; the length is kept for Unix addresses only.\<close>

definition answered_address ::
    "int \<Rightarrow> ((int \<times> int) \<times> address \<times> nat) \<times> 'k \<Rightarrow> 'k hook \<Rightarrow> address option \<times> 'k hook" where
  "answered_address family ans w =
     (let (((r, e), a, len), k) = ans; w1 = w\<lparr>kern := k\<rparr> in
      if r \<noteq> 0 then (None, w1\<lparr>errno := e\<rparr>)
      else (Some (if family = uint AF_UNIX
                  then (case a of Unix u \<Rightarrow> Unix (setAddrLen u len) | b \<Rightarrow> b) else a), w1))"

definition getRemoteAddress :: "byte_order \<Rightarrow> 'k platform \<Rightarrow> sock \<Rightarrow> 'k hook \<Rightarrow> address \<times> sock \<times> 'k hook" where
  "getRemoteAddress host P x w =
     (case s_remote x of
        Some a \<Rightarrow> (a, x, w)
      | None \<Rightarrow>
          let (ans, w1) = answered_address (s_family x)
                (k_getpeername P (s_fd x) (family_address (s_family x) host) (kern w)) w in
          (case ans of
             None \<Rightarrow> (Unknown (UnknownAddress (s_family x)), x, w1)
           | Some a \<Rightarrow> (a, x\<lparr>s_remote := Some a\<rparr>, w1)))"

definition getLocalAddress :: "byte_order \<Rightarrow> 'k platform \<Rightarrow> sock \<Rightarrow> 'k hook \<Rightarrow> address \<times> sock \<times> 'k hook" where
  "getLocalAddress host P x w =
     (case s_local x of
        Some a \<Rightarrow> (a, x, w)
      | None \<Rightarrow>
          let (ans, w1) = answered_address (s_family x)
                (k_getsockname P (s_fd x) (family_address (s_family x) host) (kern w)) w in
          (case ans of
             None \<Rightarrow> (Unknown (UnknownAddress (s_family x)), x, w1)
           | Some a \<Rightarrow> (a, x\<lparr>s_local := Some a\<rparr>, w1)))"

section \<open>Accepting\<close>

definition Socket_init :: "byte_order \<Rightarrow> 'k platform \<Rightarrow> int \<Rightarrow> sock \<Rightarrow> 'k hook \<Rightarrow> bool \<times> sock \<times> 'k hook" where
  "Socket_init host P fd x w =
     (case fd_ctx w fd of
        None \<Rightarrow> (False, x, w)
      | Some (p, c) \<Rightarrow>
          if isSocket c \<and> \<not> isClosed c
          then let x1 = x\<lparr>s_fd := fd, s_connected := True\<rparr>;
                   (_, x2, w2) = getLocalAddress host P x1 (initSock P x1 w);
                   (_, x3, w3) = getRemoteAddress host P x2 w2 in (True, x3, w3)
          else (False, x, w))"

definition Socket_accept_call :: "'k platform \<Rightarrow> sock \<Rightarrow> 'k hook \<Rightarrow> (fault + outcome \<times> 'k hook) option" where
  "Socket_accept_call P x w =
     hook_accept (p_fstat P) (p_ctx P w) (p_ctl P) (p_fresh P w) (s_fd x) (k_accept P (s_fd x)) w"

text \<open>The new socket, or \<open>None\<close>, the null pointer; a socket that is not returned is destroyed.\<close>

definition Socket_accept_return ::
    "byte_order \<Rightarrow> 'k platform \<Rightarrow> sock \<Rightarrow> int \<Rightarrow> 'k hook \<Rightarrow> fault + sock option \<times> 'k hook" where
  "Socket_accept_return host P x newFd w =
     (if newFd = -1 then Inr (None, w)
      else let (ok, y, w1) = Socket_init host P newFd (new_Socket (s_family x) (s_type x) (s_protocol x)) w in
        if ok then Inr (Some y, w1) else bindE (Socket_close P y w1) (\<lambda>(_, _, w2). Inr (None, w2)))"

section \<open>Connecting\<close>

text \<open>
  \<open>connect\<close> up to the hooked call: \<open>Inl\<close> is a result without a call. \<open>-1UL\<close> stands for the configured
  timeout.
\<close>

definition Socket_connect_call ::
    "'k platform \<Rightarrow> address \<Rightarrow> u64 \<Rightarrow> sock \<Rightarrow> 'k hook \<Rightarrow> fault + (bool + outcome) \<times> sock \<times> 'k hook" where
  "Socket_connect_call P addr timeout_ms x w =
     (let x0 = x\<lparr>s_remote := Some addr\<rparr> in
      bindE (if \<not> Socket_isValid x0 then newSock P x0 w else Inr (x0, w)) (\<lambda>(x1, w1).
        if \<not> Socket_isValid x1 then Inr (Inl False, x1, w1)
        else if uint (addr_family addr) \<noteq> s_family x1 then Inr (Inl False, x1, w1)
        else bindE
          (if timeout_ms = -1
           then hook_connect (p_connect_timeout P) (p_ctl P) (p_fresh P w1) (s_fd x1)
                  (k_sndtimeo P (s_fd x1) (p_connect_timeout P)) (k_connect P (s_fd x1) addr)
                  (k_so_error P (s_fd x1)) w1
           else connect_with_timeout (p_ctl P) (p_fresh P w1) (s_fd x1) timeout_ms
                  (k_sndtimeo P (s_fd x1) timeout_ms) (k_connect P (s_fd x1) addr)
                  (k_so_error P (s_fd x1)) w1) (\<lambda>(out, w2).
          Inr (Inr out, x1, w2))))"

definition Socket_connect_return ::
    "byte_order \<Rightarrow> 'k platform \<Rightarrow> int \<Rightarrow> sock \<Rightarrow> 'k hook \<Rightarrow> fault + bool \<times> sock \<times> 'k hook" where
  "Socket_connect_return host P n x w =
     (if n \<noteq> 0 then bindE (Socket_close P x w) (\<lambda>(_, x1, w1). Inr (False, x1, w1))
      else let x1 = x\<lparr>s_connected := True\<rparr>;
               (_, x2, w2) = getRemoteAddress host P x1 w;
               (_, x3, w3) = getLocalAddress host P x2 w2 in
        Inr (True, x3, w3))"

definition Socket_reconnect_call ::
    "'k platform \<Rightarrow> u64 \<Rightarrow> sock \<Rightarrow> 'k hook \<Rightarrow> fault + (bool + outcome) \<times> sock \<times> 'k hook" where
  "Socket_reconnect_call P timeout_ms x w =
     (case s_remote x of
        None \<Rightarrow> Inr (Inl False, x, w)
      | Some a \<Rightarrow> Socket_connect_call P a timeout_ms (x\<lparr>s_local := None\<rparr>) w)"

section \<open>Binding and listening\<close>

text \<open>
  \<open>bind\<close> up to the probe of a Unix address: \<open>Inl\<close> is a result, \<open>Inr True\<close> that a probe is due,
  \<open>Inr False\<close> that there is none.
\<close>

definition Socket_bind_check ::
    "'k platform \<Rightarrow> address \<Rightarrow> sock \<Rightarrow> 'k hook \<Rightarrow> fault + (bool + bool) \<times> sock \<times> 'k hook" where
  "Socket_bind_check P addr x w =
     bindE (if \<not> Socket_isValid x then newSock P x w else Inr (x, w)) (\<lambda>(x1, w1).
       Inr (if \<not> Socket_isValid x1 \<or> uint (addr_family addr) \<noteq> s_family x1 then Inl False
            else Inr (case addr of Unix u \<Rightarrow> True | _ \<Rightarrow> False), x1, w1))"

definition Socket_bind_finish ::
    "byte_order \<Rightarrow> 'k platform \<Rightarrow> address \<Rightarrow> sock \<Rightarrow> 'k hook \<Rightarrow> bool \<times> sock \<times> 'k hook" where
  "Socket_bind_finish host P addr x w =
     (let (n, w1) = sys (k_bind P (s_fd x) addr) w in
      if n \<noteq> 0 then (False, x, w1)
      else let (_, x1, w2) = getLocalAddress host P x w1 in (True, x1, w2))"

text \<open>
  The probe is a socket that connects; it is destroyed in either case. A path nobody accepts on is
  unlinked.
\<close>

definition Socket_bind_probed ::
    "byte_order \<Rightarrow> 'k platform \<Rightarrow> address \<Rightarrow> bool \<Rightarrow> sock \<Rightarrow> sock \<Rightarrow> 'k hook \<Rightarrow> fault + bool \<times> sock \<times> 'k hook" where
  "Socket_bind_probed host P addr reached probe x w =
     (if reached then bindE (Socket_close P probe w) (\<lambda>(_, _, w1). Inr (False, x, w1))
      else let w1 = (case addr of Unix u \<Rightarrow> snd (sys (k_unlink P (c_str (un_path u))) w) | _ \<Rightarrow> w) in
        bindE (Socket_close P probe w1) (\<lambda>(_, _, w2). Inr (Socket_bind_finish host P addr x w2)))"

text \<open>\<open>bind\<close> as a whole; \<open>probe\<close> is the probe's \<open>connect\<close> run to its end, whatever it waits for.\<close>

type_synonym 'k probe = "address \<Rightarrow> sock \<Rightarrow> 'k hook \<Rightarrow> fault + bool \<times> sock \<times> 'k hook"

definition Socket_bind ::
    "byte_order \<Rightarrow> 'k platform \<Rightarrow> 'k probe \<Rightarrow> address \<Rightarrow> sock \<Rightarrow> 'k hook \<Rightarrow> fault + bool \<times> sock \<times> 'k hook" where
  "Socket_bind host P probe addr x w =
     bindE (Socket_bind_check P addr x w) (\<lambda>(r, x1, w1). case r of
         Inl b \<Rightarrow> Inr (b, x1, w1)
       | Inr b \<Rightarrow>
           if b then bindE (probe addr CreateUnixTCPSocket w1) (\<lambda>(c, y, w2).
               Socket_bind_probed host P addr c y x1 w2)
           else Inr (Socket_bind_finish host P addr x1 w1))"

definition Socket_listen :: "'k platform \<Rightarrow> int \<Rightarrow> sock \<Rightarrow> 'k hook \<Rightarrow> bool \<times> 'k hook" where
  "Socket_listen P backlog x w =
     (if \<not> Socket_isValid x then (False, w)
      else let (n, w1) = sys (k_listen P (s_fd x) backlog) w in (n = 0, w1))"

section \<open>Sending and receiving\<close>

text \<open>Only a connected socket calls; the result is cut to an \<open>int\<close>.\<close>

definition when_connected ::
    "sock \<Rightarrow> 'k hook \<Rightarrow> (fault + outcome \<times> 'k hook) option \<Rightarrow> (fault + outcome \<times> 'k hook) option" where
  "when_connected x w call = (if s_connected x then call else Some (Inr (Ret (-1), w)))"

definition to_c_int :: "int \<Rightarrow> int" where
  "to_c_int n = sint (of_int n :: u32)"

definition Socket_send where
  "Socket_send P f x w = when_connected x w (hook_send (p_ctl P) (p_fresh P w) (s_fd x) f w)"

definition Socket_send_iov where
  "Socket_send_iov P f x w = when_connected x w (hook_sendmsg (p_ctl P) (p_fresh P w) (s_fd x) f w)"

definition Socket_sendTo where
  "Socket_sendTo P f x w = when_connected x w (hook_sendto (p_ctl P) (p_fresh P w) (s_fd x) f w)"

definition Socket_sendTo_iov where
  "Socket_sendTo_iov P f x w = when_connected x w (hook_sendmsg (p_ctl P) (p_fresh P w) (s_fd x) f w)"

definition Socket_recv where
  "Socket_recv P f x w = when_connected x w (hook_recv (p_ctl P) (p_fresh P w) (s_fd x) f w)"

definition Socket_recv_iov where
  "Socket_recv_iov P f x w = when_connected x w (hook_recvmsg (p_ctl P) (p_fresh P w) (s_fd x) f w)"

definition Socket_recvFrom where
  "Socket_recvFrom P f x w = when_connected x w (hook_recvfrom (p_ctl P) (p_fresh P w) (s_fd x) f w)"

definition Socket_recvFrom_iov where
  "Socket_recvFrom_iov P f x w = when_connected x w (hook_recvmsg (p_ctl P) (p_fresh P w) (s_fd x) f w)"

section \<open>Cancelling and showing\<close>

definition on_reactor :: "(iom \<Rightarrow> fault + bool \<times> iom) \<Rightarrow> 'k hook \<Rightarrow> fault + bool \<times> 'k hook" where
  "on_reactor f w =
     (if \<not> in_io w then Inl NullDeref else bindE (f (reactor w)) (\<lambda>(b, m). Inr (b, w\<lparr>reactor := m\<rparr>)))"

definition cancelRead where
  "cancelRead P x w = on_reactor (cancelEvent (p_ctl P) (s_fd x) READ) w"

definition cancelWrite where
  "cancelWrite P x w = on_reactor (cancelEvent (p_ctl P) (s_fd x) WRITE) w"

definition cancelAccept where
  "cancelAccept P x w = on_reactor (cancelEvent (p_ctl P) (s_fd x) READ) w"

definition Socket_cancelAll where
  "Socket_cancelAll P x w = on_reactor (cancelAll (p_ctl P) (s_fd x)) w"

definition show_bool :: "bool \<Rightarrow> str" where
  "show_bool b = (if b then chars ''1'' else chars ''0'')"

definition sock_text :: "byte_order \<Rightarrow> str \<Rightarrow> sock \<Rightarrow> str" where
  "sock_text host name x =
     chars ''['' @ name @ chars '' fd='' @ show_int (s_fd x) @ chars '' connected='' @ show_bool (s_connected x)
     @ chars '' family='' @ show_int (s_family x) @ chars '' type='' @ show_int (s_type x)
     @ chars '' protocol='' @ show_int (s_protocol x)
     @ (case s_local x of None \<Rightarrow> [] | Some a \<Rightarrow> chars '' local='' @ addr_insert host a)
     @ (case s_remote x of None \<Rightarrow> [] | Some a \<Rightarrow> chars '' remote='' @ addr_insert host a) @ chars '']''"

definition Socket_dump where "Socket_dump host x = sock_text host (chars ''Socket'') x"

end
