(* ===== verification/SocketState.thy ===== *)
theory SocketState imports Socket begin

text \<open>
  Properties of \<open>easy/net/Socket.cc\<close>: that a connected stream socket has a descriptor, how a connection
  ends, what accepting gives, and that a timeout set on a socket is the one its blocked calls wait.
\<close>

section \<open>Closing\<close>

text \<open>What a close needs of the reactor.\<close>

definition closable :: "sock \<Rightarrow> 'k hook \<Rightarrow> bool" where
  "closable x w \<longleftrightarrow> 0 \<le> s_fd x \<and> s_fd x < 2 ^ 31 \<and> (in_io w \<longrightarrow> iom_ok (reactor w))"

lemma sys_simps:
  "kern (snd (sys f w)) = snd (f (kern w))" "fst (sys f w) = fst (fst (f (kern w)))"
  "reactor (snd (sys f w)) = reactor w" "fds (snd (sys f w)) = fds w" "enabled (snd (sys f w)) = enabled w"
  "in_io (snd (sys f w)) = in_io w"
  by (simp_all add: sys_def split: prod.splits)

lemma fd_ctx_fds: "fds w' = fds w \<Longrightarrow> fd_ctx w' fd = fd_ctx w fd"
  by (auto simp: fd_ctx_def split: option.splits)

lemma fd_ctx_removed: "fds w' = removeFdCtx fd (fds w) \<Longrightarrow> fd_ctx w' fd = None"
  by (simp add: fd_ctx_def getFdCtx_read_def removeFdCtx_def Let_def split: option.splits if_splits)

lemma hook_close_ok:
  assumes "0 \<le> fd" and "fd < 2 ^ 31" and "in_io w \<longrightarrow> iom_ok (reactor w)"
  obtains n w1 where "hook_close ctl fd f w = Inr (Ret n, w1)" and "kern w1 = snd (f (kern w))"
    and "in_io w1 \<longrightarrow> iom_ok (reactor w1)" and "enabled w \<Longrightarrow> fd_ctx w1 fd = None" and "enabled w1 = enabled w"
    and "in_io w1 = in_io w"
proof (cases "\<not> enabled w \<or> fd_ctx w fd = None")
  case True
  then have "hook_close ctl fd f w = Inr (Ret (fst (sys f w)), snd (sys f w))"
    by (simp add: hook_close_def passed_def split: prod.splits)
  then show ?thesis
  proof (rule that)
    show "fd_ctx (snd (sys f w)) fd = None" if "enabled w"
      using True that fd_ctx_fds [of "snd (sys f w)" w fd] by (simp add: sys_simps)
  qed (use assms(3) in \<open>simp_all add: sys_simps\<close>)
next
  case False
  obtain w1 where w1: "(if in_io w then bindE (cancelAll ctl fd (reactor w)) (\<lambda>(_, m). Inr (w\<lparr>reactor := m\<rparr>)) else Inr w)
        = Inr w1" "in_io w1 \<longrightarrow> iom_ok (reactor w1)" "kern w1 = kern w" "fds w1 = fds w" "enabled w1 = enabled w"
      "in_io w1 = in_io w"
  proof (cases "in_io w")
    case True
    then have "iom_ok (reactor w)" using assms(3) by simp
    then obtain r m where "cancelAll ctl fd (reactor w) = Inr (r, m)" "iom_ok m"
      using assms(1,2) by (rule cancelAll_keeps [of "reactor w" fd ctl])
    then show ?thesis using True by (intro that [of "w\<lparr>reactor := m\<rparr>"]) simp_all
  next
    case False
    then show ?thesis by (intro that [of w]) simp_all
  qed
  let ?w = "w1\<lparr>fds := removeFdCtx fd (fds w1)\<rparr>"
  have "hook_close ctl fd f w = Inr (Ret (fst (sys f ?w)), snd (sys f ?w))"
    unfolding hook_close_def w1(1) using False by (cases "sys f ?w") (auto simp: passed_def)
  then show ?thesis
  proof (rule that)
    show "fd_ctx (snd (sys f ?w)) fd = None" by (rule fd_ctx_removed [where w = w1]) (simp add: sys_simps)
  qed (use w1(2-6) in \<open>simp_all add: sys_simps\<close>)
qed

lemma Socket_close_ok:
  assumes "closable x w"
  obtains w1 where "Socket_close P x w = Inr (False, x\<lparr>s_connected := False, s_fd := -1\<rparr>, w1)"
    and "kern w1 = snd (k_close P (s_fd x) (kern w))" and "in_io w1 \<longrightarrow> iom_ok (reactor w1)"
    and "enabled w \<Longrightarrow> fd_ctx w1 (s_fd x) = None" and "enabled w1 = enabled w" and "in_io w1 = in_io w"
proof -
  have "0 \<le> s_fd x" "s_fd x < 2 ^ 31" "in_io w \<longrightarrow> iom_ok (reactor w)" using assms by (simp_all add: closable_def)
  then obtain n w1 where "hook_close (p_ctl P) (s_fd x) (k_close P (s_fd x)) w = Inr (Ret n, w1)"
      "kern w1 = snd (k_close P (s_fd x) (kern w))" "in_io w1 \<longrightarrow> iom_ok (reactor w1)"
      "enabled w \<Longrightarrow> fd_ctx w1 (s_fd x) = None" "enabled w1 = enabled w" "in_io w1 = in_io w"
    by (rule hook_close_ok [where ctl = "p_ctl P" and f = "k_close P (s_fd x)"]) blast
  then show ?thesis using assms by (intro that [of w1]) (simp_all add: Socket_close_def closable_def)
qed

section \<open>Opening\<close>

definition fd_ok :: "int \<Rightarrow> bool" where
  "fd_ok fd \<longleftrightarrow> fd = -1 \<or> 0 \<le> fd \<and> fd < 2 ^ 31"

definition hook_ok :: "'k hook \<Rightarrow> bool" where
  "hook_ok w \<longleftrightarrow> datas (fds w) \<noteq> [] \<and> (in_io w \<longrightarrow> iom_ok (reactor w))"

text \<open>The kernel gives descriptors that are \<open>int\<close>s and not negative but for -1.\<close>

definition platform_ok :: "'k platform \<Rightarrow> bool" where
  "platform_ok P \<longleftrightarrow> (\<forall>f t p k. fd_ok (fst (fst (k_socket P f t p k))))"

lemma hook_ok_same: "fds w1 = fds w \<Longrightarrow> reactor w1 = reactor w \<Longrightarrow> in_io w1 = in_io w \<Longrightarrow> hook_ok w1 = hook_ok w"
  by (simp add: hook_ok_def)

lemma hook_ok_sys [simp]: "hook_ok (snd (sys f w)) = hook_ok w"
  by (rule hook_ok_same) (simp_all add: sys_simps)

lemma hook_ok_with_ctx [simp]: "hook_ok (with_ctx p c w) = hook_ok w"
  by (simp add: hook_ok_def with_ctx_def)

lemma setOption_ok [simp]: "hook_ok (snd (setOption P level so v x w)) = hook_ok w"
proof -
  have "snd (setOption P level so v x w)
      = snd (hook_setsockopt (k_setsockopt P (s_fd x) level so v) (s_fd x) level so v w)"
    by (simp add: setOption_def split: prod.splits)
  then show ?thesis by (auto simp: hook_setsockopt_def split: option.splits)
qed

lemma initSock_ok [simp]: "hook_ok (initSock P x w) = hook_ok w"
  by (simp add: initSock_def Let_def)

lemma register_ok:
  assumes "hook_ok w" and "0 \<le> fd" and "fd < 2 ^ 31"
  obtains w1 where "register_fd fstat q fd w = Inr w1" and "hook_ok w1"
proof (cases "getFdCtx_read fd True (fds w)")
  case None
  obtain m where "getFdCtx_create fstat q fd (fds w) = Inr (Some q, m)" "datas m \<noteq> []"
    using getFdCtx_create_ok [OF assms(2,3), of "fds w" fstat q] assms(1) unfolding hook_ok_def by metis
  then show ?thesis
    using that [of "w\<lparr>fds := m\<rparr>"] None assms(1) by (simp add: register_fd_def getFdCtx_def hook_ok_def)
next
  case (Some p)
  then show ?thesis using that [of w] assms(1) by (simp add: register_fd_def getFdCtx_def)
qed

text \<open>What the kernel has answered to some call.\<close>

definition answers :: "'k syscall \<Rightarrow> (int \<Rightarrow> bool) \<Rightarrow> bool" where
  "answers f Q \<longleftrightarrow> (\<exists>k. Q (fst (fst (f k))))"

lemma sys_answers:
  assumes "sys f w = (n, w1)" and "Q n"
  shows "answers f Q"
proof -
  have "n = fst (fst (f (kern w)))" using assms(1) by (metis fst_conv sys_simps(2))
  then show ?thesis using assms(2) by (auto simp: answers_def)
qed

lemma newSock_ok:
  assumes "platform_ok P" and "hook_ok w"
  shows "\<exists>x1 w1. newSock P x w = Inr (x1, w1) \<and> hook_ok w1 \<and> fd_ok (s_fd x1) \<and> x1 = x\<lparr>s_fd := s_fd x1\<rparr>
    \<and> answers (k_socket P (s_family x) (s_type x) (s_protocol x)) (\<lambda>n. n = s_fd x1)"
proof -
  let ?f = "k_socket P (s_family x) (s_type x) (s_protocol x)"
  obtain fd v where v: "sys ?f w = (fd, v)" by fastforce
  have "fd = fst (fst (?f (kern w)))" using v by (metis fst_conv sys_simps(2))
  then have fd: "fd_ok fd" using assms(1) by (simp add: platform_ok_def)
  have ok: "hook_ok v" using assms(2) v by (metis hook_ok_sys snd_conv)
  obtain u where u: "hook_socket (p_fstat P) (p_ctx P w) ?f w = Inr (Ret fd, u)" "hook_ok u"
  proof (cases "\<not> enabled w \<or> fd = -1")
    case True
    then show ?thesis using that [of v] ok v by (auto simp: hook_socket_def)
  next
    case False
    then have "0 \<le> fd" "fd < 2 ^ 31" using fd by (auto simp: fd_ok_def)
    then obtain u where "register_fd (p_fstat P) (p_ctx P w) fd v = Inr u" "hook_ok u"
      by (rule register_ok [OF ok])
    then show ?thesis using that False v by (auto simp: hook_socket_def)
  qed
  moreover have "answers ?f (\<lambda>n. n = fd)" using sys_answers [OF v] by simp
  ultimately show ?thesis using fd by (auto simp: newSock_def result_of_def Let_def)
qed

lemma newSock_if_ok:
  assumes "platform_ok P" and "hook_ok w" and "fd_ok (s_fd x)"
  shows "\<exists>x1 w1. (if \<not> Socket_isValid x then newSock P x w else Inr (x, w)) = Inr (x1, w1) \<and> hook_ok w1
    \<and> fd_ok (s_fd x1) \<and> x1 = x\<lparr>s_fd := s_fd x1\<rparr>
    \<and> (s_fd x1 = -1 \<longrightarrow> answers (k_socket P (s_family x) (s_type x) (s_protocol x)) (\<lambda>n. n = -1))"
proof (cases "Socket_isValid x")
  case False
  obtain x1 w1 where n: "newSock P x w = Inr (x1, w1)" "hook_ok w1" "fd_ok (s_fd x1)" "x1 = x\<lparr>s_fd := s_fd x1\<rparr>"
      "answers (k_socket P (s_family x) (s_type x) (s_protocol x)) (\<lambda>n. n = s_fd x1)"
    using newSock_ok [OF assms(1,2), of x] by blast
  then show ?thesis using False by (intro exI [of _ x1] exI [of _ w1]) auto
qed (use assms(2,3) in \<open>simp add: Socket_isValid_def\<close>)

section \<open>Addresses are filled in once\<close>

lemma getLocalAddress_keeps:
  assumes "getLocalAddress host P x w = (a, x1, w1)"
  shows "\<exists>l. x1 = x\<lparr>s_local := l\<rparr> \<and> (s_local x \<noteq> None \<longrightarrow> l = s_local x)"
  using assms by (auto simp: getLocalAddress_def split: option.splits prod.splits intro: exI [of _ "s_local x"])

lemma getRemoteAddress_keeps:
  assumes "getRemoteAddress host P x w = (a, x1, w1)"
  shows "\<exists>l. x1 = x\<lparr>s_remote := l\<rparr> \<and> (s_remote x \<noteq> None \<longrightarrow> l = s_remote x)"
  using assms by (auto simp: getRemoteAddress_def split: option.splits prod.splits intro: exI [of _ "s_remote x"])

lemma connect_return_success:
  assumes "Socket_connect_return host P 0 x w = Inr (b, x1, w1)"
  shows "b \<and> (\<exists>l r. x1 = x\<lparr>s_connected := True, s_local := l, s_remote := r\<rparr>
    \<and> (s_local x \<noteq> None \<longrightarrow> l = s_local x) \<and> (s_remote x \<noteq> None \<longrightarrow> r = s_remote x))"
proof -
  obtain a x2 w2 where 2: "getRemoteAddress host P (x\<lparr>s_connected := True\<rparr>) w = (a, x2, w2)" by (metis prod_cases3)
  obtain c x3 w3 where 3: "getLocalAddress host P x2 w2 = (c, x3, w3)" by (metis prod_cases3)
  have "b" "x1 = x3" using assms 2 3 by (simp_all add: Socket_connect_return_def)
  moreover obtain r where "x2 = x\<lparr>s_connected := True, s_remote := r\<rparr>" "s_remote x \<noteq> None \<longrightarrow> r = s_remote x"
    using getRemoteAddress_keeps [OF 2] by auto
  moreover obtain l where "x3 = x2\<lparr>s_local := l\<rparr>" "s_local x2 \<noteq> None \<longrightarrow> l = s_local x2"
    using getLocalAddress_keeps [OF 3] by auto
  ultimately show ?thesis by (intro conjI exI [of _ l] exI [of _ r]) simp_all
qed

section \<open>Properties\<close>

text \<open>The hooked call that a \<open>connect\<close> of the socket with descriptor \<open>fd\<close> ends in.\<close>

definition the_connect :: "'k platform \<Rightarrow> address \<Rightarrow> u64 \<Rightarrow> int \<Rightarrow> 'k hook \<Rightarrow> fault + outcome \<times> 'k hook" where
  "the_connect P a ms fd w =
     (if ms = -1
      then hook_connect (p_connect_timeout P) (p_ctl P) (p_fresh P w) fd
             (k_sndtimeo P fd (p_connect_timeout P)) (k_connect P fd a) (k_so_error P fd) w
      else connect_with_timeout (p_ctl P) (p_fresh P w) fd ms (k_sndtimeo P fd ms) (k_connect P fd a) (k_so_error P fd) w)"

lemma reconnect_opens:
  assumes "platform_ok P" and "hook_ok v" and "s_fd x = -1" and "s_remote x = Some a"
    and "uint (addr_family a) = s_family x"
  obtains fd v1 where "fd_ok fd" and "hook_ok v1"
    and "answers (k_socket P (s_family x) (s_type x) (s_protocol x)) (\<lambda>n. n = fd)"
    and "Socket_reconnect_call P ms x v =
      (if fd = -1 then Inr (Inl False, x\<lparr>s_fd := fd, s_local := None\<rparr>, v1)
       else bindE (the_connect P a ms fd v1) (\<lambda>(out, v2). Inr (Inr out, x\<lparr>s_fd := fd, s_local := None\<rparr>, v2)))"
proof -
  let ?x = "x\<lparr>s_local := None, s_remote := Some a\<rparr>"
  obtain x1 v1 where n: "newSock P ?x v = Inr (x1, v1)" "hook_ok v1" "fd_ok (s_fd x1)" "x1 = ?x\<lparr>s_fd := s_fd x1\<rparr>"
      "answers (k_socket P (s_family ?x) (s_type ?x) (s_protocol ?x)) (\<lambda>n. n = s_fd x1)"
    using newSock_ok [OF assms(1,2), of ?x] by blast
  define fd where "fd = s_fd x1"
  have x1: "x1 = x\<lparr>s_fd := fd, s_local := None\<rparr>" using n(4) assms(4) by (cases x) (simp add: fd_def)
  have call: "Socket_reconnect_call P ms x v = Socket_connect_call P a ms (x\<lparr>s_local := None\<rparr>) v"
    using assms(4) by (simp add: Socket_reconnect_call_def)
  show ?thesis
  proof (rule that [of fd v1])
    show "fd_ok fd" "hook_ok v1" "answers (k_socket P (s_family x) (s_type x) (s_protocol x)) (\<lambda>n. n = fd)"
      using n(2,3,5) by (simp_all add: fd_def)
    show "Socket_reconnect_call P ms x v =
      (if fd = -1 then Inr (Inl False, x\<lparr>s_fd := fd, s_local := None\<rparr>, v1)
       else bindE (the_connect P a ms fd v1) (\<lambda>(out, v2). Inr (Inr out, x\<lparr>s_fd := fd, s_local := None\<rparr>, v2)))"
      using n(1) x1 assms(3,5) unfolding call
      by (cases "fd = -1") (simp_all add: Socket_connect_call_def Socket_isValid_def the_connect_def Let_def)
  qed
qed

lemma connect_return_ok: "\<exists>x1 w1. Socket_connect_return host P 0 x w = Inr (True, x1, w1) \<and> s_connected x1 \<and> s_fd x1 = s_fd x
    \<and> (s_remote x \<noteq> None \<longrightarrow> s_remote x1 = s_remote x) \<and> (s_local x \<noteq> None \<longrightarrow> s_local x1 = s_local x)"
proof -
  obtain b x1 w2 where c: "Socket_connect_return host P 0 x w = Inr (b, x1, w2)"
    by (cases "getRemoteAddress host P (x\<lparr>s_connected := True\<rparr>) w", cases "Socket_connect_return host P 0 x w")
      (auto simp: Socket_connect_return_def split: prod.splits)
  from connect_return_success [OF this] show ?thesis
    using c by (intro exI [of _ x1] exI [of _ w2]) auto
qed

text \<open>
  C33. How a connection of an open socket starts and ends. A \<open>connect\<close> whose call fails, at once or after waiting, closes the descriptor, once, and leaves the socket
  as it was made but for the addresses it remembers. Then \<open>reconnect\<close> asks for a new descriptor, gives up if there is none, and else
  calls the hooked \<open>connect\<close> on the new descriptor with the remembered address; if that answers 0 the socket is
  connected on it. A \<open>connect\<close> to an address of another family fails without a call: it leaves the descriptor open and the wrong address remembered.
  A successful one leaves the socket connected on its descriptor with the address it was given, and keeps a local address it
  had, also one of an earlier connection. A first \<open>close\<close> answers false and forgets the descriptor's
  context, any further one answers true and calls nothing.
\<close>

theorem connect_and_close:
  assumes "closable x w"
  defines "closed \<equiv> x\<lparr>s_connected := False, s_fd := -1\<rparr>"
  shows "(\<exists>w1. Socket_close P x w = Inr (False, closed, w1)
      \<and> (n \<noteq> 0 \<longrightarrow> Socket_connect_return host P n x w = Inr (False, closed, w1))
      \<and> kern w1 = snd (k_close P (s_fd x) (kern w)) \<and> (enabled w \<longrightarrow> fd_ctx w1 (s_fd x) = None)
      \<and> Socket_close P closed w1 = Inr (True, closed, w1))
    \<and> (platform_ok P \<and> hook_ok v \<and> s_remote x = Some a \<and> uint (addr_family a) = s_family x \<longrightarrow>
        (\<exists>fd v1. answers (k_socket P (s_family x) (s_type x) (s_protocol x)) (\<lambda>n. n = fd)
           \<and> Socket_reconnect_call P ms closed v =
               (if fd = -1 then Inr (Inl False, closed\<lparr>s_local := None\<rparr>, v1)
                else bindE (the_connect P a ms fd v1) (\<lambda>(out, v2). Inr (Inr out, closed\<lparr>s_fd := fd, s_local := None\<rparr>, v2)))
           \<and> (\<forall>v3. \<exists>y v4. Socket_connect_return host P 0 (closed\<lparr>s_fd := fd, s_local := None\<rparr>) v3 = Inr (True, y, v4)
                \<and> s_connected y \<and> s_fd y = fd \<and> s_remote y = Some a)))
    \<and> (uint (addr_family b) \<noteq> s_family x \<longrightarrow> Socket_connect_call P b ms x w = Inr (Inl False, x\<lparr>s_remote := Some b\<rparr>, w))
    \<and> (\<exists>x1 w1. Socket_connect_return host P 0 x w = Inr (True, x1, w1) \<and> s_connected x1 \<and> s_fd x1 = s_fd x
      \<and> (s_remote x \<noteq> None \<longrightarrow> s_remote x1 = s_remote x) \<and> (s_local x \<noteq> None \<longrightarrow> s_local x1 = s_local x))"
proof (intro conjI impI)
  obtain w1 where w1: "Socket_close P x w = Inr (False, closed, w1)"
      "kern w1 = snd (k_close P (s_fd x) (kern w))" "enabled w \<Longrightarrow> fd_ctx w1 (s_fd x) = None"
    unfolding closed_def by (rule Socket_close_ok [OF assms(1)]) blast
  have "Socket_close P closed w1 = Inr (True, closed, w1)" by (simp add: Socket_close_def closed_def)
  with w1 show "\<exists>w1. Socket_close P x w = Inr (False, closed, w1)
      \<and> (n \<noteq> 0 \<longrightarrow> Socket_connect_return host P n x w = Inr (False, closed, w1))
      \<and> kern w1 = snd (k_close P (s_fd x) (kern w)) \<and> (enabled w \<longrightarrow> fd_ctx w1 (s_fd x) = None)
      \<and> Socket_close P closed w1 = Inr (True, closed, w1)"
    by (intro exI [of _ w1]) (simp add: Socket_connect_return_def)
  show "\<exists>x1 w1. Socket_connect_return host P 0 x w = Inr (True, x1, w1) \<and> s_connected x1 \<and> s_fd x1 = s_fd x
      \<and> (s_remote x \<noteq> None \<longrightarrow> s_remote x1 = s_remote x) \<and> (s_local x \<noteq> None \<longrightarrow> s_local x1 = s_local x)"
    by (rule connect_return_ok)
  show "Socket_connect_call P b ms x w = Inr (Inl False, x\<lparr>s_remote := Some b\<rparr>, w)" if "uint (addr_family b) \<noteq> s_family x"
    using that assms(1) by (auto simp: Socket_connect_call_def Socket_isValid_def closable_def Let_def)
  assume p: "platform_ok P \<and> hook_ok v \<and> s_remote x = Some a \<and> uint (addr_family a) = s_family x"
  then have ok: "platform_ok P" "hook_ok v" by simp_all
  have c: "s_fd closed = -1" "s_remote closed = Some a" "uint (addr_family a) = s_family closed"
      "s_family closed = s_family x" "s_type closed = s_type x" "s_protocol closed = s_protocol x"
    using p by (simp_all add: closed_def)
  obtain fd v1 where r: "answers (k_socket P (s_family x) (s_type x) (s_protocol x)) (\<lambda>n. n = fd)"
      "Socket_reconnect_call P ms closed v =
         (if fd = -1 then Inr (Inl False, closed\<lparr>s_fd := fd, s_local := None\<rparr>, v1)
          else bindE (the_connect P a ms fd v1) (\<lambda>(out, v2). Inr (Inr out, closed\<lparr>s_fd := fd, s_local := None\<rparr>, v2)))"
    by (rule reconnect_opens [OF ok c(1-3), of ms]) (simp only: c(4-6))
  have "\<exists>y v4. Socket_connect_return host P 0 (closed\<lparr>s_fd := fd, s_local := None\<rparr>) v3 = Inr (True, y, v4)
      \<and> s_connected y \<and> s_fd y = fd \<and> s_remote y = Some a" for v3
    using connect_return_ok [of host P "closed\<lparr>s_fd := fd, s_local := None\<rparr>" v3] p by (auto simp: closed_def)
  then show "\<exists>fd v1. answers (k_socket P (s_family x) (s_type x) (s_protocol x)) (\<lambda>n. n = fd)
       \<and> Socket_reconnect_call P ms closed v =
           (if fd = -1 then Inr (Inl False, closed\<lparr>s_local := None\<rparr>, v1)
            else bindE (the_connect P a ms fd v1) (\<lambda>(out, v2). Inr (Inr out, closed\<lparr>s_fd := fd, s_local := None\<rparr>, v2)))
       \<and> (\<forall>v3. \<exists>y v4. Socket_connect_return host P 0 (closed\<lparr>s_fd := fd, s_local := None\<rparr>) v3 = Inr (True, y, v4)
            \<and> s_connected y \<and> s_fd y = fd \<and> s_remote y = Some a)"
    using r by (intro exI [of _ fd] exI [of _ v1]) (simp add: closed_def)
qed

text \<open>A platform whose kernel counts the calls of \<open>close\<close>.\<close>

definition example_platform :: "nat platform" where
  "example_platform =
     \<lparr>p_ctl = linux_ctl, p_fstat = (\<lambda>_. Some True),
      p_fresh = (\<lambda>_. \<lparr>at_now = 0, at_timer = 1, at_tinfo = 1, at_closure = 1\<rparr>), p_ctx = (\<lambda>_. 7), p_connect_timeout = 5000,
      k_socket = (\<lambda>_ _ _ k. ((6, 0), k)), k_bind = (\<lambda>_ _ k. ((0, 0), k)), k_listen = (\<lambda>_ _ k. ((0, 0), k)),
      k_close = (\<lambda>_ k. ((0, 0), Suc k)), k_accept = (\<lambda>_ k. ((6, 0), k)), k_connect = (\<lambda>_ _ k. ((0, 0), k)),
      k_sndtimeo = (\<lambda>_ _ k. ((0, 0), k)), k_so_error = (\<lambda>_ k. ((0, 0, 0), k)), k_setsockopt = (\<lambda>_ _ _ _ k. ((0, 0), k)),
      k_getsockname = (\<lambda>_ a k. (((0, 0), a, 16), k)), k_getpeername = (\<lambda>_ a k. (((0, 0), a, 16), k)),
      k_unlink = (\<lambda>_ k. ((0, 0), k)), k_tcp_state = (\<lambda>_ _. 1)\<rparr>"

definition example_sock :: sock where
  "example_sock = CreateTCPSocket\<lparr>s_fd := 5, s_connected := True\<rparr>"

definition example_peer :: address where
  "example_peer = V4 (IPv4Address EASY_LITTLE_ENDIAN 0 0)"

lemma example_closable: "closable example_sock example_hook"
  using example_iom_ok
  by (simp add: closable_def example_sock_def example_hook_def)

theorem connect_and_close_witness:
  "\<exists>w1 v1. Socket_connect_return EASY_LITTLE_ENDIAN example_platform (-1) (example_sock\<lparr>s_remote := Some example_peer\<rparr>) example_hook
      = Inr (False, CreateTCPSocket\<lparr>s_remote := Some example_peer\<rparr>, w1)
    \<and> kern w1 = 1 \<and> fd_ctx w1 5 = None
    \<and> Socket_reconnect_call example_platform 100 (CreateTCPSocket\<lparr>s_remote := Some example_peer\<rparr>) example_hook
        = bindE (the_connect example_platform example_peer 100 6 v1)
            (\<lambda>(out, v2). Inr (Inr out, CreateTCPSocket\<lparr>s_remote := Some example_peer, s_fd := 6\<rparr>, v2))"
proof -
  let ?x = "example_sock\<lparr>s_remote := Some example_peer\<rparr>"
  have cl: "closable ?x example_hook" using example_closable by (simp add: closable_def)
  have h: "kern example_hook = 0" "enabled example_hook" "s_fd ?x = 5" "hook_ok example_hook"
    using example_iom_ok by (simp_all add: example_hook_def example_sock_def hook_ok_def)
  have p: "platform_ok example_platform" by (simp add: platform_ok_def fd_ok_def example_platform_def)
  have c: "?x\<lparr>s_connected := False, s_fd := -1\<rparr> = CreateTCPSocket\<lparr>s_remote := Some example_peer\<rparr>"
      "CreateTCPSocket\<lparr>s_remote := Some example_peer, s_fd := 6, s_local := None\<rparr> = CreateTCPSocket\<lparr>s_remote := Some example_peer, s_fd := 6\<rparr>"
      "s_remote ?x = Some example_peer" "uint (addr_family example_peer) = s_family ?x"
    by (simp_all add: example_sock_def CreateTCPSocket_def new_Socket_def example_peer_def IPv4Address_def)
  note t = connect_and_close [OF cl, of example_platform "-1" EASY_LITTLE_ENDIAN example_hook example_peer 100 example_peer]
  obtain w1 where "Socket_connect_return EASY_LITTLE_ENDIAN example_platform (-1) ?x example_hook
        = Inr (False, ?x\<lparr>s_connected := False, s_fd := -1\<rparr>, w1)"
      "kern w1 = snd (k_close example_platform (s_fd ?x) (kern example_hook))" "fd_ctx w1 (s_fd ?x) = None"
    using t [THEN conjunct1] h(2) by auto
  moreover have "platform_ok example_platform \<and> hook_ok example_hook \<and> s_remote ?x = Some example_peer
      \<and> uint (addr_family example_peer) = s_family ?x"
    using p h(4) c(3,4) by simp
  from t [THEN conjunct2, THEN conjunct1, THEN mp, OF this] obtain fd v1 where
    f: "answers (k_socket example_platform (s_family ?x) (s_type ?x) (s_protocol ?x)) (\<lambda>n. n = fd)"
      "Socket_reconnect_call example_platform 100 (?x\<lparr>s_connected := False, s_fd := -1\<rparr>) example_hook =
         (if fd = -1 then Inr (Inl False, ?x\<lparr>s_connected := False, s_fd := -1, s_local := None\<rparr>, v1)
          else bindE (the_connect example_platform example_peer 100 fd v1)
            (\<lambda>(out, v2). Inr (Inr out, ?x\<lparr>s_connected := False, s_fd := -1, s_fd := fd, s_local := None\<rparr>, v2)))"
    by blast
  moreover have "fd = 6" using f(1) by (auto simp: answers_def example_platform_def)
  moreover have "snd (k_close example_platform (s_fd ?x) (kern example_hook)) = 1" using h(1) by (simp add: example_platform_def)
  ultimately show ?thesis
    unfolding c(1) using h(3) c(2) by - (rule exI [of _ w1], rule exI [of _ v1], simp)
qed

text \<open>
  The life of a stream socket, one call at a time. \<open>c\<close> counts the fibers that wait in a \<open>connect\<close> of it. \<open>astray\<close> records what can go wrong
  since the socket last had a descriptor or was closed with nobody waiting: it was closed while a fiber waits in \<open>connect\<close>, or
  \<open>checkConnected\<close> said yes about descriptor -1, where \<open>getsockopt\<close> fails and the state read is whatever the uninitialised
  \<open>tcp_info\<close> holds. Anything may happen to the rest of the program in between.
\<close>

record 'k life =
  waiters :: nat
  astray :: bool
  socket :: sock
  rest :: "'k hook"

definition lives :: "nat \<Rightarrow> bool \<Rightarrow> sock \<Rightarrow> 'k hook \<Rightarrow> 'k life" where
  "lives c d x w = \<lparr>waiters = c, astray = (d \<and> s_fd x = -1), socket = x, rest = w\<rparr>"

inductive tcp_step :: "byte_order \<Rightarrow> 'k platform \<Rightarrow> 'k life \<Rightarrow> 'k life \<Rightarrow> bool" for host P where
  ts_other: "tcp_step host P s (s\<lparr>rest := w\<rparr>)"
| ts_connect: "Socket_connect_call P a ms (socket s) (rest s) = Inr (Inr out, x, w) \<Longrightarrow>
    tcp_step host P s (lives (Suc (waiters s)) (astray s) x w)"
| ts_refused: "Socket_connect_call P a ms (socket s) (rest s) = Inr (Inl b, x, w) \<Longrightarrow>
    tcp_step host P s (lives (waiters s) (astray s) x w)"
| ts_reconnect: "Socket_reconnect_call P ms (socket s) (rest s) = Inr (Inr out, x, w) \<Longrightarrow>
    tcp_step host P s (lives (Suc (waiters s)) (astray s) x w)"
| ts_rerefused: "Socket_reconnect_call P ms (socket s) (rest s) = Inr (Inl b, x, w) \<Longrightarrow>
    tcp_step host P s (lives (waiters s) (astray s) x w)"
| ts_connected: "waiters s = Suc c \<Longrightarrow> Socket_connect_return host P 0 (socket s) (rest s) = Inr (b, x, w) \<Longrightarrow>
    tcp_step host P s (lives c (astray s) x w)"
| ts_failed: "waiters s = Suc c \<Longrightarrow> n \<noteq> 0 \<Longrightarrow> Socket_connect_return host P n (socket s) (rest s) = Inr (b, x, w) \<Longrightarrow>
    tcp_step host P s (lives c (c \<noteq> 0) x w)"
| ts_bind: "Socket_bind_check P a (socket s) (rest s) = Inr (r, x, w) \<Longrightarrow> tcp_step host P s (lives (waiters s) (astray s) x w)"
| ts_bound: "Socket_bind_finish host P a (socket s) (rest s) = (b, x, w) \<Longrightarrow> tcp_step host P s (lives (waiters s) (astray s) x w)"
| ts_init: "0 \<le> fd \<Longrightarrow> Socket_init host P fd (socket s) (rest s) = (b, x, w) \<Longrightarrow>
    tcp_step host P s (lives (waiters s) (astray s) x w)"
| ts_local: "getLocalAddress host P (socket s) (rest s) = (a, x, w) \<Longrightarrow> tcp_step host P s (lives (waiters s) (astray s) x w)"
| ts_remote: "getRemoteAddress host P (socket s) (rest s) = (a, x, w) \<Longrightarrow> tcp_step host P s (lives (waiters s) (astray s) x w)"
| ts_check: "checkConnected P (socket s) (rest s) = (b, x) \<Longrightarrow> tcp_step host P s (lives (waiters s) (astray s \<or> b) x (rest s))"
| ts_close: "Socket_close P (socket s) (rest s) = Inr (b, x, w) \<Longrightarrow>
    tcp_step host P s (lives (waiters s) (waiters s \<noteq> 0) x w)"

inductive tcp_reachable :: "byte_order \<Rightarrow> 'k platform \<Rightarrow> int \<Rightarrow> int \<Rightarrow> 'k life \<Rightarrow> bool" for host P f t where
  tr_new: "tcp_reachable host P f t (lives 0 False (new_Socket f t 0) w)"
| tr_step: "tcp_reachable host P f t s \<Longrightarrow> tcp_step host P s s' \<Longrightarrow> tcp_reachable host P f t s'"

definition sock_ok :: "int \<Rightarrow> int \<Rightarrow> 'k life \<Rightarrow> bool" where
  "sock_ok f t s \<longleftrightarrow> ((s_connected (socket s) \<or> waiters s \<noteq> 0) \<and> s_fd (socket s) = -1 \<longrightarrow> astray s)
     \<and> s_family (socket s) = f \<and> s_type (socket s) = t \<and> s_protocol (socket s) = 0"

lemma lives_simps [simp]:
  "waiters (lives c d x w) = c" "astray (lives c d x w) = (d \<and> s_fd x = -1)" "socket (lives c d x w) = x" "rest (lives c d x w) = w"
  by (simp_all add: lives_def)

lemma newSock_shape: "newSock P x w = Inr (x1, w1) \<Longrightarrow> \<exists>fd. x1 = x\<lparr>s_fd := fd\<rparr>"
  by (auto simp: newSock_def faults Let_def split: if_splits)

lemma newSock_if:
  assumes "(if \<not> Socket_isValid x then newSock P x w else Inr (x, w)) = Inr (x1, w1)"
  shows "\<exists>fd. x1 = x\<lparr>s_fd := fd\<rparr> \<and> (s_fd x \<noteq> -1 \<longrightarrow> fd = s_fd x)"
proof (cases "Socket_isValid x")
  case True
  then have "x1 = x\<lparr>s_fd := s_fd x\<rparr>" using assms by simp
  then show ?thesis by blast
next
  case False
  then show ?thesis using assms newSock_shape [of P x w x1 w1] by (auto simp: Socket_isValid_def)
qed

lemma connect_call_shape:
  assumes "Socket_connect_call P a ms x w = Inr (r, x1, w1)"
  shows "(\<exists>fd. x1 = x\<lparr>s_remote := Some a, s_fd := fd\<rparr> \<and> (s_fd x \<noteq> -1 \<longrightarrow> fd = s_fd x))
    \<and> (\<forall>out. r = Inr out \<longrightarrow> s_fd x1 \<noteq> -1)"
proof -
  let ?x = "x\<lparr>s_remote := Some a\<rparr>"
  obtain y v where y: "(if \<not> Socket_isValid ?x then newSock P ?x w else Inr (?x, w)) = Inr (y, v)" "x1 = y"
      "\<forall>out. r = Inr out \<longrightarrow> Socket_isValid y"
    using assms unfolding Socket_connect_call_def Let_def
    by (auto simp: faults split: if_splits)
  then show ?thesis using newSock_if [OF y(1)] by (auto simp: Socket_isValid_def)
qed

lemma Socket_close_shape:
  "Socket_close P x w = Inr (b, x1, w1) \<Longrightarrow> x1 = x\<lparr>s_connected := False, s_fd := -1\<rparr>"
  by (cases x) (auto simp: Socket_close_def faults Let_def split: if_splits)

lemma tcp_step_keeps: "tcp_step host P s s' \<Longrightarrow> sock_ok f t s \<Longrightarrow> sock_ok f t s'"
proof (induction rule: tcp_step.induct)
  case (ts_connect a ms s out x w)
  then show ?case using connect_call_shape [OF ts_connect(1)] by (auto simp: sock_ok_def)
next
  case (ts_refused a ms s b x w)
  then show ?case using connect_call_shape [OF ts_refused(1)] by (auto simp: sock_ok_def)
next
  case (ts_reconnect ms s out x w)
  then obtain a where "Socket_connect_call P a ms ((socket s)\<lparr>s_local := None\<rparr>) (rest s) = Inr (Inr out, x, w)"
    by (auto simp: Socket_reconnect_call_def split: option.splits)
  from connect_call_shape [OF this] show ?case using ts_reconnect(2) by (auto simp: sock_ok_def)
next
  case (ts_rerefused ms s b x w)
  show ?case
  proof (cases "s_remote (socket s)")
    case (Some a)
    then have "Socket_connect_call P a ms ((socket s)\<lparr>s_local := None\<rparr>) (rest s) = Inr (Inl b, x, w)"
      using ts_rerefused(1) by (simp add: Socket_reconnect_call_def)
    from connect_call_shape [OF this] show ?thesis using ts_rerefused(2) by (auto simp: sock_ok_def)
  qed (use ts_rerefused in \<open>auto simp: Socket_reconnect_call_def sock_ok_def\<close>)
next
  case (ts_connected s c b x w)
  then show ?case using connect_return_success [of host P "socket s" "rest s" b x w] by (auto simp: sock_ok_def)
next
  case (ts_failed s c n b x w)
  then obtain b1 where "Socket_close P (socket s) (rest s) = Inr (b1, x, w)"
    by (auto simp: Socket_connect_return_def faults)
  from Socket_close_shape [OF this] show ?case using ts_failed by (auto simp: sock_ok_def)
next
  case (ts_bind a s r x w)
  then obtain v where "(if \<not> Socket_isValid (socket s) then newSock P (socket s) (rest s) else Inr (socket s, rest s)) = Inr (x, v)"
    unfolding Socket_bind_check_def by (auto simp: faults)
  from newSock_if [OF this] show ?case using ts_bind(2) by (auto simp: sock_ok_def)
next
  case (ts_bound a s b x w)
  then have "x = socket s \<or> (\<exists>v a w2. getLocalAddress host P (socket s) v = (a, x, w2))"
    by (auto simp: Socket_bind_finish_def split: prod.splits if_splits)
  then obtain l where "x = (socket s)\<lparr>s_local := l\<rparr>"
  proof
    assume "x = socket s"
    then show ?thesis using that [of "s_local (socket s)"] by simp
  qed (use getLocalAddress_keeps [of host P "socket s"] that in fast)
  then show ?case using ts_bound(2) by (auto simp: sock_ok_def)
next
  case (ts_init fd s b x w)
  show ?case
  proof (cases "x = socket s")
    case False
    then obtain v a x2 w2 d w3 where 2: "getLocalAddress host P ((socket s)\<lparr>s_fd := fd, s_connected := True\<rparr>) v = (a, x2, w2)"
        "getRemoteAddress host P x2 w2 = (d, x, w3)"
      using ts_init(2) by (auto simp: Socket_init_def Let_def split: option.splits prod.splits if_splits)
    show ?thesis using getLocalAddress_keeps [OF 2(1)] getRemoteAddress_keeps [OF 2(2)] ts_init(1,3) by (auto simp: sock_ok_def)
  qed (use ts_init(3) in \<open>auto simp: sock_ok_def\<close>)
next
  case (ts_local s a x w)
  then show ?case using getLocalAddress_keeps [OF ts_local(1)] by (auto simp: sock_ok_def)
next
  case (ts_remote s a x w)
  then show ?case using getRemoteAddress_keeps [OF ts_remote(1)] by (auto simp: sock_ok_def)
next
  case (ts_check s b x)
  then show ?case by (auto simp: sock_ok_def checkConnected_def Let_def)
next
  case (ts_close s b x w)
  then show ?case using Socket_close_shape [OF ts_close(1)] by (auto simp: sock_ok_def)
qed (auto simp: sock_ok_def)

text \<open>
  C25. A stream socket that is connected, or that fibers wait to connect, has a descriptor in every state its public calls lead to, in any order and with any
  number of fibers in \<open>connect\<close>, with two exceptions since it last had one: somebody closed it while a fiber waits in
  \<open>connect\<close>, or \<open>checkConnected\<close> was asked about the closed socket and read \<open>TCP_ESTABLISHED\<close> from memory that nobody
  has written. Both do lead to a socket that is connected without a descriptor, and the next \<open>close\<close> ends that. Family, type and
  protocol never change.
\<close>

theorem connected_means_open:
  assumes "tcp_reachable host P f t s"
  defines "x \<equiv> socket s" and "w \<equiv> rest s"
  shows "((s_connected x \<or> waiters s \<noteq> 0) \<and> s_fd x = -1 \<longrightarrow> astray s) \<and> s_family x = f \<and> s_type x = t \<and> s_protocol x = 0
    \<and> (waiters s \<noteq> 0 \<and> closable x w \<longrightarrow> (\<exists>b x1 w1 x2 w2. Socket_close P x w = Inr (b, x1, w1)
        \<and> Socket_connect_return host P 0 x1 w1 = Inr (True, x2, w2) \<and> s_connected x2 \<and> s_fd x2 = -1))
    \<and> (s_fd x = -1 \<and> k_tcp_state P (-1) (kern w) = TCP_ESTABLISHED \<longrightarrow>
        (\<exists>x1. checkConnected P x w = (True, x1) \<and> s_connected x1 \<and> s_fd x1 = -1))
    \<and> (s_connected x \<and> s_fd x = -1 \<longrightarrow> Socket_close P x w = Inr (False, x\<lparr>s_connected := False\<rparr>, w))"
proof -
  have "sock_ok f t s"
    using assms(1) by induction (auto simp: sock_ok_def new_Socket_def lives_def dest: tcp_step_keeps)
  moreover have "\<exists>b x1 w1 x2 w2. Socket_close P x w = Inr (b, x1, w1)
      \<and> Socket_connect_return host P 0 x1 w1 = Inr (True, x2, w2) \<and> s_connected x2 \<and> s_fd x2 = -1" if cl: "closable x w"
  proof -
    let ?x = "x\<lparr>s_connected := False, s_fd := -1\<rparr>"
    obtain w1 where w1: "Socket_close P x w = Inr (False, ?x, w1)" by (rule Socket_close_ok [OF cl])
    obtain x2 w2 where "Socket_connect_return host P 0 ?x w1 = Inr (True, x2, w2)" "s_connected x2" "s_fd x2 = s_fd ?x"
      using connect_return_ok [of host P ?x w1] by blast
    then show ?thesis using w1 by auto
  qed
  moreover have "\<exists>x1. checkConnected P x w = (True, x1) \<and> s_connected x1 \<and> s_fd x1 = -1"
    if "s_fd x = -1" "k_tcp_state P (-1) (kern w) = TCP_ESTABLISHED"
    using that by (simp add: checkConnected_def)
  moreover have "Socket_close P x w = Inr (False, x\<lparr>s_connected := False\<rparr>, w)" if "s_connected x" "s_fd x = -1"
    using that by (simp add: Socket_close_def)
  ultimately show ?thesis by (simp add: sock_ok_def x_def w_def)
qed

text \<open>A socket that was accepted, and a new one that was asked whether it is connected on a platform where the unwritten memory says so.\<close>

theorem connected_means_open_witness:
  "\<exists>x1 w1. Socket_init EASY_LITTLE_ENDIAN example_platform 5 CreateTCPSocket example_hook = (True, x1, w1)
     \<and> tcp_reachable EASY_LITTLE_ENDIAN example_platform 2 1 (lives 0 False x1 w1) \<and> s_connected x1 \<and> s_fd x1 \<noteq> -1
     \<and> (\<exists>x2. checkConnected example_platform CreateTCPSocket example_hook = (True, x2) \<and> s_connected x2 \<and> s_fd x2 = -1)"
proof -
  let ?x = "new_Socket 2 1 0" and ?s = "lives 0 False (new_Socket 2 1 0) example_hook"
  have x: "CreateTCPSocket = ?x" by (simp add: CreateTCPSocket_def AF_INET_def SOCK_STREAM_def)
  obtain b x1 w1 where i: "Socket_init EASY_LITTLE_ENDIAN example_platform 5 ?x example_hook = (b, x1, w1)" by (metis prod_cases3)
  have new: "tcp_reachable EASY_LITTLE_ENDIAN example_platform 2 1 ?s" by (rule tr_new)
  have "tcp_step EASY_LITTLE_ENDIAN example_platform ?s (lives 0 False x1 w1)"
    using ts_init [of 5 EASY_LITTLE_ENDIAN example_platform ?s b x1 w1] i by simp
  then have r: "tcp_reachable EASY_LITTLE_ENDIAN example_platform 2 1 (lives 0 False x1 w1)" using tr_step [OF new] by blast
  obtain v a x2 w2 d w3 where 2: "getLocalAddress EASY_LITTLE_ENDIAN example_platform (?x\<lparr>s_fd := 5, s_connected := True\<rparr>) v = (a, x2, w2)"
      "getRemoteAddress EASY_LITTLE_ENDIAN example_platform x2 w2 = (d, x1, w3)" "b"
    using i by (auto simp: Socket_init_def example_ctx example_socket_def Let_def split: prod.splits)
  have "s_connected x1" using getLocalAddress_keeps [OF 2(1)] getRemoteAddress_keeps [OF 2(2)] by auto
  moreover have "s_connected x1 \<longrightarrow> s_fd x1 \<noteq> -1" using connected_means_open [OF r] by auto
  moreover have "s_fd ?x = -1" "k_tcp_state example_platform (-1) (kern example_hook) = TCP_ESTABLISHED"
    by (simp_all add: new_Socket_def example_platform_def TCP_ESTABLISHED_def)
  ultimately show ?thesis using i r 2(3) connected_means_open [OF new] unfolding x by auto
qed

lemma timeval_back: "fst (timeval v) * 1000 + snd (timeval v) sdiv 1000 = v"
  using sdiv_mult_smod_eq [of v 1000] by (simp add: timeval_def sdiv_exact)

lemma sint_u64: "- (2 ^ 63) \<le> v \<Longrightarrow> v < 2 ^ 63 \<Longrightarrow> sint (of_int v :: u64) = v"
  by (simp add: signed_of_int to_i64_id [unfolded to_i64_def])

lemma fd_ctx_with_ctx:
  assumes "fd_ctx w fd = Some (p, c)"
  shows "fd_ctx (with_ctx p d w) fd = Some (p, d)"
proof -
  have "getFdCtx_read fd False (fds (with_ctx p d w)) = getFdCtx_read fd False (fds w)"
    by (simp add: getFdCtx_read_def with_ctx_def Let_def)
  then show ?thesis using assms by (auto simp: fd_ctx_def with_ctx_def split: option.splits)
qed

lemma set_timeout_ctx:
  assumes "enabled w" and "fd_ctx w (s_fd x) = Some (p, c)" and "so = SO_RCVTIMEO \<or> so = SO_SNDTIMEO"
  shows "fd_ctx (snd (setOption P SOL_SOCKET so (timeval v) x w)) (s_fd x) = Some (p, setTimeout c so (of_int v))"
    and "enabled (snd (setOption P SOL_SOCKET so (timeval v) x w))"
proof -
  let ?w = "with_ctx p (setTimeout c so (of_int v)) w"
  let ?f = "k_setsockopt P (s_fd x) SOL_SOCKET so (timeval v)"
  have "of_int (fst (timeval v) * 1000 + snd (timeval v) sdiv 1000) = (of_int v :: u64)" by (simp only: timeval_back)
  then have eq: "snd (setOption P SOL_SOCKET so (timeval v) x w) = snd (sys ?f ?w)"
    using assms by (auto simp: setOption_def hook_setsockopt_def split: prod.splits)
  have "fd_ctx ?w (s_fd x) = Some (p, setTimeout c so (of_int v))"
    by (rule fd_ctx_with_ctx [OF assms(2)])
  then show "fd_ctx (snd (setOption P SOL_SOCKET so (timeval v) x w)) (s_fd x) = Some (p, setTimeout c so (of_int v))"
    unfolding eq using fd_ctx_fds [of "snd (sys ?f ?w)" ?w] by (simp add: sys_simps)
  show "enabled (snd (setOption P SOL_SOCKET so (timeval v) x w))"
    unfolding eq using assms(1) by (simp add: sys_simps with_ctx_def)
qed

lemma wait_frame:
  assumes "do_io_wait ctl e fr w = Inr (Park fr', w1)"
  shows "\<exists>t. fr' = fr\<lparr>io_timer := t\<rparr>"
proof -
  obtain t w2 where "arm_timeout e fr w = (t, w2)" by fastforce
  then show ?thesis
    using assms by (auto simp: do_io_wait_def io_return_def faults split: if_splits)
qed

lemma parked_frame:
  assumes "do_io ctl e fd f event so w = Some (Inr (Park fr, w1))"
  shows "\<exists>p c. fd_ctx w fd = Some (p, c) \<and> io_fd fr = fd \<and> io_event fr = event \<and> io_ms fr = getTimeout c so"
proof -
  obtain p c where c: "fd_ctx w fd = Some (p, c)"
      "do_io_retry ctl e \<lparr>io_fd = fd, io_event = event, io_ms = getTimeout c so, io_tinfo = at_tinfo e, io_timer = None\<rparr> f
         (w\<lparr>tinfos := (tinfos w)(at_tinfo e \<mapsto> False)\<rparr>) = Some (Inr (Park fr, w1))"
    using assms by (auto simp: do_io_def passed_def split: if_splits option.splits prod.splits)
  then obtain v where "do_io_wait ctl e \<lparr>io_fd = fd, io_event = event, io_ms = getTimeout c so, io_tinfo = at_tinfo e,
      io_timer = None\<rparr> v = Inr (Park fr, w1)"
    by (auto simp: do_io_retry_def io_return_def Let_def split: if_splits)
  then show ?thesis using wait_frame c(1) by fastforce
qed

text \<open>
  C32. A timeout set on a socket is read back as it was set, whatever its value, without changing the other
  direction's, and it is the one a call of that socket that waits has: a receive that blocks waits
  for its descriptor to become readable, or for that many milliseconds.
\<close>

theorem socket_timeouts:
  fixes P :: "'k platform" and v :: int
  assumes "enabled w" and "fd_ctx w (s_fd x) = Some (p, c)" and "- (2 ^ 63) \<le> v" and "v < 2 ^ 63"
  defines "r \<equiv> snd (setRecvTimeout P v x w)" and "s \<equiv> snd (setSendTimeout P v x w)"
  shows "getRecvTimeout x r = v \<and> getSendTimeout x r = getSendTimeout x w
    \<and> getSendTimeout x s = v \<and> getRecvTimeout x s = getRecvTimeout x w
    \<and> (\<forall>f fr w1. Socket_recv P f x r = Some (Inr (Park fr, w1)) \<longrightarrow>
         io_fd fr = s_fd x \<and> io_event fr = READ \<and> io_ms fr = of_int v)
    \<and> (\<forall>f fr w1. Socket_send P f x s = Some (Inr (Park fr, w1)) \<longrightarrow>
         io_fd fr = s_fd x \<and> io_event fr = WRITE \<and> io_ms fr = of_int v)"
proof -
  have r: "fd_ctx r (s_fd x) = Some (p, setTimeout c SO_RCVTIMEO (of_int v))"
    unfolding r_def setRecvTimeout_def by (rule set_timeout_ctx(1) [OF assms(1,2)]) simp
  have s: "fd_ctx s (s_fd x) = Some (p, setTimeout c SO_SNDTIMEO (of_int v))"
    unfolding s_def setSendTimeout_def by (rule set_timeout_ctx(1) [OF assms(1,2)]) simp
  have so: "SO_SNDTIMEO \<noteq> SO_RCVTIMEO" by (simp add: SO_SNDTIMEO_def SO_RCVTIMEO_def)
  have "io_fd fr = s_fd x \<and> io_event fr = READ \<and> io_ms fr = of_int v"
    if "Socket_recv P f x r = Some (Inr (Park fr, w1))" for f fr w1
    using that parked_frame [of "p_ctl P" "p_fresh P r" "s_fd x" f READ SO_RCVTIMEO r fr w1] r
    by (auto simp: Socket_recv_def when_connected_def hook_recv_def getTimeout_def setTimeout_def split: if_splits)
  moreover have "io_fd fr = s_fd x \<and> io_event fr = WRITE \<and> io_ms fr = of_int v"
    if "Socket_send P f x s = Some (Inr (Park fr, w1))" for f fr w1
    using that parked_frame [of "p_ctl P" "p_fresh P s" "s_fd x" f WRITE SO_SNDTIMEO s fr w1] s so
    by (auto simp: Socket_send_def when_connected_def hook_send_def getTimeout_def setTimeout_def split: if_splits)
  ultimately show ?thesis
    using r s so assms(2) sint_u64 [OF assms(3,4)]
    by (simp add: getRecvTimeout_def getSendTimeout_def socket_timeout_def getTimeout_def setTimeout_def)
qed

theorem socket_timeouts_witness:
  "getRecvTimeout example_sock (snd (setRecvTimeout example_platform 1500 example_sock example_hook)) = 1500
   \<and> getSendTimeout example_sock (snd (setRecvTimeout example_platform 1500 example_sock example_hook)) = -1"
proof -
  have "enabled example_hook" "fd_ctx example_hook (s_fd example_sock) = Some (9, example_socket)"
    by (simp_all add: example_ctx example_sock_def) (simp add: example_hook_def)
  moreover have "getSendTimeout example_sock example_hook = -1"
    by (simp add: getSendTimeout_def socket_timeout_def example_ctx example_sock_def)
      (simp add: getTimeout_def example_socket_def SO_SNDTIMEO_def SO_RCVTIMEO_def)
  ultimately show ?thesis
    using socket_timeouts [of example_hook example_sock 9 example_socket 1500 example_platform] by simp
qed

text \<open>The options of a new socket leave its context alone.\<close>

lemma setOption_keeps:
  assumes "level = SOL_SOCKET \<Longrightarrow> so \<noteq> SO_RCVTIMEO \<and> so \<noteq> SO_SNDTIMEO"
  shows "fds (snd (setOption P level so v x w)) = fds w"
  using assms by (auto simp: setOption_def hook_setsockopt_def sys_def split: prod.splits)

lemma initSock_keeps: "fds (initSock P x w) = fds w"
proof -
  have ne: "SO_REUSEADDR \<noteq> SO_RCVTIMEO \<and> SO_REUSEADDR \<noteq> SO_SNDTIMEO" "IPPROTO_TCP \<noteq> SOL_SOCKET"
    by (simp_all add: SOL_SOCKET_def IPPROTO_TCP_def SO_REUSEADDR_def SO_RCVTIMEO_def SO_SNDTIMEO_def)
  have "fds (snd (setOption P SOL_SOCKET SO_REUSEADDR v x w)) = fds w" for v by (rule setOption_keeps) (rule ne(1))
  moreover have "fds (snd (setOption P IPPROTO_TCP TCP_NODELAY v x u)) = fds u" for v u
    by (rule setOption_keeps) (use ne(2) in simp)
  ultimately show ?thesis by (simp add: initSock_def Let_def)
qed

lemma address_fds:
  "getLocalAddress host P x w = (a, x1, w1) \<Longrightarrow> fds w1 = fds w"
  "getRemoteAddress host P x w = (a, x1, w1) \<Longrightarrow> fds w1 = fds w"
  by (auto simp: getLocalAddress_def getRemoteAddress_def answered_address_def Let_def
      split: option.splits prod.splits if_splits)

lemma register_new:
  assumes "0 \<le> n" and "n < 2 ^ 31" and "datas (fds w) \<noteq> []" and "fd_ctx w n = None"
  obtains w1 where "register_fd fstat q n w = Inr w1" and "fd_ctx w1 n = Some (q, fst (new_FdCtx fstat n (kflags (fds w))))"
    and "kflags (fds w1) = snd (new_FdCtx fstat n (kflags (fds w)))"
proof -
  have none: "entry (fds w) n = None"
    using assms(1,2,4)
    by (auto simp: fd_ctx_def getFdCtx_read_def entry_def fd_index_nonneg Let_def split: if_splits option.splits)
  obtain m where m: "getFdCtx_create fstat q n (fds w) = Inr (Some q, m)"
      "\<And>x. 0 \<le> x \<Longrightarrow> entry m x = (if x = n then Some q else entry (fds w) x)"
      "ctxs m = (ctxs (fds w))(q := fst (new_FdCtx fstat n (kflags (fds w))))"
      "kflags m = snd (new_FdCtx fstat n (kflags (fds w)))"
    by (rule getFdCtx_create_ok [OF assms(1-3), where fstat = fstat and fresh = q]) blast
  have "getFdCtx_read n True (fds w) = None"
    using none assms(1,2) by (auto simp: getFdCtx_read_def entry_def fd_index_nonneg Let_def split: if_splits)
  then have "register_fd fstat q n w = Inr (w\<lparr>fds := m\<rparr>)"
    by (simp add: register_fd_def getFdCtx_def m(1))
  moreover have "fd_ctx (w\<lparr>fds := m\<rparr>) n = Some (q, fst (new_FdCtx fstat n (kflags (fds w))))"
    using m(2) [OF assms(1)] m(3) assms(1,2)
    by (auto simp: fd_ctx_def getFdCtx_read_def entry_def fd_index_nonneg Let_def split: if_splits)
  ultimately show ?thesis using that m(4) by simp
qed

lemma enabled_keeps [simp]:
  "enabled (snd (sys f w)) = enabled w" "enabled (with_ctx p c w) = enabled w"
  "enabled (snd (setOption P level so v x w)) = enabled w" "enabled (initSock P x w) = enabled w"
proof -
  show s: "enabled (snd (sys f w)) = enabled w" "enabled (with_ctx p c w) = enabled w" for f p c and w :: "'a hook"
    by (simp_all add: sys_simps with_ctx_def)
  show o: "enabled (snd (setOption P level so v x w)) = enabled w" for level so v x and w :: "'a hook"
  proof -
    have "snd (setOption P level so v x w)
        = snd (hook_setsockopt (k_setsockopt P (s_fd x) level so v) (s_fd x) level so v w)"
      by (simp add: setOption_def split: prod.splits)
    then show ?thesis by (auto simp: hook_setsockopt_def s split: option.splits)
  qed
  show "enabled (initSock P x w) = enabled w" by (simp add: initSock_def Let_def o)
qed

lemma address_enabled:
  "getLocalAddress host P x w = (a, x1, w1) \<Longrightarrow> enabled w1 = enabled w"
  "getRemoteAddress host P x w = (a, x1, w1) \<Longrightarrow> enabled w1 = enabled w"
  by (auto simp: getLocalAddress_def getRemoteAddress_def answered_address_def Let_def
      split: option.splits prod.splits if_splits)

lemma accept_gives:
  assumes "0 \<le> n" and "n < 2 ^ 31" and "datas (fds w) \<noteq> []" and "fd_ctx w n = None" and "p_fstat P n = Some True"
  obtains w1 y w2 c where "accepted (p_fstat P) q (Inr (Ret n, w)) = Inr (Ret n, w1)"
    and "Socket_accept_return host P x n w1 = Inr (Some y, w2)"
    and "s_fd y = n" and "s_connected y"
    and "s_family y = s_family x" and "s_type y = s_type x" and "s_protocol y = s_protocol x"
    and "fd_ctx w2 n = Some (q, c)" and "\<And>so. getTimeout c so = -1" and "kflags (fds w2) n AND O_NONBLOCK \<noteq> 0"
    and "enabled w2 = enabled w"
proof -
  let ?c = "fst (new_FdCtx (p_fstat P) n (kflags (fds w)))"
  obtain w1 where w1: "register_fd (p_fstat P) q n w = Inr w1" "fd_ctx w1 n = Some (q, ?c)"
      "kflags (fds w1) = snd (new_FdCtx (p_fstat P) n (kflags (fds w)))"
    by (rule register_new [OF assms(1-4)])
  have c: "isSocket ?c" "\<not> isClosed ?c" "getTimeout ?c so = -1" for so
    using assms(5) by (simp_all add: new_FdCtx_def FdCtx_init_def Let_def getTimeout_def)
  have "(kflags (fds w) n OR O_NONBLOCK) AND O_NONBLOCK = O_NONBLOCK" by (simp add: bit.conj_disj_distrib2)
  moreover have "O_NONBLOCK \<noteq> 0" by (simp add: O_NONBLOCK_def)
  ultimately have nb: "kflags (fds w1) n AND O_NONBLOCK \<noteq> 0"
    unfolding w1(3) using assms(5) by (auto simp: new_FdCtx_def FdCtx_init_def Let_def)
  let ?x = "(new_Socket (s_family x) (s_type x) (s_protocol x))\<lparr>s_fd := n, s_connected := True\<rparr>"
  obtain a x2 w2 where 2: "getLocalAddress host P ?x (initSock P ?x w1) = (a, x2, w2)" by (metis prod_cases3)
  obtain b y w3 where 3: "getRemoteAddress host P x2 w2 = (b, y, w3)" by (metis prod_cases3)
  have "Socket_accept_return host P x n w1 = Inr (Some y, w3)"
    using w1(2) c(1,2) 2 3 assms(1) by (simp add: Socket_accept_return_def Socket_init_def)
  moreover have "s_fd y = n" "s_connected y" "s_family y = s_family x" "s_type y = s_type x" "s_protocol y = s_protocol x"
    using getLocalAddress_keeps [OF 2] getRemoteAddress_keeps [OF 3] by (auto simp: new_Socket_def)
  moreover have fds: "fds w3 = fds w1" using address_fds(1) [OF 2] address_fds(2) [OF 3] initSock_keeps [of P ?x w1] by simp
  moreover have "fd_ctx w3 n = Some (q, ?c)" using w1(2) fd_ctx_fds [OF fds] by simp
  moreover have "enabled w3 = enabled w1"
    using address_enabled(1) [OF 2] address_enabled(2) [OF 3] by simp
  moreover have "enabled w1 = enabled w"
    using w1(1) by (auto simp: register_fd_def faults)
  ultimately show ?thesis
    using w1(1) nb c(3) assms(1) by (intro that [of w1 y w3 ?c]) (simp_all add: accepted_def)
qed

text \<open>
  What \<open>accept\<close> gives: a descriptor the system call returned, hooked or not, gets a context and becomes a
  connected socket of the listener's family, type and protocol on that descriptor, with the
  descriptor non-blocking and no timeout in either direction; -1 gives the null pointer and changes
  nothing.
\<close>

theorem accept_new_socket:
  assumes "0 \<le> n" and "n < 2 ^ 31" and "datas (fds w) \<noteq> []" and "fd_ctx w n = None" and "p_fstat P n = Some True"
  shows "\<exists>w1 y w2. accepted (p_fstat P) q (Inr (Ret n, w)) = Inr (Ret n, w1)
      \<and> Socket_accept_return host P x n w1 = Inr (Some y, w2)
      \<and> s_fd y = n \<and> s_connected y \<and> s_family y = s_family x \<and> s_type y = s_type x \<and> s_protocol y = s_protocol x
      \<and> getRecvTimeout y w2 = -1 \<and> getSendTimeout y w2 = -1 \<and> kflags (fds w2) n AND O_NONBLOCK \<noteq> 0
      \<and> accepted (p_fstat P) q (Inr (Ret (-1), w)) = Inr (Ret (-1), w)
      \<and> Socket_accept_return host P x (-1) w = Inr (None, w)"
proof -
  obtain w1 y w2 c where "accepted (p_fstat P) q (Inr (Ret n, w)) = Inr (Ret n, w1)"
      "Socket_accept_return host P x n w1 = Inr (Some y, w2)" "s_fd y = n" "s_connected y"
      "s_family y = s_family x" "s_type y = s_type x" "s_protocol y = s_protocol x"
      "fd_ctx w2 n = Some (q, c)" "\<And>so. getTimeout c so = -1" "kflags (fds w2) n AND O_NONBLOCK \<noteq> 0"
    by (rule accept_gives [OF assms, where q = q and host = host and x = x]) blast
  then show ?thesis
    by (intro exI [of _ w1] exI [of _ y] exI [of _ w2])
      (simp add: accepted_def getRecvTimeout_def getSendTimeout_def socket_timeout_def Socket_accept_return_def)
qed

theorem accept_new_socket_witness:
  "\<exists>w1 y w2. accepted (\<lambda>_. Some True) 4 (Inr (Ret 3, example_hook)) = Inr (Ret 3, w1)
     \<and> Socket_accept_return EASY_LITTLE_ENDIAN example_platform example_sock 3 w1 = Inr (Some y, w2) \<and> s_fd y = 3 \<and> s_connected y"
proof -
  have "fd_ctx example_hook 3 = None"
    by (simp add: fd_ctx_def example_hook_def getFdCtx_read_def fd_index_def nth_append)
  moreover have "datas (fds example_hook) \<noteq> []" "p_fstat example_platform = (\<lambda>_. Some True)"
    by (simp_all add: example_hook_def example_platform_def)
  ultimately show ?thesis
    using accept_new_socket [of 3 example_hook example_platform 4 EASY_LITTLE_ENDIAN example_sock] by auto
qed

end
