(* ===== verification/SslSocket.thy ===== *)
theory SslSocket imports SocketState begin

text \<open>
  \<open>SSLSocket\<close> of \<open>easy/net/Socket.h\<close>, \<open>easy/net/Socket.cc\<close>. The functions of OpenSSL are a record of
  arguments; they act on the whole state, because they read and write through the hooked calls, and are taken
  run to their end. The lemmas show what a vector of buffers comes to.
\<close>

section \<open>State\<close>

record 'k openssl =
  SSL_CTX_new :: "bool \<Rightarrow> 'k hook \<Rightarrow> nat option \<times> 'k hook"
  SSL_new :: "nat option \<Rightarrow> int \<Rightarrow> 'k hook \<Rightarrow> nat option \<times> 'k hook"
  SSL_connect :: "nat option \<Rightarrow> 'k hook \<Rightarrow> int \<times> 'k hook"
  SSL_accept :: "nat option \<Rightarrow> 'k hook \<Rightarrow> int \<times> 'k hook"
  SSL_write :: "nat \<Rightarrow> str \<Rightarrow> 'k hook \<Rightarrow> int \<times> 'k hook"
  SSL_read :: "nat \<Rightarrow> nat \<Rightarrow> 'k hook \<Rightarrow> int \<times> 'k hook"
  SSL_use_chain :: "nat option \<Rightarrow> str \<Rightarrow> 'k hook \<Rightarrow> int \<times> 'k hook"
  SSL_use_key :: "nat option \<Rightarrow> str \<Rightarrow> 'k hook \<Rightarrow> int \<times> 'k hook"
  SSL_check_key :: "nat option \<Rightarrow> 'k hook \<Rightarrow> int \<times> 'k hook"

record ssl_sock =
  ssl_base :: sock
  ssl_ctx :: "nat option"
  ssl_ssl :: "nat option"

definition new_SSLSocket :: "int \<Rightarrow> int \<Rightarrow> int \<Rightarrow> ssl_sock" where
  "new_SSLSocket family type protocol = \<lparr>ssl_base = new_Socket family type protocol, ssl_ctx = None, ssl_ssl = None\<rparr>"

definition SSL_CreateTCP :: "address \<Rightarrow> ssl_sock" where
  "SSL_CreateTCP a = new_SSLSocket (uint (addr_family a)) SOCK_STREAM 0"

definition SSL_CreateTCPSocket where "SSL_CreateTCPSocket = new_SSLSocket (uint AF_INET) SOCK_STREAM 0"
definition SSL_CreateTCPSocket6 where "SSL_CreateTCPSocket6 = new_SSLSocket (uint AF_INET6) SOCK_STREAM 0"

section \<open>Connections\<close>

text \<open>\<open>SSL_new\<close> is followed by \<open>SSL_set_fd\<close>, here one argument; the handshake then decides.\<close>

definition handshake ::
    "'k openssl \<Rightarrow> (nat option \<Rightarrow> 'k hook \<Rightarrow> int \<times> 'k hook) \<Rightarrow> ssl_sock \<Rightarrow> 'k hook \<Rightarrow> bool \<times> ssl_sock \<times> 'k hook" where
  "handshake S f x w =
     (let (s, w1) = SSL_new S (ssl_ctx x) (s_fd (ssl_base x)) w; (n, w2) = f s w1 in
      (n = 1, x\<lparr>ssl_ssl := s\<rparr>, w2))"

definition SSL_init ::
    "byte_order \<Rightarrow> 'k platform \<Rightarrow> 'k openssl \<Rightarrow> int \<Rightarrow> ssl_sock \<Rightarrow> 'k hook \<Rightarrow> bool \<times> ssl_sock \<times> 'k hook" where
  "SSL_init host P S fd x w =
     (let (v, b, w1) = Socket_init host P fd (ssl_base x) w; x1 = x\<lparr>ssl_base := b\<rparr> in
      if v then handshake S (SSL_accept S) x1 w1 else (v, x1, w1))"

text \<open>After \<open>::accept\<close>: the new socket shares the context; one whose handshake fails is destroyed.\<close>

definition SSL_accept_return ::
    "byte_order \<Rightarrow> 'k platform \<Rightarrow> 'k openssl \<Rightarrow> ssl_sock \<Rightarrow> int \<Rightarrow> 'k hook \<Rightarrow> fault + ssl_sock option \<times> 'k hook" where
  "SSL_accept_return host P S x newsock w =
     (if newsock = -1 then Inr (None, w)
      else let b = ssl_base x;
               y = (new_SSLSocket (s_family b) (s_type b) (s_protocol b))\<lparr>ssl_ctx := ssl_ctx x\<rparr>;
               (ok, y1, w1) = SSL_init host P S newsock y w in
        if ok then Inr (Some y1, w1) else bindE (Socket_close P (ssl_base y1) w1) (\<lambda>(_, _, w2). Inr (None, w2)))"

definition SSL_connect_return ::
    "byte_order \<Rightarrow> 'k platform \<Rightarrow> 'k openssl \<Rightarrow> int \<Rightarrow> ssl_sock \<Rightarrow> 'k hook \<Rightarrow> fault + bool \<times> ssl_sock \<times> 'k hook" where
  "SSL_connect_return host P S n x w =
     bindE (Socket_connect_return host P n (ssl_base x) w) (\<lambda>(v, b, w1).
       let x1 = x\<lparr>ssl_base := b\<rparr> in
       if v then let (c, w2) = SSL_CTX_new S False w1 in
         Inr (handshake S (SSL_connect S) (x1\<lparr>ssl_ctx := c\<rparr>) w2)
       else Inr (v, x1, w1))"

definition SSL_bind where
  "SSL_bind host P probe addr x w =
     bindE (Socket_bind host P probe addr (ssl_base x) w) (\<lambda>(ok, b, w1). Inr (ok, x\<lparr>ssl_base := b\<rparr>, w1))"

definition SSL_listen where "SSL_listen P backlog x w = Socket_listen P backlog (ssl_base x) w"

definition SSL_close where
  "SSL_close P x w = bindE (Socket_close P (ssl_base x) w) (\<lambda>(ok, b, w1). Inr (ok, x\<lparr>ssl_base := b\<rparr>, w1))"

section \<open>Sending and receiving\<close>

text \<open>The loop over the buffers: \<open>size\<close> is what a buffer asks for, \<open>op\<close> one call.\<close>

fun ssl_vector :: "('b \<Rightarrow> nat) \<Rightarrow> ('b \<Rightarrow> 'w \<Rightarrow> int \<times> 'w) \<Rightarrow> int \<Rightarrow> 'b list \<Rightarrow> 'w \<Rightarrow> int \<times> 'w" where
  "ssl_vector len op acc [] w = (acc, w)"
| "ssl_vector len op acc (b # bs) w =
     (let (tmp, w1) = op b w in
      if tmp \<le> 0 then (tmp, w1)
      else if tmp \<noteq> to_c_int (int (len b)) then (acc + tmp, w1)
      else ssl_vector len op (acc + tmp) bs w1)"

definition SSL_send :: "'k openssl \<Rightarrow> str \<Rightarrow> ssl_sock \<Rightarrow> 'k hook \<Rightarrow> int \<times> 'k hook" where
  "SSL_send S buffer x w = (case ssl_ssl x of None \<Rightarrow> (-1, w) | Some s \<Rightarrow> SSL_write S s buffer w)"

definition SSL_send_iov :: "'k openssl \<Rightarrow> str list \<Rightarrow> ssl_sock \<Rightarrow> 'k hook \<Rightarrow> int \<times> 'k hook" where
  "SSL_send_iov S buffers x w =
     (case ssl_ssl x of None \<Rightarrow> (-1, w) | Some s \<Rightarrow> ssl_vector length (SSL_write S s) 0 buffers w)"

definition SSL_recv :: "'k openssl \<Rightarrow> nat \<Rightarrow> ssl_sock \<Rightarrow> 'k hook \<Rightarrow> int \<times> 'k hook" where
  "SSL_recv S n x w = (case ssl_ssl x of None \<Rightarrow> (-1, w) | Some s \<Rightarrow> SSL_read S s n w)"

definition SSL_recv_iov :: "'k openssl \<Rightarrow> nat list \<Rightarrow> ssl_sock \<Rightarrow> 'k hook \<Rightarrow> int \<times> 'k hook" where
  "SSL_recv_iov S lens x w =
     (case ssl_ssl x of None \<Rightarrow> (-1, w) | Some s \<Rightarrow> ssl_vector (\<lambda>n. n) (SSL_read S s) 0 lens w)"

text \<open>The four calls with an address abort.\<close>

definition SSL_sendTo :: "fault + int" where "SSL_sendTo = Inl AssertFail"
definition SSL_recvFrom :: "fault + int" where "SSL_recvFrom = Inl AssertFail"

definition SSL_loadCertificates ::
    "'k openssl \<Rightarrow> str \<Rightarrow> str \<Rightarrow> ssl_sock \<Rightarrow> 'k hook \<Rightarrow> bool \<times> ssl_sock \<times> 'k hook" where
  "SSL_loadCertificates S cert_file key_file x w =
     (let (c, w1) = SSL_CTX_new S True w; x1 = x\<lparr>ssl_ctx := c\<rparr>; (a, w2) = SSL_use_chain S c (c_str cert_file) w1 in
      if a \<noteq> 1 then (False, x1, w2)
      else let (b, w3) = SSL_use_key S c (c_str key_file) w2 in
        if b \<noteq> 1 then (False, x1, w3)
        else let (d, w4) = SSL_check_key S c w3 in (d = 1, x1, w4))"

definition SSL_dump where "SSL_dump host x = sock_text host (chars ''SSLSocket'') (ssl_base x)"

section \<open>Properties\<close>

text \<open>A call that takes all of its buffer.\<close>

definition takes_all :: "('b \<Rightarrow> nat) \<Rightarrow> ('b \<Rightarrow> 'w \<Rightarrow> int \<times> 'w) \<Rightarrow> 'b \<Rightarrow> bool" where
  "takes_all len op b \<longleftrightarrow> 0 < len b \<and> len b < 2 ^ 31 \<and> (\<forall>w. fst (op b w) = int (len b))"

lemma to_c_int_small: "n < 2 ^ 31 \<Longrightarrow> to_c_int (int n) = int n"
  by (simp add: to_c_int_def signed_of_int signed_take_bit_int_eq_self del: of_int_of_nat_eq)

text \<open>
  A vector of buffers over SSL is as many calls as it takes until one does not take all of its buffer: the
  result is then the bytes of the buffers before and of that one. When the call fails instead, its result is
  returned as it is, and what the buffers before have already sent is not reported.
\<close>

theorem ssl_vector_result:
  fixes w :: 'w
  assumes "\<forall>b \<in> set bs. takes_all len op b"
  defines "w1 \<equiv> foldl (\<lambda>w b. snd (op b w)) w bs" and "sent \<equiv> int (sum_list (map len bs))"
  shows "ssl_vector len op acc bs w = (acc + sent, w1)
    \<and> (fst (op b w1) \<le> 0 \<longrightarrow> ssl_vector len op acc (bs @ b # cs) w = op b w1)
    \<and> (0 < fst (op b w1) \<and> fst (op b w1) < int (len b) \<and> len b < 2 ^ 31 \<longrightarrow>
         ssl_vector len op acc (bs @ b # cs) w = (acc + sent + fst (op b w1), snd (op b w1)))"
proof -
  have "ssl_vector len op acc (bs @ ds) w = ssl_vector len op (acc + int (sum_list (map len bs))) ds
      (foldl (\<lambda>w b. snd (op b w)) w bs)" for ds
    using assms(1)
  proof (induction bs arbitrary: acc w)
    case (Cons b bs)
    obtain u where "op b w = (int (len b), u)" using Cons.prems unfolding takes_all_def
      by (metis list.set_intros(1) prod.collapse)
    moreover have "0 < len b" "to_c_int (int (len b)) = int (len b)"
      using Cons.prems to_c_int_small by (auto simp: takes_all_def)
    ultimately show ?case using Cons by (simp add: algebra_simps)
  qed simp
  note loop = this [folded w1_def sent_def]
  show ?thesis
  proof (intro conjI impI)
    show "ssl_vector len op acc bs w = (acc + sent, w1)" using loop [of "[]"] by simp
    assume "fst (op b w1) \<le> 0"
    then show "ssl_vector len op acc (bs @ b # cs) w = op b w1"
      unfolding loop by (cases "op b w1") simp
  next
    assume "0 < fst (op b w1) \<and> fst (op b w1) < int (len b) \<and> len b < 2 ^ 31"
    then show "ssl_vector len op acc (bs @ b # cs) w = (acc + sent + fst (op b w1), snd (op b w1))"
      unfolding loop using to_c_int_small [of "len b"] by (cases "op b w1") simp
  qed
qed

theorem ssl_vector_result_witness:
  "ssl_vector length (\<lambda>b w. (if length b = 3 then 3 else -1, w @ take 3 b)) 0 [[1, 2, 3], [4]] ([] :: str) = (-1, [1, 2, 3, 4])"
  using ssl_vector_result [of "[[1, 2, 3 :: u8]]" length "\<lambda>b w. (if length b = 3 then 3 else -1, w @ take 3 b)" 0 "[]" "[4]" "[]"]
  by (simp add: takes_all_def)

end
