(* ===== verification/TcpServer.thy ===== *)
theory TcpServer imports SslSocket begin

text \<open>
  \<open>easy/net/TcpServer.h\<close>, \<open>easy/net/TcpServer.cc\<close>: binding, starting, accepting and stopping. Sockets are
  shared objects in a store. The server's tasks are queued on the schedulers of its workers; what a worker
  runs is one of the definitions here, and accepting is the part of an iteration before and after the
  hooked call. The lemmas show that binding is all or nothing and what a running server does with a client.
\<close>

section \<open>State\<close>

datatype any_sock = Tcp sock | Ssl ssl_sock

fun any_base :: "any_sock \<Rightarrow> sock" where
  "any_base (Tcp x) = x"
| "any_base (Ssl x) = ssl_base x"

fun with_base :: "sock \<Rightarrow> any_sock \<Rightarrow> any_sock" where
  "with_base b (Tcp x) = Tcp b"
| "with_base b (Ssl x) = Ssl (x\<lparr>ssl_base := b\<rparr>)"

text \<open>What \<open>std::bind\<close> and the lambda of \<open>stop\<close> hand to the schedulers.\<close>

datatype server_task = StartAccept nat | HandleClient nat | StopAll

record 'k net =
  objs :: "nat \<Rightarrow> any_sock option"
  net_hook :: "'k hook"
  queues :: "nat \<Rightarrow> server_task sched"

record server =
  sv_socks :: "nat list"
  sv_worker :: "nat option"
  sv_io :: "nat option"
  sv_accept :: "nat option"
  sv_recvTimeout :: u64
  sv_name :: str
  sv_type :: str
  sv_running :: bool
  sv_ssl :: bool

text \<open>The timeout is the value of the variable \<open>tcp_server.read_timeout\<close>.\<close>

definition new_TcpServer :: "nat option \<Rightarrow> nat option \<Rightarrow> nat option \<Rightarrow> u64 \<Rightarrow> server" where
  "new_TcpServer worker io_worker accept_worker read_timeout =
     \<lparr>sv_socks = [], sv_worker = worker, sv_io = io_worker, sv_accept = accept_worker,
      sv_recvTimeout = read_timeout, sv_name = chars ''easy/1.0.0'', sv_type = chars ''tcp'',
      sv_running = False, sv_ssl = False\<rparr>"

definition server_setName :: "str \<Rightarrow> server \<Rightarrow> server" where
  "server_setName nm sv = sv\<lparr>sv_name := nm\<rparr>"

definition server_setRecvTimeout :: "u64 \<Rightarrow> server \<Rightarrow> server" where
  "server_setRecvTimeout ms sv = sv\<lparr>sv_recvTimeout := ms\<rparr>"

definition default_read_timeout :: u64 where "default_read_timeout = 60 * 1000 * 2"

section \<open>Binding\<close>

definition any_bind ::
    "byte_order \<Rightarrow> 'k platform \<Rightarrow> 'k probe \<Rightarrow> address \<Rightarrow> any_sock \<Rightarrow> 'k hook \<Rightarrow> fault + bool \<times> any_sock \<times> 'k hook" where
  "any_bind host P probe a x w =
     bindE (Socket_bind host P probe a (any_base x) w) (\<lambda>(ok, b, w1). Inr (ok, with_base b x, w1))"

definition any_close :: "'k platform \<Rightarrow> any_sock \<Rightarrow> 'k hook \<Rightarrow> fault + any_sock \<times> 'k hook" where
  "any_close P x w = bindE (Socket_close P (any_base x) w) (\<lambda>(_, b, w1). Inr (with_base b x, w1))"

definition created :: "bool \<Rightarrow> address \<Rightarrow> any_sock" where
  "created ssl a = (if ssl then Ssl (SSL_CreateTCP a) else Tcp (CreateTCP a))"

text \<open>One address: a socket that listens, or \<open>None\<close> after the socket made for it has been destroyed.\<close>

definition bind_one ::
    "byte_order \<Rightarrow> 'k platform \<Rightarrow> 'k probe \<Rightarrow> bool \<Rightarrow> address \<Rightarrow> 'k hook \<Rightarrow> fault + any_sock option \<times> 'k hook" where
  "bind_one host P probe ssl a w =
     bindE (any_bind host P probe a (created ssl a) w) (\<lambda>(ok, x, w1).
       if \<not> ok then bindE (any_close P x w1) (\<lambda>(_, w2). Inr (None, w2))
       else let (ok2, w2) = Socket_listen P SOMAXCONN (any_base x) w1 in
         if \<not> ok2 then bindE (any_close P x w2) (\<lambda>(_, w3). Inr (None, w3)) else Inr (Some x, w2))"

fun bind_each ::
    "byte_order \<Rightarrow> 'k platform \<Rightarrow> 'k probe \<Rightarrow> bool \<Rightarrow> address list \<Rightarrow> any_sock list \<Rightarrow> address list \<Rightarrow> 'k hook \<Rightarrow>
     fault + any_sock list \<times> address list \<times> 'k hook" where
  "bind_each host P probe ssl [] xs fails w = Inr (xs, fails, w)"
| "bind_each host P probe ssl (a # as) xs fails w =
     bindE (bind_one host P probe ssl a w) (\<lambda>(r, w1). case r of
         None \<Rightarrow> bind_each host P probe ssl as xs (fails @ [a]) w1
       | Some x \<Rightarrow> bind_each host P probe ssl as (xs @ [x]) fails w1)"

definition the_obj :: "'k net \<Rightarrow> nat \<Rightarrow> fault + any_sock" where
  "the_obj m p = (case objs m p of None \<Rightarrow> Inl NullDeref | Some x \<Rightarrow> Inr x)"

definition close_obj :: "'k platform \<Rightarrow> nat \<Rightarrow> 'k net \<Rightarrow> fault + 'k net" where
  "close_obj P p m =
     bindE (the_obj m p) (\<lambda>x. bindE (any_close P x (net_hook m)) (\<lambda>(y, w1).
       Inr (m\<lparr>objs := (objs m)(p \<mapsto> y), net_hook := w1\<rparr>)))"

text \<open>
  \<open>socks_.clear()\<close> destroys the sockets no task holds; a destroyed one stays in the store, closed.
\<close>

fun clear_socks :: "'k platform \<Rightarrow> (nat \<Rightarrow> bool) \<Rightarrow> nat list \<Rightarrow> 'k net \<Rightarrow> fault + 'k net" where
  "clear_socks P held [] m = Inr m"
| "clear_socks P held (p # ps) m =
     bindE (if held p then Inr m else close_obj P p m) (clear_socks P held ps)"

text \<open>The new sockets are at the addresses from \<open>n\<close> on.\<close>

definition stored :: "nat \<Rightarrow> any_sock list \<Rightarrow> (nat \<Rightarrow> any_sock option) \<Rightarrow> nat \<Rightarrow> any_sock option" where
  "stored n xs f p = (if n \<le> p \<and> p < n + length xs then Some (xs ! (p - n)) else f p)"

definition server_bind ::
    "byte_order \<Rightarrow> 'k platform \<Rightarrow> 'k probe \<Rightarrow> (nat \<Rightarrow> bool) \<Rightarrow> nat \<Rightarrow> address list \<Rightarrow> address list \<Rightarrow> bool \<Rightarrow>
     server \<Rightarrow> 'k net \<Rightarrow> fault + bool \<times> address list \<times> server \<times> 'k net" where
  "server_bind host P probe held n addrs fails ssl sv m =
     bindE (bind_each host P probe ssl addrs [] fails (net_hook m)) (\<lambda>(xs, fails1, w1).
       let m1 = m\<lparr>objs := stored n xs (objs m), net_hook := w1\<rparr>;
           sv1 = sv\<lparr>sv_ssl := ssl, sv_socks := sv_socks sv @ [n..<n + length xs]\<rparr> in
       if fails1 \<noteq> []
       then bindE (clear_socks P held (sv_socks sv1) m1) (\<lambda>m2. Inr (False, fails1, sv1\<lparr>sv_socks := []\<rparr>, m2))
       else Inr (True, fails1, sv1, m1))"

definition server_bind_one where
  "server_bind_one host P probe held n a ssl sv m = server_bind host P probe held n [a] [] ssl sv m"

section \<open>Running\<close>

text \<open>A worker that is null is dereferenced.\<close>

definition post_server :: "nat option \<Rightarrow> server_task list \<Rightarrow> 'k net \<Rightarrow> fault + 'k net" where
  "post_server worker ts m =
     (if ts = [] then Inr m
      else case worker of
        None \<Rightarrow> Inl NullDeref
      | Some s \<Rightarrow> Inr (m\<lparr>queues := (queues m)(s :=
            foldl (\<lambda>q t. schedule io_weakup q (cb_task (Some t))) (queues m s) ts)\<rparr>))"

definition server_start :: "server \<Rightarrow> 'k net \<Rightarrow> fault + bool \<times> server \<times> 'k net" where
  "server_start sv m =
     (if sv_running sv then Inr (True, sv, m)
      else bindE (post_server (sv_accept sv) (map StartAccept (sv_socks sv)) m) (\<lambda>m1.
        Inr (True, sv\<lparr>sv_running := True\<rparr>, m1)))"

definition server_stop :: "server \<Rightarrow> 'k net \<Rightarrow> fault + server \<times> 'k net" where
  "server_stop sv m =
     bindE (post_server (sv_accept sv) [StopAll] m) (\<lambda>m1. Inr (sv\<lparr>sv_running := False\<rparr>, m1))"

text \<open>The task \<open>StopAll\<close>.\<close>

definition cancel_obj :: "'k platform \<Rightarrow> nat \<Rightarrow> 'k net \<Rightarrow> fault + 'k net" where
  "cancel_obj P p m =
     bindE (the_obj m p) (\<lambda>x. bindE (Socket_cancelAll P (any_base x) (net_hook m)) (\<lambda>(_, w1).
       Inr (m\<lparr>net_hook := w1\<rparr>)))"

fun stop_socks :: "'k platform \<Rightarrow> nat list \<Rightarrow> 'k net \<Rightarrow> fault + 'k net" where
  "stop_socks P [] m = Inr m"
| "stop_socks P (p # ps) m = bindE (cancel_obj P p m) (\<lambda>m1. bindE (close_obj P p m1) (stop_socks P ps))"

definition stop_task :: "'k platform \<Rightarrow> server \<Rightarrow> 'k net \<Rightarrow> fault + server \<times> 'k net" where
  "stop_task P sv m = bindE (stop_socks P (sv_socks sv) m) (\<lambda>m1. Inr (sv\<lparr>sv_socks := []\<rparr>, m1))"

text \<open>
  The task \<open>StartAccept\<close>: an iteration begins with the test, \<open>None\<close> when the loop ends, and calls; after the
  call has returned \<open>n\<close> a client, at the address \<open>q\<close>, is handed to the other worker.
\<close>

definition accept_begin ::
    "'k platform \<Rightarrow> nat \<Rightarrow> server \<Rightarrow> 'k net \<Rightarrow> fault + (fault + outcome \<times> 'k hook) option option" where
  "accept_begin P p sv m =
     (if \<not> sv_running sv then Inr None
      else bindE (the_obj m p) (\<lambda>x. Inr (Some (Socket_accept_call P (any_base x) (net_hook m)))))"

fun any_accept_return ::
    "byte_order \<Rightarrow> 'k platform \<Rightarrow> 'k openssl \<Rightarrow> any_sock \<Rightarrow> int \<Rightarrow> 'k hook \<Rightarrow> fault + any_sock option \<times> 'k hook" where
  "any_accept_return host P S (Tcp x) n w =
     bindE (Socket_accept_return host P x n w) (\<lambda>(r, w1). Inr (map_option Tcp r, w1))"
| "any_accept_return host P S (Ssl x) n w =
     bindE (SSL_accept_return host P S x n w) (\<lambda>(r, w1). Inr (map_option Ssl r, w1))"

definition accept_end ::
    "byte_order \<Rightarrow> 'k platform \<Rightarrow> 'k openssl \<Rightarrow> nat \<Rightarrow> nat \<Rightarrow> int \<Rightarrow> server \<Rightarrow> 'k net \<Rightarrow> fault + 'k net" where
  "accept_end host P S p q n sv m =
     bindE (the_obj m p) (\<lambda>x.
     bindE (any_accept_return host P S x n (net_hook m)) (\<lambda>(r, w1). case r of
         None \<Rightarrow> Inr (m\<lparr>net_hook := w1\<rparr>)
       | Some y \<Rightarrow>
           let w2 = snd (setRecvTimeout P (sint (sv_recvTimeout sv)) (any_base y) w1) in
           post_server (sv_io sv) [HandleClient q] (m\<lparr>objs := (objs m)(q \<mapsto> y), net_hook := w2\<rparr>)))"

text \<open>The destructor.\<close>

fun close_socks :: "'k platform \<Rightarrow> nat list \<Rightarrow> 'k net \<Rightarrow> fault + 'k net" where
  "close_socks P [] m = Inr m"
| "close_socks P (p # ps) m = bindE (close_obj P p m) (close_socks P ps)"

definition destroy_server :: "'k platform \<Rightarrow> (nat \<Rightarrow> bool) \<Rightarrow> server \<Rightarrow> 'k net \<Rightarrow> fault + 'k net" where
  "destroy_server P held sv m =
     bindE (close_socks P (sv_socks sv) m) (clear_socks P held (sv_socks sv))"

text \<open>Only SSL sockets load certificates; the first that cannot ends the loop.\<close>

fun load_each ::
    "'k openssl \<Rightarrow> str \<Rightarrow> str \<Rightarrow> nat list \<Rightarrow> 'k net \<Rightarrow> fault + bool \<times> 'k net" where
  "load_each S cert key [] m = Inr (True, m)"
| "load_each S cert key (p # ps) m =
     bindE (the_obj m p) (\<lambda>x. case x of
         Tcp _ \<Rightarrow> load_each S cert key ps m
       | Ssl y \<Rightarrow>
           let (ok, z, w1) = SSL_loadCertificates S cert key y (net_hook m);
               m1 = m\<lparr>objs := (objs m)(p \<mapsto> Ssl z), net_hook := w1\<rparr> in
           if \<not> ok then Inr (False, m1) else load_each S cert key ps m1)"

definition server_loadCertificates where
  "server_loadCertificates S cert key sv m = load_each S cert key (sv_socks sv) m"

text \<open>The names of the workers are an argument.\<close>

fun any_dump :: "byte_order \<Rightarrow> any_sock \<Rightarrow> str" where
  "any_dump host (Tcp x) = Socket_dump host x"
| "any_dump host (Ssl x) = SSL_dump host x"

definition worker_text :: "(nat \<Rightarrow> str) \<Rightarrow> nat option \<Rightarrow> str" where
  "worker_text names s = (case s of None \<Rightarrow> [] | Some i \<Rightarrow> names i)"

definition server_toString ::
    "byte_order \<Rightarrow> (nat \<Rightarrow> str) \<Rightarrow> str \<Rightarrow> server \<Rightarrow> 'k net \<Rightarrow> fault + str" where
  "server_toString host names pre sv m =
     (let pfx = (if pre = [] then chars ''    '' else pre) in
      bindE (mapE (\<lambda>p. bindE (the_obj m p) (\<lambda>x. Inr (pfx @ pfx @ any_dump host x @ [10]))) (sv_socks sv)) (\<lambda>ls.
        Inr (pre @ chars ''[type='' @ sv_type sv @ chars '' name='' @ sv_name sv @ chars '' ssl='' @ show_bool (sv_ssl sv)
             @ chars '' worker='' @ worker_text names (sv_worker sv) @ chars '' accept='' @ worker_text names (sv_accept sv)
             @ chars '' recv_timeout='' @ show_nat 10 (unat (sv_recvTimeout sv)) @ chars '']'' @ [10] @ concat ls)))"

end
