(* ===== verification/TcpServerState.thy ===== *)
theory TcpServerState imports TcpServer begin

text \<open>
  Properties of \<open>easy/net/TcpServer.cc\<close>: binding is all or nothing, and what a server does from its start, over
  the clients it accepts, to its stop.
\<close>

section \<open>Everything returns\<close>

definition probe_ok :: "'k probe \<Rightarrow> bool" where
  "probe_ok probe \<longleftrightarrow> (\<forall>a w. hook_ok w \<longrightarrow>
     (\<exists>b y w1. probe a CreateUnixTCPSocket w = Inr (b, y, w1) \<and> hook_ok w1 \<and> fd_ok (s_fd y)))"

lemma hook_close_datas:
  assumes "hook_close ctl fd f w = Inr (out, w1)" and "datas (fds w) \<noteq> []"
  shows "datas (fds w1) \<noteq> []"
proof -
  have same: "datas (fds u1) = datas (fds u)" if "passed (sys f u) = Inr (out, u1)" for u u1
    using that sys_simps(4) [of f u] by (cases "sys f u") (simp add: passed_def)
  have rm: "datas (removeFdCtx fd m) \<noteq> []" if "datas m \<noteq> []" for m
    using that by (simp add: removeFdCtx_def Let_def)
  show ?thesis
  proof (cases "\<not> enabled w \<or> fd_ctx w fd = None")
    case True
    then have "passed (sys f w) = Inr (out, w1)" using assms(1) unfolding hook_close_def by (simp only: if_True)
    then show ?thesis using same assms(2) by simp
  next
    case False
    then obtain u where u: "(if in_io w then bindE (cancelAll ctl fd (reactor w)) (\<lambda>(_, m). Inr (w\<lparr>reactor := m\<rparr>)) else Inr w) = Inr u"
        "passed (sys f (u\<lparr>fds := removeFdCtx fd (fds u)\<rparr>)) = Inr (out, w1)"
      using assms(1) unfolding hook_close_def by (auto simp: faults simp del: split_paired_Ex)
    have "fds u = fds w" using u(1) by (auto simp: faults split: if_splits)
    then show ?thesis using same [OF u(2)] rm assms(2) by simp
  qed
qed

lemma close_total:
  assumes "hook_ok w" and "fd_ok (s_fd x)"
  shows "\<exists>r w1. Socket_close P x w = Inr (r, x\<lparr>s_connected := False, s_fd := -1\<rparr>, w1) \<and> hook_ok w1"
proof (cases "s_fd x = -1")
  case True
  then have "x\<lparr>s_connected := False\<rparr> = x\<lparr>s_connected := False, s_fd := -1\<rparr>" by simp
  moreover have "\<not> s_connected x \<Longrightarrow> x\<lparr>s_connected := False\<rparr> = x" by simp
  ultimately show ?thesis using True assms(1) by (auto simp: Socket_close_def)
next
  case False
  then have "0 \<le> s_fd x" "s_fd x < 2 ^ 31" "in_io w \<longrightarrow> iom_ok (reactor w)"
    using assms by (auto simp: fd_ok_def hook_ok_def)
  then obtain n w1 where w1: "hook_close (p_ctl P) (s_fd x) (k_close P (s_fd x)) w = Inr (Ret n, w1)"
      "in_io w1 \<longrightarrow> iom_ok (reactor w1)"
    by (rule hook_close_ok [where ctl = "p_ctl P" and f = "k_close P (s_fd x)"]) blast
  have "hook_ok w1" using hook_close_datas [OF w1(1)] w1(2) assms(1) by (simp add: hook_ok_def)
  then show ?thesis using False w1(1) by (intro exI [of _ False] exI [of _ w1]) (simp add: Socket_close_def)
qed

lemma local_address_ok:
  assumes "getLocalAddress host P x w = (a, x1, w1)"
  shows "hook_ok w1 = hook_ok w"
  using assms
  by (intro hook_ok_same) (auto simp: getLocalAddress_def answered_address_def Let_def
      split: option.splits prod.splits if_splits)

lemma bind_finish_ok:
  "\<exists>b l w1. Socket_bind_finish host P a x w = (b, x\<lparr>s_local := l\<rparr>, w1) \<and> hook_ok w1 = hook_ok w
    \<and> answers (k_bind P (s_fd x) a) (\<lambda>n. b = (n = 0))"
proof -
  obtain n v where v: "sys (k_bind P (s_fd x) a) w = (n, v)" by fastforce
  have v_ok: "hook_ok v = hook_ok w" using v by (metis hook_ok_sys snd_conv)
  have ans: "answers (k_bind P (s_fd x) a) (\<lambda>m. (n = 0) = (m = 0))" by (rule sys_answers [OF v]) simp
  obtain c y u where u: "getLocalAddress host P x v = (c, y, u)" by (metis prod_cases3)
  show ?thesis
  proof (cases "n = 0")
    case True
    obtain l where "y = x\<lparr>s_local := l\<rparr>" using getLocalAddress_keeps [OF u] by blast
    then show ?thesis
      using v v_ok u local_address_ok [OF u] ans True
      by (intro exI [of _ True] exI [of _ l] exI [of _ u]) (simp add: Socket_bind_finish_def)
  next
    case False
    then show ?thesis
      using v v_ok ans by (intro exI [of _ False] exI [of _ "s_local x"] exI [of _ v]) (simp add: Socket_bind_finish_def)
  qed
qed

text \<open>A whole bind, whatever the address, and why one fails.\<close>

definition refused :: "'k platform \<Rightarrow> 'k probe \<Rightarrow> address \<Rightarrow> bool" where
  "refused P probe a \<longleftrightarrow> answers (k_socket P (uint (addr_family a)) SOCK_STREAM 0) (\<lambda>n. n = -1)
     \<or> (\<exists>fd. answers (k_bind P fd a) (\<lambda>n. n \<noteq> 0) \<or> answers (k_listen P fd SOMAXCONN) (\<lambda>n. n \<noteq> 0))
     \<or> (\<exists>w y w1. probe a CreateUnixTCPSocket w = Inr (True, y, w1))"

lemma Socket_bind_ok:
  assumes "platform_ok P" and "probe_ok probe" and "hook_ok w" and "fd_ok (s_fd x)"
    and "s_family x = uint (addr_family a)" and "s_type x = SOCK_STREAM" and "s_protocol x = 0"
  shows "\<exists>b fd l w1. Socket_bind host P probe a x w = Inr (b, x\<lparr>s_fd := fd, s_local := l\<rparr>, w1) \<and> hook_ok w1
    \<and> fd_ok fd \<and> (b \<longrightarrow> fd \<noteq> -1 \<and> answers (k_bind P fd a) (\<lambda>n. n = 0)) \<and> (\<not> b \<longrightarrow> refused P probe a)"
proof -
  obtain x1 v where v: "(if \<not> Socket_isValid x then newSock P x w else Inr (x, w)) = Inr (x1, v)" "hook_ok v"
      "fd_ok (s_fd x1)" "x1 = x\<lparr>s_fd := s_fd x1\<rparr>" "s_fd x1 = -1 \<longrightarrow> refused P probe a"
    using newSock_if_ok [OF assms(1,3,4)] unfolding refused_def assms(5,6,7) by blast
  have family: "s_family x1 = uint (addr_family a)" by (subst v(4)) (simp add: assms(5))
  have check: "Socket_bind_check P a x w
      = Inr (if s_fd x1 = -1 then Inl False else Inr (case a of Unix u \<Rightarrow> True | _ \<Rightarrow> False), x1, v)"
    unfolding Socket_bind_check_def v(1) using family by (simp add: Socket_isValid_def)
  have whole: "Socket_bind host P probe a x w
      = (if s_fd x1 = -1 then Inr (False, x1, v)
         else if (case a of Unix u \<Rightarrow> True | _ \<Rightarrow> False)
         then bindE (probe a CreateUnixTCPSocket v) (\<lambda>(c, y, w2). Socket_bind_probed host P a c y x1 w2)
         else Inr (Socket_bind_finish host P a x1 v))"
    unfolding Socket_bind_def check by (simp del: split_paired_All)
  let ?good = "\<lambda>r. \<exists>b fd l w1. r = Inr (b, x\<lparr>s_fd := fd, s_local := l\<rparr>, w1) \<and> hook_ok w1
      \<and> fd_ok fd \<and> (b \<longrightarrow> fd \<noteq> -1 \<and> answers (k_bind P fd a) (\<lambda>n. n = 0)) \<and> (\<not> b \<longrightarrow> refused P probe a)"
  have fin: "?good (Inr (Socket_bind_finish host P a x1 u))" if good: "s_fd x1 \<noteq> -1" and ok: "hook_ok u" for u
  proof -
    obtain b l w1 where b: "Socket_bind_finish host P a x1 u = (b, x1\<lparr>s_local := l\<rparr>, w1)" "hook_ok w1"
        "answers (k_bind P (s_fd x1) a) (\<lambda>n. b = (n = 0))"
      using bind_finish_ok ok by metis
    have "x1\<lparr>s_local := l\<rparr> = x\<lparr>s_fd := s_fd x1, s_local := l\<rparr>" by (subst v(4)) simp
    moreover have "\<not> b \<Longrightarrow> refused P probe a" using b(3) by (auto simp: refused_def)
    ultimately show ?thesis
      using b good v(3) by (intro exI [of _ b] exI [of _ "s_fd x1"] exI [of _ l] exI [of _ w1]) (cases b; simp)
  qed
  have old: "x1 = x\<lparr>s_fd := s_fd x1, s_local := s_local x\<rparr>" by (subst v(4)) simp
  have no: "?good (Inr (False, x1, u))" if "hook_ok u" and "refused P probe a" for u :: "'a hook"
  proof (intro exI conjI)
    show "Inr (False, x1, u) = Inr (False, x\<lparr>s_fd := s_fd x1, s_local := s_local x\<rparr>, u)"
      by (rule arg_cong [OF old, of "\<lambda>z. Inr (False, z, u)"])
  qed (use that v(3) in simp_all)
  show ?thesis
  proof (cases "s_fd x1 \<noteq> -1 \<and> (case a of Unix u \<Rightarrow> True | _ \<Rightarrow> False)")
    case True
    obtain c y w2 where y: "probe a CreateUnixTCPSocket v = Inr (c, y, w2)" "hook_ok w2" "fd_ok (s_fd y)"
      using assms(2) v(2) unfolding probe_ok_def by blast
    let ?w = "if c then w2 else (case a of Unix u \<Rightarrow> snd (sys (k_unlink P (c_str (un_path u))) w2) | _ \<Rightarrow> w2)"
    have "hook_ok ?w" using y(2) by (auto split: address.splits)
    then obtain r w3 where c: "Socket_close P y ?w = Inr (r, y\<lparr>s_connected := False, s_fd := -1\<rparr>, w3)" "hook_ok w3"
      using close_total [OF _ y(3)] by blast
    have to: "Socket_bind host P probe a x w = Socket_bind_probed host P a c y x1 w2" using True whole y(1) by simp
    show ?thesis
    proof (cases c)
      case True
      then have "refused P probe a" using y(1) by (auto simp: refused_def)
      from no [OF c(2) this] show ?thesis using to True c(1) by (simp add: Socket_bind_probed_def)
    next
      case False
      then show ?thesis using to c fin [OF _ c(2)] \<open>s_fd x1 \<noteq> -1 \<and> _\<close> by (simp add: Socket_bind_probed_def)
    qed
  next
    case False
    then show ?thesis using whole fin [OF _ v(2)] no [OF v(2)] v(5) by (cases "s_fd x1 = -1") simp_all
  qed
qed

section \<open>Binding a server\<close>

text \<open>A socket that listens for an address, and one that is closed.\<close>

definition listens :: "'k platform \<Rightarrow> bool \<Rightarrow> address \<Rightarrow> any_sock \<Rightarrow> bool" where
  "listens P ssl a x \<longleftrightarrow> s_fd (any_base x) \<noteq> -1 \<and> s_family (any_base x) = uint (addr_family a)
     \<and> s_type (any_base x) = SOCK_STREAM \<and> (case x of Tcp _ \<Rightarrow> \<not> ssl | Ssl _ \<Rightarrow> ssl)
     \<and> answers (k_bind P (s_fd (any_base x)) a) (\<lambda>n. n = 0)
     \<and> answers (k_listen P (s_fd (any_base x)) SOMAXCONN) (\<lambda>n. n = 0)"

definition closed :: "any_sock \<Rightarrow> bool" where
  "closed x \<longleftrightarrow> s_fd (any_base x) = -1 \<and> \<not> s_connected (any_base x)"

lemma any_base_with_base [simp]: "any_base (with_base b x) = b"
  by (cases x) simp_all

lemma any_close_ok:
  assumes "hook_ok w" and "fd_ok (s_fd (any_base x))"
  shows "\<exists>y w1. any_close P x w = Inr (y, w1) \<and> hook_ok w1 \<and> closed y"
  using close_total [OF assms, of P] by (auto simp: any_close_def closed_def)

lemma created_base: "any_base (created ssl a) = new_Socket (uint (addr_family a)) SOCK_STREAM 0"
  by (simp add: created_def CreateTCP_def SSL_CreateTCP_def new_SSLSocket_def)

lemma created_with: "(case with_base b (created ssl a) of Tcp _ \<Rightarrow> \<not> ssl | Ssl _ \<Rightarrow> ssl)"
  by (simp add: created_def)

lemma listen_ok:
  shows "hook_ok (snd (Socket_listen P n x w)) = hook_ok w"
    and "s_fd x \<noteq> -1 \<Longrightarrow> answers (k_listen P (s_fd x) n) (\<lambda>r. fst (Socket_listen P n x w) = (r = 0))"
proof -
  obtain r v where v: "sys (k_listen P (s_fd x) n) w = (r, v)" by fastforce
  then have "hook_ok v = hook_ok w" by (metis hook_ok_sys snd_conv)
  then show "hook_ok (snd (Socket_listen P n x w)) = hook_ok w" using v by (simp add: Socket_listen_def)
  show "answers (k_listen P (s_fd x) n) (\<lambda>r. fst (Socket_listen P n x w) = (r = 0))" if "s_fd x \<noteq> -1"
    using that v by (intro sys_answers [OF v]) (simp add: Socket_listen_def Socket_isValid_def)
qed

lemma bind_one_ok:
  assumes "platform_ok P" and "probe_ok probe" and "hook_ok w"
  shows "\<exists>r w1. bind_one host P probe ssl a w = Inr (r, w1) \<and> hook_ok w1
    \<and> (\<forall>x. r = Some x \<longrightarrow> listens P ssl a x \<and> fd_ok (s_fd (any_base x))) \<and> (r = None \<longrightarrow> refused P probe a)"
proof -
  let ?b = "new_Socket (uint (addr_family a)) SOCK_STREAM 0"
  obtain ok fd l v where v: "Socket_bind host P probe a ?b w = Inr (ok, ?b\<lparr>s_fd := fd, s_local := l\<rparr>, v)" "hook_ok v"
      "fd_ok fd" "ok \<longrightarrow> fd \<noteq> -1 \<and> answers (k_bind P fd a) (\<lambda>n. n = 0)" "\<not> ok \<longrightarrow> refused P probe a"
    using Socket_bind_ok [OF assms, of ?b a host] by (auto simp: new_Socket_def fd_ok_def)
  let ?x = "with_base (?b\<lparr>s_fd := fd, s_local := l\<rparr>) (created ssl a)"
  have bind: "any_bind host P probe a (created ssl a) w = Inr (ok, ?x, v)"
    using v(1) by (simp add: any_bind_def created_base)
  have fd: "fd_ok (s_fd (any_base ?x))" using v(3) by simp
  show ?thesis
  proof (cases ok)
    case False
    then show ?thesis
      using any_close_ok [OF v(2) fd, of P] v(5) by (auto simp: bind_one_def bind)
  next
    case True
    obtain ok2 u where u: "Socket_listen P SOMAXCONN (any_base ?x) v = (ok2, u)" by fastforce
    have u_ok: "hook_ok u" using u v(2) listen_ok(1) by (metis snd_conv)
    have l: "answers (k_listen P fd SOMAXCONN) (\<lambda>n. ok2 = (n = 0))"
      using listen_ok(2) [of "any_base ?x" P SOMAXCONN v] u True v(4) by simp
    have "ok2 \<Longrightarrow> listens P ssl a ?x" using v(4) l True created_with by (auto simp: listens_def new_Socket_def)
    moreover have "\<not> ok2 \<Longrightarrow> refused P probe a" using l by (auto simp: refused_def)
    ultimately show ?thesis
      using True u u_ok any_close_ok [OF u_ok fd, of P] v(3) by (cases ok2) (auto simp: bind_one_def bind)
  qed
qed

text \<open>What the loop has collected, address by address.\<close>

lemma bind_each_ok:
  assumes "platform_ok P" and "probe_ok probe" and "hook_ok w"
  shows "\<exists>ys bad w1. bind_each host P probe ssl as xs fails w = Inr (xs @ ys, fails @ bad, w1) \<and> hook_ok w1
    \<and> set bad \<subseteq> {a \<in> set as. refused P probe a} \<and> length ys + length bad = length as
    \<and> (\<forall>x \<in> set ys. fd_ok (s_fd (any_base x))) \<and> (bad = [] \<longrightarrow> list_all2 (listens P ssl) as ys)"
  using assms(3)
proof (induction as arbitrary: xs fails w)
  case (Cons a as)
  obtain r v where v: "bind_one host P probe ssl a w = Inr (r, v)" "hook_ok v"
      "\<forall>x. r = Some x \<longrightarrow> listens P ssl a x \<and> fd_ok (s_fd (any_base x))" "r = None \<longrightarrow> refused P probe a"
    using bind_one_ok [OF assms(1,2) Cons.prems] by metis
  show ?case
  proof (cases r)
    case None
    obtain ys bad w1 where "bind_each host P probe ssl as xs (fails @ [a]) v = Inr (xs @ ys, (fails @ [a]) @ bad, w1)"
        "hook_ok w1" "set bad \<subseteq> {a \<in> set as. refused P probe a}" "length ys + length bad = length as"
        "\<forall>x \<in> set ys. fd_ok (s_fd (any_base x))"
      using Cons.IH [OF v(2), of xs "fails @ [a]"] by blast
    then show ?thesis
      using None v(1,4) by (intro exI [of _ ys] exI [of _ "a # bad"] exI [of _ w1]) auto
  next
    case (Some x)
    obtain ys bad w1 where "bind_each host P probe ssl as (xs @ [x]) fails v = Inr ((xs @ [x]) @ ys, fails @ bad, w1)"
        "hook_ok w1" "set bad \<subseteq> {a \<in> set as. refused P probe a}" "length ys + length bad = length as"
        "\<forall>x \<in> set ys. fd_ok (s_fd (any_base x))" "bad = [] \<longrightarrow> list_all2 (listens P ssl) as ys"
      using Cons.IH [OF v(2), of "xs @ [x]" fails] by blast
    then show ?thesis
      using Some v(1,3) by (intro exI [of _ "x # ys"] exI [of _ bad] exI [of _ w1]) auto
  qed
qed simp

text \<open>The store: every socket of a list is there.\<close>

definition net_ok :: "nat list \<Rightarrow> 'k net \<Rightarrow> bool" where
  "net_ok ps m \<longleftrightarrow> hook_ok (net_hook m) \<and> (\<forall>p \<in> set ps. \<exists>x. objs m p = Some x \<and> fd_ok (s_fd (any_base x)))"

definition closed_at :: "'k net \<Rightarrow> nat \<Rightarrow> bool" where
  "closed_at m p \<longleftrightarrow> (\<exists>x. objs m p = Some x \<and> closed x)"

lemma close_obj_ok:
  assumes "net_ok ps m" and "p \<in> set ps"
  shows "\<exists>m1. close_obj P p m = Inr m1 \<and> net_ok ps m1 \<and> closed_at m1 p
    \<and> (\<forall>q. q \<noteq> p \<longrightarrow> objs m1 q = objs m q) \<and> queues m1 = queues m"
proof -
  obtain x where x: "objs m p = Some x" "fd_ok (s_fd (any_base x))" using assms by (auto simp: net_ok_def)
  obtain y w1 where y: "any_close P x (net_hook m) = Inr (y, w1)" "hook_ok w1" "closed y"
    using any_close_ok [OF _ x(2)] assms(1) unfolding net_ok_def by blast
  have "fd_ok (s_fd (any_base y))" using y(3) by (simp add: closed_def fd_ok_def)
  then show ?thesis
    using x(1) y assms(1) by (simp add: close_obj_def the_obj_def net_ok_def closed_at_def)
qed

lemma closed_stays:
  assumes "closed_at m q" and "\<forall>r. r \<noteq> p \<longrightarrow> objs m1 r = objs m r" and "closed_at m1 p"
  shows "closed_at m1 q"
  using assms unfolding closed_at_def by (cases "q = p") auto

lemma clear_socks_ok:
  assumes "net_ok qs m" and "set ps \<subseteq> set qs"
  shows "\<exists>m1. clear_socks P held ps m = Inr m1 \<and> net_ok qs m1 \<and> (\<forall>p \<in> set ps. \<not> held p \<longrightarrow> closed_at m1 p)
    \<and> (\<forall>q. closed_at m q \<longrightarrow> closed_at m1 q) \<and> queues m1 = queues m"
  using assms
proof (induction ps arbitrary: m)
  case (Cons p ps)
  obtain m1 where m1: "(if held p then Inr m else close_obj P p m) = Inr m1" "net_ok qs m1" "\<not> held p \<longrightarrow> closed_at m1 p"
      "\<forall>q. closed_at m q \<longrightarrow> closed_at m1 q" "queues m1 = queues m"
  proof (cases "held p")
    case False
    obtain m1 where "close_obj P p m = Inr m1" "net_ok qs m1" "closed_at m1 p" "\<forall>q. q \<noteq> p \<longrightarrow> objs m1 q = objs m q"
        "queues m1 = queues m"
      using close_obj_ok [OF Cons.prems(1), of p P] Cons.prems(2) by auto
    then show ?thesis using False closed_stays [of m _ p m1] by (intro that [of m1]) simp_all
  qed (use that [of m] Cons.prems(1) in simp)
  obtain m2 where "clear_socks P held ps m1 = Inr m2" "net_ok qs m2" "\<forall>p \<in> set ps. \<not> held p \<longrightarrow> closed_at m2 p"
      "\<forall>q. closed_at m1 q \<longrightarrow> closed_at m2 q" "queues m2 = queues m1"
    using Cons.IH [OF m1(2)] Cons.prems(2) by auto
  then show ?case using m1 by auto
qed auto

section \<open>Properties\<close>

text \<open>
  C26. Binding is all or nothing: it returns, and when it answers true the server has one more socket per
  address, in order, of its family and of the kind asked for, whose \<open>bind\<close> and \<open>listen\<close> calls were answered
  with 0. It answers false exactly when it reports an address, for each of which the kernel refused a descriptor, the
  \<open>bind\<close> or the \<open>listen\<close>, or whose Unix path somebody already accepts on; then the server has no socket left, every one
  that no task holds being closed, also those of an earlier successful bind.
\<close>

theorem bind_all_or_nothing:
  assumes "platform_ok P" and "probe_ok probe" and "net_ok (sv_socks sv) m" and "\<forall>p \<in> set (sv_socks sv). p < n"
  shows "\<exists>ok fails sv1 m1. server_bind host P probe held n addrs [] ssl sv m = Inr (ok, fails, sv1, m1)
    \<and> ok = (fails = []) \<and> set fails \<subseteq> {a \<in> set addrs. refused P probe a}
    \<and> (ok \<longrightarrow> sv_socks sv1 = sv_socks sv @ [n..<n + length addrs]
         \<and> (\<forall>i < length addrs. \<exists>x. objs m1 (n + i) = Some x \<and> listens P ssl (addrs ! i) x))
    \<and> (\<not> ok \<longrightarrow> sv_socks sv1 = []
         \<and> (\<forall>p \<in> set (sv_socks sv) \<union> {n..<n + length addrs - length fails}. \<not> held p \<longrightarrow> closed_at m1 p))"
proof -
  have "hook_ok (net_hook m)" using assms(3) by (simp add: net_ok_def)
  then obtain ys bad w1 where b: "bind_each host P probe ssl addrs [] [] (net_hook m) = Inr (ys, bad, w1)" "hook_ok w1"
      "set bad \<subseteq> {a \<in> set addrs. refused P probe a}" "length ys + length bad = length addrs" "\<forall>x \<in> set ys. fd_ok (s_fd (any_base x))"
      "bad = [] \<longrightarrow> list_all2 (listens P ssl) addrs ys"
    using bind_each_ok [OF assms(1,2), of "net_hook m" host ssl addrs "[]" "[]"] by auto
  let ?m = "m\<lparr>objs := stored n ys (objs m), net_hook := w1\<rparr>"
  let ?ps = "sv_socks sv @ [n..<n + length ys]"
  have "\<exists>x. objs ?m p = Some x \<and> fd_ok (s_fd (any_base x))" if "p \<in> set ?ps" for p
  proof (cases "p < n")
    case True
    then show ?thesis using that assms(3) by (auto simp: stored_def net_ok_def)
  next
    case False
    then show ?thesis using that assms(4) b(5) by (auto simp: stored_def)
  qed
  then have net: "net_ok ?ps ?m" using b(2) by (simp add: net_ok_def)
  show ?thesis
  proof (cases "bad = []")
    case True
    have "\<exists>x. objs ?m (n + i) = Some x \<and> listens P ssl (addrs ! i) x" if "i < length addrs" for i
      using True b(4,6) that by (auto simp: stored_def list_all2_conv_all_nth)
    then show ?thesis
      using True b by (intro exI [of _ True] exI [of _ "[]"] exI [of _ "sv\<lparr>sv_ssl := ssl, sv_socks := ?ps\<rparr>"] exI [of _ ?m])
        (simp add: server_bind_def)
  next
    case False
    obtain m2 where m2: "clear_socks P held ?ps ?m = Inr m2" "\<forall>p \<in> set ?ps. \<not> held p \<longrightarrow> closed_at m2 p"
      using clear_socks_ok [OF net subset_refl, of P held] by blast
    have "length addrs - length bad = length ys" using b(4) by simp
    then have "n + length addrs - length bad = n + length ys" using b(4) by linarith
    then show ?thesis
      using False b m2 by (intro exI [of _ False] exI [of _ bad] exI [of _ "sv\<lparr>sv_ssl := ssl, sv_socks := []\<rparr>"] exI [of _ m2])
        (simp add: server_bind_def)
  qed
qed

text \<open>A probe nobody answers.\<close>

definition no_answer :: "'k probe" where
  "no_answer a x w = Inr (False, x, w)"

definition example_net :: "nat net" where
  "example_net = \<lparr>objs = (\<lambda>_. None), net_hook = example_hook,
     queues = (\<lambda>_. \<lparr>callerTid = -1, threadIds = [], threadNums = 1, activeThreadNums = 0, idleThreadNums = 0,
       running = True, threads = [], tasks = [], callerFiber = None, weakups = 0\<rparr>)\<rparr>"

definition example_server :: server where
  "example_server = new_TcpServer (Some 1) (Some 1) (Some 2) 3000"

lemma example_platform_ok: "platform_ok example_platform"
  by (simp add: platform_ok_def example_platform_def fd_ok_def)

lemma no_answer_ok: "probe_ok (no_answer :: 'a probe)"
  unfolding probe_ok_def
proof (intro allI impI)
  fix a and w :: "'a hook"
  assume "hook_ok w"
  then show "\<exists>b y w1. no_answer a CreateUnixTCPSocket w = Inr (b, y, w1) \<and> hook_ok w1 \<and> fd_ok (s_fd y)"
    by (intro exI [of _ False] exI [of _ CreateUnixTCPSocket] exI [of _ w])
      (simp add: no_answer_def CreateUnixTCPSocket_def new_Socket_def fd_ok_def)
qed

lemma example_net_ok: "net_ok [] example_net"
  using example_iom_ok
  by (simp add: net_ok_def example_net_def hook_ok_def example_hook_def)

theorem bind_all_or_nothing_witness:
  "\<exists>ok fails sv1 m1. server_bind EASY_LITTLE_ENDIAN example_platform no_answer (\<lambda>_. False) 1 [V6 empty_IPv6Address] [] True example_server
     example_net = Inr (ok, fails, sv1, m1) \<and> ok = (fails = []) \<and> (ok \<longrightarrow> sv_socks sv1 = [1])"
proof -
  have "sv_socks example_server = []" by (simp add: example_server_def new_TcpServer_def)
  then show ?thesis
    using bind_all_or_nothing [OF example_platform_ok no_answer_ok, of example_server example_net 1 EASY_LITTLE_ENDIAN "\<lambda>_. False"
        "[V6 empty_IPv6Address]" True] example_net_ok by auto
qed

text \<open>Posting to a worker adds the tasks at the end of its queue.\<close>

lemma post_server_ok:
  assumes "ts \<noteq> [] \<Longrightarrow> worker = Some s"
  shows "\<exists>m1. post_server worker ts m = Inr m1 \<and> objs m1 = objs m \<and> net_hook m1 = net_hook m
    \<and> (worker = Some s \<longrightarrow> tasks (queues m1 s) = tasks (queues m s) @ map (\<lambda>t. cb_task (Some t)) ts)
    \<and> (\<forall>r. worker \<noteq> Some r \<longrightarrow> queues m1 r = queues m r)"
proof -
  have "tasks (foldl (\<lambda>q t. schedule io_weakup q (cb_task (Some t))) q ts) = tasks q @ map (\<lambda>t. cb_task (Some t)) ts"
    for q :: "server_task sched"
  proof -
    have "filter (\<lambda>t. \<not> null_task t) (map (\<lambda>t. cb_task (Some t)) ts) = map (\<lambda>t. cb_task (Some t)) ts"
      by (simp add: filter_map comp_def null_task_def cb_task_def)
    then show ?thesis
      using io_queue.queued_post_all [of q "map (\<lambda>t. cb_task (Some t)) ts"] by (simp add: foldl_map)
  qed
  then show ?thesis using assms by (cases worker) (auto simp: post_server_def)
qed

lemma cancel_obj_ok:
  assumes "net_ok ps m" and "in_io (net_hook m)" and "p \<in> set ps" and "\<forall>x. objs m p = Some x \<longrightarrow> s_fd (any_base x) \<noteq> -1"
  shows "\<exists>m1. cancel_obj P p m = Inr m1 \<and> net_ok ps m1 \<and> in_io (net_hook m1) \<and> objs m1 = objs m"
proof -
  obtain x where x: "objs m p = Some x" "fd_ok (s_fd (any_base x))" using assms(1,3) by (auto simp: net_ok_def)
  then have fd: "0 \<le> s_fd (any_base x)" "s_fd (any_base x) < 2 ^ 31" using assms(4) by (auto simp: fd_ok_def)
  have "iom_ok (reactor (net_hook m))" using assms(1,2) by (simp add: net_ok_def hook_ok_def)
  then obtain r k where "cancelAll (p_ctl P) (s_fd (any_base x)) (reactor (net_hook m)) = Inr (r, k)" "iom_ok k"
    using fd by (rule cancelAll_keeps [where ctl = "p_ctl P"])
  then show ?thesis
    using x(1) assms(1,2)
    by (simp add: cancel_obj_def the_obj_def Socket_cancelAll_def on_reactor_def net_ok_def hook_ok_def)
qed

lemma close_keeps_in_io:
  assumes "close_obj P p m = Inr m1" and "net_ok ps m" and "p \<in> set ps" and "in_io (net_hook m)"
    and "\<forall>x. objs m p = Some x \<longrightarrow> s_fd (any_base x) \<noteq> -1"
  shows "in_io (net_hook m1)"
proof -
  obtain x where x: "objs m p = Some x" "fd_ok (s_fd (any_base x))" using assms(2,3) by (auto simp: net_ok_def)
  then have "closable (any_base x) (net_hook m)"
    using assms(2,5) by (auto simp: closable_def fd_ok_def net_ok_def hook_ok_def)
  then obtain w1 where "Socket_close P (any_base x) (net_hook m)
      = Inr (False, (any_base x)\<lparr>s_connected := False, s_fd := -1\<rparr>, w1)" "in_io w1 = in_io (net_hook m)"
    by (rule Socket_close_ok [where P = P]) blast
  then show ?thesis using assms(1,4) x(1) by (auto simp: close_obj_def the_obj_def any_close_def)
qed

lemma stop_socks_ok:
  assumes "net_ok qs m" and "in_io (net_hook m)" and "set ps \<subseteq> set qs" and "distinct ps"
    and "\<forall>p \<in> set ps. \<forall>x. objs m p = Some x \<longrightarrow> s_fd (any_base x) \<noteq> -1"
  shows "\<exists>m1. stop_socks P ps m = Inr m1 \<and> (\<forall>p \<in> set ps. closed_at m1 p) \<and> (\<forall>q. closed_at m q \<longrightarrow> closed_at m1 q)"
  using assms
proof (induction ps arbitrary: m)
  case (Cons p ps)
  have p: "p \<in> set qs" "\<forall>x. objs m p = Some x \<longrightarrow> s_fd (any_base x) \<noteq> -1" using Cons.prems(3,5) by auto
  obtain m1 where m1: "cancel_obj P p m = Inr m1" "net_ok qs m1" "in_io (net_hook m1)" "objs m1 = objs m"
    using cancel_obj_ok [OF Cons.prems(1,2) p] by blast
  obtain m2 where m2: "close_obj P p m1 = Inr m2" "net_ok qs m2" "closed_at m2 p" "\<forall>q. q \<noteq> p \<longrightarrow> objs m2 q = objs m1 q"
    using close_obj_ok [OF m1(2) p(1)] by blast
  have io: "in_io (net_hook m2)" using close_keeps_in_io [OF m2(1) m1(2) p(1) m1(3)] p(2) m1(4) by simp
  have "\<forall>q \<in> set ps. \<forall>x. objs m2 q = Some x \<longrightarrow> s_fd (any_base x) \<noteq> -1"
    using Cons.prems(4,5) m1(4) m2(4) by (metis distinct.simps(2) list.set_intros(2))
  then obtain m3 where m3: "stop_socks P ps m2 = Inr m3" "\<forall>p \<in> set ps. closed_at m3 p" "\<forall>q. closed_at m2 q \<longrightarrow> closed_at m3 q"
    using Cons.IH [OF m2(2) io] Cons.prems(3,4) by auto
  have "closed_at m2 q" if "closed_at m q" for q
    using closed_stays [of m1 q p m2] m2(3,4) m1(4) that by (simp add: closed_at_def)
  then show ?case using m1(1) m2(1,3) m3 by simp
qed simp

text \<open>
  C27. A server serves until it is stopped: \<open>start\<close> queues one accepting task per listening socket on
  the accept worker, in order, and a second \<open>start\<close> nothing; an accepted client is stored with the
  server's timeout as its receive timeout and handed to the other worker by exactly one task, while a failed
  accept hands over nothing; \<open>stop\<close> queues its task, ends every accepting loop at its next test, and the task closes
  every socket and leaves the server without one.
\<close>

theorem server_life:
  assumes "sv_accept sv = Some a" and "sv_io sv = Some io" and "\<not> sv_running sv"
  defines "sv1 \<equiv> sv\<lparr>sv_running := True\<rparr>"
  shows "(\<exists>m1. server_start sv m = Inr (True, sv1, m1) \<and> objs m1 = objs m \<and> net_hook m1 = net_hook m
      \<and> tasks (queues m1 a) = tasks (queues m a) @ map (\<lambda>p. cb_task (Some (StartAccept p))) (sv_socks sv)
      \<and> server_start sv1 m1 = Inr (True, sv1, m1))
    \<and> (\<forall>x p q n. objs m p = Some x \<longrightarrow>
        (\<forall>y w1 c. any_accept_return host P S x n (net_hook m) = Inr (Some y, w1) \<and> enabled w1
            \<and> fd_ctx w1 (s_fd (any_base y)) = Some c \<longrightarrow>
          (\<exists>m2. accept_end host P S p q n sv1 m = Inr m2 \<and> objs m2 q = Some y
            \<and> getRecvTimeout (any_base y) (net_hook m2) = sint (sv_recvTimeout sv)
            \<and> tasks (queues m2 io) = tasks (queues m io) @ [cb_task (Some (HandleClient q))]))
      \<and> accept_end host P S p q (-1) sv1 m = Inr m)
    \<and> (\<exists>m3. server_stop sv1 m = Inr (sv, m3) \<and> tasks (queues m3 a) = tasks (queues m a) @ [cb_task (Some StopAll)])
    \<and> (\<forall>p. accept_begin P p sv m = Inr None)
    \<and> (net_ok (sv_socks sv) m \<and> in_io (net_hook m) \<and> distinct (sv_socks sv)
         \<and> (\<forall>p \<in> set (sv_socks sv). \<forall>x. objs m p = Some x \<longrightarrow> s_fd (any_base x) \<noteq> -1) \<longrightarrow>
        (\<exists>m4. stop_task P sv m = Inr (sv\<lparr>sv_socks := []\<rparr>, m4) \<and> (\<forall>p \<in> set (sv_socks sv). closed_at m4 p)))"
proof (intro conjI allI impI)
  obtain m1 where "post_server (sv_accept sv) (map StartAccept (sv_socks sv)) m = Inr m1" "objs m1 = objs m"
      "net_hook m1 = net_hook m"
      "tasks (queues m1 a) = tasks (queues m a) @ map (\<lambda>p. cb_task (Some (StartAccept p))) (sv_socks sv)"
    using post_server_ok [of "map StartAccept (sv_socks sv)" "sv_accept sv" a m] assms(1) by (auto simp: comp_def)
  then show "\<exists>m1. server_start sv m = Inr (True, sv1, m1) \<and> objs m1 = objs m \<and> net_hook m1 = net_hook m
      \<and> tasks (queues m1 a) = tasks (queues m a) @ map (\<lambda>p. cb_task (Some (StartAccept p))) (sv_socks sv)
      \<and> server_start sv1 m1 = Inr (True, sv1, m1)"
    using assms(3) by (intro exI [of _ m1]) (simp add: server_start_def sv1_def)
next
  fix x p q n y w1 c
  assume x: "objs m p = Some x" and y: "any_accept_return host P S x n (net_hook m) = Inr (Some y, w1) \<and> enabled w1
      \<and> fd_ctx w1 (s_fd (any_base y)) = Some c"
  let ?w = "snd (setRecvTimeout P (sint (sv_recvTimeout sv)) (any_base y) w1)"
  let ?m = "m\<lparr>objs := (objs m)(q \<mapsto> y), net_hook := ?w\<rparr>"
  obtain m2 where m2: "post_server (sv_io sv) [HandleClient q] ?m = Inr m2" "objs m2 = objs ?m" "net_hook m2 = ?w"
      "tasks (queues m2 io) = tasks (queues m io) @ [cb_task (Some (HandleClient q))]"
    using post_server_ok [of "[HandleClient q]" "sv_io sv" io ?m] assms(2) by auto
  have "getRecvTimeout (any_base y) ?w = sint (sv_recvTimeout sv)"
  proof -
    obtain p c where "fd_ctx w1 (s_fd (any_base y)) = Some (p, c)" using y by (metis surj_pair)
    then have "fd_ctx ?w (s_fd (any_base y))
        = Some (p, setTimeout c SO_RCVTIMEO (of_int (sint (sv_recvTimeout sv))))"
      unfolding setRecvTimeout_def using y by (intro set_timeout_ctx(1)) simp_all
    then show ?thesis by (simp add: getRecvTimeout_def socket_timeout_def getTimeout_def setTimeout_def)
  qed
  then show "\<exists>m2. accept_end host P S p q n sv1 m = Inr m2 \<and> objs m2 q = Some y
      \<and> getRecvTimeout (any_base y) (net_hook m2) = sint (sv_recvTimeout sv)
      \<and> tasks (queues m2 io) = tasks (queues m io) @ [cb_task (Some (HandleClient q))]"
    using x y m2 by (intro exI [of _ m2]) (simp add: accept_end_def the_obj_def sv1_def Let_def)
next
  fix x p q
  assume "objs m p = Some x"
  then show "accept_end host P S p q (-1) sv1 m = Inr m"
    by (cases x) (simp_all add: accept_end_def the_obj_def Socket_accept_return_def SSL_accept_return_def)
next
  obtain m3 where "post_server (sv_accept sv) [StopAll] m = Inr m3"
      "tasks (queues m3 a) = tasks (queues m a) @ [cb_task (Some StopAll)]"
    using post_server_ok [of "[StopAll]" "sv_accept sv" a m] assms(1) by auto
  moreover have "sv1\<lparr>sv_running := False\<rparr> = sv" using assms(3) by (simp add: sv1_def)
  ultimately show "\<exists>m3. server_stop sv1 m = Inr (sv, m3) \<and> tasks (queues m3 a) = tasks (queues m a) @ [cb_task (Some StopAll)]"
    by (simp add: server_stop_def sv1_def)
next
  show "accept_begin P p sv m = Inr None" for p using assms(3) by (simp add: accept_begin_def)
next
  assume "net_ok (sv_socks sv) m \<and> in_io (net_hook m) \<and> distinct (sv_socks sv)
      \<and> (\<forall>p \<in> set (sv_socks sv). \<forall>x. objs m p = Some x \<longrightarrow> s_fd (any_base x) \<noteq> -1)"
  then obtain m4 where "stop_socks P (sv_socks sv) m = Inr m4" "\<forall>p \<in> set (sv_socks sv). closed_at m4 p"
    using stop_socks_ok [of "sv_socks sv" m "sv_socks sv" P] by auto
  then show "\<exists>m4. stop_task P sv m = Inr (sv\<lparr>sv_socks := []\<rparr>, m4) \<and> (\<forall>p \<in> set (sv_socks sv). closed_at m4 p)"
    by (simp add: stop_task_def)
qed

theorem server_life_witness:
  "\<exists>m1. server_start (example_server\<lparr>sv_socks := [5]\<rparr>) example_net = Inr (True, example_server\<lparr>sv_socks := [5], sv_running := True\<rparr>, m1)
     \<and> tasks (queues m1 2) = [cb_task (Some (StartAccept 5))]"
proof -
  have "sv_accept (example_server\<lparr>sv_socks := [5]\<rparr>) = Some 2" "sv_io (example_server\<lparr>sv_socks := [5]\<rparr>) = Some 1"
      "\<not> sv_running (example_server\<lparr>sv_socks := [5]\<rparr>)" "tasks (queues example_net 2) = []"
    by (simp_all add: example_server_def new_TcpServer_def example_net_def)
  then show ?thesis
    using server_life [of "example_server\<lparr>sv_socks := [5]\<rparr>" 2 1 example_net EASY_LITTLE_ENDIAN example_platform undefined] by auto
qed

end
