(* ===== verification/Locks.thy ===== *)
theory Locks imports Prelude "HOL-Library.Multiset" begin

text \<open>
  \<open>easy/base/Mutex.h\<close>, \<open>Mutex.cc\<close>, \<open>Condition.h\<close>, \<open>Condition.cc\<close> and \<open>EASY_CHECK\<close> of \<open>Macro.h\<close>: locks over
  those of pthread, and the guards that take a lock while they live. A pthread object is what POSIX
  says of it: who holds it. A call returns \<open>None\<close> while its thread has to wait, \<open>Inl\<close> where its
  behaviour is undefined, and otherwise the number it answers.
\<close>

section \<open>Checked calls\<close>

type_synonym 'w sync_call = "'w \<Rightarrow> (fault + int \<times> 'w) option"
type_synonym 'w locking = "'w \<Rightarrow> (fault + 'w) option"

text \<open>
  \<open>if (x) assert(x)\<close>: a call that failed is made a second time by \<open>assert\<close>, which ends the program when
  that one succeeds. With \<open>NDEBUG\<close> the failure is dropped.
\<close>

definition EASY_CHECK :: "bool \<Rightarrow> 'w sync_call \<Rightarrow> 'w locking" where
  "EASY_CHECK ndebug x w = (case x w of
       None \<Rightarrow> None
     | Some (Inl e) \<Rightarrow> Some (Inl e)
     | Some (Inr (n, w1)) \<Rightarrow>
         if n = 0 \<or> ndebug then Some (Inr w1)
         else (case x w1 of
             None \<Rightarrow> None
           | Some (Inl e) \<Rightarrow> Some (Inl e)
           | Some (Inr (m, w2)) \<Rightarrow> Some (if m = 0 then Inl AssertFail else Inr w2)))"

lemma EASY_CHECK_simps [simp]:
  "x w = None \<Longrightarrow> EASY_CHECK nd x w = None"
  "x w = Some (Inl e) \<Longrightarrow> EASY_CHECK nd x w = Some (Inl e)"
  "x w = Some (Inr (0, w1)) \<Longrightarrow> EASY_CHECK nd x w = Some (Inr w1)"
  by (simp_all add: EASY_CHECK_def)

section \<open>Locks\<close>

record mutex =
  owner :: "nat option"

definition new_MutexLock :: mutex where "new_MutexLock = \<lparr>owner = None\<rparr>"

text \<open>The default mutex waits also for its own thread.\<close>

definition pthread_mutex_lock :: "nat \<Rightarrow> mutex sync_call" where
  "pthread_mutex_lock t m = (if owner m = None then Some (Inr (0, m\<lparr>owner := Some t\<rparr>)) else None)"

definition pthread_mutex_unlock :: "nat \<Rightarrow> mutex sync_call" where
  "pthread_mutex_unlock t m = Some (if owner m = Some t then Inr (0, m\<lparr>owner := None\<rparr>) else Inl NotHeld)"

definition MutexLock_lock :: "bool \<Rightarrow> nat \<Rightarrow> mutex locking" where
  "MutexLock_lock nd t = EASY_CHECK nd (pthread_mutex_lock t)"

definition MutexLock_unlock :: "bool \<Rightarrow> nat \<Rightarrow> mutex locking" where
  "MutexLock_unlock nd t = EASY_CHECK nd (pthread_mutex_unlock t)"

definition destroy_MutexLock :: "bool \<Rightarrow> mutex locking" where
  "destroy_MutexLock nd = EASY_CHECK nd (\<lambda>m. Some (if owner m = None then Inr (0, m) else Inl LockBusy))"

record spinlock =
  holder :: "nat option"

definition new_SpinLock :: spinlock where "new_SpinLock = \<lparr>holder = None\<rparr>"

definition pthread_spin_lock :: "nat \<Rightarrow> spinlock sync_call" where
  "pthread_spin_lock t m = (if holder m = None then Some (Inr (0, m\<lparr>holder := Some t\<rparr>)) else None)"

definition pthread_spin_unlock :: "nat \<Rightarrow> spinlock sync_call" where
  "pthread_spin_unlock t m = Some (if holder m = Some t then Inr (0, m\<lparr>holder := None\<rparr>) else Inl NotHeld)"

definition SpinLock_lock :: "bool \<Rightarrow> nat \<Rightarrow> spinlock locking" where
  "SpinLock_lock nd t = EASY_CHECK nd (pthread_spin_lock t)"

definition SpinLock_unlock :: "bool \<Rightarrow> nat \<Rightarrow> spinlock locking" where
  "SpinLock_unlock nd t = EASY_CHECK nd (pthread_spin_unlock t)"

definition destroy_SpinLock :: "bool \<Rightarrow> spinlock locking" where
  "destroy_SpinLock nd = EASY_CHECK nd (\<lambda>m. Some (if holder m = None then Inr (0, m) else Inl LockBusy))"

record rwlock =
  readers :: "nat list"
  writer :: "nat option"

definition new_ReadWriteLock :: rwlock where "new_ReadWriteLock = \<lparr>readers = [], writer = None\<rparr>"

text \<open>
  Whether a thread that holds the lock for writing is told \<open>EDEADLK\<close> or waits for itself is up to the
  implementation.
\<close>

definition EDEADLK :: int where "EDEADLK = 35"

definition pthread_rwlock_rdlock :: "bool \<Rightarrow> nat \<Rightarrow> rwlock sync_call" where
  "pthread_rwlock_rdlock told t l =
     (if writer l = Some t \<and> told then Some (Inr (EDEADLK, l))
      else if writer l \<noteq> None then None
      else Some (Inr (0, l\<lparr>readers := t # readers l\<rparr>)))"

definition pthread_rwlock_wrlock :: "bool \<Rightarrow> nat \<Rightarrow> rwlock sync_call" where
  "pthread_rwlock_wrlock told t l =
     (if writer l = Some t \<and> told then Some (Inr (EDEADLK, l))
      else if writer l \<noteq> None \<or> readers l \<noteq> [] then None
      else Some (Inr (0, l\<lparr>writer := Some t\<rparr>)))"

definition pthread_rwlock_unlock :: "nat \<Rightarrow> rwlock sync_call" where
  "pthread_rwlock_unlock t l = Some
     (if writer l = Some t then Inr (0, l\<lparr>writer := None\<rparr>)
      else if t \<in> set (readers l) then Inr (0, l\<lparr>readers := remove1 t (readers l)\<rparr>)
      else Inl NotHeld)"

definition ReadWriteLock_rdlock :: "bool \<Rightarrow> bool \<Rightarrow> nat \<Rightarrow> rwlock locking" where
  "ReadWriteLock_rdlock nd told t = EASY_CHECK nd (pthread_rwlock_rdlock told t)"

definition ReadWriteLock_wrlock :: "bool \<Rightarrow> bool \<Rightarrow> nat \<Rightarrow> rwlock locking" where
  "ReadWriteLock_wrlock nd told t = EASY_CHECK nd (pthread_rwlock_wrlock told t)"

definition ReadWriteLock_unlock :: "bool \<Rightarrow> nat \<Rightarrow> rwlock locking" where
  "ReadWriteLock_unlock nd t = EASY_CHECK nd (pthread_rwlock_unlock t)"

definition destroy_ReadWriteLock :: "bool \<Rightarrow> rwlock locking" where
  "destroy_ReadWriteLock nd =
     EASY_CHECK nd (\<lambda>l. Some (if writer l = None \<and> readers l = [] then Inr (0, l) else Inl LockBusy))"

section \<open>Semaphores and conditions\<close>

text \<open>A wait can be ended by a signal to its thread; \<open>signals\<close> counts those to come.\<close>

record semaphore =
  sem_value :: nat
  signals :: nat

definition SEM_VALUE_MAX :: nat where "SEM_VALUE_MAX = 2147483647"

definition sem_wait :: "semaphore sync_call" where
  "sem_wait s =
     (if 0 < sem_value s then Some (Inr (0, s\<lparr>sem_value := sem_value s - 1\<rparr>))
      else if 0 < signals s then Some (Inr (-1, s\<lparr>signals := signals s - 1\<rparr>))
      else None)"

definition sem_post :: "semaphore sync_call" where
  "sem_post s =
     Some (Inr (if sem_value s < SEM_VALUE_MAX then (0, s\<lparr>sem_value := sem_value s + 1\<rparr>) else (-1, s)))"

definition sem_init :: "u32 \<Rightarrow> semaphore sync_call" where
  "sem_init n s = Some (Inr (if unat n \<le> SEM_VALUE_MAX then (0, s\<lparr>sem_value := unat n\<rparr>) else (-1, s)))"

definition new_Semaphore :: "bool \<Rightarrow> u32 \<Rightarrow> semaphore locking" where
  "new_Semaphore nd n = EASY_CHECK nd (sem_init n)"

definition Semaphore_wait :: "bool \<Rightarrow> semaphore locking" where
  "Semaphore_wait nd = EASY_CHECK nd sem_wait"

definition Semaphore_notify :: "bool \<Rightarrow> semaphore locking" where
  "Semaphore_notify nd = EASY_CHECK nd sem_post"

text \<open>
  A condition keeps the threads that wait. \<open>wait\<close> is two steps: it gives the mutex away and is
  queued at once, and when it has been woken it takes the mutex again.
\<close>

record condition =
  c_lock :: mutex
  queued :: "nat list"

definition new_Condition :: "mutex \<Rightarrow> condition" where
  "new_Condition m = \<lparr>c_lock = m, queued = []\<rparr>"

definition destroy_Condition :: "bool \<Rightarrow> condition locking" where
  "destroy_Condition nd = EASY_CHECK nd (\<lambda>c. Some (if queued c = [] then Inr (0, c) else Inl LockBusy))"

definition Condition_wait_begin :: "bool \<Rightarrow> nat \<Rightarrow> condition locking" where
  "Condition_wait_begin nd t = EASY_CHECK nd (\<lambda>c. Some
     (if owner (c_lock c) = Some t then Inr (0, c\<lparr>c_lock := (c_lock c)\<lparr>owner := None\<rparr>, queued := queued c @ [t]\<rparr>)
      else Inl NotHeld))"

definition Condition_wait_end :: "nat \<Rightarrow> condition locking" where
  "Condition_wait_end t c =
     (if t \<in> set (queued c) \<or> owner (c_lock c) \<noteq> None then None
      else Some (Inr (c\<lparr>c_lock := (c_lock c)\<lparr>owner := Some t\<rparr>\<rparr>)))"

text \<open>\<open>notify\<close> wakes at least one thread if there is one; \<open>n\<close> more are woken than that.\<close>

definition Condition_notify :: "bool \<Rightarrow> nat \<Rightarrow> condition locking" where
  "Condition_notify nd n = EASY_CHECK nd (\<lambda>c. Some (Inr (0, c\<lparr>queued := drop (n + 1) (queued c)\<rparr>)))"

definition Condition_notifyAll :: "bool \<Rightarrow> condition locking" where
  "Condition_notifyAll nd = EASY_CHECK nd (\<lambda>c. Some (Inr (0, c\<lparr>queued := []\<rparr>)))"

lemma condition_wait:
  assumes "owner (c_lock c) = Some t"
  shows "\<exists>c1. Condition_wait_begin nd t c = Some (Inr c1) \<and> owner (c_lock c1) = None \<and> Condition_wait_end t c1 = None
    \<and> (\<exists>c2 c3. Condition_notifyAll nd c1 = Some (Inr c2) \<and> Condition_wait_end t c2 = Some (Inr c3)
         \<and> owner (c_lock c3) = Some t)"
  using assms
  by (simp add: Condition_wait_begin_def Condition_wait_end_def Condition_notifyAll_def)

section \<open>Guards\<close>

text \<open>A guard is its \<open>locked_\<close> beside the lock it refers to; the four classes differ in the lock.\<close>

definition guard_lock :: "'l locking \<Rightarrow> (bool \<times> 'l) locking" where
  "guard_lock acquire = (\<lambda>(locked, l).
     if \<not> locked then map_option (map_sum id (Pair True)) (acquire l) else Some (Inr (locked, l)))"

definition guard_unlock :: "'l locking \<Rightarrow> (bool \<times> 'l) locking" where
  "guard_unlock release = (\<lambda>(locked, l).
     if locked then map_option (map_sum id (Pair False)) (release l) else Some (Inr (locked, l)))"

definition MutexLockGuard :: "bool \<Rightarrow> nat \<Rightarrow> mutex \<Rightarrow> (fault + bool \<times> mutex) option" where
  "MutexLockGuard nd t m = guard_lock (MutexLock_lock nd t) (False, m)"

definition destroy_MutexLockGuard :: "bool \<Rightarrow> nat \<Rightarrow> (bool \<times> mutex) locking" where
  "destroy_MutexLockGuard nd t = guard_unlock (MutexLock_unlock nd t)"

definition SpinLockGuard :: "bool \<Rightarrow> nat \<Rightarrow> spinlock \<Rightarrow> (fault + bool \<times> spinlock) option" where
  "SpinLockGuard nd t m = guard_lock (SpinLock_lock nd t) (False, m)"

definition destroy_SpinLockGuard :: "bool \<Rightarrow> nat \<Rightarrow> (bool \<times> spinlock) locking" where
  "destroy_SpinLockGuard nd t = guard_unlock (SpinLock_unlock nd t)"

definition ReadLockGuard_lock :: "bool \<Rightarrow> bool \<Rightarrow> nat \<Rightarrow> (bool \<times> rwlock) locking" where
  "ReadLockGuard_lock nd told t = guard_lock (ReadWriteLock_rdlock nd told t)"

definition ReadLockGuard_unlock :: "bool \<Rightarrow> nat \<Rightarrow> (bool \<times> rwlock) locking" where
  "ReadLockGuard_unlock nd t = guard_unlock (ReadWriteLock_unlock nd t)"

definition ReadLockGuard :: "bool \<Rightarrow> bool \<Rightarrow> nat \<Rightarrow> rwlock \<Rightarrow> (fault + bool \<times> rwlock) option" where
  "ReadLockGuard nd told t l = ReadLockGuard_lock nd told t (False, l)"

definition destroy_ReadLockGuard :: "bool \<Rightarrow> nat \<Rightarrow> (bool \<times> rwlock) locking" where
  "destroy_ReadLockGuard nd t = ReadLockGuard_unlock nd t"

definition WriteLockGuard_lock :: "bool \<Rightarrow> bool \<Rightarrow> nat \<Rightarrow> (bool \<times> rwlock) locking" where
  "WriteLockGuard_lock nd told t = guard_lock (ReadWriteLock_wrlock nd told t)"

definition WriteLockGuard_unlock :: "bool \<Rightarrow> nat \<Rightarrow> (bool \<times> rwlock) locking" where
  "WriteLockGuard_unlock nd t = guard_unlock (ReadWriteLock_unlock nd t)"

definition WriteLockGuard :: "bool \<Rightarrow> bool \<Rightarrow> nat \<Rightarrow> rwlock \<Rightarrow> (fault + bool \<times> rwlock) option" where
  "WriteLockGuard nd told t l = WriteLockGuard_lock nd told t (False, l)"

definition destroy_WriteLockGuard :: "bool \<Rightarrow> nat \<Rightarrow> (bool \<times> rwlock) locking" where
  "destroy_WriteLockGuard nd t = WriteLockGuard_unlock nd t"

end
