(* ===== verification/Guards.thy ===== *)
theory Guards imports Locks begin

text \<open>
  What the guards of \<open>easy/base/Mutex.h\<close> promise, for every lock that meets a contract: in whatever
  order threads open, unlock, lock again and close guards, the holders of the lock are the guards
  that are locked, so that two guards are locked at once only if they share it, no guard releases
  what it does not hold, and the last one leaves the lock as it was made.
\<close>

section \<open>Threads with guards\<close>

datatype mode = Shared | Exclusive

type_synonym guard = "mode \<times> nat \<times> bool"

text \<open>
  A lock with the guards that are alive, each with its kind, its thread and its \<open>locked_\<close>. A thread
  takes no lock it holds already, as the program does.
\<close>

definition holds_none :: "nat \<Rightarrow> guard list \<Rightarrow> bool" where
  "holds_none t gs \<longleftrightarrow> (\<forall>(m, t', b) \<in> set gs. t' = t \<longrightarrow> \<not> b)"

inductive guard_step ::
    "(mode \<Rightarrow> nat \<Rightarrow> 'l locking) \<Rightarrow> (nat \<Rightarrow> 'l locking) \<Rightarrow> mode set \<Rightarrow> 'l \<times> guard list \<Rightarrow> 'l \<times> guard list \<Rightarrow> bool"
  for acquire release modes where
  gs_open: "m \<in> modes \<Longrightarrow> holds_none t gs \<Longrightarrow> guard_lock (acquire m t) (False, l) = Some (Inr (b, l1))
    \<Longrightarrow> guard_step acquire release modes (l, gs) (l1, gs @ [(m, t, b)])"
| gs_lock: "b \<or> holds_none t (xs @ ys) \<Longrightarrow> guard_lock (acquire m t) (b, l) = Some (Inr (b1, l1))
    \<Longrightarrow> guard_step acquire release modes (l, xs @ (m, t, b) # ys) (l1, xs @ (m, t, b1) # ys)"
| gs_unlock: "guard_unlock (release t) (b, l) = Some (Inr (b1, l1))
    \<Longrightarrow> guard_step acquire release modes (l, xs @ (m, t, b) # ys) (l1, xs @ (m, t, b1) # ys)"
| gs_close: "guard_unlock (release t) (b, l) = Some (Inr (b1, l1))
    \<Longrightarrow> guard_step acquire release modes (l, xs @ (m, t, b) # ys) (l1, xs @ ys)"

inductive guards_reachable ::
    "(mode \<Rightarrow> nat \<Rightarrow> 'l locking) \<Rightarrow> (nat \<Rightarrow> 'l locking) \<Rightarrow> mode set \<Rightarrow> 'l \<Rightarrow> 'l \<times> guard list \<Rightarrow> bool"
  for acquire release modes fresh where
  gr_new: "guards_reachable acquire release modes fresh (fresh, [])"
| gr_step: "guards_reachable acquire release modes fresh s \<Longrightarrow> guard_step acquire release modes s s1
    \<Longrightarrow> guards_reachable acquire release modes fresh s1"

inductive_cases guard_stepE: "guard_step acquire release modes s s1"

section \<open>The contract of a lock\<close>

definition alone_or_shared :: "(nat \<times> mode) multiset \<Rightarrow> bool" where
  "alone_or_shared H \<longleftrightarrow> (\<forall>x \<in># H. snd x = Shared) \<or> size H = 1"

definition compatible :: "mode \<Rightarrow> (nat \<times> mode) multiset \<Rightarrow> bool" where
  "compatible m H \<longleftrightarrow> (if m = Shared then \<forall>x \<in># H. snd x = Shared else H = {#})"

lemma alone_or_shared_add: "compatible m H \<Longrightarrow> alone_or_shared (add_mset (t, m) H)"
  by (cases m) (auto simp: compatible_def alone_or_shared_def)

lemma alone_or_shared_remove:
  assumes "x \<in># H" and "alone_or_shared H"
  shows "alone_or_shared (H - {#x#})"
proof (cases "size H = 1")
  case True
  then obtain y where "H = {#y#}" using size_1_singleton_mset by blast
  then show ?thesis using assms(1) by (simp add: alone_or_shared_def)
qed (use assms in \<open>auto simp: alone_or_shared_def dest: in_diffD\<close>)

locale lock_contract =
  fixes acquire :: "mode \<Rightarrow> nat \<Rightarrow> 'l locking"
    and release :: "nat \<Rightarrow> 'l locking"
    and modes :: "mode set"
    and fresh :: 'l
    and holders :: "'l \<Rightarrow> (nat \<times> mode) multiset"
  assumes holders_none [simp]: "holders l = {#} \<longleftrightarrow> l = fresh"
    and acquires: "m \<in> modes \<Longrightarrow> t \<notin> fst ` set_mset (holders l) \<Longrightarrow> compatible m (holders l) \<Longrightarrow>
      \<exists>l1. acquire m t l = Some (Inr l1) \<and> holders l1 = add_mset (t, m) (holders l)"
    and waits: "m \<in> modes \<Longrightarrow> t \<notin> fst ` set_mset (holders l) \<Longrightarrow> \<not> compatible m (holders l) \<Longrightarrow> acquire m t l = None"
    and releases: "(t, m) \<in># holders l \<Longrightarrow> alone_or_shared (holders l) \<Longrightarrow> m \<in> modes \<Longrightarrow>
      \<exists>l1. release t l = Some (Inr l1) \<and> holders l1 = holders l - {#(t, m)#}"

text \<open>The locked guards, as the holders they stand for.\<close>

definition locked_guards :: "guard list \<Rightarrow> (nat \<times> mode) multiset" where
  "locked_guards gs = mset (map (\<lambda>(m, t, b). (t, m)) (filter (\<lambda>(m, t, b). b) gs))"

lemma locked_guards_simps [simp]:
  "locked_guards [] = {#}"
  "locked_guards ((m, t, b) # gs) = (if b then add_mset (t, m) (locked_guards gs) else locked_guards gs)"
  "locked_guards (xs @ ys) = locked_guards xs + locked_guards ys"
  by (simp_all add: locked_guards_def)

lemma holds_none_locked: "holds_none t gs \<longleftrightarrow> t \<notin> fst ` set_mset (locked_guards gs)"
  by (force simp: holds_none_def locked_guards_def image_iff)

lemma locked_member: "g \<in> set gs \<Longrightarrow> snd (snd g) \<Longrightarrow> (fst (snd g), fst g) \<in># locked_guards gs"
  by (induction gs) auto

lemma not_shared: "(k \<noteq> Shared) = (k = Exclusive)"
  by (cases k) simp_all

lemma not_compatible:
  "(\<not> compatible m (locked_guards gs)) = (\<exists>(k, t', b) \<in> set gs. b \<and> (m = Exclusive \<or> k = Exclusive))"
proof (cases m)
  case Shared
  have "(\<not> (\<forall>x \<in># locked_guards gs. snd x = Shared)) = (\<exists>(k, t', b) \<in> set gs. b \<and> k = Exclusive)"
    by (induction gs) (auto simp: not_shared split: if_splits)
  then show ?thesis using Shared by (simp add: compatible_def)
next
  case Exclusive
  have "(locked_guards gs \<noteq> {#}) = (\<exists>(k, t', b) \<in> set gs. b)"
    by (induction gs) (auto split: if_splits)
  then show ?thesis using Exclusive by (simp add: compatible_def)
qed

lemma one_locked:
  assumes "size (locked_guards gs) = 1" and "i < length gs" and "j < length gs"
    and "snd (snd (gs ! i))" and "snd (snd (gs ! j))"
  shows "i = j"
proof -
  have "length (filter (\<lambda>(m, t, b). b) gs) = 1"
    using assms(1) unfolding locked_guards_def size_mset length_map .
  then have "card {i. i < length gs \<and> snd (snd (gs ! i))} = 1"
    by (simp only: length_filter_conv_card case_prod_beta)
  then obtain k where k: "{i. i < length gs \<and> snd (snd (gs ! i))} = {k}" by (rule card_1_singletonE)
  have "i \<in> {i. i < length gs \<and> snd (snd (gs ! i))}" "j \<in> {i. i < length gs \<and> snd (snd (gs ! i))}"
    using assms(2-5) by simp_all
  then show ?thesis unfolding k by simp
qed

context lock_contract
begin

definition inv :: "'l \<times> guard list \<Rightarrow> bool" where
  "inv s \<longleftrightarrow> holders (fst s) = locked_guards (snd s) \<and> alone_or_shared (holders (fst s))
     \<and> (\<forall>(m, t, b) \<in> set (snd s). m \<in> modes)"

lemma lock_ok:
  assumes "m \<in> modes" and "b \<or> t \<notin> fst ` set_mset (holders l)" and "alone_or_shared (holders l)"
    and "guard_lock (acquire m t) (b, l) = Some (Inr (b1, l1))"
  shows "b1" and "holders l1 = (if b then holders l else add_mset (t, m) (holders l))" and "alone_or_shared (holders l1)"
proof -
  have "b1 \<and> holders l1 = (if b then holders l else add_mset (t, m) (holders l)) \<and> alone_or_shared (holders l1)"
  proof (cases b)
    case False
    have c: "compatible m (holders l)"
    proof (rule ccontr)
      assume "\<not> compatible m (holders l)"
      then have "acquire m t l = None" using waits [OF assms(1)] assms(2) False by blast
      then show False using False assms(4) by (simp add: guard_lock_def)
    qed
    have "t \<notin> fst ` set_mset (holders l)" using assms(2) False by blast
    then obtain l2 where "acquire m t l = Some (Inr l2)" "holders l2 = add_mset (t, m) (holders l)"
      using acquires [OF assms(1) _ c] by blast
    then show ?thesis using False assms(4) alone_or_shared_add [OF c] by (auto simp: guard_lock_def)
  qed (use assms in \<open>simp add: guard_lock_def\<close>)
  then show "b1" "holders l1 = (if b then holders l else add_mset (t, m) (holders l))" "alone_or_shared (holders l1)"
    by blast+
qed

lemma unlock_ok:
  assumes "m \<in> modes" and "b \<longrightarrow> (t, m) \<in># holders l" and "alone_or_shared (holders l)"
  obtains l1 where "guard_unlock (release t) (b, l) = Some (Inr (False, l1))"
    and "holders l1 = (if b then holders l - {#(t, m)#} else holders l)" and "alone_or_shared (holders l1)"
proof (cases b)
  case True
  then have x: "(t, m) \<in># holders l" using assms(2) by simp
  obtain l1 where "release t l = Some (Inr l1)" "holders l1 = holders l - {#(t, m)#}"
    using releases [OF x assms(3,1)] by blast
  then show ?thesis
    using True alone_or_shared_remove [OF x assms(3)] by (intro that [of l1]) (simp_all add: guard_unlock_def)
qed (use that [of l] assms in \<open>simp add: guard_unlock_def\<close>)

lemma unlocked:
  assumes "inv (l, xs @ (m, t, b) # ys)"
  obtains l1 where "guard_unlock (release t) (b, l) = Some (Inr (False, l1))"
    and "holders l1 = locked_guards (xs @ ys)" and "alone_or_shared (holders l1)"
proof -
  have h: "m \<in> modes" "b \<longrightarrow> (t, m) \<in># holders l" "alone_or_shared (holders l)" using assms by (auto simp: inv_def)
  from unlock_ok [OF h] obtain l1 where "guard_unlock (release t) (b, l) = Some (Inr (False, l1))"
    "holders l1 = (if b then holders l - {#(t, m)#} else holders l)" "alone_or_shared (holders l1)" by blast
  then show ?thesis using assms by (intro that [of l1]) (auto simp: inv_def)
qed

lemma step_inv:
  assumes "guard_step acquire release modes s s1" and "inv s"
  shows "inv s1"
  using assms
proof (cases rule: guard_step.cases)
  case (gs_open m t gs l b l1)
  then have "t \<notin> fst ` set_mset (holders l)" using assms(2) holds_none_locked by (simp add: inv_def)
  then show ?thesis using gs_open assms(2) lock_ok [OF gs_open(3), of False t l b l1] by (auto simp: inv_def)
next
  case (gs_lock b t xs ys m l b1 l1)
  have "b \<or> t \<notin> fst ` set_mset (holders l)"
    using gs_lock(3) assms(2) gs_lock(1) holds_none_locked [of t "xs @ ys"] by (auto simp: inv_def)
  moreover have "m \<in> modes" using assms(2) gs_lock(1) by (simp add: inv_def)
  ultimately show ?thesis using gs_lock assms(2) lock_ok [of m b t l b1 l1] by (auto simp: inv_def)
next
  case (gs_unlock t b l b1 l1 xs m ys)
  obtain l2 where "guard_unlock (release t) (b, l) = Some (Inr (False, l2))" "holders l2 = locked_guards (xs @ ys)"
      "alone_or_shared (holders l2)"
    using unlocked [of l xs m t b ys] assms(2) gs_unlock(1) by blast
  then show ?thesis using gs_unlock assms(2) by (auto simp: inv_def)
next
  case (gs_close t b l b1 l1 xs m ys)
  obtain l2 where "guard_unlock (release t) (b, l) = Some (Inr (False, l2))" "holders l2 = locked_guards (xs @ ys)"
      "alone_or_shared (holders l2)"
    using unlocked [of l xs m t b ys] assms(2) gs_close(1) by blast
  then show ?thesis using gs_close assms(2) by (auto simp: inv_def)
qed

lemma reachable_inv: "guards_reachable acquire release modes fresh s \<Longrightarrow> inv s"
proof (induction rule: guards_reachable.induct)
  case gr_new
  have "holders fresh = {#}" by simp
  then show ?case by (simp add: inv_def alone_or_shared_def del: holders_none)
qed (rule step_inv)

lemma kinds: "guards_reachable acquire release modes fresh (l, gs) \<Longrightarrow> (m, t, b) \<in> set gs \<Longrightarrow> m \<in> modes"
  using reachable_inv [of "(l, gs)"] by (auto simp: inv_def)

text \<open>What the guards promise, once for every lock.\<close>

lemma guards_promise:
  assumes "guards_reachable acquire release modes fresh (l, gs)"
  shows "i < length gs \<Longrightarrow> j < length gs \<Longrightarrow> i \<noteq> j \<Longrightarrow> snd (snd (gs ! i)) \<Longrightarrow> snd (snd (gs ! j)) \<Longrightarrow> fst (gs ! i) = Shared"
    and "(m, t, b) \<in> set gs \<Longrightarrow> \<exists>l1. guard_unlock (release t) (b, l) = Some (Inr (False, l1))"
    and "\<forall>(m, t, b) \<in> set gs. \<not> b \<Longrightarrow> l = fresh"
    and "m \<in> modes \<Longrightarrow> holds_none t gs \<Longrightarrow>
      (guard_lock (acquire m t) (False, l) = None) = (\<exists>(k, t', b) \<in> set gs. b \<and> (m = Exclusive \<or> k = Exclusive))"
proof -
  have inv: "inv (l, gs)" by (rule reachable_inv [OF assms])
  then have h: "holders l = locked_guards gs" "alone_or_shared (locked_guards gs)" by (auto simp: inv_def)
  show "fst (gs ! i) = Shared" if "i < length gs" "j < length gs" "i \<noteq> j" "snd (snd (gs ! i))" "snd (snd (gs ! j))"
  proof -
    have "size (locked_guards gs) \<noteq> 1" using one_locked [OF _ that(1,2,4,5)] that(3) by blast
    then have "\<forall>x \<in># locked_guards gs. snd x = Shared" using h(2) by (simp add: alone_or_shared_def)
    moreover have "(fst (snd (gs ! i)), fst (gs ! i)) \<in># locked_guards gs"
      by (rule locked_member [OF nth_mem [OF that(1)] that(4)])
    ultimately show ?thesis by (metis snd_conv)
  qed
  show "\<exists>l1. guard_unlock (release t) (b, l) = Some (Inr (False, l1))" if "(m, t, b) \<in> set gs"
  proof -
    have "\<exists>xs ys. gs = xs @ (m, t, b) # ys" using that by (rule split_list)
    then obtain xs ys where "gs = xs @ (m, t, b) # ys" by blast
    then show ?thesis using unlocked [of l xs m t b ys] inv by auto
  qed
  show "l = fresh" if "\<forall>(m, t, b) \<in> set gs. \<not> b"
  proof -
    have "filter (\<lambda>(m, t, b). b) gs = []" using that by (auto simp: filter_empty_conv)
    then have "locked_guards gs = {#}" by (simp add: locked_guards_def)
    then show ?thesis using h(1) by (metis holders_none)
  qed
  show "(guard_lock (acquire m t) (False, l) = None) = (\<exists>(k, t', b) \<in> set gs. b \<and> (m = Exclusive \<or> k = Exclusive))"
    if "m \<in> modes" "holds_none t gs"
  proof -
    have t: "t \<notin> fst ` set_mset (holders l)" using that(2) h(1) holds_none_locked by simp
    have "(acquire m t l = None) = (\<not> compatible m (locked_guards gs))"
      using acquires [OF that(1) t] waits [OF that(1) t] h(1) by (cases "compatible m (holders l)") auto
    also have "\<dots> = (\<exists>(k, t', b) \<in> set gs. b \<and> (m = Exclusive \<or> k = Exclusive))"
      by (rule not_compatible)
    finally show ?thesis by (simp add: guard_lock_def)
  qed
qed

end

section \<open>The program's locks\<close>

definition rw_acquire :: "bool \<Rightarrow> bool \<Rightarrow> mode \<Rightarrow> nat \<Rightarrow> rwlock locking" where
  "rw_acquire nd told m t = (if m = Shared then ReadWriteLock_rdlock nd told t else ReadWriteLock_wrlock nd told t)"

definition rw_holders :: "rwlock \<Rightarrow> (nat \<times> mode) multiset" where
  "rw_holders l = mset (map (\<lambda>t. (t, Shared)) (readers l))
     + (case writer l of None \<Rightarrow> {#} | Some t \<Rightarrow> {#(t, Exclusive)#})"

definition one_holder :: "nat option \<Rightarrow> (nat \<times> mode) multiset" where
  "one_holder x = (case x of None \<Rightarrow> {#} | Some t \<Rightarrow> {#(t, Exclusive)#})"

lemmas locking_defs = MutexLock_lock_def MutexLock_unlock_def pthread_mutex_lock_def pthread_mutex_unlock_def
  SpinLock_lock_def SpinLock_unlock_def pthread_spin_lock_def pthread_spin_unlock_def
  ReadWriteLock_rdlock_def ReadWriteLock_wrlock_def ReadWriteLock_unlock_def
  pthread_rwlock_rdlock_def pthread_rwlock_wrlock_def pthread_rwlock_unlock_def

interpretation mutex_lock: lock_contract "\<lambda>m. MutexLock_lock nd" "MutexLock_unlock nd" "{Exclusive}" new_MutexLock
    "\<lambda>m. one_holder (owner m)" for nd
proof
  fix l :: mutex and m :: mode and t
  show "(one_holder (owner l) = {#}) = (l = new_MutexLock)"
    by (cases l) (simp add: one_holder_def new_MutexLock_def split: option.splits)
  assume m: "m \<in> {Exclusive}"
  show "\<exists>l1. MutexLock_lock nd t l = Some (Inr l1) \<and> one_holder (owner l1) = add_mset (t, m) (one_holder (owner l))"
    if "compatible m (one_holder (owner l))"
    using that m by (cases "owner l") (simp_all add: locking_defs one_holder_def compatible_def)
  show "MutexLock_lock nd t l = None" if "\<not> compatible m (one_holder (owner l))"
    using that m by (cases "owner l") (simp_all add: locking_defs one_holder_def compatible_def)
  show "\<exists>l1. MutexLock_unlock nd t l = Some (Inr l1) \<and> one_holder (owner l1) = one_holder (owner l) - {#(t, m)#}"
    if "(t, m) \<in># one_holder (owner l)"
    using that by (cases "owner l") (simp_all add: locking_defs one_holder_def)
qed

interpretation spin_lock: lock_contract "\<lambda>m. SpinLock_lock nd" "SpinLock_unlock nd" "{Exclusive}" new_SpinLock
    "\<lambda>m. one_holder (holder m)" for nd
proof
  fix l :: spinlock and m :: mode and t
  show "(one_holder (holder l) = {#}) = (l = new_SpinLock)"
    by (cases l) (simp add: one_holder_def new_SpinLock_def split: option.splits)
  assume m: "m \<in> {Exclusive}"
  show "\<exists>l1. SpinLock_lock nd t l = Some (Inr l1) \<and> one_holder (holder l1) = add_mset (t, m) (one_holder (holder l))"
    if "compatible m (one_holder (holder l))"
    using that m by (cases "holder l") (simp_all add: locking_defs one_holder_def compatible_def)
  show "SpinLock_lock nd t l = None" if "\<not> compatible m (one_holder (holder l))"
    using that m by (cases "holder l") (simp_all add: locking_defs one_holder_def compatible_def)
  show "\<exists>l1. SpinLock_unlock nd t l = Some (Inr l1) \<and> one_holder (holder l1) = one_holder (holder l) - {#(t, m)#}"
    if "(t, m) \<in># one_holder (holder l)"
    using that by (cases "holder l") (simp_all add: locking_defs one_holder_def)
qed

lemma shared_holders: "(\<forall>x \<in># rw_holders l. snd x = Shared) = (writer l = None)"
  by (auto simp: rw_holders_def split: option.splits)

lemma rw_release:
  assumes "(t, m) \<in># rw_holders l" and "alone_or_shared (rw_holders l)"
  shows "\<exists>l1. ReadWriteLock_unlock nd t l = Some (Inr l1) \<and> rw_holders l1 = rw_holders l - {#(t, m)#}"
proof (cases "writer l")
  case None
  then have t: "t \<in> set (readers l)" "m = Shared" using assms(1) by (auto simp: rw_holders_def)
  then have "mset (map (\<lambda>t. (t, Shared)) (remove1 t (readers l))) = mset (map (\<lambda>t. (t, Shared)) (readers l)) - {#(t, Shared)#}"
    by (simp add: image_mset_Diff)
  then show ?thesis using None t by (simp add: locking_defs rw_holders_def)
next
  case (Some u)
  then have "size (rw_holders l) = 1" using assms(2) shared_holders [of l] by (auto simp: alone_or_shared_def)
  then have "readers l = []" using Some by (simp add: rw_holders_def)
  then show ?thesis using assms(1) Some by (simp add: locking_defs rw_holders_def)
qed

interpretation rw_lock: lock_contract "rw_acquire nd told" "ReadWriteLock_unlock nd" UNIV new_ReadWriteLock rw_holders for nd told
proof
  fix l :: rwlock and m t
  show "(rw_holders l = {#}) = (l = new_ReadWriteLock)"
    by (cases l) (auto simp: rw_holders_def new_ReadWriteLock_def split: option.splits)
  have w: "t \<notin> fst ` set_mset (rw_holders l) \<Longrightarrow> writer l \<noteq> Some t" by (auto simp: rw_holders_def)
  have c: "compatible m (rw_holders l) = (if m = Shared then writer l = None else writer l = None \<and> readers l = [])"
    using shared_holders [of l] by (auto simp: compatible_def rw_holders_def split: option.splits)
  show "\<exists>l1. rw_acquire nd told m t l = Some (Inr l1) \<and> rw_holders l1 = add_mset (t, m) (rw_holders l)"
    if "t \<notin> fst ` set_mset (rw_holders l)" "compatible m (rw_holders l)"
    using that(2) c not_shared [of m] by (auto simp: rw_acquire_def locking_defs rw_holders_def split: if_splits)
  show "rw_acquire nd told m t l = None"
    if "t \<notin> fst ` set_mset (rw_holders l)" "\<not> compatible m (rw_holders l)"
    using that(2) c w [OF that(1)] by (auto simp: rw_acquire_def locking_defs split: if_splits)
qed (rule rw_release)

section \<open>Properties\<close>

text \<open>
  C21. Guards keep threads apart: whatever threads do with guards of a \<open>ReadWriteLock\<close>, as long as none
  takes a lock it holds, guards locked at once are all read guards, two guards of a \<open>MutexLock\<close> are never
  locked at once, unlocking and destroying a guard never waits and releases what its thread holds, and
  when no guard is locked the lock is as new. A thread waits for a lock exactly while a guard is in its way.
  A thread that takes the lock it holds for writing and is told \<open>EDEADLK\<close> gets a guard that believes it is locked:
  closing it opens the lock under the first guard, whose own destructor then releases what nobody holds.
\<close>

theorem guards_exclude:
  assumes "guards_reachable (rw_acquire nd told) (ReadWriteLock_unlock nd) UNIV new_ReadWriteLock (l, gs)"
    and "guards_reachable (\<lambda>m. MutexLock_lock nd) (MutexLock_unlock nd) {Exclusive} new_MutexLock (mx, hs)"
  shows "(\<forall>i < length gs. \<forall>j < length gs. i \<noteq> j \<and> snd (snd (gs ! i)) \<and> snd (snd (gs ! j)) \<longrightarrow>
        fst (gs ! i) = Shared \<and> fst (gs ! j) = Shared)
    \<and> (\<forall>i < length hs. \<forall>j < length hs. i \<noteq> j \<longrightarrow> \<not> (snd (snd (hs ! i)) \<and> snd (snd (hs ! j))))
    \<and> (\<forall>(m, t, b) \<in> set gs. \<exists>l1. destroy_WriteLockGuard nd t (b, l) = Some (Inr (False, l1))
         \<and> destroy_ReadLockGuard nd t (b, l) = Some (Inr (False, l1)))
    \<and> ((\<forall>(m, t, b) \<in> set gs. \<not> b) \<longrightarrow> l = new_ReadWriteLock)
    \<and> (\<forall>t. holds_none t gs \<longrightarrow>
         (ReadLockGuard nd told t l = None) = (\<exists>(m, t', b) \<in> set gs. b \<and> m = Exclusive)
       \<and> (WriteLockGuard nd told t l = None) = (\<exists>(m, t', b) \<in> set gs. b))
    \<and> (\<forall>t. \<exists>l2. WriteLockGuard nd True t new_ReadWriteLock = Some (Inr (True, l2))
         \<and> ReadLockGuard nd True t l2 = Some (Inr (True, l2))
         \<and> destroy_ReadLockGuard nd t (True, l2) = Some (Inr (False, new_ReadWriteLock))
         \<and> destroy_WriteLockGuard nd t (True, new_ReadWriteLock) = Some (Inl NotHeld))"
proof -
  note rw = rw_lock.guards_promise [OF assms(1)]
  note mu = mutex_lock.guards_promise [OF assms(2)]
  have two: "\<not> (snd (snd (hs ! i)) \<and> snd (snd (hs ! j)))" if "i < length hs" "j < length hs" "i \<noteq> j" for i j
  proof
    assume "snd (snd (hs ! i)) \<and> snd (snd (hs ! j))"
    then have "fst (hs ! i) = Shared" using mu(1) that by blast
    moreover have "fst (hs ! i) \<in> {Exclusive}"
      using mutex_lock.kinds [OF assms(2), of "fst (hs ! i)" "fst (snd (hs ! i))" "snd (snd (hs ! i))"] nth_mem [OF that(1)] by simp
    ultimately show False by simp
  qed
  have close: "\<exists>l1. destroy_WriteLockGuard nd t (b, l) = Some (Inr (False, l1))
      \<and> destroy_ReadLockGuard nd t (b, l) = Some (Inr (False, l1))" if "(m, t, b) \<in> set gs" for m t b
    using rw(2) [OF that]
    by (simp add: destroy_WriteLockGuard_def destroy_ReadLockGuard_def WriteLockGuard_unlock_def ReadLockGuard_unlock_def)
  have opens: "ReadLockGuard nd told t l = guard_lock (rw_acquire nd told Shared t) (False, l)"
      "WriteLockGuard nd told t l = guard_lock (rw_acquire nd told Exclusive t) (False, l)" for t
    by (simp_all add: ReadLockGuard_def ReadLockGuard_lock_def WriteLockGuard_def WriteLockGuard_lock_def rw_acquire_def)
  have again: "\<exists>l2. WriteLockGuard nd True t new_ReadWriteLock = Some (Inr (True, l2))
         \<and> ReadLockGuard nd True t l2 = Some (Inr (True, l2))
         \<and> destroy_ReadLockGuard nd t (True, l2) = Some (Inr (False, new_ReadWriteLock))
         \<and> destroy_WriteLockGuard nd t (True, new_ReadWriteLock) = Some (Inl NotHeld)" for t
    by (intro exI [of _ "\<lparr>readers = [], writer = Some t\<rparr>"])
      (simp add: WriteLockGuard_def WriteLockGuard_lock_def ReadLockGuard_def ReadLockGuard_lock_def guard_lock_def
        destroy_ReadLockGuard_def ReadLockGuard_unlock_def destroy_WriteLockGuard_def WriteLockGuard_unlock_def guard_unlock_def
        locking_defs EASY_CHECK_def EDEADLK_def new_ReadWriteLock_def)
  show ?thesis
    using rw(1) two close rw(3) rw(4) [of Shared] rw(4) [of Exclusive] again unfolding opens by (intro conjI) (auto simp: not_shared)
qed

theorem guards_exclude_witness:
  "ReadLockGuard False False 3 \<lparr>readers = [2, 1], writer = None\<rparr> \<noteq> None
   \<and> WriteLockGuard False False 3 \<lparr>readers = [2, 1], writer = None\<rparr> = None"
proof -
  have o1: "guard_step (rw_acquire False False) (ReadWriteLock_unlock False) UNIV (new_ReadWriteLock, [])
      (\<lparr>readers = [1], writer = None\<rparr>, [] @ [(Shared, 1, True)])"
    by (rule gs_open)
      (simp_all add: holds_none_def guard_lock_def rw_acquire_def locking_defs EASY_CHECK_def new_ReadWriteLock_def)
  have o2: "guard_step (rw_acquire False False) (ReadWriteLock_unlock False) UNIV
      (\<lparr>readers = [1], writer = None\<rparr>, [(Shared, 1, True)])
      (\<lparr>readers = [2, 1], writer = None\<rparr>, [(Shared, 1, True)] @ [(Shared, 2, True)])"
    by (rule gs_open)
      (simp_all add: holds_none_def guard_lock_def rw_acquire_def locking_defs EASY_CHECK_def)
  have r: "guards_reachable (rw_acquire False False) (ReadWriteLock_unlock False) UNIV new_ReadWriteLock
      (\<lparr>readers = [2, 1], writer = None\<rparr>, [(Shared, 1, True), (Shared, 2, True)])"
    using gr_step [OF gr_step [OF gr_new o1 [simplified]] o2 [simplified]] by simp
  show ?thesis
    using guards_exclude [OF r gr_new] by (auto simp: holds_none_def)
qed

end
