(* ===== verification/Threads.thy ===== *)
theory Threads imports Locks begin

text \<open>
  \<open>easy/base/Atomic.h\<close>, \<open>easy/base/Thread.h\<close>, \<open>Thread.cc\<close>: atomic counters, and a thread from its constructor,
  which waits until the new thread has taken over its callback, to its end. The constructor's and the new thread's actions on the
  shared object are single steps, taken in any order the two allow.
\<close>

section \<open>Atomic integers\<close>

text \<open>Each operation gives its result and the new value.\<close>

definition fetchAndAdd :: "'a::len word \<Rightarrow> 'a word \<Rightarrow> 'a word \<times> 'a word" where
  "fetchAndAdd x v = (v, v + x)"

definition addAndFetch :: "'a::len word \<Rightarrow> 'a word \<Rightarrow> 'a word \<times> 'a word" where
  "addAndFetch x v = (v + x, v + x)"

definition incrementAndFetch :: "'a::len word \<Rightarrow> 'a word \<times> 'a word" where
  "incrementAndFetch v = (v + 1, v + 1)"

definition decrementAndFetch :: "'a::len word \<Rightarrow> 'a word \<times> 'a word" where
  "decrementAndFetch v = (v - 1, v - 1)"

definition compareAndSet :: "'a::len word \<Rightarrow> 'a word \<Rightarrow> 'a word \<Rightarrow> bool \<times> 'a word" where
  "compareAndSet old_value new_value v = (v = old_value, if v = old_value then new_value else v)"

definition atomic_set :: "'a::len word \<Rightarrow> 'a word \<Rightarrow> 'a word" where "atomic_set x v = x"
definition atomic_get :: "'a::len word \<Rightarrow> 'a word" where "atomic_get v = v"
definition atomic_add :: "'a::len word \<Rightarrow> 'a word \<Rightarrow> 'a word" where "atomic_add x v = snd (addAndFetch x v)"
definition increment :: "'a::len word \<Rightarrow> 'a word" where "increment v = snd (incrementAndFetch v)"
definition decrement :: "'a::len word \<Rightarrow> 'a word" where "decrement v = snd (decrementAndFetch v)"

text \<open>Copying reads the other; assigning, whose body is empty, leaves the value.\<close>

definition copy_AtomicInt :: "'a::len word \<Rightarrow> 'a word" where "copy_AtomicInt other = atomic_get other"
definition assign_AtomicInt :: "'a::len word \<Rightarrow> 'a word \<Rightarrow> 'a word" where "assign_AtomicInt other v = v"

fun increments :: "nat \<Rightarrow> 'a::len word \<Rightarrow> 'a word list" where
  "increments 0 v = []"
| "increments (Suc n) v = (let (r, v1) = incrementAndFetch v in r # increments n v1)"

lemma increments_eq: "increments n v = map (\<lambda>i. v + of_nat (Suc i)) [0..<n]"
proof (induction n arbitrary: v)
  case (Suc n)
  have "map (\<lambda>i. v + of_nat (Suc i)) [0..<Suc n] = (v + 1) # map (\<lambda>i. v + of_nat (Suc (Suc i))) [0..<n]"
    by (simp only: map_upt_Suc) (simp add: comp_def)
  then show ?case by (simp add: incrementAndFetch_def Suc ac_simps)
qed simp

text \<open>The numbers an atomic counter gives are different until it wraps around.\<close>

lemma increments_distinct:
  fixes v :: "'a::len word"
  assumes "n \<le> 2 ^ LENGTH('a)"
  shows "distinct (increments n v)"
proof -
  have "inj_on (\<lambda>i. v + of_nat (Suc i)) {0..<n}"
  proof (rule inj_onI)
    fix i j assume h: "i \<in> {0..<n}" "j \<in> {0..<n}" "v + of_nat (Suc i) = v + of_nat (Suc j)"
    then have "(of_nat i :: 'a word) = of_nat j" by simp
    then have "unat (of_nat i :: 'a word) = unat (of_nat j :: 'a word)" by simp
    then show "i = j" using h assms by (simp add: unat_of_nat take_bit_eq_mod)
  qed
  then show ?thesis by (simp add: increments_eq distinct_map)
qed

section \<open>Threads\<close>

record 'c thread_object =
  th_id :: "int option"
  pthreadId :: nat
  th_cb :: "'c option"
  th_name :: str
  th_semaphore :: semaphore

text \<open>
  \<open>t_thread_name\<close> points into the literal or into the object; \<open>None\<close> for the object is that it has been
  destroyed. \<open>taken\<close> is the callback the new thread has moved to its own stack.
\<close>

datatype name_ptr = Literal str | NameOf

record locals =
  t_thread_name :: name_ptr
  t_thread_id :: int

definition main_locals :: locals where
  "main_locals = \<lparr>t_thread_name = Literal (chars ''main''), t_thread_id = 0\<rparr>"

definition GetCurrentThreadId :: "int \<Rightarrow> locals \<Rightarrow> int \<times> locals" where
  "GetCurrentThreadId tid t =
     (if t_thread_id t = 0 then (tid, t\<lparr>t_thread_id := tid\<rparr>) else (t_thread_id t, t))"

datatype ctor_phase = Waiting | Asserting | Constructed | Gone
datatype run_phase = Born | Announcing | InCallback | Ended

record 'c life =
  th_obj :: "'c thread_object option"
  ctor :: ctor_phase
  runner :: run_phase
  own :: locals
  taken :: "'c option"
  detached :: bool

definition GetCurrentThreadName :: "'c life \<Rightarrow> fault + str" where
  "GetCurrentThreadName s = (case t_thread_name (own s) of
       Literal n \<Rightarrow> Inr n
     | NameOf \<Rightarrow> (case th_obj s of None \<Rightarrow> Inl UseAfterFree | Some th \<Rightarrow> Inr (th_name th)))"

definition setDefaultName :: "u64 \<Rightarrow> str \<Rightarrow> str \<times> u64" where
  "setDefaultName created name =
     (let (num, created1) = incrementAndFetch created in
      (if name = [] then take 31 (chars ''Thread'' @ show_int (sint (ucast num :: 32 word))) else name, created1))"

text \<open>The constructor up to \<open>semaphore_.wait()\<close>; \<open>pthread_create\<close> has given \<open>pid\<close>.\<close>

definition Thread_begin :: "u64 \<Rightarrow> 'c \<Rightarrow> str \<Rightarrow> nat \<Rightarrow> nat \<Rightarrow> 'c life \<times> u64" where
  "Thread_begin created cb name pid sigs =
     (let (name1, created1) = setDefaultName created name in
      (\<lparr>th_obj = Some \<lparr>th_id = None, pthreadId = pid, th_cb = Some cb, th_name = name1,
          th_semaphore = \<lparr>sem_value = 0, signals = sigs\<rparr>\<rparr>,
        ctor = Waiting, runner = Born, own = main_locals, taken = None, detached = False\<rparr>, created1))"

text \<open>
  \<open>semaphore_.wait()\<close> in the constructor: the two evaluations of \<open>EASY_CHECK\<close> are two steps, as the new thread
  can act between them.
\<close>

definition with_obj :: "'c life \<Rightarrow> ('c thread_object \<Rightarrow> fault + 'c life) \<Rightarrow> fault + 'c life" where
  "with_obj s f = (case th_obj s of None \<Rightarrow> Inl UseAfterFree | Some th \<Rightarrow> f th)"

definition ctor_wait :: "bool \<Rightarrow> 'c life \<Rightarrow> (fault + 'c life) option" where
  "ctor_wait nd s = (case th_obj s of None \<Rightarrow> None | Some th \<Rightarrow>
     (case sem_wait (th_semaphore th) of
        None \<Rightarrow> None
      | Some (Inl e) \<Rightarrow> Some (Inl e)
      | Some (Inr (n, sem)) \<Rightarrow>
          let s1 = s\<lparr>th_obj := Some (th\<lparr>th_semaphore := sem\<rparr>)\<rparr> in
          (case ctor s of
             Waiting \<Rightarrow> Some (Inr (s1\<lparr>ctor := (if n = 0 \<or> nd then Constructed else Asserting)\<rparr>))
           | Asserting \<Rightarrow> Some (if n = 0 then Inl AssertFail else Inr (s1\<lparr>ctor := Constructed\<rparr>))
           | _ \<Rightarrow> None)))"

text \<open>\<open>Thread::run\<close>: up to \<open>semaphore_.notify()\<close>, the call itself, and after the callback.\<close>

definition run_begin :: "int \<Rightarrow> 'c life \<Rightarrow> (fault + 'c life) option" where
  "run_begin tid s = (if runner s \<noteq> Born then None else Some (with_obj s (\<lambda>th.
     let (i, t) = GetCurrentThreadId tid (own s) in
     Inr (s\<lparr>th_obj := Some (th\<lparr>th_id := Some i, th_cb := None\<rparr>), own := t\<lparr>t_thread_name := NameOf\<rparr>,
       taken := th_cb th, runner := Announcing\<rparr>))))"

definition run_notify :: "bool \<Rightarrow> 'c life \<Rightarrow> (fault + 'c life) option" where
  "run_notify nd s = (if runner s \<noteq> Announcing then None else Some (with_obj s (\<lambda>th.
     case Semaphore_notify nd (th_semaphore th) of
       None \<Rightarrow> Inr s
     | Some (Inl e) \<Rightarrow> Inl e
     | Some (Inr sem) \<Rightarrow> Inr (s\<lparr>th_obj := Some (th\<lparr>th_semaphore := sem\<rparr>), runner := InCallback\<rparr>))))"

datatype cb_end = Returns | StdException | OtherException

definition run_end :: "cb_end \<Rightarrow> 'c life \<Rightarrow> (fault + 'c life) option" where
  "run_end c s = (if runner s \<noteq> InCallback then None else Some (with_obj s (\<lambda>th.
     if c = Returns then Inr (s\<lparr>th_obj := Some (th\<lparr>th_name := chars ''finished''\<rparr>), runner := Ended\<rparr>)
     else Inl Terminate)))"

definition Thread_join :: "'c life \<Rightarrow> (fault + 'c life) option" where
  "Thread_join s = (if ctor s \<noteq> Constructed then None else case th_obj s of None \<Rightarrow> Some (Inl UseAfterFree) | Some th \<Rightarrow>
     if pthreadId th = 0 then Some (Inr s)
     else if runner s \<noteq> Ended then None
     else Some (Inr (s\<lparr>th_obj := Some (th\<lparr>pthreadId := 0\<rparr>)\<rparr>)))"

definition destroy_Thread :: "'c life \<Rightarrow> (fault + 'c life) option" where
  "destroy_Thread s = (if ctor s \<noteq> Constructed then None else case th_obj s of None \<Rightarrow> Some (Inl UseAfterFree) | Some th \<Rightarrow>
     Some (Inr (s\<lparr>th_obj := None, ctor := Gone, detached := (pthreadId th \<noteq> 0)\<rparr>)))"

section \<open>Lives of a thread\<close>

text \<open>The steps; a fault ends the program.\<close>

inductive life_step :: "bool \<Rightarrow> int \<Rightarrow> 'c life \<Rightarrow> fault + 'c life \<Rightarrow> bool" for nd tid where
  ls_wait: "ctor_wait nd s = Some r \<Longrightarrow> life_step nd tid s r"
| ls_begin: "run_begin tid s = Some r \<Longrightarrow> life_step nd tid s r"
| ls_notify: "run_notify nd s = Some r \<Longrightarrow> life_step nd tid s r"
| ls_end: "run_end c s = Some r \<Longrightarrow> life_step nd tid s r"
| ls_join: "Thread_join s = Some r \<Longrightarrow> life_step nd tid s r"
| ls_destroy: "destroy_Thread s = Some r \<Longrightarrow> life_step nd tid s r"

inductive life_reachable :: "bool \<Rightarrow> int \<Rightarrow> 'c life \<Rightarrow> 'c life \<Rightarrow> bool" for nd tid s0 where
  lr_new: "life_reachable nd tid s0 s0"
| lr_step: "life_reachable nd tid s0 s \<Longrightarrow> life_step nd tid s (Inr s1) \<Longrightarrow> life_reachable nd tid s0 s1"

lemmas life_defs = ctor_wait_def run_begin_def run_notify_def run_end_def Thread_join_def destroy_Thread_def
  with_obj_def sem_wait_def Semaphore_notify_def sem_post_def EASY_CHECK_def GetCurrentThreadId_def Let_def

text \<open>Without signals, what holds of a life that began as the constructor begins it.\<close>

definition life_ok :: "int \<Rightarrow> 'c \<Rightarrow> str \<Rightarrow> 'c life \<Rightarrow> bool" where
  "life_ok tid cb name s \<longleftrightarrow>
     ctor s \<noteq> Asserting \<and> (ctor s = Gone \<longleftrightarrow> th_obj s = None)
     \<and> (runner s \<in> {Born, Announcing} \<longrightarrow> ctor s = Waiting)
     \<and> taken s = (if runner s = Born then None else Some cb)
     \<and> (runner s = Born \<longrightarrow> own s = main_locals)
     \<and> (runner s \<noteq> Born \<longrightarrow> own s = \<lparr>t_thread_name = NameOf, t_thread_id = tid\<rparr>)
     \<and> (\<forall>th. th_obj s = Some th \<longrightarrow>
          signals (th_semaphore th) = 0
        \<and> sem_value (th_semaphore th) = (if runner s \<in> {InCallback, Ended} \<and> ctor s = Waiting then 1 else 0)
        \<and> th_id th = (if runner s = Born then None else Some tid)
        \<and> th_cb th = (if runner s = Born then Some cb else None)
        \<and> th_name th = (if runner s = Ended then chars ''finished'' else name)
        \<and> (pthreadId th = 0 \<longrightarrow> runner s = Ended))"

lemma life_ok_begin:
  assumes "pid \<noteq> 0"
  shows "life_ok tid cb (fst (setDefaultName created name)) (fst (Thread_begin created cb name pid 0))"
  using assms by (simp add: life_ok_def Thread_begin_def case_prod_beta)

lemma life_ok_wait: "ctor_wait nd s = Some (Inr s1) \<Longrightarrow> life_ok tid cb name s \<Longrightarrow> life_ok tid cb name s1"
  by (cases "th_obj s"; cases "ctor s"; cases "runner s")
    (auto simp: life_ok_def ctor_wait_def sem_wait_def Let_def split: if_splits)

lemma life_ok_run: "run_begin tid s = Some (Inr s1) \<Longrightarrow> life_ok tid cb name s \<Longrightarrow> life_ok tid cb name s1"
  by (cases "th_obj s"; cases "runner s")
    (auto simp: life_ok_def run_begin_def with_obj_def GetCurrentThreadId_def main_locals_def)

lemma life_ok_notify: "run_notify nd s = Some (Inr s1) \<Longrightarrow> life_ok tid cb name s \<Longrightarrow> life_ok tid cb name s1"
  by (cases "th_obj s"; cases "runner s")
    (auto simp: life_ok_def run_notify_def with_obj_def Semaphore_notify_def EASY_CHECK_def sem_post_def SEM_VALUE_MAX_def)

lemma life_ok_end: "run_end c s = Some (Inr s1) \<Longrightarrow> life_ok tid cb name s \<Longrightarrow> life_ok tid cb name s1"
  by (cases "th_obj s"; cases "runner s"; cases c) (auto simp: life_ok_def run_end_def with_obj_def)

lemma life_ok_join: "Thread_join s = Some (Inr s1) \<Longrightarrow> life_ok tid cb name s \<Longrightarrow> life_ok tid cb name s1"
  by (cases "th_obj s"; cases "ctor s"; cases "runner s") (auto simp: life_ok_def Thread_join_def split: if_splits)

lemma life_ok_destroy: "destroy_Thread s = Some (Inr s1) \<Longrightarrow> life_ok tid cb name s \<Longrightarrow> life_ok tid cb name s1"
  by (cases "th_obj s"; cases "ctor s") (auto simp: life_ok_def destroy_Thread_def)

lemma life_ok_step:
  assumes "life_step nd tid s (Inr s1)" and "life_ok tid cb name s"
  shows "life_ok tid cb name s1"
  using assms
  by (cases rule: life_step.cases)
    (blast intro: life_ok_wait life_ok_run life_ok_notify life_ok_end life_ok_join life_ok_destroy)+

lemma life_reachable_ok:
  assumes "life_reachable nd tid (fst (Thread_begin created cb name pid 0)) s" and "pid \<noteq> 0"
  shows "life_ok tid cb (fst (setDefaultName created name)) s"
  using assms by (induction rule: life_reachable.induct) (auto intro: life_ok_begin life_ok_step)

text \<open>What can go wrong in one of the steps.\<close>

lemma wait_faults: "life_ok tid cb name s \<Longrightarrow> ctor_wait nd s \<noteq> Some (Inl e)"
  by (cases "th_obj s"; cases "ctor s") (simp_all add: life_ok_def ctor_wait_def sem_wait_def Let_def)

lemma begin_faults: "life_ok tid cb name s \<Longrightarrow> run_begin tid s \<noteq> Some (Inl e)"
  by (cases "th_obj s"; cases "runner s") (auto simp: life_ok_def run_begin_def with_obj_def case_prod_beta)

lemma notify_faults: "life_ok tid cb name s \<Longrightarrow> run_notify nd s \<noteq> Some (Inl e)"
  by (cases "th_obj s"; cases "runner s")
    (auto simp: life_ok_def run_notify_def with_obj_def Semaphore_notify_def EASY_CHECK_def sem_post_def SEM_VALUE_MAX_def)

lemma end_faults:
  "life_ok tid cb name s \<Longrightarrow> run_end c s = Some (Inl e) \<Longrightarrow>
    e = Terminate \<or> e = UseAfterFree \<and> ctor s = Gone \<and> runner s = InCallback"
  by (cases "th_obj s"; cases "runner s"; cases c) (auto simp: life_ok_def run_end_def with_obj_def)

lemma owner_faults: "life_ok tid cb name s \<Longrightarrow> Thread_join s \<noteq> Some (Inl e) \<and> destroy_Thread s \<noteq> Some (Inl e)"
  by (cases "th_obj s"; cases "ctor s") (simp_all add: life_ok_def Thread_join_def destroy_Thread_def)

lemma life_faults:
  assumes "life_step nd tid s (Inl e)" and "life_ok tid cb name s"
  shows "e = Terminate \<or> e = UseAfterFree \<and> ctor s = Gone \<and> runner s = InCallback"
  using assms(1)
proof (cases rule: life_step.cases)
  case (ls_end c)
  then show ?thesis using end_faults [OF assms(2)] by metis
qed (use wait_faults [OF assms(2)] begin_faults [OF assms(2)] notify_faults [OF assms(2)] owner_faults [OF assms(2)] in metis)+

lemma join_after_end:
  assumes "life_ok tid cb name s" and "Thread_join s = Some (Inr s1)"
  shows "runner s = Ended" and "GetCurrentThreadName s1 = Inr (chars ''finished'')" and "Thread_join s1 = Some (Inr s1)"
  using assms
  by (cases "th_obj s"; auto simp: life_ok_def Thread_join_def GetCurrentThreadName_def split: if_splits)+

section \<open>Properties\<close>

text \<open>
  C22. A thread's constructor returns only when the new thread has its id and its callback, and
  does not wait for the callback itself; \<open>join\<close> returns only after the callback has, and a
  second one at once; apart from an exception of the callback, which ends the program, the only fault is
  a callback that ends after the \<open>Thread\<close> was destroyed, and it does happen to whoever does not join. A signal during the
  constructor's wait breaks this: with \<open>NDEBUG\<close> the constructor returns without an id, and otherwise
  the wait that \<open>assert\<close> repeats ends the program when it succeeds.
\<close>

theorem thread_start_and_end:
  assumes "pid \<noteq> 0" and "life_reachable nd tid (fst (Thread_begin created cb name pid 0)) s"
  defines "z \<equiv> fst (Thread_begin created cb name pid 1)"
  shows "(ctor s = Constructed \<longrightarrow> (\<exists>th. th_obj s = Some th \<and> th_id th = Some tid \<and> taken s = Some cb
        \<and> (runner s = InCallback \<or> runner s = Ended)))
    \<and> (ctor s = Waiting \<and> runner s = InCallback \<longrightarrow>
        (\<exists>s1. ctor_wait nd s = Some (Inr s1) \<and> ctor s1 = Constructed \<and> runner s1 = InCallback))
    \<and> (\<forall>s1. Thread_join s = Some (Inr s1) \<longrightarrow> runner s = Ended \<and> Thread_join s1 = Some (Inr s1)
        \<and> GetCurrentThreadName s1 = Inr (chars ''finished''))
    \<and> (\<forall>e. life_step nd tid s (Inl e) \<longrightarrow> e = Terminate \<or> e = UseAfterFree \<and> ctor s = Gone \<and> runner s = InCallback)
    \<and> (ctor s = Constructed \<and> runner s = InCallback \<longrightarrow>
        (\<exists>s1. destroy_Thread s = Some (Inr s1) \<and> run_end Returns s1 = Some (Inl UseAfterFree)))
    \<and> (\<exists>z1 th. ctor_wait nd z = Some (Inr z1) \<and> th_obj z1 = Some th \<and> th_id th = None
        \<and> (if nd then ctor z1 = Constructed
           else \<exists>z2 z3. run_begin tid z1 = Some (Inr z2) \<and> run_notify nd z2 = Some (Inr z3)
             \<and> ctor_wait nd z3 = Some (Inl AssertFail)))"
proof -
  have ok: "life_ok tid cb (fst (setDefaultName created name)) s" by (rule life_reachable_ok [OF assms(2,1)])
  have constructed: "\<exists>th. th_obj s = Some th \<and> th_id th = Some tid \<and> taken s = Some cb
        \<and> (runner s = InCallback \<or> runner s = Ended)" if "ctor s = Constructed"
    using ok that by (cases "th_obj s"; cases "runner s") (auto simp: life_ok_def)
  have goes_on: "\<exists>s1. ctor_wait nd s = Some (Inr s1) \<and> ctor s1 = Constructed \<and> runner s1 = InCallback"
    if "ctor s = Waiting" "runner s = InCallback"
    using ok that by (cases "th_obj s") (auto simp: life_ok_def ctor_wait_def sem_wait_def Let_def)
  have dies: "\<exists>s1. destroy_Thread s = Some (Inr s1) \<and> run_end Returns s1 = Some (Inl UseAfterFree)"
    if at: "ctor s = Constructed" "runner s = InCallback"
  proof -
    obtain th where "th_obj s = Some th" using constructed [OF at(1)] by blast
    then show ?thesis
      using at by (intro exI [of _ "s\<lparr>th_obj := None, ctor := Gone, detached := (pthreadId th \<noteq> 0)\<rparr>"])
        (simp add: destroy_Thread_def run_end_def with_obj_def)
  qed
  have signal: "\<exists>z1 th. ctor_wait nd z = Some (Inr z1) \<and> th_obj z1 = Some th \<and> th_id th = None
        \<and> (if nd then ctor z1 = Constructed
           else \<exists>z2 z3. run_begin tid z1 = Some (Inr z2) \<and> run_notify nd z2 = Some (Inr z3)
             \<and> ctor_wait nd z3 = Some (Inl AssertFail))"
    by (simp add: z_def Thread_begin_def case_prod_beta ctor_wait_def sem_wait_def run_begin_def run_notify_def with_obj_def
        Semaphore_notify_def EASY_CHECK_def sem_post_def SEM_VALUE_MAX_def)
  show ?thesis using constructed goes_on join_after_end [OF ok] life_faults [OF _ ok] dies signal by blast
qed

theorem thread_start_and_end_witness:
  "\<exists>s th. life_reachable False 7 (fst (Thread_begin 0 (5 :: nat) [] 9 0)) s \<and> th_obj s = Some th \<and> th_id th = Some 7
     \<and> th_name th = chars ''Thread1''"
proof -
  let ?new = "fst (Thread_begin 0 (5 :: nat) [] 9 0)"
  let ?th = "\<lparr>th_id = Some 7, pthreadId = 9, th_cb = None, th_name = chars ''Thread1'',
      th_semaphore = \<lparr>sem_value = 0, signals = 0\<rparr>\<rparr>"
  let ?s = "\<lambda>c r v. \<lparr>th_obj = Some (?th\<lparr>th_semaphore := \<lparr>sem_value = v, signals = 0\<rparr>\<rparr>), ctor = c, runner = r,
      own = \<lparr>t_thread_name = NameOf, t_thread_id = 7\<rparr>, taken = Some 5, detached = False\<rparr>"
  have name: "fst (setDefaultName 0 []) = chars ''Thread1''"
    by code_simp
  have "run_begin 7 ?new = Some (Inr (?s Waiting Announcing 0))"
    using name by (simp add: Thread_begin_def case_prod_beta run_begin_def with_obj_def GetCurrentThreadId_def main_locals_def)
  then have 1: "life_reachable False 7 ?new (?s Waiting Announcing 0)" using lr_new lr_step ls_begin by blast
  have "run_notify False (?s Waiting Announcing 0) = Some (Inr (?s Waiting InCallback 1))"
    by (simp add: run_notify_def with_obj_def Semaphore_notify_def EASY_CHECK_def sem_post_def SEM_VALUE_MAX_def)
  then have 2: "life_reachable False 7 ?new (?s Waiting InCallback 1)" using 1 lr_step ls_notify by blast
  have "ctor_wait False (?s Waiting InCallback 1) = Some (Inr (?s Constructed InCallback 0))"
    by (simp add: ctor_wait_def sem_wait_def)
  then have 3: "life_reachable False 7 ?new (?s Constructed InCallback 0)" using 2 lr_step ls_wait by blast
  then have "\<exists>th. th_obj (?s Constructed InCallback 0) = Some th \<and> th_id th = Some 7"
    using thread_start_and_end [OF _ 3] by auto
  then show ?thesis using 3 by (intro exI [of _ "?s Constructed InCallback 0"]) auto
qed

end
