(* ===== verification/Worker.thy ===== *)
theory Worker imports Scheduler begin

text \<open>
  A worker of \<open>easy/base/Scheduler.cc\<close> as a whole: what \<open>run\<close> does before its loop, the loop, the
  base class's idle fiber, and a callback that returns. The theorem puts the queue, the fibers and
  the loop together: a worker told to stop runs what is queued and leaves, and one that is not never does.
\<close>

section \<open>The code\<close>

text \<open>Before the loop: the hooks are on, and a pool thread makes its scheduler fiber; then the idle fiber.\<close>

definition worker_begin ::
    "nat \<Rightarrow> nat \<Rightarrow> nat \<Rightarrow> int \<Rightarrow> nat \<Rightarrow> ('c, 'k) world \<Rightarrow> fault + bool \<times> ('c, 'k) world" where
  "worker_begin default_size root idle tid me w =
     (let th = (thr w)\<lparr>t_scheduler := Some me\<rparr>;
          (th1, fb) = (if tid \<noteq> callerTid (sch w)
            then let (p, th2, fb2) = Fiber_GetThis th (fib w) root in (th2\<lparr>t_scheduler_fiber := Some p\<rparr>, fb2)
            else (th, fib w)) in
      bindE (NewFiber default_size fb idle (Some IdleLoop) 0) (\<lambda>fb1. Inr (True, w\<lparr>thr := th1, fib := fb1\<rparr>)))"

text \<open>The loop; each iteration has an address for the fiber it may make. It need not end.\<close>

partial_function (option) run_loop ::
    "(nat \<Rightarrow> ('c, 'k) world \<Rightarrow> fault + ('c, 'k) world) \<Rightarrow> ('c sched \<Rightarrow> 'c sched) \<Rightarrow> nat \<Rightarrow> int \<Rightarrow> nat \<Rightarrow> nat \<Rightarrow> ('c, 'k) world \<Rightarrow>
     (fault + ('c, 'k) world) option" where
  "run_loop body wk n tid idle fresh w =
     (case run_once body wk n tid idle fresh w of
        Inl e \<Rightarrow> Some (Inl e)
      | Inr r \<Rightarrow> if fst r then run_loop body wk n tid idle (Suc fresh) (snd r) else Some (Inr (snd r)))"

definition switched :: "('c, 'k) world \<Rightarrow> fault + thread \<times> 'c job fibers \<Rightarrow> fault + ('c, 'k) world" where
  "switched w r = bindE r (\<lambda>(th, fb). Inr (w\<lparr>thr := th, fib := fb\<rparr>))"

text \<open>\<open>Scheduler::idle\<close> from one resume to the next switch.\<close>

definition idle_pass :: "nat \<Rightarrow> ('c, 'k) world \<Rightarrow> fault + ('c, 'k) world" where
  "idle_pass p w = switched w
     (if canStop (sch w) then MainFunc_end False (thr w) (fib w) p else YieldToHold (thr w) (fib w) p)"

text \<open>
  \<open>Fiber::MainFunc\<close> from its call of \<open>cb_\<close> on, for callbacks that return or throw without switching: \<open>run c k\<close> is whether \<open>c\<close>
  throws and what it makes of \<open>k\<close>, what the callbacks work on. The idle fiber runs \<open>Scheduler::idle\<close>, and calling an empty function throws.
\<close>

definition worker_body ::
    "('c \<Rightarrow> 'k \<Rightarrow> bool \<times> 'k) \<Rightarrow> nat \<Rightarrow> ('c, 'k) world \<Rightarrow> fault + ('c, 'k) world" where
  "worker_body run p w =
     bindE (getf (fib w) (Some p)) (\<lambda>f. case callback f of
         None \<Rightarrow> switched w (MainFunc_end True (thr w) (fib w) p)
       | Some IdleLoop \<Rightarrow> idle_pass p w
       | Some (Job c) \<Rightarrow> (let (threw, k) = run c (outside w) in
           switched (w\<lparr>outside := k\<rparr>) (MainFunc_end threw (thr w) (fib w) p)))"

text \<open>\<open>~Scheduler\<close>: \<open>current\<close> is the calling thread's scheduler.\<close>

definition destroy_Scheduler :: "nat \<Rightarrow> nat option \<Rightarrow> 'c sched \<Rightarrow> fault + nat option" where
  "destroy_Scheduler me current s =
     guardE (\<not> running s) AssertFail (Inr (if current = Some me then None else current))"

section \<open>One resume of a fiber\<close>

definition suspended :: "'f option \<Rightarrow> 'f fibers \<Rightarrow> nat \<Rightarrow> bool" where
  "suspended cb fb p \<longleftrightarrow> (\<exists>f. heap fb p = Some f \<and> saved f \<and> state f \<in> {INIT, HOLD} \<and> callback f = cb)"

definition ended :: "'f fibers \<Rightarrow> nat \<Rightarrow> bool" where
  "ended fb p \<longleftrightarrow> (\<exists>f. heap fb p = Some f \<and> finish f)"

text \<open>A callback that has returned or thrown: \<open>k\<close> is what it leaves behind.\<close>

lemma handle_end:
  assumes "in_scheduler (thr w) (fib w) s" and "suspended cb (fib w) p" and "p \<noteq> s"
    and "\<And>th fb. map_option callback (heap fb p) = Some cb \<Longrightarrow> body p (w\<lparr>thr := th, fib := fb\<rparr>)
        = switched (w\<lparr>thr := th, fib := fb, outside := k\<rparr>) (MainFunc_end threw th fb p)"
  shows "\<exists>th fb. handleFiber body wk p w = Inr (w\<lparr>thr := th, fib := fb, outside := k\<rparr>) \<and> in_scheduler th fb s \<and> ended fb p
    \<and> (\<forall>q. q \<noteq> p \<and> q \<noteq> s \<longrightarrow> heap fb q = heap (fib w) q)"
proof -
  obtain f where f: "heap (fib w) p = Some f" "saved f" "state f \<in> {INIT, READY, HOLD}" "callback f = cb"
    using assms(2) by (auto simp: suspended_def)
  obtain th fb where r: "sched_resume (thr w) (fib w) p = Inr (th, fb)" "in_fiber th fb s p"
      "heap fb p = Some (f\<lparr>state := EXEC, saved := False\<rparr>)"
      "\<And>q. q \<noteq> p \<Longrightarrow> q \<noteq> s \<Longrightarrow> heap fb q = heap (fib w) q"
    by (rule sched_resume_ok [OF assms(1) f(1) assms(3) f(2,3)]) blast
  let ?g = "f\<lparr>state := EXEC, saved := False\<rparr>"
  let ?e = "if threw then ?g else ?g\<lparr>callback := None\<rparr>" and ?st = "if threw then EXCEPT else TERM_state"
  let ?v = "setf fb p ?e"
  have v: "in_fiber th ?v s p" "heap ?v p = Some ?e"
    using r(2,3) by (auto simp: in_fiber_def heap_setf)
  obtain th2 fb2 where l: "leave th (setf ?v p (?e\<lparr>state := ?st\<rparr>)) p = Inr (th2, fb2)"
      "in_scheduler th2 fb2 s" "heap fb2 p = Some (?e\<lparr>state := ?st, saved := True\<rparr>)"
      "\<And>q. q \<noteq> p \<Longrightarrow> q \<noteq> s \<Longrightarrow> heap fb2 q = heap ?v q"
    by (rule leave_ok [OF v, of ?st]) blast
  have "setf ?v p (?e\<lparr>state := ?st\<rparr>) = setf fb p (?e\<lparr>state := ?st\<rparr>)" by (simp add: setf_def)
  then have e: "MainFunc_end threw th fb p = Inr (th2, fb2)"
    using l(1) by (simp add: MainFunc_end_in_fiber [OF r(3)])
  have b: "body p (w\<lparr>thr := th, fib := fb\<rparr>) = Inr (w\<lparr>thr := th2, fib := fb2, outside := k\<rparr>)"
    using f(4) r(3) e by (simp add: assms(4) switched_def)
  have "handleFiber body wk p w = Inr (w\<lparr>thr := th2, fib := fb2, outside := k\<rparr>)"
    using r(1) l(3) by (cases threw) (simp_all add: handleFiber_def b getf_simps)
  moreover have "ended fb2 p" using l(3) by (simp add: ended_def finish_def)
  moreover have "heap fb2 q = heap (fib w) q" if "q \<noteq> p" "q \<noteq> s" for q
    using l(4) [OF that] r(4) [OF that] that by (simp add: heap_setf)
  ultimately show ?thesis using l(2) by blast
qed

lemma handle_hold:
  assumes "in_scheduler (thr w) (fib w) s" and "suspended cb (fib w) p" and "p \<noteq> s"
    and "\<And>th fb. map_option callback (heap fb p) = Some cb \<Longrightarrow> body p (w\<lparr>thr := th, fib := fb\<rparr>)
        = switched (w\<lparr>thr := th, fib := fb\<rparr>) (YieldToHold th fb p)"
  shows "\<exists>th fb. handleFiber body wk p w = Inr (w\<lparr>thr := th, fib := fb\<rparr>) \<and> in_scheduler th fb s \<and> suspended cb fb p
    \<and> (\<forall>q. q \<noteq> p \<and> q \<noteq> s \<longrightarrow> heap fb q = heap (fib w) q)"
proof -
  obtain f where f: "heap (fib w) p = Some f" "saved f" "state f \<in> {INIT, READY, HOLD}" "callback f = cb"
    using assms(2) by (auto simp: suspended_def)
  obtain th fb where r: "sched_resume (thr w) (fib w) p = Inr (th, fb)" "in_fiber th fb s p"
      "heap fb p = Some (f\<lparr>state := EXEC, saved := False\<rparr>)"
      "\<And>q. q \<noteq> p \<Longrightarrow> q \<noteq> s \<Longrightarrow> heap fb q = heap (fib w) q"
    by (rule sched_resume_ok [OF assms(1) f(1) assms(3) f(2,3)]) blast
  let ?g = "f\<lparr>state := EXEC, saved := False\<rparr>"
  obtain th2 fb2 where l: "leave th (setf fb p (?g\<lparr>state := HOLD\<rparr>)) p = Inr (th2, fb2)"
      "in_scheduler th2 fb2 s" "heap fb2 p = Some (?g\<lparr>state := HOLD, saved := True\<rparr>)"
      "\<And>q. q \<noteq> p \<Longrightarrow> q \<noteq> s \<Longrightarrow> heap fb2 q = heap fb q"
    by (rule leave_ok [OF r(2,3), of HOLD]) blast
  let ?h = "?g\<lparr>state := HOLD, saved := True\<rparr>"
  let ?fb = "setf fb2 p (?h\<lparr>state := HOLD\<rparr>)"
  have same: "heap ?fb = heap fb2" using l(3) by (simp add: heap_setf fun_upd_idem)
  have b: "body p (w\<lparr>thr := th, fib := fb\<rparr>) = Inr (w\<lparr>thr := th2, fib := fb2\<rparr>)"
    using f(4) r(3) l(1) by (simp add: assms(4) switched_def YieldToHold_in_fiber [OF r(2,3)])
  have "handleFiber body wk p w = Inr (w\<lparr>thr := th2, fib := ?fb\<rparr>)"
    using r(1) getf_simps(2) [OF l(3)] by (simp add: handleFiber_def b)
  moreover have "suspended cb ?fb p" using l(3) f(4) same by (simp add: suspended_def)
  moreover have "in_scheduler th2 ?fb s" using l(2) same by (simp add: in_scheduler_def)
  moreover have "heap ?fb q = heap (fib w) q" if "q \<noteq> p" "q \<noteq> s" for q
    using l(4) [OF that] r(4) [OF that] same by simp
  ultimately show ?thesis by blast
qed

section \<open>Iterations of the loop\<close>

definition at_loop :: "nat \<Rightarrow> nat \<Rightarrow> ('c, 'k) world \<Rightarrow> bool" where
  "at_loop s idle w \<longleftrightarrow> in_scheduler (thr w) (fib w) s \<and> idle \<noteq> s \<and> suspended (Some IdleLoop) (fib w) idle"

lemma suspended_unfinished: "suspended cb fb p \<Longrightarrow> \<exists>f. heap fb p = Some f \<and> \<not> finish f"
  by (auto simp: suspended_def finish_def)

lemma iterate_idle:
  assumes "at_loop s idle w" and "tasks (sch w) = []"
  shows "\<exists>th fb. run_once (worker_body run) wk n tid idle a w = Inr (True, w\<lparr>thr := th, fib := fb\<rparr>)
    \<and> in_scheduler th fb s \<and> (if canStop (sch w) then ended fb idle else suspended (Some IdleLoop) fb idle)
    \<and> (\<forall>q. q \<noteq> idle \<and> q \<noteq> s \<longrightarrow> heap fb q = heap (fib w) q)"
proof -
  obtain f where f: "heap (fib w) idle = Some f" "\<not> finish f"
    using assms(1) by (auto simp: at_loop_def dest: suspended_unfinished)
  let ?w = "with_idle 1 w"
  have w: "thr ?w = thr w" "fib ?w = fib w" "canStop (sch ?w) = canStop (sch w)"
    by (simp_all add: with_idle_def canStop_def)
  have undone: "with_idle (-1) (?w\<lparr>thr := th, fib := fb\<rparr>) = w\<lparr>thr := th, fib := fb\<rparr>" for th fb
    by (simp add: with_idle_def)
  have here: "in_scheduler (thr ?w) (fib ?w) s" "suspended (Some IdleLoop) (fib ?w) idle" "idle \<noteq> s"
    using assms(1) by (simp_all add: at_loop_def w)
  have once: "run_once (worker_body run) wk n tid idle a w
      = bindE (handleFiber (worker_body run) wk idle ?w) (\<lambda>w'. Inr (True, with_idle (-1) w'))"
    using f assms(2) by (simp add: run_once_def take_task_def getf_simps)
  have "\<exists>th fb. handleFiber (worker_body run) wk idle ?w = Inr (?w\<lparr>thr := th, fib := fb\<rparr>) \<and> in_scheduler th fb s
      \<and> (if canStop (sch w) then ended fb idle else suspended (Some IdleLoop) fb idle)
      \<and> (\<forall>q. q \<noteq> idle \<and> q \<noteq> s \<longrightarrow> heap fb q = heap (fib ?w) q)"
  proof (cases "canStop (sch w)")
    case True
    then have "worker_body run idle (?w\<lparr>thr := th, fib := fb\<rparr>)
        = switched (?w\<lparr>thr := th, fib := fb, outside := outside w\<rparr>) (MainFunc_end False th fb idle)"
      if "map_option callback (heap fb idle) = Some (Some IdleLoop)" for th fb
      using w(3) that by (auto simp: worker_body_def idle_pass_def getf_simps switched_def with_idle_def)
    from handle_end [where w = ?w and body = "worker_body run" and wk = wk and k = "outside w", OF here this] True
    show ?thesis by (simp add: with_idle_def)
  next
    case False
    then have "worker_body run idle (?w\<lparr>thr := th, fib := fb\<rparr>)
        = switched (?w\<lparr>thr := th, fib := fb\<rparr>) (YieldToHold th fb idle)"
      if "map_option callback (heap fb idle) = Some (Some IdleLoop)" for th fb
      using w(3) that by (auto simp: worker_body_def idle_pass_def getf_simps switched_def with_idle_def)
    from handle_hold [where w = ?w and body = "worker_body run" and wk = wk, OF here this] False show ?thesis by simp
  qed
  then obtain th fb where "handleFiber (worker_body run) wk idle ?w = Inr (?w\<lparr>thr := th, fib := fb\<rparr>)"
      "in_scheduler th fb s" "if canStop (sch w) then ended fb idle else suspended (Some IdleLoop) fb idle"
      "\<forall>q. q \<noteq> idle \<and> q \<noteq> s \<longrightarrow> heap fb q = heap (fib ?w) q" by blast
  then show ?thesis using once undone w(2) by (intro exI [of _ th] exI [of _ fb]) simp
qed

lemma iterate_callback:
  assumes "at_loop s idle w" and "tasks (sch w) = cb_task (Some c) # ts" and "n \<noteq> 0" and "heap (fib w) a = None"
  shows "\<exists>th fb. run_once (worker_body run) wk n tid idle a w
      = Inr (True, w\<lparr>thr := th, fib := fb, sch := (sch w)\<lparr>tasks := ts\<rparr>, outside := snd (run c (outside w))\<rparr>)
    \<and> at_loop s idle (w\<lparr>thr := th, fib := fb, sch := (sch w)\<lparr>tasks := ts\<rparr>, outside := snd (run c (outside w))\<rparr>) \<and> ended fb a
    \<and> (\<forall>q. q \<noteq> a \<and> q \<noteq> s \<longrightarrow> heap fb q = heap (fib w) q)"
proof -
  obtain f where f: "heap (fib w) idle = Some f" "\<not> finish f"
    using assms(1) by (auto simp: at_loop_def dest: suspended_unfinished)
  have "a \<noteq> idle" "a \<noteq> s" using f(1) assms(1,4) by (auto simp: at_loop_def in_scheduler_def)
  let ?new = "\<lparr>fid = numsCreated (fib w) + 1, stacksize = n, state = INIT, stack = True, callback = Some (Job c), saved = True\<rparr>"
  let ?fb = "(setf (fib w) a ?new)\<lparr>numsCreated := numsCreated (fib w) + 1, fiber_count := fiber_count (fib w) + 1\<rparr>"
  let ?v = "w\<lparr>sch := (sch w)\<lparr>tasks := ts\<rparr>, fib := ?fb\<rparr>"
  have heap: "heap ?fb = (heap (fib w))(a \<mapsto> ?new)" by (simp add: setf_def)
  have new: "NewFiber n (fib w) a (Some (Job c)) 0 = Inr ?fb" using assms(3) by (simp add: NewFiber_def)
  have take: "take_task ex tid (sch w) = Inr (Some (cb_task (Some c)), (sch w)\<lparr>tasks := ts\<rparr>)" for ex
    using assms(2) by (simp add: take_task_def cb_task_def Let_def)
  have once: "run_once (worker_body run) wk n tid idle a w
      = bindE (handleFiber (worker_body run) wk a (with_active 1 ?v)) (\<lambda>w'. Inr (True, with_active (-1) w'))"
    using f new heap
    by (simp add: run_once_def take getf_simps task_to_fiber_def cb_task_def finish_def)
  let ?u = "with_active 1 ?v"
  have u: "thr ?u = thr w" "fib ?u = ?fb" by (simp_all add: with_active_def)
  have s: "in_scheduler (thr ?u) (fib ?u) s" using assms(1) \<open>a \<noteq> s\<close> u heap by (simp add: at_loop_def in_scheduler_def)
  have p: "suspended (Some (Job c)) (fib ?u) a" using u heap by (simp add: suspended_def)
  have "worker_body run a (?u\<lparr>thr := th, fib := fb\<rparr>)
      = switched (?u\<lparr>thr := th, fib := fb, outside := snd (run c (outside w))\<rparr>) (MainFunc_end (fst (run c (outside w))) th fb a)"
    if "map_option callback (heap fb a) = Some (Some (Job c))" for th fb
    using that by (auto simp: worker_body_def getf_simps with_active_def split_beta)
  from handle_end [where w = ?u and body = "worker_body run" and wk = wk, OF s p \<open>a \<noteq> s\<close> this] obtain th fb where
    h: "handleFiber (worker_body run) wk a ?u = Inr (?u\<lparr>thr := th, fib := fb, outside := snd (run c (outside w))\<rparr>)" "in_scheduler th fb s" "ended fb a"
      "\<forall>q. q \<noteq> a \<and> q \<noteq> s \<longrightarrow> heap fb q = heap ?fb q"
    using u(2) by auto
  have undone: "with_active (-1) (?u\<lparr>thr := th, fib := fb, outside := snd (run c (outside w))\<rparr>) = w\<lparr>thr := th, fib := fb, sch := (sch w)\<lparr>tasks := ts\<rparr>, outside := snd (run c (outside w))\<rparr>"
    by (simp add: with_active_def)
  have rest: "heap fb q = heap (fib w) q" if "q \<noteq> a" "q \<noteq> s" for q using h(4) that heap by simp
  then have "suspended (Some IdleLoop) fb idle"
    using assms(1) \<open>a \<noteq> idle\<close> by (auto simp: at_loop_def suspended_def)
  then show ?thesis
    using once h undone rest assms(1) by (intro exI [of _ th] exI [of _ fb]) (simp add: at_loop_def)
qed

lemma iterate_end:
  assumes "ended (fib w) idle" and "tasks (sch w) = []"
  shows "run_once body wk n tid idle a w = Inr (False, w)"
  using assms by (auto simp: ended_def run_once_def take_task_def getf_simps)

definition queued_callbacks :: "'c list \<Rightarrow> 'c task list" where
  "queued_callbacks cs = map (\<lambda>c. cb_task (Some c)) cs"

lemma queued_callbacks_simps [simp]:
  "queued_callbacks [] = []" "queued_callbacks (c # cs) = cb_task (Some c) # queued_callbacks cs"
  by (simp_all add: queued_callbacks_def)

lemma loop_drains:
  assumes "at_loop s idle w" and "tasks (sch w) = queued_callbacks cs" and "n \<noteq> 0"
    and "\<forall>i < length cs. heap (fib w) (a + i) = None" and "\<not> running (sch w)" and "activeThreadNums (sch w) = 0"
  shows "\<exists>w1. run_loop (worker_body run) wk n tid idle a w = Some (Inr w1) \<and> in_scheduler (thr w1) (fib w1) s
    \<and> sch w1 = (sch w)\<lparr>tasks := []\<rparr> \<and> outside w1 = foldl (\<lambda>k c. snd (run c k)) (outside w) cs
    \<and> (\<forall>i < length cs. ended (fib w1) (a + i))
    \<and> (\<forall>q. q \<noteq> idle \<and> q \<noteq> s \<and> (q < a \<or> a + length cs \<le> q) \<longrightarrow> heap (fib w1) q = heap (fib w) q)"
  using assms
proof (induction cs arbitrary: a w)
  case Nil
  obtain th fb where i: "run_once (worker_body run) wk n tid idle a w = Inr (True, w\<lparr>thr := th, fib := fb\<rparr>)"
      "in_scheduler th fb s" "if canStop (sch w) then ended fb idle else suspended (Some IdleLoop) fb idle"
      "\<forall>q. q \<noteq> idle \<and> q \<noteq> s \<longrightarrow> heap fb q = heap (fib w) q"
    using iterate_idle [OF Nil.prems(1), of run wk n tid a] Nil.prems(2) by auto
  have "canStop (sch w)" using Nil.prems by (simp add: canStop_def)
  then have "run_once (worker_body run) wk n tid idle (Suc a) (w\<lparr>thr := th, fib := fb\<rparr>) = Inr (False, w\<lparr>thr := th, fib := fb\<rparr>)"
    using i(3) Nil.prems(2) by (intro iterate_end) simp_all
  then have "run_loop (worker_body run) wk n tid idle a w = Some (Inr (w\<lparr>thr := th, fib := fb\<rparr>))"
    using i(1) by (subst run_loop.simps, simp, subst run_loop.simps, simp)
  moreover have "sch w = (sch w)\<lparr>tasks := []\<rparr>" using Nil.prems(2) by simp
  ultimately show ?case using i(2,4) by (intro exI [of _ "w\<lparr>thr := th, fib := fb\<rparr>"]) simp
next
  case (Cons c cs)
  have none: "heap (fib w) a = None" using Cons.prems(4) by (metis add.right_neutral length_Cons zero_less_Suc)
  obtain th fb where i: "run_once (worker_body run) wk n tid idle a w
        = Inr (True, w\<lparr>thr := th, fib := fb, sch := (sch w)\<lparr>tasks := queued_callbacks cs\<rparr>, outside := snd (run c (outside w))\<rparr>)"
      "at_loop s idle (w\<lparr>thr := th, fib := fb, sch := (sch w)\<lparr>tasks := queued_callbacks cs\<rparr>, outside := snd (run c (outside w))\<rparr>)" "ended fb a"
      "\<forall>q. q \<noteq> a \<and> q \<noteq> s \<longrightarrow> heap fb q = heap (fib w) q"
    using iterate_callback [OF Cons.prems(1) _ Cons.prems(3) none, of c "queued_callbacks cs" run wk tid] Cons.prems(2) by auto
  let ?w = "w\<lparr>thr := th, fib := fb, sch := (sch w)\<lparr>tasks := queued_callbacks cs\<rparr>, outside := snd (run c (outside w))\<rparr>"
  have as: "a \<noteq> s" "a \<noteq> idle"
    using none Cons.prems(1) by (auto simp: at_loop_def in_scheduler_def suspended_def)
  have fresh: "heap fb (Suc a + i) = None" if "i < length cs" for i
  proof (cases "Suc a + i = s")
    case True
    then show ?thesis
      using Cons.prems(1,4) that by (auto simp: at_loop_def in_scheduler_def dest: spec [of _ "Suc i"])
  next
    case False
    then show ?thesis using i(4) Cons.prems(4) that by (auto dest: spec [of _ "Suc i"])
  qed
  obtain w1 where w1: "run_loop (worker_body run) wk n tid idle (Suc a) ?w = Some (Inr w1)" "in_scheduler (thr w1) (fib w1) s"
      "sch w1 = (sch ?w)\<lparr>tasks := []\<rparr>" "outside w1 = foldl (\<lambda>k c. snd (run c k)) (outside ?w) cs" "\<forall>i < length cs. ended (fib w1) (Suc a + i)"
      "\<forall>q. q \<noteq> idle \<and> q \<noteq> s \<and> (q < Suc a \<or> Suc a + length cs \<le> q) \<longrightarrow> heap (fib w1) q = heap (fib ?w) q"
    using Cons.IH [OF i(2) _ Cons.prems(3), of "Suc a"] fresh Cons.prems(5,6) by auto
  have run: "run_loop (worker_body run) wk n tid idle a w = Some (Inr w1)"
    using i(1) w1(1) by (subst run_loop.simps) simp
  have "ended (fib w1) a" using w1(6) as i(3) by (simp add: ended_def)
  then have all: "ended (fib w1) (a + j)" if "j < length (c # cs)" for j
    using that w1(5) by (cases j) simp_all
  have "heap (fib w1) q = heap (fib w) q" if "q \<noteq> idle" "q \<noteq> s" "q < a \<or> a + length (c # cs) \<le> q" for q
    using that w1(6) i(4) by auto
  then show ?case using run w1(2-4) all by (intro exI [of _ w1]) simp
qed

text \<open>While the scheduler runs nobody leaves.\<close>

definition stuck :: "nat \<Rightarrow> nat \<Rightarrow> nat \<Rightarrow> nat \<Rightarrow> ('c, 'k) world \<Rightarrow> bool" where
  "stuck s n idle a w \<longleftrightarrow> at_loop s idle w \<and> (\<exists>cs. tasks (sch w) = queued_callbacks cs)
     \<and> n \<noteq> 0 \<and> (\<forall>i. heap (fib w) (a + i) = None) \<and> running (sch w)"

lemma stuck_step:
  assumes "stuck s n idle a w"
  shows "\<exists>w1. run_once (worker_body run) wk n tid idle a w = Inr (True, w1) \<and> stuck s n idle (Suc a) w1"
proof -
  obtain cs where w: "at_loop s idle w" "tasks (sch w) = queued_callbacks cs" "n \<noteq> 0" "running (sch w)"
      and free: "\<forall>i. heap (fib w) (a + i) = None"
    using assms by (auto simp: stuck_def)
  have used: "heap (fib w) s \<noteq> None" "heap (fib w) idle \<noteq> None"
    using w(1) by (auto simp: at_loop_def in_scheduler_def suspended_def)
  have later: "\<forall>i. heap fb (Suc a + i) = None"
    if "\<forall>q. q \<noteq> b \<and> q \<noteq> s \<longrightarrow> heap fb q = heap (fib w) q" "b = idle \<or> b = a" for fb :: "'a job fibers" and b
  proof
    fix i
    have none: "heap (fib w) (a + Suc i) = None" using free by blast
    then have "a + Suc i \<noteq> s" "a + Suc i \<noteq> idle" using used by metis+
    then show "heap fb (Suc a + i) = None" using that none by auto
  qed
  show ?thesis
  proof (cases cs)
    case Nil
    obtain th fb where i: "run_once (worker_body run) wk n tid idle a w = Inr (True, w\<lparr>thr := th, fib := fb\<rparr>)"
        "in_scheduler th fb s" "if canStop (sch w) then ended fb idle else suspended (Some IdleLoop) fb idle"
        "\<forall>q. q \<noteq> idle \<and> q \<noteq> s \<longrightarrow> heap fb q = heap (fib w) q"
      using iterate_idle [OF w(1), of run wk n tid a] w(2) Nil by auto
    have "\<not> canStop (sch w)" using w(4) by (simp add: canStop_def)
    then have "at_loop s idle (w\<lparr>thr := th, fib := fb\<rparr>)" using i(2,3) w(1) by (simp add: at_loop_def)
    then have "stuck s n idle (Suc a) (w\<lparr>thr := th, fib := fb\<rparr>)" using w later [OF i(4)] by (auto simp: stuck_def)
    then show ?thesis using i(1) by blast
  next
    case (Cons c ds)
    have none: "heap (fib w) a = None" using free by (metis add.right_neutral)
    let ?v = "\<lambda>th fb. w\<lparr>thr := th, fib := fb, sch := (sch w)\<lparr>tasks := queued_callbacks ds\<rparr>, outside := snd (run c (outside w))\<rparr>"
    have tasks: "tasks (sch w) = cb_task (Some c) # queued_callbacks ds" using w(2) Cons by simp
    obtain th fb where i: "run_once (worker_body run) wk n tid idle a w = Inr (True, ?v th fb)"
        "at_loop s idle (?v th fb)" "\<forall>q. q \<noteq> a \<and> q \<noteq> s \<longrightarrow> heap fb q = heap (fib w) q"
      using iterate_callback [OF w(1) tasks w(3) none, of run wk tid] by blast
    have "stuck s n idle (Suc a) (?v th fb)" using w i(2) later [OF i(3)] by (auto simp: stuck_def)
    then show ?thesis using i(1) by blast
  qed
qed

lemma loop_stays:
  assumes "stuck s n idle a w"
  shows "run_loop (worker_body run) wk n tid idle a w = None"
proof -
  have "run_loop b wk n tid idle a w = Some r \<Longrightarrow> b = worker_body run \<longrightarrow> \<not> stuck s n idle a w" for b r
  proof (rule run_loop.raw_induct [where P = "\<lambda>b wk n tid idle a w r. b = worker_body run \<longrightarrow> \<not> stuck s n idle a w"])
    fix loop :: "(nat \<Rightarrow> ('a, 'b) world \<Rightarrow> fault + ('a, 'b) world) \<Rightarrow> ('a sched \<Rightarrow> 'a sched) \<Rightarrow> nat \<Rightarrow> int \<Rightarrow> nat \<Rightarrow> nat \<Rightarrow> ('a, 'b) world \<Rightarrow>
        (fault + ('a, 'b) world) option" and b wk n tid idle a w r
    assume IH: "\<And>b wk n tid idle a w r. loop b wk n tid idle a w = Some r \<Longrightarrow>
          b = worker_body run \<longrightarrow> \<not> stuck s n idle a w"
      and step: "(case run_once b wk n tid idle a w of Inl e \<Rightarrow> Some (Inl e)
          | Inr r \<Rightarrow> if fst r then loop b wk n tid idle (Suc a) (snd r) else Some (Inr (snd r))) = Some r"
    show "b = worker_body run \<longrightarrow> \<not> stuck s n idle a w"
    proof (intro impI notI)
      assume b: "b = worker_body run" and "stuck s n idle a w"
      then obtain w1 where "run_once b wk n tid idle a w = Inr (True, w1)" "stuck s n idle (Suc a) w1"
        using stuck_step by blast
      then show False using IH step b by simp
    qed
  qed
  then show ?thesis using assms by (cases "run_loop (worker_body run) wk n tid idle a w") auto
qed

section \<open>Properties\<close>

text \<open>
  C19. A worker runs what is queued and leaves: a new pool thread sets up its scheduler fiber and its idle fiber,
  and when the scheduler has been told to stop and no other worker is active it runs exactly the queued
  callbacks, each once, in the order of the queue, to its end and in a fiber of its own, whether they return or throw: what
  they work on is what running them one after the other makes of it. It leaves the queue empty
  and returns; while the scheduler is running the loop does not end. The callbacks are ones that neither switch nor post tasks.
\<close>

theorem worker_runs_and_leaves:
  assumes "thr w0 = \<lparr>t_running_fiber = None, t_root_fiber = None, t_scheduler = None, t_scheduler_fiber = None\<rparr>"
    and "tid \<noteq> callerTid (sch w0)" and "n \<noteq> 0" and "tasks (sch w0) = queued_callbacks cs"
    and "root \<noteq> idle" and "root < a" and "idle < a" and "\<forall>i. heap (fib w0) (a + i) = None"
  shows "\<exists>w. worker_begin n root idle tid me w0 = Inr (True, w)
    \<and> (\<not> running (sch w0) \<and> activeThreadNums (sch w0) = 0 \<longrightarrow>
        (\<exists>w1. run_loop (worker_body run) wk n tid idle a w = Some (Inr w1) \<and> sch w1 = (sch w0)\<lparr>tasks := []\<rparr>
           \<and> outside w1 = foldl (\<lambda>k c. snd (run c k)) (outside w0) cs
           \<and> (\<forall>i < length cs. ended (fib w1) (a + i)) \<and> in_scheduler (thr w1) (fib w1) root))
    \<and> (running (sch w0) \<longrightarrow> run_loop (worker_body run) wk n tid idle a w = None)"
proof -
  let ?fb = "snd (new_root_Fiber (thr w0) (fib w0) root)"
  obtain th fb where b: "worker_begin n root idle tid me w0 = Inr (True, w0\<lparr>thr := th, fib := fb\<rparr>)"
      "at_loop root idle (w0\<lparr>thr := th, fib := fb\<rparr>)" "\<forall>q. q \<noteq> root \<and> q \<noteq> idle \<longrightarrow> heap fb q = heap (fib w0) q"
    using assms(1-3,5)
    by (simp add: worker_begin_def Fiber_GetThis_def new_root_Fiber_def NewFiber_def at_loop_def in_scheduler_def
        suspended_def setf_def)
  let ?w = "w0\<lparr>thr := th, fib := fb\<rparr>"
  have fresh: "\<forall>i. heap (fib ?w) (a + i) = None" using b(3) assms(6-8) by auto
  have q: "tasks (sch ?w) = queued_callbacks cs" using assms(4) by simp
  have stays: "run_loop (worker_body run) wk n tid idle a ?w = None" if "running (sch w0)"
    using b(2) q assms(3) fresh that by (intro loop_stays [of root]) (auto simp: stuck_def)
  show ?thesis
    using b(1) stays loop_drains [OF b(2) q assms(3), of a run wk tid] fresh by (intro exI [of _ ?w]) auto
qed

text \<open>Two callbacks that write down their names; the second throws.\<close>

definition fresh_worker :: "(nat, nat list) world" where
  "fresh_worker = \<lparr>thr = \<lparr>t_running_fiber = None, t_root_fiber = None, t_scheduler = None, t_scheduler_fiber = None\<rparr>,
     fib = \<lparr>heap = (\<lambda>_. None), numsCreated = 0, fiber_count = 0\<rparr>,
     sch = three_tasks\<lparr>running := False, tasks := queued_callbacks [7, 9]\<rparr>, outside = []\<rparr>"

theorem worker_runs_and_leaves_witness:
  "\<exists>w w1. worker_begin 8 1 2 5 0 fresh_worker = Inr (True, w)
     \<and> run_loop (worker_body (\<lambda>c k. (c = 9, k @ [c]))) io_weakup 8 5 2 10 w = Some (Inr w1)
     \<and> tasks (sch w1) = [] \<and> outside w1 = [7, 9] \<and> ended (fib w1) 11"
proof -
  have "callerTid (sch fresh_worker) \<noteq> 5" "activeThreadNums (sch fresh_worker) = 0" "\<not> running (sch fresh_worker)"
    by (simp_all add: fresh_worker_def three_tasks_def)
  then show ?thesis
    using worker_runs_and_leaves [of fresh_worker 5 8 "[7, 9]" 1 2 10 0 "\<lambda>c k. (c = 9, k @ [c])" io_weakup]
    by (auto simp: fresh_worker_def dest: spec [of _ 1])
qed

end
