(* ===== verification/Reactor.thy ===== *)
theory Reactor imports IOManager Locks begin

text \<open>
  The idle fiber of an \<open>IOManager\<close> (\<open>easy/base/IOManager.cc\<close>): the wait for events, the array they are
  delivered into, one pass from a resume to the yield behind it, the set-up of the descriptors and the destructor. The
  kernel is a state with a function that answers a wait; what an answer means to the loop is \<open>ready\<close>. The reactor does not change
  while one pass waits: what other threads register or remove meanwhile comes before the pass here, and a report that such a removal has made
  late is covered by the steps of \<open>IOManager\<close>.
\<close>

section \<open>Waiting\<close>

text \<open>
  \<open>events_\<close> is an array of pointers to events allocated one by one; \<open>None\<close> is an event nothing was
  written to. An answer is a number and an errno, and the events if there are any.
\<close>

type_synonym revents = "ready option list"
type_synonym 'k epoll = "nat \<Rightarrow> 'k \<Rightarrow> (int \<times> int) \<times> ready list \<times> 'k"

definition resizeRevent :: "nat \<Rightarrow> revents \<Rightarrow> revents" where
  "resizeRevent sz es = take sz es @ replicate (sz - length es) None"

text \<open>\<open>while (true)\<close> around \<open>epoll_wait\<close>: a timeout and every error wait again.\<close>

partial_function (option) wait_events :: "'k epoll \<Rightarrow> nat \<Rightarrow> 'k \<Rightarrow> (ready list \<times> 'k) option" where
  "wait_events wait maxevents k =
     (case wait maxevents k of ((n, e), evs, k1) \<Rightarrow>
        if 0 < n then Some (take (nat n) evs, k1) else wait_events wait maxevents k1)"

text \<open>
  The kernel writes the events one behind the other from \<open>*events_.begin()\<close> on: only the first is in
  the object that address belongs to.
\<close>

definition store_events :: "ready list \<Rightarrow> revents \<Rightarrow> fault + revents" where
  "store_events evs es =
     (if es = [] then Inl OutOfBounds
      else case evs of
          [] \<Rightarrow> Inr es
        | [r] \<Rightarrow> Inr (es[0 := Some r])
        | _ \<Rightarrow> Inl OutOfBounds)"

text \<open>The loop over the first \<open>n\<close> events.\<close>

definition delivered :: "nat \<Rightarrow> revents \<Rightarrow> fault + ready list" where
  "delivered n es = mapE (\<lambda>x. case x of None \<Rightarrow> Inl OutOfBounds | Some r \<Rightarrow> Inr r) (take n es)"

text \<open>One pass of \<open>idle\<close>: \<open>True\<close> when the loop ended, \<open>False\<close> when it has yielded.\<close>

definition io_idle_pass ::
    "epoll_ctl \<Rightarrow> 'k epoll \<Rightarrow> revents \<Rightarrow> iom \<Rightarrow> 'k \<Rightarrow> (fault + bool \<times> revents \<times> iom \<times> 'k) option" where
  "io_idle_pass ctl wait es m k =
     (if io_canStop m then Some (Inr (True, es, m, k))
      else map_option (\<lambda>(evs, k1).
        bindE (store_events evs es) (\<lambda>es1.
          let es2 = (if length evs = length es1 then resizeRevent (2 * length es1) es1 else es1) in
          bindE (delivered (length evs) es2) (\<lambda>rs.
            bindE (dispatch_all ctl rs m) (\<lambda>m1. Inr (False, es2, m1, k1)))))
        (wait_events wait (length es) k))"

section \<open>Set-up and destruction\<close>

text \<open>
  The constructor's calls in their order, each checked by \<open>EASY_CHECK\<close> but the first: what the kernel does in them is a
  step of its state, \<open>pipe\<close> also writes the two ends.
\<close>

record io_fds =
  epollFd :: int
  weakupFds :: "int \<times> int"

definition and_then :: "(fault + 'w) option \<Rightarrow> 'w locking \<Rightarrow> (fault + 'w) option" where
  "and_then r f = (case r of Some (Inr w) \<Rightarrow> f w | _ \<Rightarrow> r)"

definition on_kernel :: "'k sync_call \<Rightarrow> ('k \<times> io_fds) sync_call" where
  "on_kernel x = (\<lambda>(k, d). map_option (map_sum id (\<lambda>(n, k1). (n, k1, d))) (x k))"

definition open_descriptors ::
    "bool \<Rightarrow> ('k \<Rightarrow> int \<times> 'k) \<Rightarrow> ('k \<times> io_fds) sync_call \<Rightarrow> (int \<Rightarrow> 'k sync_call) \<Rightarrow> (int \<Rightarrow> int \<Rightarrow> 'k sync_call) \<Rightarrow>
     int \<Rightarrow> 'k \<Rightarrow> (fault + 'k \<times> io_fds) option" where
  "open_descriptors nd create pipe fcntl ctl tfd k =
     (let (ep, k1) = create k in
      if ep \<le> 0 then Some (Inl AssertFail)
      else and_then (and_then (and_then (and_then
        (EASY_CHECK nd pipe (k1, \<lparr>epollFd = ep, weakupFds = (0, 0)\<rparr>))
        (\<lambda>w. EASY_CHECK nd (on_kernel (fcntl (fst (weakupFds (snd w))))) w))
        (\<lambda>w. EASY_CHECK nd (on_kernel (ctl ep (fst (weakupFds (snd w))))) w))
        (EASY_CHECK nd (on_kernel (fcntl tfd))))
        (EASY_CHECK nd (on_kernel (ctl ep tfd))))"

definition start_IOManager ::
    "(nat \<Rightarrow> callback sched) \<Rightarrow> nat \<Rightarrow> tmgr \<Rightarrow> int list \<Rightarrow> fault + revents \<times> iom" where
  "start_IOManager ss me t ids =
     bindE (start ids (ss me)) (\<lambda>s. Inr (resizeRevent 32 [], new_IOManager (ss(me := s)) me t))"

text \<open>After \<open>stop\<close> the destructor closes its three descriptors, with which all registrations go, and frees the arrays.\<close>

definition destroy_IOManager :: "io_fds \<Rightarrow> iom \<Rightarrow> int list \<times> revents \<times> iom" where
  "destroy_IOManager d m =
     ([epollFd d, fst (weakupFds d), snd (weakupFds d)], [], m\<lparr>channels := [], registered := (\<lambda>_. 0)\<rparr>)"

section \<open>What a wait gives\<close>

text \<open>The first answer with events, after any number of timeouts and errors.\<close>

inductive first_events :: "'k epoll \<Rightarrow> nat \<Rightarrow> 'k \<Rightarrow> ready list \<Rightarrow> 'k \<Rightarrow> bool" for wait mx where
  fe_now: "wait mx k = ((n, e), evs, k1) \<Longrightarrow> 0 < n \<Longrightarrow> first_events wait mx k (take (nat n) evs) k1"
| fe_later: "wait mx k = ((n, e), evs, k1) \<Longrightarrow> \<not> 0 < n \<Longrightarrow> first_events wait mx k1 rs k2
    \<Longrightarrow> first_events wait mx k rs k2"

lemma wait_events_first: "first_events wait mx k rs k1 \<Longrightarrow> wait_events wait mx k = Some (rs, k1)"
  by (induction rule: first_events.induct) (simp_all add: wait_events.simps)

lemma first_events_wait:
  assumes "wait_events wait mx k = Some y"
  shows "first_events wait mx k (fst y) (snd y)"
proof (rule wait_events.raw_induct [where P = "\<lambda>wait mx k y. first_events wait mx k (fst y) (snd y)", OF _ assms])
  fix loop wait mx y and k :: 'a
  assume IH: "\<And>wait mx (k :: 'a) y. loop wait mx k = Some y \<Longrightarrow> first_events wait mx k (fst y) (snd y)"
    and step: "(case wait mx k of ((n, e), evs, k1) \<Rightarrow> if 0 < n then Some (take (nat n) evs, k1) else loop wait mx k1) = Some y"
  obtain n e evs k1 where w: "wait mx k = ((n, e), evs, k1)" by (metis prod.exhaust)
  show "first_events wait mx k (fst y) (snd y)"
  proof (cases "0 < n")
    case True
    have "first_events wait mx k (take (nat n) evs) k1" by (rule fe_now) (rule w, rule True)
    moreover have "y = (take (nat n) evs, k1)" using step w True by simp
    ultimately show ?thesis by simp
  next
    case False
    then have "first_events wait mx k1 (fst y) (snd y)" using IH [of wait mx k1 y] step w by simp
    with w False show ?thesis by (rule fe_later)
  qed
qed

lemma wait_events_iff: "wait_events wait mx k = Some (rs, k1) \<longleftrightarrow> first_events wait mx k rs k1"
  using wait_events_first [of wait mx k rs k1] first_events_wait [of wait mx k "(rs, k1)"] by auto

text \<open>The events of one pass, by their number.\<close>

lemma pass_eq:
  assumes "\<not> io_canStop m" and "es \<noteq> []" and "first_events wait (length es) k rs k1"
  shows "io_idle_pass ctl wait es m k = Some
    (case rs of
       [] \<Rightarrow> Inr (False, es, m, k1)
     | [r] \<Rightarrow> bindE (dispatch_all ctl [r] m) (\<lambda>m1.
         Inr (False, if length es = 1 then [Some r, None] else es[0 := Some r], m1, k1))
     | _ \<Rightarrow> Inl OutOfBounds)"
proof -
  have w: "wait_events wait (length es) k = Some (rs, k1)" using wait_events_first [OF assms(3)] .
  obtain x xs where es: "es = x # xs" using assms(2) by (cases es) auto
  show ?thesis
  proof (cases rs rule: remdups_adj.cases)
    case 1
    then show ?thesis using assms(1) w es by (simp add: io_idle_pass_def store_events_def delivered_def)
  next
    case (2 r)
    then show ?thesis
      using assms(1) w es
      by (cases xs) (simp_all add: io_idle_pass_def store_events_def delivered_def resizeRevent_def Let_def numeral_2_eq_2)
  next
    case (3 r r1 rs1)
    then show ?thesis using assms(1) w es by (simp add: io_idle_pass_def store_events_def)
  qed
qed

section \<open>Properties\<close>

text \<open>
  C20. A pass of the idle loop: it ends the loop exactly when the reactor can stop; otherwise it waits through timeouts
  and errors of every kind for events, and without any it does not return, whether the
  reactor can stop in the meantime or not. One event is dispatched and the fiber yields, with the array doubled when
  the event filled it. More than one is written over the end of the first event's memory.
\<close>

theorem idle_pass_waits:
  assumes "es \<noteq> []"
  shows "(io_canStop m \<longrightarrow> io_idle_pass ctl wait es m k = Some (Inr (True, es, m, k)))
    \<and> (\<not> io_canStop m \<longrightarrow>
        (io_idle_pass ctl wait es m k = None \<longleftrightarrow> (\<nexists>rs k1. first_events wait (length es) k rs k1))
      \<and> (\<forall>r k1. first_events wait (length es) k [r] k1 \<longrightarrow>
           (\<exists>es1. io_idle_pass ctl wait es m k = Some (bindE (dispatch_all ctl [r] m) (\<lambda>m1. Inr (False, es1, m1, k1)))
             \<and> length es1 = (if length es = 1 then 2 else length es)))
      \<and> (\<forall>r1 r2 rs k1. first_events wait (length es) k (r1 # r2 # rs) k1 \<longrightarrow>
           io_idle_pass ctl wait es m k = Some (Inl OutOfBounds)))"
proof -
  have none: "io_idle_pass ctl wait es m k = None \<longleftrightarrow> (\<nexists>rs k1. first_events wait (length es) k rs k1)" if "\<not> io_canStop m"
  proof -
    have "io_idle_pass ctl wait es m k = None \<longleftrightarrow> wait_events wait (length es) k = None"
      using that by (simp add: io_idle_pass_def)
    also have "\<dots> \<longleftrightarrow> (\<nexists>rs k1. first_events wait (length es) k rs k1)"
      using wait_events_iff [of wait "length es" k] by (cases "wait_events wait (length es) k") auto
    finally show ?thesis .
  qed
  have one: "\<exists>es1. io_idle_pass ctl wait es m k = Some (bindE (dispatch_all ctl [r] m) (\<lambda>m1. Inr (False, es1, m1, k1)))
      \<and> length es1 = (if length es = 1 then 2 else length es)"
    if "\<not> io_canStop m" "first_events wait (length es) k [r] k1" for r k1
    using pass_eq [OF that(1) assms that(2), of ctl]
    by (intro exI [of _ "if length es = 1 then [Some r, None] else es[0 := Some r]"]) simp
  have more: "io_idle_pass ctl wait es m k = Some (Inl OutOfBounds)"
    if "\<not> io_canStop m" "first_events wait (length es) k (r1 # r2 # rs) k1" for r1 r2 rs k1
    using pass_eq [OF that(1) assms that(2), of ctl] by simp
  show ?thesis using none one more by (auto simp: io_idle_pass_def)
qed

text \<open>A kernel that times out once, fails once and then reports the wake-up pipe.\<close>

definition late_wakeup :: "nat epoll" where
  "late_wakeup mx k = (if k = 0 then ((0, 0), [], 1) else if k = 1 then ((-1, 9), [], 2) else ((1, 0), [ReadyWeakup], 3))"

theorem idle_pass_waits_witness:
  "\<exists>es1. io_idle_pass linux_ctl late_wakeup (resizeRevent 32 []) example_iom 0
     = Some (Inr (False, es1, dispatch_weakup example_iom, 3)) \<and> length es1 = 32"
proof -
  have e: "resizeRevent 32 [] \<noteq> []" "length (resizeRevent 32 []) = 32" by (simp_all add: resizeRevent_def)
  have "\<not> io_canStop example_iom"
    by (simp add: io_canStop_def canStop_def example_iom_def new_IOManager_def idle_sched_def)
  moreover have "first_events late_wakeup 32 2 (take (nat 1) [ReadyWeakup]) 3"
    by (rule fe_now [where e = 0]) (simp_all add: late_wakeup_def)
  then have "first_events late_wakeup 32 1 [ReadyWeakup] 3"
    by (intro fe_later [of late_wakeup 32 1 "-1" 9 "[]" 2]) (simp_all add: late_wakeup_def)
  from this have "first_events late_wakeup 32 0 [ReadyWeakup] 3"
    by (intro fe_later [of late_wakeup 32 0 0 0 "[]" 1]) (simp_all add: late_wakeup_def)
  then have "first_events late_wakeup (length (resizeRevent 32 [])) 0 [ReadyWeakup] 3" unfolding e(2) .
  ultimately have "\<exists>es1. io_idle_pass linux_ctl late_wakeup (resizeRevent 32 []) example_iom 0
        = Some (bindE (dispatch_all linux_ctl [ReadyWeakup] example_iom) (\<lambda>m1. Inr (False, es1, m1, 3)))
      \<and> length es1 = (if length (resizeRevent 32 []) = 1 then 2 else length (resizeRevent 32 []))"
    using idle_pass_waits [OF e(1), of example_iom linux_ctl late_wakeup 0] by blast
  then show ?thesis using e(2) by simp
qed

end
