(* ===== verification/ByteStream.thy ===== *)
theory ByteStream imports Endian begin

text \<open>
  The interfaces between the buffer and the codecs that sit on it. \<open>byte_source\<close> is what a
  decoder needs: reading \<open>n\<close> bytes returns the next \<open>n\<close> bytes. \<open>byte_cursor\<close> adds what a
  round trip needs: a write overwrites at the cursor, and the cursor can be put back.
  The codec operations are written over the interface's read operation, as the source's
  macro \<open>XX\<close> and its varint loops are written over \<open>read\<close>; their laws are proved here once.
\<close>

section \<open>Decoders and encoders\<close>

text \<open>\<open>readFint8\<close>, \<open>readFuint8\<close>: one byte, whatever the byte order.\<close>

definition get_byte :: "('s \<Rightarrow> nat \<Rightarrow> fault + u8 list \<times> 's) \<Rightarrow> 's \<Rightarrow> fault + u8 \<times> 's" where
  "get_byte rd s = bindE (rd s 1) (\<lambda>(bs, s'). Inr (of_object EASY_LITTLE_ENDIAN bs, s'))"

text \<open>
  The macro \<open>XX(type)\<close>: read \<open>sizeof(v)\<close> bytes into \<open>v\<close>, then swap when the stream's byte
  order is not the host's. The result type gives the width.
\<close>

definition get_fixed ::
    "('s \<Rightarrow> nat \<Rightarrow> fault + u8 list \<times> 's) \<Rightarrow> byte_order \<Rightarrow> byte_order \<Rightarrow> 's \<Rightarrow> fault + 'a::len word \<times> 's" where
  "get_fixed rd host order s =
     bindE (rd s (size_of (0 :: 'a word))) (\<lambda>(bs, s').
       let v = of_object host bs in Inr (if order = host then v else byteswap v, s'))"

text \<open>What \<open>writeFint16\<close> and its kin put into memory: swap, then the object's bytes.\<close>

definition put_fixed :: "byte_order \<Rightarrow> byte_order \<Rightarrow> 'a::len word \<Rightarrow> u8 list" where
  "put_fixed host order value =
     object_bytes host (if order \<noteq> host then byteswap value else value)"

text \<open>
  The bytes \<open>writeUint32\<close> and \<open>writeUint64\<close> collect in \<open>tmp\<close>: seven bits each, least
  significant first, the top bit set on all but the last.
\<close>

lemma unat_drop7: "unat (drop_bit 7 v) = unat v div 128" for v :: "'a::len word"
  unfolding unat_drop_bit_eq by (simp add: drop_bit_eq_div)

function put_varint :: "'a::len word \<Rightarrow> u8 list" where
  "put_varint value =
     (if unat value < 0x80 then [ucast value]
      else (ucast (value AND 0x7F) OR 0x80) # put_varint (drop_bit 7 value))"
  by pat_completeness auto
termination
proof (relation "measure unat")
  fix v :: "'a word"
  assume "\<not> unat v < 0x80"
  then show "(drop_bit 7 v, v) \<in> measure unat" by (simp add: unat_drop7)
qed simp

declare put_varint.simps [simp del]

text \<open>The loops of \<open>readUint32\<close> and \<open>readUint64\<close>, from bit \<open>i\<close> on.\<close>

function get_varint ::
    "('s \<Rightarrow> nat \<Rightarrow> fault + u8 list \<times> 's) \<Rightarrow> nat \<Rightarrow> 'a::len word \<Rightarrow> 's \<Rightarrow> fault + 'a word \<times> 's" where
  "get_varint rd i result s =
     (if i < LENGTH('a)
      then bindE (get_byte rd s) (\<lambda>(b, s').
        if b < 0x80 then Inr (result OR push_bit i (ucast b), s')
        else get_varint rd (i + 7) (result OR push_bit i (ucast (b AND 0x7F))) s')
      else Inr (result, s))"
  by pat_completeness auto
termination
  by (relation "measure (\<lambda>(rd, i, result, s). size result - i)") (auto simp: word_size)

declare get_varint.simps [simp del]

text \<open>
  \<open>EncodeZigzag32/64\<close> and \<open>DecodeZigzag32/64\<close>. A signed argument is its two's complement
  word; \<open>-v\<close> and \<open>v * 2\<close> are the wrapping machine operations.
\<close>

definition EncodeZigzag :: "'a::len word \<Rightarrow> 'a word" where
  "EncodeZigzag v = (if sint v < 0 then (- v) * 2 - 1 else v * 2)"

definition DecodeZigzag :: "'a::len word \<Rightarrow> 'a word" where
  "DecodeZigzag v = drop_bit 1 v XOR (- (v AND 1))"

section \<open>Varint bytes\<close>

lemma put_varint_last: "unat v < 0x80 \<Longrightarrow> put_varint v = [ucast v]"
  by (simp add: put_varint.simps)

lemma put_varint_more:
  "\<not> unat v < 0x80 \<Longrightarrow>
   put_varint v = (ucast (v AND 0x7F) OR 0x80) # put_varint (drop_bit 7 v)"
  by (subst put_varint.simps) simp

lemma put_varint_nonempty [simp]: "put_varint v \<noteq> []"
  by (cases "unat v < 0x80") (simp_all add: put_varint_last put_varint_more)

text \<open>\<open>n\<close> bytes are enough for every value below \<open>2 ^ (7 * n)\<close>.\<close>

lemma put_varint_length:
  "unat v < 2 ^ (7 * Suc n) \<Longrightarrow> length (put_varint v) \<le> Suc n"
proof (induction n arbitrary: v)
  case 0
  then show ?case by (simp add: put_varint_last)
next
  case (Suc n)
  show ?case
  proof (cases "unat v < 0x80")
    case True
    then show ?thesis by (simp add: put_varint_last)
  next
    case False
    have "unat (drop_bit 7 v) < 2 ^ (7 * Suc n)"
      using Suc.prems by (simp add: unat_drop7 less_mult_imp_div_less power_add)
    then show ?thesis using Suc.IH False by (simp add: put_varint_more)
  qed
qed

lemma more_byte: "\<not> (b OR 0x80 < (0x80 :: u8))"
  using le_word_or1 [of "0x80 :: u8" b] by (simp add: or.commute not_less)

lemma more_byte_low: "(b OR 0x80) AND 0x7F = (b AND 0x7F :: u8)"
  by (simp add: bit.conj_disj_distrib2)

lemma seven_bits: "(0x7F :: 'a::len word) = mask 7" by (simp add: mask_numeral)

lemma ucast_low: "ucast (ucast (v AND 0x7F) AND 0x7F :: u8) = v AND (0x7F :: 'a::len word)"
  unfolding seven_bits by (rule bit_word_eqI) (auto simp: bit_simps)

lemma unat_ucast_low: "unat v < 0x80 \<Longrightarrow> unat (ucast v :: u8) = unat v" for v :: "'a::len word"
  by (rule trans [OF unsigned_ucast_eq]) (rule take_bit_nat_eq_self, simp)

lemma ucast_last: "unat v < 0x80 \<Longrightarrow> ucast (ucast v :: u8) = (v :: 'a::len word)"
proof -
  assume "unat v < 0x80"
  then have "take_bit 7 v = v"
    unfolding word_unat_eq_iff unsigned_take_bit_eq by (intro take_bit_nat_eq_self) simp
  moreover have "ucast (ucast (take_bit 7 v) :: u8) = take_bit 7 v"
    by (rule bit_word_eqI) (auto simp: bit_simps)
  ultimately show ?thesis by simp
qed

lemma split_shift:
  "push_bit i v = push_bit i (v AND 0x7F) OR push_bit (i + 7) (drop_bit 7 v)" for v :: "'a::len word"
proof (rule bit_word_eqI)
  fix n assume "n < LENGTH('a)"
  moreover have "7 + (n - (i + 7)) = n - i" if "i + 7 \<le> n" using that by simp
  ultimately show "bit (push_bit i v) n = bit (push_bit i (v AND 0x7F) OR push_bit (i + 7) (drop_bit 7 v)) n"
    unfolding seven_bits by (cases "i + 7 \<le> n") (auto simp: bit_simps)
qed

section \<open>Zigzag\<close>

lemma uint_of_int_small:
  "0 \<le> k \<Longrightarrow> k < 2 ^ LENGTH('a) \<Longrightarrow> uint (of_int k :: 'a::len word) = k"
  by (simp add: uint_word_of_int_eq take_bit_int_eq_self)

lemma EncodeZigzag_neg:
  fixes v :: "'a::len word"
  assumes "sint v < 0"
  shows "uint (EncodeZigzag v) = 2 * (- sint v) - 1"
proof -
  have ge: "- (2 ^ (LENGTH('a) - 1)) \<le> sint v" by (rule sint_ge)
  have L: "(2::int) ^ LENGTH('a) = 2 * 2 ^ (LENGTH('a) - 1)"
    by (metis len_gt_0 power_Suc Suc_diff_1)
  have "EncodeZigzag v = of_int (2 * (- sint v) - 1)"
    using assms by (simp add: EncodeZigzag_def)
  then show ?thesis using assms ge L by (simp only: uint_of_int_small)
qed

lemma EncodeZigzag_nonneg:
  fixes v :: "'a::len word"
  assumes "0 \<le> sint v"
  shows "uint (EncodeZigzag v) = 2 * sint v"
proof -
  have lt: "sint v < 2 ^ (LENGTH('a) - 1)" by (rule sint_lt)
  have L: "(2::int) ^ LENGTH('a) = 2 * 2 ^ (LENGTH('a) - 1)"
    by (metis len_gt_0 power_Suc Suc_diff_1)
  have "EncodeZigzag v = of_int (2 * sint v)"
    using assms by (simp add: EncodeZigzag_def)
  then show ?thesis using assms lt L by (simp only: uint_of_int_small)
qed

lemma uint_half: "uint (drop_bit 1 w) = uint w div 2" for w :: "'a::len word"
  unfolding unsigned_drop_bit_eq by (simp add: drop_bit_eq_div take_bit_int_eq_self)

lemma low_bit: "w AND 1 = (if odd (uint w) then 1 else 0)" for w :: "'a::len word"
  by (simp add: and_one_eq mod_2_eq_odd bit_unsigned_iff flip: bit_0)

lemma DecodeZigzag_odd:
  fixes w :: "'a::len word"
  assumes "uint w = 2 * n - 1"
  shows "DecodeZigzag w = of_int (- n)"
proof -
  have "w AND 1 = 1" using assms by (simp add: low_bit)
  moreover have "drop_bit 1 w = of_int (n - 1)"
  proof -
    have "uint (drop_bit 1 w) = n - 1" unfolding uint_half assms by simp
    then show ?thesis by (metis word_of_int_uint)
  qed
  ultimately show ?thesis by (simp add: DecodeZigzag_def not_eq_complement)
qed

lemma DecodeZigzag_even:
  fixes w :: "'a::len word"
  assumes "uint w = 2 * n"
  shows "DecodeZigzag w = of_int n"
proof -
  have "w AND 1 = 0" using assms by (simp add: low_bit)
  moreover have "drop_bit 1 w = of_int n"
  proof -
    have "uint (drop_bit 1 w) = n" unfolding uint_half assms by simp
    then show ?thesis by (metis word_of_int_uint)
  qed
  ultimately show ?thesis by (simp add: DecodeZigzag_def)
qed

lemma Decode_EncodeZigzag [codec]: "DecodeZigzag (EncodeZigzag v) = v"
proof (cases "sint v < 0")
  case True
  then have "DecodeZigzag (EncodeZigzag v) = of_int (- (- sint v))"
    using EncodeZigzag_neg by (intro DecodeZigzag_odd) blast
  then show ?thesis by simp
next
  case False
  then have "DecodeZigzag (EncodeZigzag v) = of_int (sint v)"
    by (intro DecodeZigzag_even EncodeZigzag_nonneg) simp
  then show ?thesis by simp
qed

text \<open>Small magnitudes get small codes: the point of the encoding.\<close>

lemma EncodeZigzag_size: "uint (EncodeZigzag v) \<le> 2 * \<bar>sint v\<bar>"
  by (cases "sint v < 0") (simp_all add: EncodeZigzag_neg EncodeZigzag_nonneg)

section \<open>The reading interface\<close>

locale byte_source =
  fixes inv :: "'s \<Rightarrow> bool"
    and rest :: "'s \<Rightarrow> u8 list"
    and rd :: "'s \<Rightarrow> nat \<Rightarrow> fault + u8 list \<times> 's"
  assumes rd_exact: "inv s \<Longrightarrow> rest s = xs @ ys \<Longrightarrow> xs \<noteq> [] \<Longrightarrow>
      \<exists>s'. rd s (length xs) = Inr (xs, s') \<and> inv s' \<and> rest s' = ys"
    and rd_short: "inv s \<Longrightarrow> length (rest s) < n \<Longrightarrow> rd s n = Inl OutOfRange"
begin

lemma get_byte_exact:
  assumes "inv s" and "rest s = b # ys"
  obtains s' where "get_byte rd s = Inr (b, s')" and "inv s'" and "rest s' = ys"
  using rd_exact [OF assms(1), of "[b]" ys] assms(2)
  by (auto simp: get_byte_def of_object_def)

lemma get_byte_empty: "inv s \<Longrightarrow> rest s = [] \<Longrightarrow> get_byte rd s = Inl OutOfRange"
  using rd_short [of s 1] by (simp add: get_byte_def)

text \<open>A fixed-width value written in byte order \<open>order\<close> on any host is read back on any host.\<close>

lemma get_fixed_exact:
  fixes w :: "'a::len word"
  assumes "inv s" and "whole_bytes w" and "rest s = object_bytes order w @ ys"
  obtains s' where "get_fixed rd host order s = Inr (w, s')" and "inv s'" and "rest s' = ys"
proof -
  have "0 < size_of w" using dvd_imp_le [OF assms(2)] by (simp add: size_of_def div_greater_zero_iff)
  then have "object_bytes order w \<noteq> []" by (metis length_object_bytes less_numeral_extra(3) list.size(3))
  then obtain s' where s': "rd s (size_of w) = Inr (object_bytes order w, s')" "inv s'" "rest s' = ys"
    using rd_exact [OF assms(1,3)] by auto
  have "size_of (0 :: 'a word) = size_of w" by (simp add: size_of_def)
  then show ?thesis
    using s' of_object_swapped [OF assms(2), of host order]
    by (intro that [of s']) (simp_all add: get_fixed_def Let_def)
qed

text \<open>
  The varint loop entered at bit \<open>i\<close> adds the value shifted to that place, consuming exactly
  the bytes of its encoding.
\<close>

lemma get_varint_exact:
  fixes v :: "'a::len word"
  assumes "inv s" and "rest s = put_varint v @ ys"
    and "i < LENGTH('a)" and "unat v < 2 ^ (LENGTH('a) - i)"
  shows "\<exists>s'. get_varint rd i r s = Inr (r OR push_bit i v, s') \<and> inv s' \<and> rest s' = ys"
  using assms
proof (induction v arbitrary: i r s rule: put_varint.induct)
  case (1 v)
  show ?case
  proof (cases "unat v < 0x80")
    case True
    have "ucast v < (0x80 :: u8)"
      using True by (simp add: word_less_nat_alt unat_ucast_low)
    moreover obtain s' where "get_byte rd s = Inr (ucast v, s')" "inv s'" "rest s' = ys"
      using get_byte_exact [OF 1(2), of "ucast v" ys] 1(3) True by (auto simp: put_varint_last)
    ultimately show ?thesis
      using 1(4) ucast_last [OF True] by (subst get_varint.simps) auto
  next
    case False
    define b :: u8 where "b = ucast (v AND 0x7F) OR 0x80"
    obtain s' where s': "get_byte rd s = Inr (b, s')" "inv s'"
        "rest s' = put_varint (drop_bit 7 v) @ ys"
      using get_byte_exact [OF 1(2), of b] 1(3) False by (auto simp: put_varint_more b_def)
    have "(2::nat) ^ 7 < 2 ^ (LENGTH('a) - i)" using False 1(5) by simp
    then have "7 < LENGTH('a) - i" by (rule power_less_imp_less_exp [rotated]) simp
    then have i: "i + 7 < LENGTH('a)" by simp
    have "unat (drop_bit 7 v) < 2 ^ (LENGTH('a) - (i + 7))"
      unfolding unat_drop7
    proof (rule less_mult_imp_div_less)
      have "2 ^ (LENGTH('a) - i) = (2 :: nat) ^ (LENGTH('a) - (i + 7)) * 2 ^ 7"
        unfolding power_add [symmetric] using i by simp
      then show "unat v < 2 ^ (LENGTH('a) - (i + 7)) * 128" using 1(5) by simp
    qed
    from 1(1) [OF False s'(2,3) i this, of "r OR push_bit i (ucast (b AND 0x7F))"]
    obtain s'' where "get_varint rd (i + 7) (r OR push_bit i (ucast (b AND 0x7F))) s'
        = Inr ((r OR push_bit i (ucast (b AND 0x7F))) OR push_bit (i + 7) (drop_bit 7 v), s'')"
        "inv s''" "rest s'' = ys" by blast
    moreover have "ucast (b AND 0x7F) = v AND 0x7F"
      unfolding b_def more_byte_low by (rule ucast_low)
    moreover have "\<not> b < 0x80" unfolding b_def by (rule more_byte)
    ultimately show ?thesis
      unfolding split_shift [of i v] get_varint.simps [of rd i r s] using 1(4) s'(1)
      by (simp only: or.assoc bindE_simps prod.case if_True if_False) blast
  qed
qed

end

section \<open>The read-write interface\<close>

text \<open>
  \<open>data\<close> is what is stored, \<open>pos\<close> the cursor, \<open>room\<close> how much one write takes in full.
\<close>

locale byte_cursor = byte_source inv rest rd
  for inv :: "'s \<Rightarrow> bool" and rest :: "'s \<Rightarrow> u8 list"
    and rd :: "'s \<Rightarrow> nat \<Rightarrow> fault + u8 list \<times> 's" +
  fixes data :: "'s \<Rightarrow> u8 list"
    and pos :: "'s \<Rightarrow> nat"
    and room :: "'s \<Rightarrow> nat"
    and order :: "'s \<Rightarrow> byte_order"
    and wr :: "'s \<Rightarrow> u8 list \<Rightarrow> fault + 's"
    and goto :: "'s \<Rightarrow> nat \<Rightarrow> fault + 's"
  assumes rest_data: "inv s \<Longrightarrow> rest s = drop (pos s) (data s)"
    and pos_data: "inv s \<Longrightarrow> pos s \<le> length (data s)"
    and wr_exact: "inv s \<Longrightarrow> bs \<noteq> [] \<Longrightarrow> length bs \<le> room s \<Longrightarrow>
      \<exists>s'. wr s bs = Inr s' \<and> inv s' \<and> data s' = overwrite (pos s) bs (data s)
        \<and> pos s' = pos s + length bs \<and> order s' = order s"
    and wr_room: "inv s \<Longrightarrow> bs \<noteq> [] \<Longrightarrow> length bs < room s \<Longrightarrow> wr s bs = Inr s' \<Longrightarrow>
      room s' = room s - length bs"
    and goto_exact: "inv s \<Longrightarrow> p \<le> length (data s) \<Longrightarrow>
      \<exists>s'. goto s p = Inr s' \<and> inv s' \<and> data s' = data s \<and> pos s' = p \<and> order s' = order s"
begin

text \<open>Write one block, put the cursor back: the block is what comes next.\<close>

lemma write_back:
  assumes "inv s" and "bs \<noteq> []" and "length bs \<le> room s"
  obtains s' s'' ys where "wr s bs = Inr s'" and "goto s' (pos s) = Inr s''" and "inv s''"
    and "rest s'' = bs @ ys" and "rest s' = ys" and "order s'' = order s"
proof -
  obtain s' where s': "wr s bs = Inr s'" "inv s'" "data s' = overwrite (pos s) bs (data s)"
      "pos s' = pos s + length bs" "order s' = order s"
    using wr_exact [OF assms] by blast
  have "pos s \<le> length (data s')" using pos_data [OF s'(2)] s'(4) by simp
  then obtain s'' where s'': "goto s' (pos s) = Inr s''" "inv s''" "data s'' = data s'"
      "pos s'' = pos s" "order s'' = order s'"
    using goto_exact [OF s'(2)] by blast
  have "rest s'' = bs @ drop (pos s + length bs) (data s)"
    using rest_data [OF s''(2)] s'' s'(3) pos_data [OF assms(1)] by (simp add: drop_overwrite)
  moreover have "rest s' = drop (pos s + length bs) (data s)"
    using rest_data [OF s'(2)] s'(3,4) pos_data [OF assms(1)] by (simp add: drop_overwrite_end)
  ultimately show ?thesis using that s' s'' by simp
qed

text \<open>The same for two blocks written one after the other, as a length and its string are.\<close>

lemma write2_back:
  assumes "inv s" and "bs \<noteq> []" and "cs \<noteq> []" and "length bs + length cs \<le> room s"
  obtains s1 s2 s3 ys where "wr s bs = Inr s1" and "wr s1 cs = Inr s2"
    and "goto s2 (pos s) = Inr s3" and "inv s3" and "rest s3 = bs @ cs @ ys" and "rest s2 = ys"
    and "order s1 = order s" and "order s3 = order s"
proof -
  have lt: "length bs < room s" using assms(3,4) by (cases cs) auto
  obtain s1 where s1: "wr s bs = Inr s1" "inv s1" "data s1 = overwrite (pos s) bs (data s)"
      "pos s1 = pos s + length bs" "order s1 = order s"
    using wr_exact [OF assms(1,2)] lt by auto
  have "length cs \<le> room s1" using wr_room [OF assms(1,2) lt s1(1)] assms(4) by simp
  then obtain s2 where s2: "wr s1 cs = Inr s2" "inv s2" "data s2 = overwrite (pos s1) cs (data s1)"
      "pos s2 = pos s1 + length cs" "order s2 = order s1"
    using wr_exact [OF s1(2) assms(3)] by auto
  have "pos s \<le> length (data s2)" using pos_data [OF s2(2)] s2(4) s1(4) by simp
  then obtain s3 where s3: "goto s2 (pos s) = Inr s3" "inv s3" "data s3 = data s2"
      "pos s3 = pos s" "order s3 = order s2"
    using goto_exact [OF s2(2)] by blast
  have d2: "data s2 = overwrite (pos s) (bs @ cs) (data s)"
    using s1(3,4) s2(3) pos_data [OF assms(1)] by (simp add: overwrite_overwrite)
  have "rest s3 = (bs @ cs) @ drop (pos s + length (bs @ cs)) (data s)"
    using rest_data [OF s3(2)] s3 d2 pos_data [OF assms(1)] by (simp add: drop_overwrite)
  moreover have "rest s2 = drop (pos s + length (bs @ cs)) (data s)"
    using rest_data [OF s2(2)] s2(4) s1(4) d2 pos_data [OF assms(1)]
      drop_overwrite_end [of "pos s" "data s" "bs @ cs"] by (simp add: add.assoc)
  ultimately show ?thesis using that s1 s2 s3 by simp
qed

end

end
