(* ===== verification/Buffer.thy ===== *)
theory Buffer imports ByteStream begin

text \<open>
  \<open>easy/net/Buffer.h\<close>, \<open>easy/net/Buffer.cc\<close>: the chunked byte buffer. This theory holds the
  state, the constructors and the operations that move bytes: \<open>addCapacity\<close>, \<open>write\<close>,
  the two \<open>read\<close>s, \<open>setPosition\<close>, \<open>clear\<close>. The invariant \<open>buf_ok\<close> ties the node
  pointer \<open>cur_\<close> to \<open>position_\<close>; the abstract view is a byte list with a cursor, and each
  operation is shown to implement the corresponding step on it.
\<close>

section \<open>State\<close>

text \<open>
  The singly linked list of \<open>Node\<close>s hanging off \<open>root_\<close> is the list \<open>nodes\<close>; a node is
  its memory, so \<open>size_\<close> of a node is the length. \<open>cur_\<close> is a pointer to one of the nodes,
  given by its index, or null.
\<close>

record buffer =
  baseSize :: nat
  position :: nat
  capacity :: nat
  bufSize :: nat
  endian :: byte_order
  owner :: bool
  nodes :: "u8 list list"
  cur :: "nat option"

text \<open>
  \<open>new char[s]\<close> leaves the memory uninitialised: its content is the argument \<open>heap\<close>, a
  function of the node's number and the offset, about which nothing is assumed.
\<close>

type_synonym uninit = "nat \<Rightarrow> nat \<Rightarrow> u8"

definition Node :: "uninit \<Rightarrow> nat \<Rightarrow> nat \<Rightarrow> u8 list" where
  "Node heap k s = map (heap k) [0..<s]"

definition new_Buffer :: "uninit \<Rightarrow> nat \<Rightarrow> buffer" where
  "new_Buffer heap base_size =
     \<lparr>baseSize = base_size, position = 0, capacity = base_size, bufSize = 0,
      endian = EASY_BIG_ENDIAN, owner = True, nodes = [Node heap 0 base_size], cur = Some 0\<rparr>"

definition wrap_Buffer :: "u8 list \<Rightarrow> bool \<Rightarrow> buffer" where
  "wrap_Buffer data own =
     \<lparr>baseSize = length data, position = 0, capacity = length data, bufSize = length data,
      endian = EASY_BIG_ENDIAN, owner = own, nodes = [data], cur = Some 0\<rparr>"

definition isLittleEndian :: "buffer \<Rightarrow> bool" where
  "isLittleEndian b \<longleftrightarrow> endian b = EASY_LITTLE_ENDIAN"

definition setIsLittleEndian :: "buffer \<Rightarrow> bool \<Rightarrow> buffer" where
  "setIsLittleEndian b val =
     (if val then b\<lparr>endian := EASY_LITTLE_ENDIAN\<rparr> else b\<lparr>endian := EASY_BIG_ENDIAN\<rparr>)"

definition readSize :: "buffer \<Rightarrow> nat" where
  "readSize b = sub64 (bufSize b) (position b)"

definition getCapacity :: "buffer \<Rightarrow> nat" where
  "getCapacity b = sub64 (capacity b) (position b)"

section \<open>Following the node list\<close>

text \<open>\<open>cur_->size_\<close>, \<open>cur_->ptr_\<close>: a fault when \<open>cur_\<close> is null.\<close>

definition deref :: "u8 list list \<Rightarrow> nat option \<Rightarrow> fault + nat \<times> u8 list" where
  "deref ns c = (case c of None \<Rightarrow> Inl NullDeref
     | Some i \<Rightarrow> if i < length ns then Inr (i, ns ! i) else Inl NullDeref)"

text \<open>\<open>next_\<close> of the node number \<open>i\<close>; null for the last one.\<close>

definition next_ptr :: "u8 list list \<Rightarrow> nat \<Rightarrow> nat option" where
  "next_ptr ns i = (if Suc i < length ns then Some (Suc i) else None)"

lemma deref_eq_Inr [faults]:
  "deref ns c = Inr x \<longleftrightarrow> (\<exists>i < length ns. c = Some i \<and> x = (i, ns ! i))"
  by (auto simp: deref_def split: option.splits if_splits)

lemma deref_Some [simp]: "i < length ns \<Longrightarrow> deref ns (Some i) = Inr (i, ns ! i)"
  by (simp add: deref_def)

lemma deref_None [simp]: "deref ns None = Inl NullDeref"
  by (simp add: deref_def)

text \<open>What is left to visit: the measure of every loop that follows \<open>next_\<close>.\<close>

definition ahead :: "u8 list list \<Rightarrow> nat option \<Rightarrow> nat" where
  "ahead ns c = (case c of None \<Rightarrow> 0 | Some i \<Rightarrow> Suc (length ns) - i)"

lemma ahead_next: "deref ns c = Inr (i, nd) \<Longrightarrow> ahead ns (next_ptr ns i) < ahead ns c"
  by (auto simp: ahead_def next_ptr_def faults)

section \<open>Growing\<close>

text \<open>The \<open>for\<close> loop that links \<open>count\<close> new nodes behind the last one.\<close>

fun link_nodes :: "uninit \<Rightarrow> nat \<Rightarrow> nat \<Rightarrow> u8 list list \<Rightarrow> u8 list list" where
  "link_nodes heap bs 0 ns = ns"
| "link_nodes heap bs (Suc count) ns = link_nodes heap bs count (ns @ [Node heap (length ns) bs])"

text \<open>
  \<open>ceil(double(size) / double(baseSize_))\<close>: the exact ceiling of the quotient, which the
  double computation returns for every size below \<open>2 ^ 53\<close>. With \<open>baseSize_ = 0\<close> the
  quotient is infinite and its conversion to \<open>size_t\<close> undefined.
\<close>

definition node_count :: "nat \<Rightarrow> nat \<Rightarrow> nat" where
  "node_count sz base = (sz + base - 1) div base"

definition addCapacity :: "uninit \<Rightarrow> buffer \<Rightarrow> nat \<Rightarrow> fault + buffer" where
  "addCapacity heap b sz =
     (if sz = 0 then Inr b
      else let old_cap = getCapacity b in
        if sz \<le> old_cap then Inr b
        else if baseSize b = 0 then Inl DivByZero
        else let count = node_count (sz - old_cap) (baseSize b);
                 first = length (nodes b) in
          Inr (b\<lparr>nodes := link_nodes heap (baseSize b) count (nodes b),
                 capacity := capacity b + count * baseSize b,
                 cur := (if old_cap = 0 then (if count = 0 then None else Some first) else cur b)\<rparr>))"

section \<open>Writing\<close>

text \<open>
  One call copies into one node only: the loop of the original algorithm is inside the
  comment of the line above it (\<open>// ... while (size > 0) {\<close>), so what does not fit in the
  node is dropped.
\<close>

definition write_bytes :: "uninit \<Rightarrow> buffer \<Rightarrow> u8 list \<Rightarrow> fault + buffer" where
  "write_bytes heap b0 buf =
     (let sz = length buf in
      if sz = 0 then Inr b0
      else bindE (addCapacity heap b0 sz) (\<lambda>b.
        if baseSize b = 0 then Inl DivByZero
        else let npos = position b mod baseSize b in
          bindE (deref (nodes b) (cur b)) (\<lambda>(i, nd).
            let ncap = sub64 (length nd) npos in
            bindE (if sz \<le> ncap
                   then bindE (memcpy_in nd npos buf) (\<lambda>nd'.
                     Inr (b\<lparr>nodes := (nodes b)[i := nd'],
                            cur := (if length nd = npos + sz then next_ptr (nodes b) i else cur b),
                            position := position b + sz\<rparr>))
                   else bindE (memcpy_in nd npos (take ncap buf)) (\<lambda>nd'.
                     bindE (deref (nodes b) (next_ptr (nodes b) i)) (\<lambda>_.
                       Inr (b\<lparr>nodes := (nodes b)[i := nd'],
                              cur := next_ptr (nodes b) i,
                              position := position b + ncap\<rparr>))))
              (\<lambda>b'. Inr (if bufSize b' < position b' then b'\<lparr>bufSize := position b'\<rparr> else b')))))"

section \<open>Reading\<close>

text \<open>The \<open>while (size > 0)\<close> loop both \<open>read\<close>s share: the bytes copied and the final \<open>cur\<close>.\<close>

function read_loop :: "u8 list list \<Rightarrow> nat option \<Rightarrow> nat \<Rightarrow> nat \<Rightarrow> fault + u8 list \<times> nat option" where
  "read_loop ns c npos sz =
     (if sz = 0 then Inr ([], c)
      else bindE (deref ns c) (\<lambda>(i, nd).
        let ncap = sub64 (length nd) npos in
        if sz \<le> ncap
        then bindE (memcpy_out nd npos sz) (\<lambda>bs.
          Inr (bs, if length nd = npos + sz then next_ptr ns i else c))
        else bindE (memcpy_out nd npos ncap) (\<lambda>bs.
          bindE (read_loop ns (next_ptr ns i) 0 (sz - ncap)) (\<lambda>(bs', c'). Inr (bs @ bs', c')))))"
  by pat_completeness auto
termination
  by (relation "measure (\<lambda>(ns, c, npos, sz). ahead ns c)") (auto simp: ahead_next)

declare read_loop.simps [simp del]

definition read_bytes :: "buffer \<Rightarrow> nat \<Rightarrow> fault + u8 list \<times> buffer" where
  "read_bytes b sz =
     (if readSize b < sz then Inl OutOfRange
      else if baseSize b = 0 then Inl DivByZero
      else bindE (deref (nodes b) (cur b)) (\<lambda>_.
        bindE (read_loop (nodes b) (cur b) (position b mod baseSize b) sz) (\<lambda>(bs, c).
          Inr (bs, b\<lparr>position := position b + sz, cur := c\<rparr>))))"

text \<open>The \<open>const\<close> overload starts at \<open>cur_\<close> too; \<open>pos\<close> gives the offset in the node only.\<close>

definition read_at :: "buffer \<Rightarrow> nat \<Rightarrow> nat \<Rightarrow> fault + u8 list" where
  "read_at b sz pos =
     (if readSize b < sz then Inl OutOfRange
      else if baseSize b = 0 then Inl DivByZero
      else bindE (deref (nodes b) (cur b)) (\<lambda>_.
        bindE (read_loop (nodes b) (cur b) (pos mod baseSize b) sz) (\<lambda>(bs, _). Inr bs)))"

section \<open>Positioning and clearing\<close>

function seek :: "u8 list list \<Rightarrow> nat option \<Rightarrow> nat \<Rightarrow> fault + nat option" where
  "seek ns c v =
     bindE (deref ns c) (\<lambda>(i, nd).
       if length nd < v then seek ns (next_ptr ns i) (v - length nd)
       else Inr (if v = length nd then next_ptr ns i else c))"
  by pat_completeness auto
termination
  by (relation "measure (\<lambda>(ns, c, v). ahead ns c)") (auto simp: ahead_next)

declare seek.simps [simp del]

definition setPosition :: "buffer \<Rightarrow> nat \<Rightarrow> fault + buffer" where
  "setPosition b v =
     (if capacity b < v then Inl OutOfRange
      else let b' = b\<lparr>position := v, bufSize := max (bufSize b) v\<rparr> in
        bindE (seek (nodes b') (Some 0) v) (\<lambda>c. Inr (b'\<lparr>cur := c\<rparr>)))"

definition clear :: "buffer \<Rightarrow> buffer" where
  "clear b = b\<lparr>position := 0, bufSize := 0, capacity := baseSize b,
               nodes := take 1 (nodes b), cur := Some 0\<rparr>"

section \<open>The invariant and the abstract view\<close>

definition contents :: "buffer \<Rightarrow> u8 list" where
  "contents b = concat (nodes b)"

text \<open>The pointer that belongs to a position: its node, or null behind the last node.\<close>

definition node_ptr :: "nat \<Rightarrow> nat \<Rightarrow> nat \<Rightarrow> nat option" where
  "node_ptr base n p = (if p < base * n then Some (p div base) else None)"

definition buf_ok :: "buffer \<Rightarrow> bool" where
  "buf_ok b \<longleftrightarrow>
     0 < baseSize b \<and> nodes b \<noteq> [] \<and> blocks (baseSize b) (nodes b)
     \<and> capacity b = baseSize b * length (nodes b)
     \<and> position b \<le> bufSize b \<and> bufSize b \<le> capacity b
     \<and> cur b = node_ptr (baseSize b) (length (nodes b)) (position b)"

text \<open>The data written so far, and the part of it behind the cursor.\<close>

definition stored :: "buffer \<Rightarrow> u8 list" where
  "stored b = take (bufSize b) (contents b)"

definition unread :: "buffer \<Rightarrow> u8 list" where
  "unread b = drop (position b) (stored b)"

text \<open>How much one \<open>write\<close> can take: the rest of the node the cursor is in.\<close>

definition node_room :: "buffer \<Rightarrow> nat" where
  "node_room b = baseSize b - position b mod baseSize b"

section \<open>Pointers and positions\<close>

lemma node_ptr_in:
  "i < n \<Longrightarrow> r < base \<Longrightarrow> node_ptr base n (base * i + r) = Some i"
proof -
  assume i: "i < n" and r: "r < base"
  have "base * i + r < base * Suc i" using r by simp
  also have "\<dots> \<le> base * n" using i by (intro mult_le_mono2) simp
  finally show ?thesis using r by (simp add: node_ptr_def)
qed

lemma node_ptr_boundary:
  "0 < base \<Longrightarrow> node_ptr base (length ns) (base * Suc i) = next_ptr ns i"
  by (auto simp: node_ptr_def next_ptr_def simp del: mult_Suc_right)

lemma node_ptr_step:
  assumes "i < length ns" and "0 < base" and "r \<le> base"
  shows "(if r = base then next_ptr ns i else Some i) = node_ptr base (length ns) (base * i + r)"
  using assms node_ptr_boundary [of base ns i] node_ptr_in [of i "length ns" r base]
  by (auto simp: add.commute)

text \<open>A position inside the capacity, split into node and offset.\<close>

lemma position_split:
  fixes p base n :: nat
  assumes "0 < base" and "p < base * n"
  shows "p div base < n" and "p mod base < base" and "base * (p div base) + p mod base = p"
proof -
  show "p div base < n"
    using less_mult_imp_div_less [of p n base] assms(2) by (simp add: mult.commute)
  show "p mod base < base" and "base * (p div base) + p mod base = p" using assms(1) by simp_all
qed

lemma contents_length: "buf_ok b \<Longrightarrow> length (contents b) = capacity b"
  by (auto simp: buf_ok_def contents_def length_concat_blocks)

lemma stored_length: "buf_ok b \<Longrightarrow> length (stored b) = bufSize b"
  by (simp add: stored_def contents_length buf_ok_def)

lemma unread_length: "buf_ok b \<Longrightarrow> length (unread b) = bufSize b - position b"
  by (simp add: unread_def stored_length)

lemma readSize_ok: "buf_ok b \<Longrightarrow> readSize b = bufSize b - position b"
  by (simp add: readSize_def buf_ok_def)

lemma getCapacity_ok: "buf_ok b \<Longrightarrow> getCapacity b = capacity b - position b"
  by (simp add: getCapacity_def buf_ok_def)

lemma buf_ok_cur:
  assumes "buf_ok b" and "position b < capacity b"
  obtains i where "cur b = Some i" and "i < length (nodes b)"
    and "position b = baseSize b * i + position b mod baseSize b" and "i = position b div baseSize b"
  using assms position_split [of "baseSize b" "position b" "length (nodes b)"]
  by (auto simp: buf_ok_def node_ptr_def)

section \<open>The reading loop\<close>

text \<open>
  From a position inside the nodes the loop returns the bytes that follow it and leaves
  \<open>cur\<close> where the new position belongs.
\<close>

lemma read_loop_correct:
  assumes "blocks base ns" and "i < length ns" and "npos < base"
    and "base * i + npos + sz \<le> base * length ns"
  shows "read_loop ns (Some i) npos sz =
    Inr (take sz (drop (base * i + npos) (concat ns)),
         node_ptr base (length ns) (base * i + npos + sz))"
  using assms
proof (induction "length ns - i" arbitrary: i npos sz rule: less_induct)
  case less
  have len: "length (ns ! i) = base" using less.prems by simp
  have split: "drop (base * i + npos) (concat ns) = drop npos (ns ! i @ concat (drop (Suc i) ns))"
    using less.prems by (simp add: drop_concat_block)
  consider (zero) "sz = 0" | (fits) "0 < sz" "sz \<le> base - npos" | (over) "base - npos < sz"
    by linarith
  then show ?case
  proof cases
    case zero
    then show ?thesis
      using less.prems node_ptr_in [of i "length ns" npos base] by (simp add: read_loop.simps)
  next
    case fits
    have "(if base = npos + sz then next_ptr ns i else Some i)
        = node_ptr base (length ns) (base * i + (npos + sz))"
      using node_ptr_step [of i ns base "npos + sz"] fits less.prems by auto
    then show ?thesis
      using fits less.prems len by (simp add: read_loop.simps Let_def split add.assoc)
  next
    case over
    have "base * Suc i < base * length ns" using over less.prems by simp
    then have i': "Suc i < length ns" by (simp del: mult_Suc_right)
    then have "read_loop ns (Some (Suc i)) 0 (sz - (base - npos)) =
      Inr (take (sz - (base - npos)) (drop (base * Suc i + 0) (concat ns)),
           node_ptr base (length ns) (base * Suc i + 0 + (sz - (base - npos))))"
      using less.prems over by (intro less.hyps) auto
    moreover have "base * Suc i + 0 + (sz - (base - npos)) = base * i + npos + sz"
      using over less.prems by simp
    moreover have "drop (base * Suc i + 0) (concat ns) = concat (drop (Suc i) ns)"
      using less.prems by (simp add: drop_concat_blocks del: mult_Suc_right)
    ultimately have "read_loop ns (Some (Suc i)) 0 (sz - (base - npos)) =
      Inr (take (sz - (base - npos)) (concat (drop (Suc i) ns)),
           node_ptr base (length ns) (base * i + npos + sz))"
      by (simp only:)
    then show ?thesis
      using over i' less.prems len
      by (simp add: read_loop.simps [of ns "Some i"] Let_def split next_ptr_def)
  qed
qed

lemma seek_correct:
  assumes "blocks base ns" and "0 < base" and "i < length ns"
    and "base * i + v \<le> base * length ns"
  shows "seek ns (Some i) v = Inr (node_ptr base (length ns) (base * i + v))"
  using assms
proof (induction "length ns - i" arbitrary: i v rule: less_induct)
  case less
  have len: "length (ns ! i) = base" using less.prems by simp
  show ?case
  proof (cases "base < v")
    case True
    then have "base * Suc i < base * length ns" using less.prems by simp
    then have i': "Suc i < length ns" by (simp del: mult_Suc_right)
    then have "seek ns (Some (Suc i)) (v - base) =
        Inr (node_ptr base (length ns) (base * Suc i + (v - base)))"
      using less.prems True by (intro less.hyps) auto
    with True i' less.prems len show ?thesis
      by (simp add: seek.simps [of ns "Some i"] next_ptr_def)
  next
    case False
    then show ?thesis
      using node_ptr_step [of i ns base v] less.prems len by (simp add: seek.simps)
  qed
qed

section \<open>Growing keeps everything that was there\<close>

lemma link_nodes_append:
  "\<exists>new. link_nodes heap k n ns = ns @ new \<and> length new = n \<and> blocks k new"
proof (induction n arbitrary: ns)
  case 0
  then show ?case by simp
next
  case (Suc n)
  obtain new where "link_nodes heap k n (ns @ [Node heap (length ns) k])
      = (ns @ [Node heap (length ns) k]) @ new" "length new = n" "blocks k new"
    using Suc.IH by blast
  then show ?case
    by (intro exI [of _ "Node heap (length ns) k # new"]) (simp add: Node_def)
qed

lemma node_count_enough:
  assumes "0 < base"
  shows "sz \<le> node_count sz base * base"
proof -
  have "sz + base - 1 = (sz + base - 1) div base * base + (sz + base - 1) mod base" by simp
  moreover have "(sz + base - 1) mod base \<le> base - 1" using assms by (simp add: Suc_leI flip: less_Suc_eq_le)
  ultimately show ?thesis unfolding node_count_def using assms by linarith
qed

lemma node_count_pos: "0 < base \<Longrightarrow> 0 < sz \<Longrightarrow> 0 < node_count sz base"
  using node_count_enough [of base sz] by (cases "node_count sz base") auto

lemma stored_append:
  "bufSize b \<le> length (contents b) \<Longrightarrow> nodes b' = nodes b @ new \<Longrightarrow> bufSize b' = bufSize b \<Longrightarrow>
   stored b' = stored b"
  by (simp add: stored_def contents_def)

lemma addCapacity_ok:
  assumes "buf_ok b"
  obtains b' where "addCapacity heap b sz = Inr b'" and "buf_ok b'"
    and "stored b' = stored b" and "position b + sz \<le> capacity b'"
    and "position b' = position b" and "bufSize b' = bufSize b" and "baseSize b' = baseSize b"
    and "endian b' = endian b" and "owner b' = owner b"
proof (cases "sz = 0 \<or> sz \<le> getCapacity b")
  case True
  then have "addCapacity heap b sz = Inr b" by (auto simp: addCapacity_def Let_def)
  with True assms show ?thesis
    by (intro that [of b]) (auto simp: getCapacity_ok buf_ok_def)
next
  case False
  define n where "n = node_count (sz - getCapacity b) (baseSize b)"
  obtain new where new: "link_nodes heap (baseSize b) n (nodes b) = nodes b @ new"
      "length new = n" "blocks (baseSize b) new"
    using link_nodes_append by blast
  have base: "0 < baseSize b" using assms by (simp add: buf_ok_def)
  have n: "0 < n" "sz - getCapacity b \<le> n * baseSize b"
    using False base node_count_pos node_count_enough by (simp_all add: n_def)
  let ?b = "b\<lparr>nodes := nodes b @ new, capacity := capacity b + n * baseSize b,
              cur := (if getCapacity b = 0 then Some (length (nodes b)) else cur b)\<rparr>"
  have "addCapacity heap b sz = Inr ?b"
    using False base n by (simp add: addCapacity_def Let_def new flip: n_def)
  moreover have "cur ?b = node_ptr (baseSize b) (length (nodes b @ new)) (position b)"
  proof (cases "position b < capacity b")
    case True
    then show ?thesis
      using assms by (auto simp: buf_ok_def getCapacity_def node_ptr_def algebra_simps)
  next
    case False
    then have "position b = baseSize b * length (nodes b)" using assms by (simp add: buf_ok_def)
    then show ?thesis
      using assms base n(1) new(2) by (simp add: getCapacity_ok buf_ok_def node_ptr_def algebra_simps)
  qed
  then have "buf_ok ?b"
    using assms new by (auto simp: buf_ok_def algebra_simps)
  moreover have "stored ?b = stored b"
    using assms by (intro stored_append) (auto simp: contents_length buf_ok_def)
  moreover have "position b + sz \<le> capacity b + n * baseSize b"
    using assms n(2) False by (simp add: getCapacity_ok buf_ok_def)
  ultimately show ?thesis by (intro that [of ?b]) auto
qed

section \<open>Writing implements overwriting at the cursor\<close>

text \<open>The state a copy of \<open>bs\<close> into the cursor's node leaves behind.\<close>

definition put :: "buffer \<Rightarrow> u8 list \<Rightarrow> buffer" where
  "put b bs =
     (let base = baseSize b; i = position b div base; p = position b + length bs in
      b\<lparr>nodes := (nodes b)[i := overwrite (position b mod base) bs (nodes b ! i)],
        cur := node_ptr base (length (nodes b)) p,
        position := p, bufSize := max (bufSize b) p\<rparr>)"

lemma take_max_overwrite:
  "p \<le> s \<Longrightarrow> s \<le> length xs \<Longrightarrow> p + length bs \<le> length xs \<Longrightarrow>
   take (max s (p + length bs)) (overwrite p bs xs) = overwrite p bs (take s xs)"
proof -
  assume a: "p \<le> s" "s \<le> length xs" "p + length bs \<le> length xs"
  then have [simp]: "min (length xs) p = p" "min p s = p" "p \<le> length xs" by simp_all
  show ?thesis
  proof (cases "p + length bs \<le> s")
    case True
    then show ?thesis using a by (simp add: overwrite_def drop_take)
  next
    case False
    then show ?thesis using a by (simp add: overwrite_def)
  qed
qed

lemma blocks_update:
  "blocks k xss \<Longrightarrow> length xs = k \<Longrightarrow> blocks k (xss[i := xs])"
  by (auto simp: blocks_def dest: set_update_subset_insert [THEN subsetD])

lemma put_ok:
  assumes "buf_ok b" and "position b < capacity b" and "length bs \<le> node_room b"
  shows "buf_ok (put b bs)" and "stored (put b bs) = overwrite (position b) bs (stored b)"
    and "position (put b bs) = position b + length bs"
proof -
  let ?base = "baseSize b" and ?i = "position b div baseSize b" and ?r = "position b mod baseSize b"
  have base: "0 < ?base" and bl: "blocks ?base (nodes b)"
    and cap: "capacity b = ?base * length (nodes b)"
    using assms(1) by (simp_all add: buf_ok_def)
  have i: "?i < length (nodes b)" and pos: "?base * ?i + ?r = position b"
    using position_split [OF base] assms(2) cap by simp_all
  have room: "?r + length bs \<le> ?base"
    using assms(3) mod_less_divisor [OF base, of "position b"] by (simp add: node_room_def)
  have "position b + length bs \<le> ?base * Suc ?i"
    unfolding mult_Suc_right using pos room by linarith
  also have "\<dots> \<le> capacity b" unfolding cap using i by (intro mult_le_mono2) simp
  finally have fits: "position b + length bs \<le> capacity b" .
  have blk: "length (overwrite ?r bs (nodes b ! ?i)) = ?base"
    using room bl i by simp
  have cont: "contents (put b bs) = overwrite (position b) bs (contents b)"
    using concat_update_block [OF bl i room] pos by (simp add: put_def Let_def contents_def)
  show "buf_ok (put b bs)"
    using assms(1) fits blk by (auto simp: put_def Let_def buf_ok_def blocks_update)
  show "stored (put b bs) = overwrite (position b) bs (stored b)"
    unfolding stored_def cont
    using assms(1) fits take_max_overwrite [of "position b" "bufSize b" "contents b" bs]
    by (simp add: put_def Let_def contents_length buf_ok_def)
  show "position (put b bs) = position b + length bs" by (simp add: put_def Let_def)
qed

lemma bump_size:
  "(if bufSize b < position b then b\<lparr>bufSize := position b\<rparr> else b)
   = b\<lparr>bufSize := max (bufSize b) (position b)\<rparr>"
  by (simp add: max_def)

text \<open>The two branches of \<open>write\<close> once the capacity is there and the cursor's node known.\<close>

lemma write_bytes_fits:
  assumes "addCapacity heap b (length bs) = Inr b" and "bs \<noteq> []" and "0 < baseSize b"
    and "cur b = Some i" and "i < length (nodes b)" and "length (nodes b ! i) = baseSize b"
    and "length bs \<le> baseSize b - position b mod baseSize b"
    and "position b mod baseSize b < baseSize b"
  shows "write_bytes heap b bs =
     Inr (b\<lparr>nodes := (nodes b)[i := overwrite (position b mod baseSize b) bs (nodes b ! i)],
       cur := (if baseSize b = position b mod baseSize b + length bs then next_ptr (nodes b) i else Some i),
       position := position b + length bs,
       bufSize := max (bufSize b) (position b + length bs)\<rparr>)"
  unfolding write_bytes_def Let_def bump_size assms(1) bindE_simps assms(4)
    deref_Some [OF assms(5)] prod.case
  using assms by (simp add: overwrite_def)

lemma write_bytes_over:
  assumes "addCapacity heap b (length bs) = Inr b" and "0 < baseSize b"
    and "cur b = Some i" and "Suc i < length (nodes b)" and "length (nodes b ! i) = baseSize b"
    and "baseSize b - position b mod baseSize b < length bs"
    and "position b mod baseSize b < baseSize b" and "room = baseSize b - position b mod baseSize b"
  shows "write_bytes heap b bs =
     Inr (b\<lparr>nodes := (nodes b)[i := overwrite (position b mod baseSize b) (take room bs) (nodes b ! i)],
       cur := Some (Suc i),
       position := position b + room,
       bufSize := max (bufSize b) (position b + room)\<rparr>)"
proof -
  have sub: "sub64 (length (nodes b ! i)) (position b mod baseSize b) = room"
    and drop: "\<not> length bs \<le> room" and nz: "length bs \<noteq> 0" "baseSize b \<noteq> 0"
    and len: "length (take room bs) = room"
    using assms(2,5-8) by auto
  have "position b mod baseSize b + length (take room bs) \<le> length (nodes b ! i)"
    unfolding len using assms(5,7,8) by simp
  note copy = memcpy_in_ok [OF this, folded overwrite_def]
  have nxt: "next_ptr (nodes b) i = Some (Suc i)" using assms(4) by (simp add: next_ptr_def)
  show ?thesis
    unfolding write_bytes_def Let_def bump_size assms(1) bindE_simps assms(3)
      deref_Some [OF Suc_lessD [OF assms(4)]] prod.case sub if_not_P [OF drop] if_not_P [OF nz(1)]
      if_not_P [OF nz(2)] copy nxt deref_Some [OF assms(4)]
    by simp
qed

lemma write_bytes_put:
  assumes "buf_ok b" and "position b < capacity b" and "bs \<noteq> []"
    and "position b + length bs \<le> capacity b"
  shows "write_bytes heap b bs = Inr (put b (take (node_room b) bs))"
proof -
  let ?base = "baseSize b" and ?r = "position b mod baseSize b"
  obtain i where i: "cur b = Some i" "i < length (nodes b)" "i = position b div ?base"
      and pos: "position b = ?base * i + ?r"
    using buf_ok_cur [OF assms(1,2)] by blast
  have base: "0 < ?base" and len: "length (nodes b ! i) = ?base" and r: "?r < ?base"
    using assms(1) i(2) by (auto simp: buf_ok_def)
  have "length bs \<le> getCapacity b" using assms(4) by (simp add: getCapacity_ok [OF assms(1)])
  then have add: "addCapacity heap b (length bs) = Inr b"
    by (simp add: addCapacity_def Let_def)
  have step: "node_ptr ?base (length (nodes b)) (?base * i + k)
      = (if ?base = k then next_ptr (nodes b) i else Some i)" if "k \<le> ?base" for k
    using node_ptr_step [OF i(2) base that] by (simp add: eq_commute)
  show ?thesis
  proof (cases "length bs \<le> ?base - ?r")
    case True
    then have all: "take (node_room b) bs = bs" by (simp add: node_room_def)
    have pos': "position b + length bs = ?base * i + (?r + length bs)" using pos by linarith
    have ptr: "node_ptr ?base (length (nodes b)) (position b + length bs)
        = (if ?base = ?r + length bs then next_ptr (nodes b) i else Some i)"
      unfolding pos' by (rule step) (use True r in linarith)
    show ?thesis
      unfolding all put_def Let_def ptr i(3) [symmetric]
      by (rule write_bytes_fits [OF add assms(3) base i(1,2) len True r])
  next
    case False
    have "?base * Suc i < ?base * length (nodes b)"
      using False assms(1,4) pos unfolding mult_Suc_right buf_ok_def by linarith
    then have i': "Suc i < length (nodes b)" by (simp del: mult_Suc_right)
    have "position b + (?base - ?r) = ?base * i + ?base" using pos r by linarith
    then have ptr: "node_ptr ?base (length (nodes b)) (position b + node_room b) = Some (Suc i)"
      using step [of ?base] i' by (simp add: next_ptr_def node_room_def)
    have room: "length (take (node_room b) bs) = node_room b"
      using False by (simp add: node_room_def)
    show ?thesis
      unfolding put_def Let_def room ptr i(3) [symmetric]
      by (rule write_bytes_over [OF add base i(1) i' len _ r]) (use False in \<open>simp_all add: node_room_def\<close>)
  qed
qed

text \<open>
  One call of \<open>write\<close> stores the prefix that fits in the node and advances by its length.
\<close>

lemma write_bytes_ok:
  assumes "buf_ok b" and "bs \<noteq> []"
  defines "k \<equiv> min (length bs) (node_room b)"
  obtains b' where "write_bytes heap b bs = Inr b'" and "buf_ok b'"
    and "stored b' = overwrite (position b) (take k bs) (stored b)"
    and "position b' = position b + k" and "baseSize b' = baseSize b" and "endian b' = endian b"
    and "owner b' = owner b"
proof -
  obtain c where c: "addCapacity heap b (length bs) = Inr c" "buf_ok c" "stored c = stored b"
      "position b + length bs \<le> capacity c"
      and same: "position c = position b" "baseSize c = baseSize b" "endian c = endian b"
      "owner c = owner b"
    by (rule addCapacity_ok [OF assms(1), of heap "length bs"])
  then have eqs: "position c = position b" "baseSize c = baseSize b" "endian c = endian b"
      "owner c = owner b" "node_room c = node_room b"
    by (simp_all add: node_room_def)
  have lt: "position c < capacity c" using c(4) eqs assms(2) by (cases bs) auto
  have "addCapacity heap c (length bs) = Inr c"
    using c(4) eqs by (auto simp: addCapacity_def Let_def getCapacity_ok [OF c(2)])
  then have "write_bytes heap b bs = write_bytes heap c bs"
    unfolding write_bytes_def Let_def c(1) using assms(2) by simp
  also have "\<dots> = Inr (put c (take k bs))"
    using write_bytes_put [OF c(2) lt assms(2)] c(4) eqs by (simp add: k_def min_def)
  finally show ?thesis
    using put_ok [OF c(2) lt, of "take k bs"] c(3) eqs
    by (intro that [of "put c (take k bs)"]) (simp_all add: put_def Let_def k_def)
qed

section \<open>Reading implements copying from the cursor\<close>

lemma unread_contents:
  "buf_ok b \<Longrightarrow> n \<le> bufSize b - position b \<Longrightarrow>
   take n (drop (position b) (contents b)) = take n (unread b)"
  by (simp add: unread_def stored_def drop_take min_def)

lemma read_loop_buffer:
  assumes "buf_ok b" and "position b < capacity b" and "n \<le> bufSize b - position b"
  shows "read_loop (nodes b) (cur b) (position b mod baseSize b) n =
    Inr (take n (unread b), node_ptr (baseSize b) (length (nodes b)) (position b + n))"
proof -
  obtain i where i: "cur b = Some i" "i < length (nodes b)"
      "position b = baseSize b * i + position b mod baseSize b"
    using buf_ok_cur [OF assms(1,2)] by blast
  have "position b + n \<le> capacity b" using assms(1,3) unfolding buf_ok_def by linarith
  then have "read_loop (nodes b) (Some i) (position b mod baseSize b) n =
    Inr (take n (drop (baseSize b * i + position b mod baseSize b) (concat (nodes b))),
         node_ptr (baseSize b) (length (nodes b)) (baseSize b * i + position b mod baseSize b + n))"
    using assms i(2) by (intro read_loop_correct) (simp_all add: buf_ok_def flip: i(3))
  then show ?thesis
    unfolding i(3) [symmetric]
    using unread_contents [OF assms(1,3)] by (simp add: i(1) contents_def)
qed

lemma read_bytes_ok:
  assumes "buf_ok b" and "n \<le> bufSize b - position b" and "position b < capacity b"
  shows "read_bytes b n = Inr (take n (unread b),
    b\<lparr>position := position b + n,
      cur := node_ptr (baseSize b) (length (nodes b)) (position b + n)\<rparr>)"
proof -
  obtain i where "cur b = Some i" "i < length (nodes b)"
    using buf_ok_cur [OF assms(1,3)] by blast
  then show ?thesis
    using assms read_loop_buffer [OF assms(1,3,2)]
    by (simp add: read_bytes_def readSize_ok) (auto simp: buf_ok_def)
qed

lemma read_bytes_short:
  "buf_ok b \<Longrightarrow> bufSize b - position b < n \<Longrightarrow> read_bytes b n = Inl OutOfRange"
  by (simp add: read_bytes_def readSize_ok)

text \<open>At the very end of the capacity there is no node, so even an empty read fails.\<close>

lemma read_bytes_at_end:
  assumes "buf_ok b" and "position b = capacity b"
  shows "read_bytes b 0 = Inl NullDeref"
  using assms by (auto simp: read_bytes_def buf_ok_def node_ptr_def)

lemma read_bytes_keeps:
  assumes "buf_ok b" and "read_bytes b n = Inr (bs, b')"
  shows "buf_ok b'" and "bs = take n (unread b)" and "stored b' = stored b"
    and "position b' = position b + n" and "unread b' = drop n (unread b)" and "endian b' = endian b"
proof -
  have n: "n \<le> bufSize b - position b"
    using assms read_bytes_short [OF assms(1), of n] by fastforce
  have "position b < capacity b"
    using assms n read_bytes_at_end [OF assms(1)] by (cases "position b < capacity b") (auto simp: buf_ok_def)
  from read_bytes_ok [OF assms(1) n this] assms(2)
  have b': "bs = take n (unread b)" "b' = b\<lparr>position := position b + n,
      cur := node_ptr (baseSize b) (length (nodes b)) (position b + n)\<rparr>"
    by auto
  show "buf_ok b'" using assms(1) n unfolding b'(2) by (auto simp: buf_ok_def)
  show "bs = take n (unread b)" by (rule b'(1))
  show st: "stored b' = stored b" by (simp add: b'(2) stored_def contents_def)
  show "position b' = position b + n" by (simp add: b'(2))
  show "unread b' = drop n (unread b)"
    unfolding unread_def st by (simp add: b'(2) add.commute)
  show "endian b' = endian b" by (simp add: b'(2))
qed

section \<open>Moving the cursor\<close>

lemma setPosition_ok:
  assumes "buf_ok b" and "v \<le> capacity b"
  shows "setPosition b v = Inr (b\<lparr>position := v, bufSize := max (bufSize b) v,
    cur := node_ptr (baseSize b) (length (nodes b)) v\<rparr>)"
  using assms seek_correct [of "baseSize b" "nodes b" 0 v]
  by (simp add: setPosition_def Let_def buf_ok_def)

lemma setPosition_keeps:
  assumes "buf_ok b" and "setPosition b v = Inr b'"
  shows "buf_ok b'" and "position b' = v" and "contents b' = contents b"
    and "stored b' = take (max (bufSize b) v) (contents b)" and "endian b' = endian b"
proof -
  have v: "v \<le> capacity b" using assms(2) by (auto simp: setPosition_def split: if_splits)
  from setPosition_ok [OF assms(1) v] assms(2)
  have b': "b' = b\<lparr>position := v, bufSize := max (bufSize b) v,
      cur := node_ptr (baseSize b) (length (nodes b)) v\<rparr>" by simp
  show "buf_ok b'" using assms(1) v unfolding b' by (auto simp: buf_ok_def)
  show "position b' = v" "contents b' = contents b" "endian b' = endian b"
    "stored b' = take (max (bufSize b) v) (contents b)"
    by (simp_all add: b' contents_def stored_def)
qed

lemma setPosition_beyond: "capacity b < v \<Longrightarrow> setPosition b v = Inl OutOfRange"
  by (simp add: setPosition_def)

lemma new_Buffer_ok: "0 < base \<Longrightarrow> buf_ok (new_Buffer heap base)"
  by (simp add: buf_ok_def new_Buffer_def Node_def node_ptr_def)

lemma wrap_Buffer_ok: "data \<noteq> [] \<Longrightarrow> buf_ok (wrap_Buffer data own)"
  by (simp add: buf_ok_def wrap_Buffer_def node_ptr_def)

lemma clear_ok:
  assumes "buf_ok b"
  shows "buf_ok (clear b)" and "stored (clear b) = []" and "position (clear b) = 0"
  using assms by (cases "nodes b"; simp add: buf_ok_def clear_def node_ptr_def stored_def)+

section \<open>The buffer as a byte cursor\<close>

lemma node_room_pos: "buf_ok b \<Longrightarrow> 0 < node_room b"
  by (simp add: node_room_def buf_ok_def)

lemma node_room_shrinks:
  assumes "0 < base" and "k < base - p mod base"
  shows "base - (p + k) mod base = (base - p mod base) - (k :: nat)"
proof -
  have "(p + k) mod base = (p mod base + k) mod base" by (simp add: mod_add_left_eq)
  also have "\<dots> = p mod base + k" using assms by (intro mod_less) simp
  finally show ?thesis by simp
qed

interpretation buf: byte_source buf_ok unread read_bytes
proof
  fix b :: buffer and xs ys :: "u8 list"
  assume b: "buf_ok b" and r: "unread b = xs @ ys" and ne: "xs \<noteq> []"
  have n: "length xs \<le> bufSize b - position b"
    using unread_length [OF b] r by (metis le_add1 length_append)
  moreover have lt: "position b < capacity b"
    using n ne b by (cases xs) (auto simp: buf_ok_def)
  ultimately obtain b' where b': "read_bytes b (length xs) = Inr (take (length xs) (unread b), b')"
    using read_bytes_ok [OF b] by blast
  then show "\<exists>b'. read_bytes b (length xs) = Inr (xs, b') \<and> buf_ok b' \<and> unread b' = ys"
    using read_bytes_keeps [OF b b'] r by auto
next
  fix b :: buffer and n :: nat
  assume "buf_ok b" and "length (unread b) < n"
  then show "read_bytes b n = Inl OutOfRange"
    by (intro read_bytes_short) (simp_all add: unread_length)
qed

interpretation buf: byte_cursor buf_ok unread read_bytes stored position node_room endian
    "write_bytes heap" setPosition for heap
proof
  fix b :: buffer
  assume b: "buf_ok b"
  show "unread b = drop (position b) (stored b)" by (simp add: unread_def)
  show "position b \<le> length (stored b)" using b by (simp add: stored_length) (simp add: buf_ok_def)
next
  fix b :: buffer and bs :: "u8 list"
  assume "buf_ok b" and "bs \<noteq> []" and "length bs \<le> node_room b"
  then show "\<exists>b'. write_bytes heap b bs = Inr b' \<and> buf_ok b'
      \<and> stored b' = overwrite (position b) bs (stored b)
      \<and> position b' = position b + length bs \<and> endian b' = endian b"
    using write_bytes_ok [of b bs heap] by (metis min_def order_refl take_all)
next
  fix b b' :: buffer and bs :: "u8 list"
  assume b: "buf_ok b" and "bs \<noteq> []" and "length bs < node_room b" and "write_bytes heap b bs = Inr b'"
  moreover from this have "position b' = position b + length bs" "baseSize b' = baseSize b"
    using write_bytes_ok [of b bs heap] by (metis Inr_inject min_def less_imp_le)+
  ultimately show "node_room b' = node_room b - length bs"
    using node_room_shrinks [of "baseSize b"] by (simp add: node_room_def buf_ok_def)
next
  fix b :: buffer and p :: nat
  assume b: "buf_ok b" and p: "p \<le> length (stored b)"
  then have "p \<le> bufSize b" by (simp add: stored_length)
  moreover from this have "p \<le> capacity b" using b by (simp add: buf_ok_def)
  then obtain b' where b': "setPosition b p = Inr b'" using setPosition_ok [OF b] by blast
  ultimately show "\<exists>b'. setPosition b p = Inr b' \<and> buf_ok b' \<and> stored b' = stored b
      \<and> position b' = p \<and> endian b' = endian b"
    using setPosition_keeps [OF b b'] by (auto simp: stored_def max_absorb1)
qed

end
