(* ===== verification/Codec.thy ===== *)
theory Codec imports Buffer begin

text \<open>
  The typed operations of \<open>Buffer\<close>: fixed-width integers in the buffer's byte order, zigzag
  and varint integers, floats as their bit patterns, length-prefixed strings. The byte order
  of the host is the argument \<open>host\<close>. Signed integers are two's complement words. The round
  trips rest on the interpretation of \<open>byte_cursor\<close> by the buffer.
\<close>

section \<open>Writers\<close>

definition writeFint8 :: "uninit \<Rightarrow> buffer \<Rightarrow> u8 \<Rightarrow> fault + buffer" where
  "writeFint8 heap b value = write_bytes heap b (object_bytes EASY_LITTLE_ENDIAN value)"

definition writeFuint8 :: "uninit \<Rightarrow> buffer \<Rightarrow> u8 \<Rightarrow> fault + buffer" where
  "writeFuint8 heap b value = write_bytes heap b (object_bytes EASY_LITTLE_ENDIAN value)"

definition writeFint16 :: "byte_order \<Rightarrow> uninit \<Rightarrow> buffer \<Rightarrow> u16 \<Rightarrow> fault + buffer" where
  "writeFint16 host heap b value = write_bytes heap b (put_fixed host (endian b) value)"

definition writeFuint16 :: "byte_order \<Rightarrow> uninit \<Rightarrow> buffer \<Rightarrow> u16 \<Rightarrow> fault + buffer" where
  "writeFuint16 host heap b value = write_bytes heap b (put_fixed host (endian b) value)"

definition writeFint32 :: "byte_order \<Rightarrow> uninit \<Rightarrow> buffer \<Rightarrow> u32 \<Rightarrow> fault + buffer" where
  "writeFint32 host heap b value = write_bytes heap b (put_fixed host (endian b) value)"

definition writeFuint32 :: "byte_order \<Rightarrow> uninit \<Rightarrow> buffer \<Rightarrow> u32 \<Rightarrow> fault + buffer" where
  "writeFuint32 host heap b value = write_bytes heap b (put_fixed host (endian b) value)"

definition writeFint64 :: "byte_order \<Rightarrow> uninit \<Rightarrow> buffer \<Rightarrow> u64 \<Rightarrow> fault + buffer" where
  "writeFint64 host heap b value = write_bytes heap b (put_fixed host (endian b) value)"

definition writeFuint64 :: "byte_order \<Rightarrow> uninit \<Rightarrow> buffer \<Rightarrow> u64 \<Rightarrow> fault + buffer" where
  "writeFuint64 host heap b value = write_bytes heap b (put_fixed host (endian b) value)"

definition writeUint32 :: "uninit \<Rightarrow> buffer \<Rightarrow> u32 \<Rightarrow> fault + buffer" where
  "writeUint32 heap b value = write_bytes heap b (put_varint value)"

definition writeInt32 :: "uninit \<Rightarrow> buffer \<Rightarrow> u32 \<Rightarrow> fault + buffer" where
  "writeInt32 heap b value = writeUint32 heap b (EncodeZigzag value)"

definition writeUint64 :: "uninit \<Rightarrow> buffer \<Rightarrow> u64 \<Rightarrow> fault + buffer" where
  "writeUint64 heap b value = write_bytes heap b (put_varint value)"

definition writeInt64 :: "uninit \<Rightarrow> buffer \<Rightarrow> u64 \<Rightarrow> fault + buffer" where
  "writeInt64 heap b value = writeUint64 heap b (EncodeZigzag value)"

text \<open>\<open>memcpy\<close> between a float and an integer of its size: the bit pattern.\<close>

definition writeFloat :: "byte_order \<Rightarrow> uninit \<Rightarrow> buffer \<Rightarrow> u32 \<Rightarrow> fault + buffer" where
  "writeFloat host heap b value = writeFuint32 host heap b value"

definition writeDouble :: "byte_order \<Rightarrow> uninit \<Rightarrow> buffer \<Rightarrow> u64 \<Rightarrow> fault + buffer" where
  "writeDouble host heap b value = writeFuint64 host heap b value"

definition writeStringF16 :: "byte_order \<Rightarrow> uninit \<Rightarrow> buffer \<Rightarrow> u8 list \<Rightarrow> fault + buffer" where
  "writeStringF16 host heap b value =
     bindE (writeFuint16 host heap b (of_nat (length value))) (\<lambda>b. write_bytes heap b value)"

definition writeStringF32 :: "byte_order \<Rightarrow> uninit \<Rightarrow> buffer \<Rightarrow> u8 list \<Rightarrow> fault + buffer" where
  "writeStringF32 host heap b value =
     bindE (writeFuint32 host heap b (of_nat (length value))) (\<lambda>b. write_bytes heap b value)"

definition writeStringF64 :: "byte_order \<Rightarrow> uninit \<Rightarrow> buffer \<Rightarrow> u8 list \<Rightarrow> fault + buffer" where
  "writeStringF64 host heap b value =
     bindE (writeFuint64 host heap b (of_nat (length value))) (\<lambda>b. write_bytes heap b value)"

definition writeStringVint :: "uninit \<Rightarrow> buffer \<Rightarrow> u8 list \<Rightarrow> fault + buffer" where
  "writeStringVint heap b value =
     bindE (writeUint64 heap b (of_nat (length value))) (\<lambda>b. write_bytes heap b value)"

definition writeStringWithoutLength :: "uninit \<Rightarrow> buffer \<Rightarrow> u8 list \<Rightarrow> fault + buffer" where
  "writeStringWithoutLength heap b value = write_bytes heap b value"

section \<open>Readers\<close>

definition readFint8 :: "buffer \<Rightarrow> fault + u8 \<times> buffer" where
  "readFint8 b = get_byte read_bytes b"

definition readFuint8 :: "buffer \<Rightarrow> fault + u8 \<times> buffer" where
  "readFuint8 b = get_byte read_bytes b"

definition readFint16 :: "byte_order \<Rightarrow> buffer \<Rightarrow> fault + u16 \<times> buffer" where
  "readFint16 host b = get_fixed read_bytes host (endian b) b"

definition readFuint16 :: "byte_order \<Rightarrow> buffer \<Rightarrow> fault + u16 \<times> buffer" where
  "readFuint16 host b = get_fixed read_bytes host (endian b) b"

definition readFint32 :: "byte_order \<Rightarrow> buffer \<Rightarrow> fault + u32 \<times> buffer" where
  "readFint32 host b = get_fixed read_bytes host (endian b) b"

definition readFuint32 :: "byte_order \<Rightarrow> buffer \<Rightarrow> fault + u32 \<times> buffer" where
  "readFuint32 host b = get_fixed read_bytes host (endian b) b"

definition readFint64 :: "byte_order \<Rightarrow> buffer \<Rightarrow> fault + u64 \<times> buffer" where
  "readFint64 host b = get_fixed read_bytes host (endian b) b"

definition readFuint64 :: "byte_order \<Rightarrow> buffer \<Rightarrow> fault + u64 \<times> buffer" where
  "readFuint64 host b = get_fixed read_bytes host (endian b) b"

definition readUint32 :: "buffer \<Rightarrow> fault + u32 \<times> buffer" where
  "readUint32 b = get_varint read_bytes 0 0 b"

definition readInt32 :: "buffer \<Rightarrow> fault + u32 \<times> buffer" where
  "readInt32 b = bindE (readUint32 b) (\<lambda>(v, b). Inr (DecodeZigzag v, b))"

definition readUint64 :: "buffer \<Rightarrow> fault + u64 \<times> buffer" where
  "readUint64 b = get_varint read_bytes 0 0 b"

definition readInt64 :: "buffer \<Rightarrow> fault + u64 \<times> buffer" where
  "readInt64 b = bindE (readUint64 b) (\<lambda>(v, b). Inr (DecodeZigzag v, b))"

definition readFloat :: "byte_order \<Rightarrow> buffer \<Rightarrow> fault + u32 \<times> buffer" where
  "readFloat host b = readFuint32 host b"

definition readDouble :: "byte_order \<Rightarrow> buffer \<Rightarrow> fault + u64 \<times> buffer" where
  "readDouble host b = readFuint64 host b"

definition readStringF16 :: "byte_order \<Rightarrow> buffer \<Rightarrow> fault + u8 list \<times> buffer" where
  "readStringF16 host b = bindE (readFuint16 host b) (\<lambda>(len, b). read_bytes b (unat len))"

definition readStringF32 :: "byte_order \<Rightarrow> buffer \<Rightarrow> fault + u8 list \<times> buffer" where
  "readStringF32 host b = bindE (readFuint32 host b) (\<lambda>(len, b). read_bytes b (unat len))"

definition readStringF64 :: "byte_order \<Rightarrow> buffer \<Rightarrow> fault + u8 list \<times> buffer" where
  "readStringF64 host b = bindE (readFuint64 host b) (\<lambda>(len, b). read_bytes b (unat len))"

definition readStringVint :: "buffer \<Rightarrow> fault + u8 list \<times> buffer" where
  "readStringVint b = bindE (readUint64 b) (\<lambda>(len, b). read_bytes b (unat len))"

section \<open>Round trips over the buffer\<close>

text \<open>
  A writer and a reader agree when writing, putting the cursor back and reading returns the
  value and leaves unread exactly what the writer left unread.
\<close>

definition reads_back ::
    "(buffer \<Rightarrow> 'v \<Rightarrow> fault + buffer) \<Rightarrow> (buffer \<Rightarrow> fault + 'v \<times> buffer) \<Rightarrow> buffer \<Rightarrow> 'v \<Rightarrow> bool" where
  "reads_back wrt rdr b v \<longleftrightarrow>
     (\<exists>b1 b2 b3. wrt b v = Inr b1 \<and> setPosition b1 (position b) = Inr b2
       \<and> rdr b2 = Inr (v, b3) \<and> unread b3 = unread b1)"

text \<open>The general form: the encoding is one block, the reader decodes it.\<close>

lemma reads_backI:
  assumes "buf_ok b" and "wrt b v = write_bytes heap b bs" and "bs \<noteq> []"
    and "length bs \<le> node_room b"
    and "\<And>b2 ys. buf_ok b2 \<Longrightarrow> unread b2 = bs @ ys \<Longrightarrow> endian b2 = endian b \<Longrightarrow>
           \<exists>b3. rdr b2 = Inr (v, b3) \<and> unread b3 = ys"
  shows "reads_back wrt rdr b v"
proof -
  obtain b1 b2 ys where "write_bytes heap b bs = Inr b1" "setPosition b1 (position b) = Inr b2"
      "buf_ok b2" "unread b2 = bs @ ys" "unread b1 = ys" "endian b2 = endian b"
    by (rule buf.write_back [OF assms(1,3,4), of heap])
  with assms(5) [of b2 ys] assms(2) show ?thesis unfolding reads_back_def by fastforce
qed

text \<open>A length prefix and a body; the reader decodes the prefix, then reads that many bytes.\<close>

lemma reads_back_frameI:
  assumes "buf_ok b" and "body \<noteq> []" and "hdr \<noteq> []"
    and "length hdr + length body \<le> node_room b"
    and "wrt b body = bindE (write_bytes heap b hdr) (\<lambda>b. write_bytes heap b body)"
    and "\<And>b2. rdr b2 = bindE (lenr b2) (\<lambda>(len, b). read_bytes b (unat len))"
    and "\<And>b2 ys. buf_ok b2 \<Longrightarrow> unread b2 = hdr @ ys \<Longrightarrow> endian b2 = endian b \<Longrightarrow>
           \<exists>b3. lenr b2 = Inr (n, b3) \<and> buf_ok b3 \<and> unread b3 = ys"
    and "unat n = length body"
  shows "reads_back wrt rdr b body"
proof -
  obtain b1 b2 b3 ys where b1: "write_bytes heap b hdr = Inr b1" "write_bytes heap b1 body = Inr b2"
      and b3: "setPosition b2 (position b) = Inr b3"
      "buf_ok b3" "unread b3 = hdr @ body @ ys" "unread b2 = ys" "endian b3 = endian b"
    by (rule buf.write2_back [OF assms(1,3,2,4), of heap])
  obtain b4 where b4: "lenr b3 = Inr (n, b4)" "buf_ok b4" "unread b4 = body @ ys"
    using assms(7) [OF b3(2,3,5)] by blast
  obtain b5 where "read_bytes b4 (length body) = Inr (body, b5)" "unread b5 = ys"
    using buf.rd_exact [OF b4(2,3) assms(2)] by blast
  then show ?thesis
    unfolding reads_back_def using assms(5,6,8) b1 b3 b4 by auto
qed

lemma put_fixed_bytes:
  "whole_bytes w \<Longrightarrow> put_fixed host order w = object_bytes order w" for w :: "'a::len word"
  by (simp add: put_fixed_def object_bytes_swapped)

lemma get_fixed_buffer:
  fixes w :: "'a::len word"
  assumes "whole_bytes w" and "buf_ok b2" and "unread b2 = object_bytes order w @ ys"
    and "endian b2 = order"
  shows "\<exists>b3. get_fixed read_bytes host (endian b2) b2 = Inr (w, b3) \<and> buf_ok b3 \<and> unread b3 = ys"
  using buf.get_fixed_exact [OF assms(2,1,3), of host] assms(4) by metis

lemma get_varint_buffer:
  fixes w :: "'a::len word"
  assumes "buf_ok b2" and "unread b2 = put_varint w @ ys"
  shows "\<exists>b3. get_varint read_bytes 0 0 b2 = Inr (w, b3) \<and> buf_ok b3 \<and> unread b3 = ys"
  using buf.get_varint_exact [OF assms, of 0 0] by simp

lemma object_bytes_nonempty: "8 \<le> LENGTH('a) \<Longrightarrow> object_bytes order (w :: 'a::len word) \<noteq> []"
  by (metis length_object_bytes size_of_def div_greater_zero_iff list.size(3) less_irrefl zero_less_numeral)

lemma fixed_reads_back:
  fixes v :: "'a::len word"
  assumes "buf_ok b" and "size_of v \<le> node_room b" and "whole_bytes v"
  shows "reads_back (\<lambda>b v. write_bytes heap b (put_fixed host (endian b) v))
           (\<lambda>b. get_fixed read_bytes host' (endian b) b) b v"
proof (rule reads_backI [where heap = heap and bs = "object_bytes (endian b) v", OF assms(1)])
  show "object_bytes (endian b) v \<noteq> []"
    using dvd_imp_le [OF assms(3)] by (intro object_bytes_nonempty) simp
next
  fix b2 ys
  assume "buf_ok b2" and "unread b2 = object_bytes (endian b) v @ ys" and "endian b2 = endian b"
  then show "\<exists>b3. get_fixed read_bytes host' (endian b2) b2 = Inr (v, b3) \<and> unread b3 = ys"
    using get_fixed_buffer [OF assms(3), where ?b2.0 = b2 and order = "endian b" and ys = ys and host = host'] by auto
qed (use assms in \<open>simp_all add: put_fixed_bytes\<close>)

lemmas fixed_defs =
  writeFint16_def writeFuint16_def writeFint32_def writeFuint32_def writeFint64_def writeFuint64_def
  readFint16_def readFuint16_def readFint32_def readFuint32_def readFint64_def readFuint64_def
  writeFloat_def writeDouble_def readFloat_def readDouble_def

lemma object_bytes_u8: "object_bytes EASY_LITTLE_ENDIAN v = [v]" for v :: u8
  using unat_u8 [of v] by (simp add: object_bytes_def)

lemma byte_reads_back:
  assumes "buf_ok b"
  shows "reads_back (\<lambda>b v. write_bytes heap b (object_bytes EASY_LITTLE_ENDIAN (v :: u8)))
           (get_byte read_bytes) b v"
proof (rule reads_backI [where heap = heap and bs = "[v]", OF assms])
  show "length [v] \<le> node_room b" using node_room_pos [OF assms] by simp
  fix b2 ys
  assume "buf_ok b2" and "unread b2 = [v] @ ys"
  then show "\<exists>b3. get_byte read_bytes b2 = Inr (v, b3) \<and> unread b3 = ys"
    using buf.get_byte_exact [of b2 v ys] by auto
qed (simp_all add: object_bytes_u8)

lemma varint_reads_back:
  fixes v :: "'a::len word"
  assumes "buf_ok b" and "length (put_varint v) \<le> node_room b"
  shows "reads_back (\<lambda>b v. write_bytes heap b (put_varint v)) (get_varint read_bytes 0 0) b v"
  by (rule reads_backI [where heap = heap and bs = "put_varint v", OF assms(1)])
    (use assms get_varint_buffer in \<open>blast | simp\<close>)+

lemma zigzag_reads_back:
  fixes v :: "'a::len word"
  assumes "buf_ok b" and "length (put_varint (EncodeZigzag v)) \<le> node_room b"
  shows "reads_back (\<lambda>b v. write_bytes heap b (put_varint (EncodeZigzag v)))
    (\<lambda>b. bindE (get_varint read_bytes 0 0 b) (\<lambda>(v, b). Inr (DecodeZigzag v, b))) b v"
proof (rule reads_backI [where heap = heap and bs = "put_varint (EncodeZigzag v)", OF assms(1)])
  fix b2 ys
  assume "buf_ok b2" and "unread b2 = put_varint (EncodeZigzag v) @ ys"
  then show "\<exists>b3. bindE (get_varint read_bytes 0 0 b2) (\<lambda>(v, b). Inr (DecodeZigzag v, b)) = Inr (v, b3)
      \<and> unread b3 = ys"
    using get_varint_buffer [of b2 "EncodeZigzag v" ys] by (auto simp: Decode_EncodeZigzag)
qed (use assms in simp_all)

lemma varint32_length: "length (put_varint (v :: u32)) \<le> 5"
  using put_varint_length [of v 4] unat_bound [of v] by simp

lemma varint64_length: "length (put_varint (v :: u64)) \<le> 10"
  using put_varint_length [of v 9] unat_bound [of v] by simp

section \<open>Properties\<close>

text \<open>
  C10. Fixed-width integers round trip across machines: what a host of either byte order
  writes with \<open>writeFint8/Fuint8/.../Fuint64\<close>, \<open>writeFloat\<close> or \<open>writeDouble\<close> into a buffer
  (of either byte order, with room in the current node) a host of either byte order reads
  back with the matching reader, up to the same place.
\<close>

theorem fixed_int_roundtrip:
  assumes "buf_ok b" and "8 \<le> node_room b"
  shows "reads_back (writeFint8 heap) readFint8 b v8
    \<and> reads_back (writeFuint8 heap) readFuint8 b v8
    \<and> reads_back (writeFint16 host heap) (readFint16 host') b v16
    \<and> reads_back (writeFuint16 host heap) (readFuint16 host') b v16
    \<and> reads_back (writeFint32 host heap) (readFint32 host') b v32
    \<and> reads_back (writeFuint32 host heap) (readFuint32 host') b v32
    \<and> reads_back (writeFint64 host heap) (readFint64 host') b v64
    \<and> reads_back (writeFuint64 host heap) (readFuint64 host') b v64
    \<and> reads_back (writeFloat host heap) (readFloat host') b v32
    \<and> reads_back (writeDouble host heap) (readDouble host') b v64"
  using fixed_reads_back [OF assms(1), of v16 heap host host']
    fixed_reads_back [OF assms(1), of v32 heap host host']
    fixed_reads_back [OF assms(1), of v64 heap host host'] assms(2)
    byte_reads_back [OF assms(1)]
  unfolding reads_back_def fixed_defs writeFint8_def writeFuint8_def readFint8_def readFuint8_def
  by simp

lemma example_buffer: "buf_ok (new_Buffer heap 16)" "node_room (new_Buffer heap 16) = 16"
  by (simp_all add: new_Buffer_ok node_room_def) (simp add: new_Buffer_def)

theorem fixed_int_roundtrip_witness:
  "reads_back (writeFint32 EASY_LITTLE_ENDIAN (\<lambda>_ _. 0)) (readFint32 EASY_BIG_ENDIAN)
     (new_Buffer (\<lambda>_ _. 0) 16) 0x01020304"
  using fixed_int_roundtrip [of "new_Buffer (\<lambda>_ _. 0) 16"] example_buffer by simp

text \<open>
  C11. Varint integers round trip: \<open>writeUint32/64\<close> and the zigzag \<open>writeInt32/64\<close> take at most
  5 or 10 bytes, and with that much room in the node the readers return the value written,
  negative ones included, up to the same place.
\<close>

theorem varint_roundtrip:
  assumes "buf_ok b" and "10 \<le> node_room b"
  shows "reads_back (writeUint32 heap) readUint32 b v32 \<and> length (put_varint v32) \<le> 5
    \<and> reads_back (writeInt32 heap) readInt32 b v32
    \<and> reads_back (writeUint64 heap) readUint64 b v64 \<and> length (put_varint v64) \<le> 10
    \<and> reads_back (writeInt64 heap) readInt64 b v64"
  using varint_reads_back [OF assms(1), of v32 heap] varint_reads_back [OF assms(1), of v64 heap]
    zigzag_reads_back [OF assms(1), of v32 heap] zigzag_reads_back [OF assms(1), of v64 heap]
    varint32_length [of v32] varint32_length [of "EncodeZigzag v32"]
    varint64_length [of v64] varint64_length [of "EncodeZigzag v64"] assms(2)
  unfolding reads_back_def writeUint32_def writeInt32_def writeUint64_def writeInt64_def
    readUint32_def readInt32_def readUint64_def readInt64_def
  by simp

theorem varint_roundtrip_witness:
  "reads_back (writeInt64 (\<lambda>_ _. 0)) readInt64 (new_Buffer (\<lambda>_ _. 0) 16) (- 300)"
  using varint_roundtrip [of "new_Buffer (\<lambda>_ _. 0) 16"] example_buffer by simp

lemma frame_reads_back:
  fixes n :: "'a::len word"
  assumes "buf_ok b" and "v \<noteq> []" and "size_of n + length v \<le> node_room b" and "whole_bytes n"
    and "n = of_nat (length v)" and "length v < 2 ^ LENGTH('a)"
  shows "reads_back (\<lambda>b v. bindE (write_bytes heap b (put_fixed host (endian b) (of_nat (length v) :: 'a word)))
             (\<lambda>b. write_bytes heap b v))
           (\<lambda>b. bindE (get_fixed read_bytes host' (endian b) b) (\<lambda>(len :: 'a word, b). read_bytes b (unat len))) b v"
proof (rule reads_back_frameI [where heap = heap and hdr = "object_bytes (endian b) n" and n = n,
      OF assms(1,2)])
  show "object_bytes (endian b) n \<noteq> []"
    using dvd_imp_le [OF assms(4)] by (intro object_bytes_nonempty) simp
next
  fix b2 ys
  assume "buf_ok b2" and "unread b2 = object_bytes (endian b) n @ ys" and "endian b2 = endian b"
  then show "\<exists>b3. get_fixed read_bytes host' (endian b2) b2 = Inr (n, b3) \<and> buf_ok b3 \<and> unread b3 = ys"
    using get_fixed_buffer [OF assms(4), where ?b2.0 = b2 and order = "endian b" and ys = ys and host = host'] by auto
qed (use assms in \<open>simp_all add: put_fixed_bytes unat_of_nat take_bit_nat_eq_self\<close>)

lemma vint_frame_reads_back:
  assumes "buf_ok b" and "v \<noteq> []" and "10 + length v \<le> node_room b" and "length v < 2 ^ 64"
  shows "reads_back (\<lambda>b v. bindE (write_bytes heap b (put_varint (of_nat (length v) :: u64)))
             (\<lambda>b. write_bytes heap b v))
           (\<lambda>b. bindE (get_varint read_bytes 0 0 b) (\<lambda>(len :: u64, b). read_bytes b (unat len))) b v"
proof (rule reads_back_frameI [where heap = heap and hdr = "put_varint (of_nat (length v) :: u64)"
      and n = "of_nat (length v)", OF assms(1,2)])
  show "length (put_varint (of_nat (length v) :: u64)) + length v \<le> node_room b"
    using varint64_length [of "of_nat (length v)"] assms(3) by simp
  have "length v < 2 ^ LENGTH(64)" using assms(4) by simp
  then show "unat (of_nat (length v) :: u64) = length v"
    unfolding unat_of_nat by (rule mod_less)
qed (use get_varint_buffer in simp_all)

lemmas string_defs =
  writeStringF16_def writeStringF32_def writeStringF64_def writeStringVint_def
  readStringF16_def readStringF32_def readStringF64_def readStringVint_def

text \<open>
  C12. Length-prefixed strings round trip: a non-empty string whose length the prefix can hold,
  with room in the node for the prefix and the bytes, is read back by the matching reader.
\<close>

theorem string_roundtrip:
  assumes "buf_ok b" and "v \<noteq> []" and "10 + length v \<le> node_room b" and "length v < 2 ^ 16"
  shows "reads_back (writeStringF16 host heap) (readStringF16 host') b v
    \<and> reads_back (writeStringF32 host heap) (readStringF32 host') b v
    \<and> reads_back (writeStringF64 host heap) (readStringF64 host') b v
    \<and> reads_back (writeStringVint heap) readStringVint b v"
  using frame_reads_back [OF assms(1,2), of "of_nat (length v) :: u16" heap host host']
    frame_reads_back [OF assms(1,2), of "of_nat (length v) :: u32" heap host host']
    frame_reads_back [OF assms(1,2), of "of_nat (length v) :: u64" heap host host']
    vint_frame_reads_back [OF assms(1-3), of heap] assms(3,4)
  unfolding reads_back_def fixed_defs string_defs writeUint64_def readUint64_def
  by simp

theorem string_roundtrip_witness:
  "reads_back (writeStringF16 EASY_LITTLE_ENDIAN (\<lambda>_ _. 0)) (readStringF16 EASY_BIG_ENDIAN)
     (new_Buffer (\<lambda>_ _. 0) 16) [0x68, 0x69]"
  using string_roundtrip [of "new_Buffer (\<lambda>_ _. 0) 16"] example_buffer by simp

end
