(* ===== verification/BufferIo.thy ===== *)
theory BufferIo imports Buffer begin

text \<open>
  The rest of \<open>easy/net/Buffer.cc\<close>: the scatter/gather views the sockets use
  (\<open>getReadBuffers\<close>, \<open>getWriteBuffers\<close>), the string views and the file operations; and the
  buffer as a whole: every sequence of public operations keeps \<open>buf_ok\<close>.
\<close>

section \<open>Scatter/gather regions\<close>

text \<open>A \<open>struct iovec\<close>: a pointer into a node's memory (node number and offset) and a length.\<close>

record iovec =
  iov_node :: nat
  iov_off :: nat
  iov_len :: nat

text \<open>The loop the three functions share, from node \<open>i\<close> on with \<open>ncap\<close> bytes left in it.\<close>

function gather :: "u8 list list \<Rightarrow> nat \<Rightarrow> nat \<Rightarrow> nat \<Rightarrow> nat \<Rightarrow> fault + iovec list" where
  "gather ns i npos ncap len =
     (if len = 0 then Inr []
      else if len \<le> ncap then Inr [\<lparr>iov_node = i, iov_off = npos, iov_len = len\<rparr>]
      else bindE (deref ns (next_ptr ns i)) (\<lambda>(j, nd).
        bindE (gather ns j 0 (length nd) (len - ncap)) (\<lambda>iovs.
          Inr (\<lparr>iov_node = i, iov_off = npos, iov_len = ncap\<rparr> # iovs))))"
  by pat_completeness auto
termination
  by (relation "measure (\<lambda>(ns, i, npos, ncap, len). length ns - i)")
    (auto simp: faults next_ptr_def split: if_splits)

declare gather.simps [simp del]

definition getReadBuffers :: "buffer \<Rightarrow> nat \<Rightarrow> fault + nat \<times> iovec list" where
  "getReadBuffers b len0 =
     (let len = (if readSize b < len0 then readSize b else len0) in
      if len = 0 then Inr (0, [])
      else if baseSize b = 0 then Inl DivByZero
      else let npos = position b mod baseSize b in
        bindE (deref (nodes b) (cur b)) (\<lambda>(i, nd).
          bindE (gather (nodes b) i npos (sub64 (length nd) npos) len) (\<lambda>iovs.
            Inr (len, iovs))))"

text \<open>The \<open>while (count > 0)\<close> walk from \<open>root_\<close> of the overload with a position.\<close>

fun walk :: "u8 list list \<Rightarrow> nat \<Rightarrow> nat option \<Rightarrow> fault + nat option" where
  "walk ns 0 c = Inr c"
| "walk ns (Suc count) c = bindE (deref ns c) (\<lambda>(i, _). walk ns count (next_ptr ns i))"

definition getReadBuffers_at :: "buffer \<Rightarrow> nat \<Rightarrow> nat \<Rightarrow> fault + nat \<times> iovec list" where
  "getReadBuffers_at b len0 pos =
     (let len = (if readSize b < len0 then readSize b else len0) in
      if len = 0 then Inr (0, [])
      else if baseSize b = 0 then Inl DivByZero
      else let npos = pos mod baseSize b in
        bindE (walk (nodes b) (pos div baseSize b) (Some 0)) (\<lambda>c.
          bindE (deref (nodes b) c) (\<lambda>(i, nd).
            bindE (gather (nodes b) i npos (sub64 (length nd) npos) len) (\<lambda>iovs.
              Inr (len, iovs)))))"

definition getWriteBuffers :: "uninit \<Rightarrow> buffer \<Rightarrow> nat \<Rightarrow> fault + (nat \<times> iovec list) \<times> buffer" where
  "getWriteBuffers heap b0 len =
     (if len = 0 then Inr ((0, []), b0)
      else bindE (addCapacity heap b0 len) (\<lambda>b.
        if baseSize b = 0 then Inl DivByZero
        else let npos = position b mod baseSize b in
          bindE (deref (nodes b) (cur b)) (\<lambda>(i, nd).
            bindE (gather (nodes b) i npos (sub64 (length nd) npos) len) (\<lambda>iovs.
              Inr ((len, iovs), b)))))"

text \<open>What \<open>sendmsg\<close> takes from the regions and what \<open>recvmsg\<close> does to them.\<close>

definition iov_bytes :: "u8 list list \<Rightarrow> iovec list \<Rightarrow> u8 list" where
  "iov_bytes ns iovs =
     concat (map (\<lambda>v. take (iov_len v) (drop (iov_off v) (ns ! iov_node v))) iovs)"

fun scatter :: "u8 list list \<Rightarrow> iovec list \<Rightarrow> u8 list \<Rightarrow> u8 list list" where
  "scatter ns [] bs = ns"
| "scatter ns (v # iovs) bs =
     scatter (ns[iov_node v := overwrite (iov_off v) (take (iov_len v) bs) (ns ! iov_node v)])
       iovs (drop (iov_len v) bs)"

section \<open>Strings and files\<close>

definition toString :: "buffer \<Rightarrow> fault + u8 list" where
  "toString b = (if readSize b = 0 then Inr [] else read_at b (readSize b) (position b))"

text \<open>
  \<open>ss << setw(2) << setfill('0') << hex << str[i]\<close> with a \<open>char\<close> operand: the fill character,
  the character itself, a space; a newline before every 32nd.
\<close>

definition hex_cell :: "nat \<Rightarrow> u8 \<Rightarrow> u8 list" where
  "hex_cell i c = (if 0 < i \<and> i mod 32 = 0 then [0x0A] else []) @ [0x30, c, 0x20]"

fun hex_cells :: "nat \<Rightarrow> u8 list \<Rightarrow> u8 list" where
  "hex_cells i [] = []"
| "hex_cells i (c # cs) = hex_cell i c @ hex_cells (Suc i) cs"

definition toHexString :: "buffer \<Rightarrow> fault + u8 list" where
  "toHexString b = bindE (toString b) (\<lambda>str. Inr (hex_cells 0 str))"

text \<open>
  The loop of \<open>writeToFile\<close>. \<open>len\<close> is a \<open>size_t\<close> difference; a copy that leaves the node is a
  fault. The result is what the file holds.
\<close>

function write_file_loop :: "nat \<Rightarrow> u8 list list \<Rightarrow> nat option \<Rightarrow> nat \<Rightarrow> nat \<Rightarrow> fault + u8 list" where
  "write_file_loop base ns c pos read_size =
     (if read_size = 0 then Inr []
      else if base = 0 then Inl DivByZero
      else let diff = pos mod base;
               len = sub64 (if base < read_size then base else read_size) diff in
        bindE (deref ns c) (\<lambda>(i, nd).
          bindE (memcpy_out nd diff len) (\<lambda>bs.
            bindE (write_file_loop base ns (next_ptr ns i) (pos + len) (sub64 read_size len)) (\<lambda>bs'.
              Inr (bs @ bs')))))"
  by pat_completeness auto
termination
  by (relation "measure (\<lambda>(base, ns, c, pos, sz). ahead ns c)") (auto simp: ahead_next)

declare write_file_loop.simps [simp del]

text \<open>\<open>opened\<close> is whether the stream could be opened; \<open>None\<close> is a file left alone.\<close>

definition writeToFile :: "bool \<Rightarrow> buffer \<Rightarrow> fault + bool \<times> u8 list option" where
  "writeToFile opened b =
     (if \<not> opened then Inr (False, None)
      else bindE (write_file_loop (baseSize b) (nodes b) (cur b) (position b) (readSize b)) (\<lambda>bs.
        Inr (True, Some bs)))"

text \<open>
  The loop of \<open>readFromFile\<close>: \<open>ifs.read\<close> delivers the next \<open>baseSize_\<close> bytes or what is left,
  and sets \<open>eof\<close> only when it falls short. With \<open>baseSize_ = 0\<close> the stream never reports
  \<open>eof\<close>: the loop runs for ever, which is the value \<open>None\<close>.
\<close>

partial_function (option) read_file_loop :: "uninit \<Rightarrow> u8 list \<Rightarrow> buffer \<Rightarrow> (fault + buffer) option" where
  "read_file_loop heap file b =
     (case write_bytes heap b (take (baseSize b) file) of
        Inl e \<Rightarrow> Some (Inl e)
      | Inr b' \<Rightarrow> if length file < baseSize b then Some (Inr b')
                 else read_file_loop heap (drop (baseSize b) file) b')"

definition readFromFile :: "uninit \<Rightarrow> u8 list option \<Rightarrow> buffer \<Rightarrow> (fault + bool \<times> buffer) option" where
  "readFromFile heap file b =
     (case file of None \<Rightarrow> Some (Inr (False, b))
      | Some bs \<Rightarrow> map_option (\<lambda>r. bindE r (\<lambda>b'. Inr (True, b'))) (read_file_loop heap bs b))"

section \<open>Lemmas on regions\<close>

lemma scatter_keeps:
  assumes "blocks base ns" and "i < length ns" and "off + length bs \<le> base"
  shows "blocks base (ns[i := overwrite off bs (ns ! i)])"
  using assms unfolding blocks_def by (auto dest!: subsetD [OF set_update_subset_insert])

text \<open>
  From an offset inside the nodes the loop yields regions that together are exactly the
  \<open>len\<close> bytes that follow: gathering reads them, scattering overwrites them.
\<close>

lemma gather_correct:
  assumes "blocks base ns" and "i < length ns" and "npos < base"
    and "base * i + npos + len \<le> base * length ns"
  shows "\<exists>iovs. gather ns i npos (base - npos) len = Inr iovs
    \<and> iov_bytes ns iovs = take len (drop (base * i + npos) (concat ns))
    \<and> (\<forall>ns' bs. blocks base ns' \<longrightarrow> length ns' = length ns \<longrightarrow> length bs \<le> len \<longrightarrow>
         concat (scatter ns' iovs bs) = overwrite (base * i + npos) bs (concat ns')
         \<and> blocks base (scatter ns' iovs bs) \<and> length (scatter ns' iovs bs) = length ns')"
  using assms
proof (induction "length ns - i" arbitrary: i npos len rule: less_induct)
  case less
  have split: "drop (base * i + npos) (concat ns) = drop npos (ns ! i @ concat (drop (Suc i) ns))"
    using less.prems by (simp add: drop_concat_block)
  have len: "length (ns ! i) = base" using less.prems by simp
  consider (zero) "len = 0" | (fits) "0 < len" "len \<le> base - npos" | (over) "base - npos < len"
    by linarith
  then show ?case
  proof cases
    case zero
    then show ?thesis by (simp add: gather.simps iov_bytes_def overwrite_def)
  next
    case fits
    then have "npos + len \<le> base" using less.prems(3) by linarith
    then have "concat (ns'[i := overwrite npos bs (ns' ! i)]) = overwrite (base * i + npos) bs (concat ns')
        \<and> blocks base (ns'[i := overwrite npos bs (ns' ! i)])"
      if "blocks base ns'" "length ns' = length ns" "length bs \<le> len"
      for ns' :: "u8 list list" and bs
      using that less.prems(2) by (simp add: concat_update_block scatter_keeps)
    with fits show ?thesis
      using len split by (simp add: gather.simps iov_bytes_def)
  next
    case over
    let ?k = "base - npos"
    let ?v = "\<lparr>iov_node = i, iov_off = npos, iov_len = ?k\<rparr>"
    have "base * Suc i < base * length ns"
      using less.prems(3,4) over unfolding mult_Suc_right by linarith
    then have i': "Suc i < length ns" by (simp del: mult_Suc_right)
    have len': "length (ns ! Suc i) = base" using less.prems(1) i' by simp
    have pos': "base * i + npos + ?k = base * Suc i + 0" using less.prems(3) by simp
    have "length ns - Suc i < length ns - i" using i' by linarith
    moreover have "base * Suc i + 0 + (len - ?k) \<le> base * length ns"
      using less.prems(3,4) over unfolding mult_Suc_right by linarith
    moreover have "0 < base" using less.prems(3) by simp
    ultimately obtain iovs where iovs: "gather ns (Suc i) 0 (base - 0) (len - ?k) = Inr iovs"
      "iov_bytes ns iovs = take (len - ?k) (drop (base * Suc i + 0) (concat ns))"
      and sc: "\<And>ns' bs. blocks base ns' \<Longrightarrow> length ns' = length ns \<Longrightarrow> length bs \<le> len - ?k \<Longrightarrow>
         concat (scatter ns' iovs bs) = overwrite (base * Suc i + 0) bs (concat ns')
         \<and> blocks base (scatter ns' iovs bs) \<and> length (scatter ns' iovs bs) = length ns'"
      using less.hyps [of "Suc i" 0 "len - ?k"] less.prems(1) i' by metis
    have g: "gather ns i npos ?k len = Inr (?v # iovs)"
      using over i' len' iovs(1) by (simp add: gather.simps [of ns i] next_ptr_def)
    have "drop (base * Suc i + 0) (concat ns) = concat (drop (Suc i) ns)"
      using drop_concat_blocks [OF less.prems(1), of "Suc i"] by simp
    then have b: "iov_bytes ns (?v # iovs) = take len (drop (base * i + npos) (concat ns))"
      unfolding split using iovs(2) len over less.prems(3) by (simp add: iov_bytes_def del: mult_Suc_right)
    have "concat (scatter ns' (?v # iovs) bs) = overwrite (base * i + npos) bs (concat ns')
        \<and> blocks base (scatter ns' (?v # iovs) bs) \<and> length (scatter ns' (?v # iovs) bs) = length ns'"
      if ns': "blocks base ns'" "length ns' = length ns" "length bs \<le> len" for ns' bs
    proof -
      let ?ns = "ns'[i := overwrite npos (take ?k bs) (ns' ! i)]"
      have k: "npos + length (take ?k bs) \<le> base" using less.prems(3) by simp
      have ok: "blocks base ?ns" using less.prems(2) ns' k by (intro scatter_keeps) simp_all
      have first: "concat ?ns = overwrite (base * i + npos) (take ?k bs) (concat ns')"
        using less.prems(2) ns' k by (intro concat_update_block) simp_all
      have inside: "base * i + npos \<le> length (concat ns')"
        using less.prems(4) ns' by (simp add: length_concat_blocks [where k = base])
      have "overwrite (base * Suc i + 0) (drop ?k bs) (concat ?ns)
          = overwrite (base * i + npos) bs (concat ns')"
      proof (cases "?k \<le> length bs")
        case True
        then have "length (take ?k bs) = ?k" by simp
        then show ?thesis
          using overwrite_overwrite [OF inside, of "take ?k bs" "drop ?k bs"]
          unfolding first pos' [symmetric] by simp
      next
        case False
        then show ?thesis using first by (simp del: mult_Suc_right)
      qed
      then show ?thesis using sc [of ?ns "drop ?k bs"] ok ns' by simp
    qed
    with g b show ?thesis by blast
  qed
qed


lemma gather_cursor:
  assumes "buf_ok b" and "position b < capacity b" and "position b + len \<le> capacity b"
  obtains i iovs where "deref (nodes b) (cur b) = Inr (i, nodes b ! i)" and "i < length (nodes b)"
    and "gather (nodes b) i (position b mod baseSize b)
           (sub64 (length (nodes b ! i)) (position b mod baseSize b)) len = Inr iovs"
    and "iov_bytes (nodes b) iovs = take len (drop (position b) (contents b))"
    and "\<And>bs. length bs \<le> len \<Longrightarrow>
           concat (scatter (nodes b) iovs bs) = overwrite (position b) bs (contents b)
           \<and> blocks (baseSize b) (scatter (nodes b) iovs bs)
           \<and> length (scatter (nodes b) iovs bs) = length (nodes b)"
proof -
  let ?base = "baseSize b" and ?r = "position b mod baseSize b"
  obtain i where i: "cur b = Some i" "i < length (nodes b)" "position b = ?base * i + ?r"
    using buf_ok_cur [OF assms(1,2)] by blast
  have bl: "blocks ?base (nodes b)" and r: "?r < ?base"
    and cap: "capacity b = ?base * length (nodes b)"
    using assms(1) by (auto simp: buf_ok_def)
  have "?base * i + ?r + len \<le> ?base * length (nodes b)"
    using assms(3) cap i(3) by simp
  then obtain iovs where iovs: "gather (nodes b) i ?r (?base - ?r) len = Inr iovs"
      "iov_bytes (nodes b) iovs = take len (drop (?base * i + ?r) (concat (nodes b)))"
      "\<And>ns' bs. blocks ?base ns' \<Longrightarrow> length ns' = length (nodes b) \<Longrightarrow> length bs \<le> len \<Longrightarrow>
         concat (scatter ns' iovs bs) = overwrite (?base * i + ?r) bs (concat ns')
         \<and> blocks ?base (scatter ns' iovs bs) \<and> length (scatter ns' iovs bs) = length ns'"
    using gather_correct [OF bl i(2) r] by metis
  show ?thesis
    using iovs(1,2) iovs(3) [OF bl] i r bl
    by (intro that [of i iovs]) (simp_all add: contents_def flip: i(3))
qed

lemma read_region_contents:
  "buf_ok b \<Longrightarrow> n \<le> readSize b \<Longrightarrow> take n (drop (position b) (contents b)) = take n (unread b)"
  by (simp add: readSize_ok unread_contents)

lemma new_Buffer_view:
  "position (new_Buffer heap base) = 0" "stored (new_Buffer heap base) = []"
  by (simp_all add: new_Buffer_def stored_def)

section \<open>Properties of the views\<close>

text \<open>
  \<open>getReadBuffers\<close> exposes exactly the next unread bytes: on a well-formed buffer it
  succeeds, returns the smaller of \<open>len\<close> and the readable size, and its regions hold that
  many bytes from the cursor on, in order.
\<close>

theorem getReadBuffers_correct:
  assumes "buf_ok b"
  shows "\<exists>iovs. getReadBuffers b len = Inr (min len (length (unread b)), iovs)
    \<and> iov_bytes (nodes b) iovs = take len (unread b)"
proof (cases "min len (length (unread b)) = 0")
  case True
  then have none: "take len (unread b) = []" by (auto simp: min_def split: if_splits)
  have "(if readSize b < len then readSize b else len) = 0"
    using True assms by (auto simp: readSize_ok unread_length min_def split: if_splits)
  then have "getReadBuffers b len = Inr (0, [])" by (simp add: getReadBuffers_def)
  then show ?thesis using True none by (simp add: iov_bytes_def)
next
  case False
  define n where "n = (if readSize b < len then readSize b else len)"
  have n: "n = min len (length (unread b))" "n \<le> readSize b"
    using assms by (auto simp: n_def readSize_ok unread_length)
  have "n \<noteq> 0" using False n(1) by simp
  moreover have "n \<le> bufSize b - position b" using n(2) assms by (simp add: readSize_ok)
  ultimately have lt: "position b + n \<le> capacity b" "position b < capacity b" "baseSize b \<noteq> 0" "n \<noteq> 0"
    using assms by (auto simp: buf_ok_def)
  obtain i iovs where "deref (nodes b) (cur b) = Inr (i, nodes b ! i)"
      "gather (nodes b) i (position b mod baseSize b)
         (sub64 (length (nodes b ! i)) (position b mod baseSize b)) n = Inr iovs"
      and cont: "iov_bytes (nodes b) iovs = take n (drop (position b) (contents b))"
    by (rule gather_cursor [OF assms lt(2,1)])
  then have "getReadBuffers b len = Inr (n, iovs)"
    unfolding getReadBuffers_def Let_def n_def [symmetric] using lt(3,4) by simp
  moreover have "iov_bytes (nodes b) iovs = take len (unread b)"
    using cont read_region_contents [OF assms n(2)] n(1) by (metis take_take take_all_iff order_refl)
  ultimately show ?thesis using n(1) by blast
qed

theorem getReadBuffers_correct_witness:
  "\<exists>iovs. getReadBuffers (wrap_Buffer [1, 2, 3] False) 2 = Inr (2, iovs)
     \<and> iov_bytes [[1, 2, 3]] iovs = [1, 2]"
  using getReadBuffers_correct [OF wrap_Buffer_ok [of "[1, 2, 3]" False], of 2]
  by (simp add: wrap_Buffer_def unread_def stored_def contents_def numeral_2_eq_2)

text \<open>What \<open>recvmsg\<close> leaves behind when it delivers \<open>bs\<close> into the regions.\<close>

definition recv_into :: "buffer \<Rightarrow> iovec list \<Rightarrow> u8 list \<Rightarrow> buffer" where
  "recv_into b iovs bs = b\<lparr>nodes := scatter (nodes b) iovs bs\<rparr>"

text \<open>
  \<open>getWriteBuffers\<close> followed by a receive and \<open>setPosition\<close> is a write that never loses
  data: whatever part \<open>bs\<close> of the requested \<open>len\<close> bytes arrives, across any number of nodes,
  the buffer stores it at the old position, keeps everything before and behind it, and has
  its cursor right behind it.
\<close>

theorem getWriteBuffers_receive:
  assumes "buf_ok b" and "0 < len" and "length bs \<le> len"
  shows "\<exists>iovs b1 b2. getWriteBuffers heap b len = Inr ((len, iovs), b1)
    \<and> setPosition (recv_into b1 iovs bs) (position b + length bs) = Inr b2
    \<and> buf_ok b2 \<and> stored b2 = overwrite (position b) bs (stored b)
    \<and> position b2 = position b + length bs \<and> position b1 = position b \<and> endian b2 = endian b"
proof -
  obtain c where c: "addCapacity heap b len = Inr c" "buf_ok c" "stored c = stored b"
      "position b + len \<le> capacity c" and pos: "position c = position b" "bufSize c = bufSize b"
    and endian: "endian c = endian b"
    by (rule addCapacity_ok [OF assms(1), of heap len])
  have lt: "position c < capacity c" "position c + len \<le> capacity c" "baseSize c \<noteq> 0"
    using c assms(2) pos by (auto simp: buf_ok_def)
  obtain i iovs where g: "deref (nodes c) (cur c) = Inr (i, nodes c ! i)"
      "gather (nodes c) i (position c mod baseSize c)
         (sub64 (length (nodes c ! i)) (position c mod baseSize c)) len = Inr iovs"
      "\<And>bs. length bs \<le> len \<Longrightarrow>
           concat (scatter (nodes c) iovs bs) = overwrite (position c) bs (contents c)
           \<and> blocks (baseSize c) (scatter (nodes c) iovs bs)
           \<and> length (scatter (nodes c) iovs bs) = length (nodes c)"
    by (rule gather_cursor [OF c(2) lt(1,2)]) blast
  have get: "getWriteBuffers heap b len = Inr ((len, iovs), c)"
    using assms(2) c(1) g(1,2) lt(3) by (simp add: getWriteBuffers_def Let_def)
  let ?d = "recv_into c iovs bs"
  have sc: "concat (scatter (nodes c) iovs bs) = overwrite (position c) bs (contents c)"
      "blocks (baseSize c) (scatter (nodes c) iovs bs)"
      "length (scatter (nodes c) iovs bs) = length (nodes c)"
    using g(3) [OF assms(3)] by simp_all
  have d: "buf_ok ?d" "contents ?d = overwrite (position c) bs (contents c)"
    using c(2) sc by (auto simp: recv_into_def buf_ok_def contents_def simp flip: length_greater_0_conv)
  have le: "position b + length bs \<le> capacity ?d"
    using lt(2) assms(3) pos by (simp add: recv_into_def)
  obtain b2 where b2: "setPosition ?d (position b + length bs) = Inr b2"
    using setPosition_ok [OF d(1) le] by blast
  have "stored b2 = take (max (bufSize c) (position c + length bs)) (overwrite (position c) bs (contents c))"
    using setPosition_keeps(4) [OF d(1) b2] d(2) pos by (simp add: recv_into_def)
  also have "\<dots> = overwrite (position c) bs (stored c)"
    unfolding stored_def using c(2) lt(2) assms(3) contents_length [OF c(2)]
    by (intro take_max_overwrite) (auto simp: buf_ok_def)
  finally have "stored b2 = overwrite (position b) bs (stored b)" using c(3) pos by simp
  moreover have "endian b2 = endian b"
    using setPosition_keeps(5) [OF d(1) b2] endian by (simp add: recv_into_def)
  ultimately show ?thesis
    using get b2 setPosition_keeps(1,2) [OF d(1) b2] pos(1) by blast
qed

theorem getWriteBuffers_receive_witness:
  "\<exists>iovs b1 b2. getWriteBuffers (\<lambda>_ _. 0) (new_Buffer (\<lambda>_ _. 0) 2) 5 = Inr ((5, iovs), b1)
    \<and> setPosition (recv_into b1 iovs [7, 8, 9]) 3 = Inr b2
    \<and> stored b2 = [7, 8, 9]"
  using getWriteBuffers_receive [OF new_Buffer_ok [of 2 "\<lambda>_ _. 0"], of 5 "[7, 8, 9]" "\<lambda>_ _. 0"]
  by (simp add: new_Buffer_view overwrite_def numeral_3_eq_3) blast

text \<open>
  One call of \<open>write\<close> stores only what fits in the cursor's node: the buffer gains the
  first \<open>node_room\<close> bytes at the cursor and the call reports success, so of a longer block
  the rest is lost.
\<close>

theorem write_stops_at_node:
  assumes "buf_ok b" and "bs \<noteq> []"
  shows "\<exists>b'. write_bytes heap b bs = Inr b' \<and> buf_ok b'
    \<and> stored b' = overwrite (position b) (take (node_room b) bs) (stored b)
    \<and> position b' = position b + min (length bs) (node_room b)"
proof -
  have "take (min (length bs) (node_room b)) bs = take (node_room b) bs" by (simp add: min_def)
  then show ?thesis using write_bytes_ok [OF assms, of heap] by metis
qed

theorem write_stops_at_node_witness:
  "\<exists>b'. write_bytes (\<lambda>_ _. 0) (new_Buffer (\<lambda>_ _. 0) 2) [1, 2, 3] = Inr b' \<and> stored b' = [1, 2]"
  using write_stops_at_node [OF new_Buffer_ok [of 2 "\<lambda>_ _. 0"], of "[1, 2, 3]" "\<lambda>_ _. 0"]
  by (auto simp: node_room_def new_Buffer_def stored_def overwrite_def numeral_2_eq_2)

section \<open>Strings\<close>

text \<open>
  \<open>toString\<close> of a well-formed buffer is its unread content, and \<open>toHexString\<close> prints it in
  cells of a fill character, the raw byte and a space, with a line break before every 32nd.
\<close>

theorem toString_correct:
  assumes "buf_ok b"
  shows "toString b = Inr (unread b) \<and> toHexString b = Inr (hex_cells 0 (unread b))"
proof -
  have "toString b = Inr (unread b)"
  proof (cases "readSize b = 0")
    case True
    then show ?thesis using assms by (simp add: toString_def readSize_ok unread_def stored_length)
  next
    case False
    then have lt: "position b < capacity b" using assms by (auto simp: readSize_ok buf_ok_def)
    obtain i where "cur b = Some i" "i < length (nodes b)" using buf_ok_cur [OF assms lt] by blast
    moreover have "baseSize b \<noteq> 0" using assms by (simp add: buf_ok_def)
    moreover have "take (readSize b) (unread b) = unread b"
      using assms by (simp add: readSize_ok unread_length)
    moreover have "read_loop (nodes b) (cur b) (position b mod baseSize b) (readSize b)
      = Inr (take (readSize b) (unread b), node_ptr (baseSize b) (length (nodes b)) (position b + readSize b))"
      using assms lt by (intro read_loop_buffer) (simp_all add: readSize_ok)
    ultimately show ?thesis using False by (simp add: toString_def read_at_def)
  qed
  then show ?thesis by (simp add: toHexString_def)
qed

theorem toString_correct_witness:
  "toHexString (wrap_Buffer [0x41, 0x42] False) = Inr [0x30, 0x41, 0x20, 0x30, 0x42, 0x20]"
  using toString_correct [OF wrap_Buffer_ok [of "[0x41, 0x42]" False]]
  by (simp add: wrap_Buffer_def unread_def stored_def contents_def numeral_2_eq_2 hex_cell_def)

section \<open>Files\<close>

lemma write_file_loop_correct:
  assumes "blocks base ns" and "0 < base" and "pos + sz \<le> base * length ns"
    and "0 < sz \<Longrightarrow> pos mod base = 0 \<or> base \<le> sz" and "0 < sz \<Longrightarrow> c = node_ptr base (length ns) pos"
  shows "write_file_loop base ns c pos sz = Inr (take sz (drop pos (concat ns)))"
  using assms
proof (induction sz arbitrary: c pos rule: less_induct)
  case (less sz)
  show ?case
  proof (cases "sz = 0")
    case True
    then show ?thesis by (simp add: write_file_loop.simps)
  next
    case False
    let ?i = "pos div base" and ?d = "pos mod base"
    define len where "len = (if base < sz then base else sz) - ?d"
    have d: "?d < base" using less.prems(2) by simp
    have i: "?i < length ns" and pos: "base * ?i + ?d = pos"
      using position_split [of base pos "length ns"] less.prems(2,3) False by auto
    have len: "0 < len" "len \<le> sz" "?d + len \<le> base" "?d \<le> (if base < sz then base else sz)"
      using less.prems(4) False d by (auto simp: len_def)
    have sub: "sub64 (if base < sz then base else sz) ?d = len" using len(4) by (simp add: len_def)
    have c: "c = Some ?i" using less.prems(3,5) False by (simp add: node_ptr_def)
    have nd: "length (ns ! ?i) = base" using less.prems(1) i by simp
    have rest: "write_file_loop base ns (next_ptr ns ?i) (pos + len) (sz - len)
        = Inr (take (sz - len) (drop (pos + len) (concat ns)))"
    proof (rule less.IH)
      show "sz - len < sz" using len False by simp
      show "pos + len + (sz - len) \<le> base * length ns" using less.prems(3) len by simp
      have full: "?d + len = base" if "len < sz"
        using that less.prems(4) d unfolding len_def by (auto split: if_splits)
      have next_pos: "pos + len = base * Suc ?i" if "len < sz"
        using full [OF that] pos unfolding mult_Suc_right by linarith
      show "(pos + len) mod base = 0 \<or> base \<le> sz - len" if "0 < sz - len"
        unfolding next_pos [OF that [unfolded zero_less_diff]] by simp
      show "next_ptr ns ?i = node_ptr base (length ns) (pos + len)" if "0 < sz - len"
        unfolding next_pos [OF that [unfolded zero_less_diff]]
        using node_ptr_boundary less.prems(2) by metis
    qed (use less.prems in auto)
    have "drop pos (concat ns) = drop ?d (ns ! ?i @ concat (drop (Suc ?i) ns))"
      using drop_concat_block [OF less.prems(1) i, of ?d] pos by simp
    then have "take len (drop ?d (ns ! ?i)) = take len (drop pos (concat ns))"
      using nd len(3) d by simp
    then have "take len (drop ?d (ns ! ?i)) @ take (sz - len) (drop (pos + len) (concat ns))
        = take sz (drop pos (concat ns))"
      using take_add [of len "sz - len" "drop pos (concat ns)"] len(2) by (simp add: add.commute)
    then show ?thesis
      unfolding c using False less.prems(2) i nd len(2,3) sub rest
      by (simp add: write_file_loop.simps [of base ns "Some ?i" pos sz])
  qed
qed


text \<open>When fewer bytes than the node's offset are left, the length wraps around.\<close>

lemma write_file_loop_wraps:
  assumes "blocks base ns" and "base < 2 ^ 64" and "0 < sz" and "sz < base" and "sz < pos mod base"
  shows "isl (write_file_loop base ns c pos sz)"
proof -
  have big: "base < pos mod base + sub64 sz (pos mod base)"
    using assms(2,3,5) by (simp add: sub64_def)
  show ?thesis
  proof (cases "deref ns c")
    case (Inr x)
    obtain i where "x = (i, ns ! i)" "i < length ns" using Inr by (auto simp: faults)
    then show ?thesis
      using assms big Inr by (simp add: write_file_loop.simps [of base] memcpy_out_def)
  qed (use assms in \<open>simp add: write_file_loop.simps [of base]\<close>)
qed

text \<open>When exactly the offset is left, the loop writes nothing until it runs off the list.\<close>

lemma write_file_loop_stuck:
  assumes "blocks base ns" and "0 < sz" and "sz < base" and "sz = pos mod base"
  shows "isl (write_file_loop base ns c pos sz)"
proof (induction "ahead ns c" arbitrary: c rule: less_induct)
  case less
  show ?case
  proof (cases "deref ns c")
    case (Inr x)
    obtain i where x: "x = (i, ns ! i)" "i < length ns" using Inr by (auto simp: faults)
    have "isl (write_file_loop base ns (next_ptr ns i) pos sz)"
      using less ahead_next Inr x by simp
    moreover obtain e where "write_file_loop base ns (next_ptr ns i) pos sz = Inl e"
      using calculation by (auto simp: isl_def)
    ultimately show ?thesis
      using assms Inr x by (simp add: write_file_loop.simps [of base ns c] memcpy_out_def)
  qed (use assms in \<open>simp add: write_file_loop.simps [of base]\<close>)
qed

lemma write_file_loop_fails:
  assumes "blocks base ns" and "base < 2 ^ 64" and "0 < sz" and "sz < base" and "pos mod base \<noteq> 0"
  shows "isl (write_file_loop base ns c pos sz)"
proof (cases "sz \<le> pos mod base")
  case True
  then show ?thesis
    using write_file_loop_wraps [OF assms(1-4)] write_file_loop_stuck [OF assms(1,3,4)]
    by (cases "sz = pos mod base") auto
next
  case False
  let ?d = "pos mod base"
  have "(pos + (sz - ?d)) mod base = (?d + (sz - ?d)) mod base" by (simp add: mod_add_left_eq)
  then have "(pos + (sz - ?d)) mod base = sz" using False assms(4) by simp
  then have rest: "isl (write_file_loop base ns c' (pos + (sz - ?d)) ?d)" for c'
    using assms False by (intro write_file_loop_wraps) auto
  show ?thesis
  proof (cases "deref ns c")
    case (Inr x)
    obtain i where x: "x = (i, ns ! i)" "i < length ns" using Inr by (auto simp: faults)
    obtain e where "write_file_loop base ns (next_ptr ns i) (pos + (sz - ?d)) ?d = Inl e"
      using rest by (auto simp: isl_def)
    then show ?thesis
      using assms False Inr x by (simp add: write_file_loop.simps [of base ns c] memcpy_out_def)
  qed (use assms in \<open>simp add: write_file_loop.simps [of base]\<close>)
qed

text \<open>
  \<open>writeToFile\<close> writes exactly the unread bytes when the cursor is at the start of a node,
  or at least a node's worth is unread, or nothing is; in every other state the length it
  computes wraps around and it reads outside the buffer.
\<close>

theorem writeToFile_correct:
  assumes "buf_ok b" and "capacity b < 2 ^ 64"
  shows "if position b mod baseSize b = 0 \<or> baseSize b \<le> readSize b \<or> readSize b = 0
    then writeToFile True b = Inr (True, Some (unread b))
    else isl (writeToFile True b)"
proof -
  have bl: "blocks (baseSize b) (nodes b)" "0 < baseSize b" "baseSize b \<le> capacity b"
    using assms(1) by (auto simp: buf_ok_def Suc_leI)
  have fits: "position b + readSize b \<le> baseSize b * length (nodes b)"
    using assms(1) by (simp add: readSize_ok) (simp add: buf_ok_def)
  have cont: "take (readSize b) (drop (position b) (concat (nodes b))) = unread b"
    using read_region_contents [OF assms(1) order_refl] unread_length [OF assms(1)] readSize_ok [OF assms(1)]
    by (simp add: contents_def)
  show ?thesis
  proof (cases "position b mod baseSize b = 0 \<or> baseSize b \<le> readSize b \<or> readSize b = 0")
    case True
    have "write_file_loop (baseSize b) (nodes b) (cur b) (position b) (readSize b) = Inr (unread b)"
      unfolding cont [symmetric]
      using True assms(1) by (intro write_file_loop_correct [OF bl(1,2) fits]) (auto simp: buf_ok_def)
    with True show ?thesis by (simp add: writeToFile_def)
  next
    case False
    then have "isl (write_file_loop (baseSize b) (nodes b) (cur b) (position b) (readSize b))"
      using bl assms(2) by (intro write_file_loop_fails) auto
    then obtain e where "write_file_loop (baseSize b) (nodes b) (cur b) (position b) (readSize b) = Inl e"
      by (auto simp: isl_def)
    with False show ?thesis by (auto simp: writeToFile_def)
  qed
qed

theorem writeToFile_correct_witness:
  "writeToFile True (wrap_Buffer [1, 2, 3] False) = Inr (True, Some [1, 2, 3])"
  using writeToFile_correct [OF wrap_Buffer_ok [of "[1, 2, 3]" False]]
  by (simp add: wrap_Buffer_def unread_def stored_def contents_def)

text \<open>Loading a file: at node boundaries the writes never cut anything off.\<close>

lemma read_file_loop_aligned:
  assumes "buf_ok b" and "position b mod baseSize b = 0"
  shows "\<exists>b'. read_file_loop heap bytes b = Some (Inr b') \<and> buf_ok b'
    \<and> stored b' = overwrite (position b) bytes (stored b) \<and> position b' = position b + length bytes"
  using assms
proof (induction "length bytes" arbitrary: bytes b rule: less_induct)
  case less
  let ?base = "baseSize b" and ?chunk = "take (baseSize b) bytes"
  have base: "0 < ?base" and room: "node_room b = ?base"
    using less.prems by (simp_all add: buf_ok_def node_room_def)
  show ?case
  proof (cases "bytes = []")
    case True
    then show ?thesis
      using less.prems base by (intro exI [of _ b]) (simp add: read_file_loop.simps [of heap "[]" b] write_bytes_def)
  next
    case False
    have ne: "?chunk \<noteq> []" using False base by simp
    have k: "min (length ?chunk) (node_room b) = length ?chunk" "take (length ?chunk) ?chunk = ?chunk"
      unfolding room by simp_all (simp add: min_def)
    obtain c where c: "write_bytes heap b ?chunk = Inr c" "buf_ok c"
        "stored c = overwrite (position b) ?chunk (stored b)"
        "position c = position b + length ?chunk" "baseSize c = ?base"
      by (rule write_bytes_ok [OF less.prems(1) ne, of heap, unfolded k])
    show ?thesis
    proof (cases "length bytes < ?base")
      case True
      then show ?thesis using c by (intro exI [of _ c]) (simp add: read_file_loop.simps [of heap bytes b])
    next
      case False
      let ?rest = "drop ?base bytes"
      have "length ?rest < length bytes" using False base by simp
      moreover have pc: "position c = position b + ?base" using c(4) False by simp
      moreover have "position c mod baseSize c = 0" using pc c(5) less.prems(2) by simp
      ultimately obtain b' where b': "read_file_loop heap ?rest c = Some (Inr b')" "buf_ok b'"
          "stored b' = overwrite (position c) ?rest (stored c)"
          "position b' = position c + length ?rest"
        using less.hyps [of ?rest c, OF _ c(2)] by metis
      have "position b \<le> length (stored b)"
        using less.prems(1) by (simp add: stored_length) (simp add: buf_ok_def)
      then have "stored b' = overwrite (position b) bytes (stored b)"
        using b'(3) c(3,4) overwrite_overwrite [of "position b" "stored b" ?chunk ?rest] by simp
      then show ?thesis
        using b' c False pc by (intro exI [of _ b']) (simp add: read_file_loop.simps [of heap bytes b])
    qed
  qed
qed

text \<open>
  \<open>readFromFile\<close> ends and stores the whole file at the cursor when the cursor is at the
  start of a node, whatever the file's length; a file that cannot be opened changes nothing.
\<close>

theorem readFromFile_correct:
  assumes "buf_ok b" and "position b mod baseSize b = 0"
  shows "readFromFile heap None b = Some (Inr (False, b))
    \<and> (\<exists>b'. readFromFile heap (Some bytes) b = Some (Inr (True, b')) \<and> buf_ok b'
        \<and> stored b' = overwrite (position b) bytes (stored b)
        \<and> position b' = position b + length bytes)"
  using read_file_loop_aligned [OF assms, of heap bytes] by (auto simp: readFromFile_def)

theorem readFromFile_correct_witness:
  "\<exists>b'. readFromFile (\<lambda>_ _. 0) (Some [1, 2, 3, 4, 5]) (new_Buffer (\<lambda>_ _. 0) 2) = Some (Inr (True, b'))
     \<and> stored b' = [1, 2, 3, 4, 5]"
  using readFromFile_correct [OF new_Buffer_ok [of 2 "\<lambda>_ _. 0"], of "\<lambda>_ _. 0" "[1, 2, 3, 4, 5]"]
  by (simp add: new_Buffer_view overwrite_def) blast


section \<open>All reachable buffers\<close>

text \<open>
  The public operations that change the buffer, one call each; the typed readers and writers
  are sequences of \<open>read\<close>s and \<open>write\<close>s.
\<close>

inductive buf_step :: "uninit \<Rightarrow> buffer \<Rightarrow> buffer \<Rightarrow> bool" for heap where
  step_write: "write_bytes heap b bs = Inr b' \<Longrightarrow> buf_step heap b b'"
| step_read: "read_bytes b n = Inr (bs, b') \<Longrightarrow> buf_step heap b b'"
| step_setPosition: "setPosition b v = Inr b' \<Longrightarrow> buf_step heap b b'"
| step_clear: "buf_step heap b (clear b)"
| step_endian: "buf_step heap b (setIsLittleEndian b val)"
| step_getWriteBuffers: "getWriteBuffers heap b len = Inr (r, b') \<Longrightarrow> buf_step heap b b'"
| step_readFromFile: "readFromFile heap f b = Some (Inr (ok, b')) \<Longrightarrow> buf_step heap b b'"

inductive buf_reachable :: "uninit \<Rightarrow> buffer \<Rightarrow> bool" for heap where
  reach_new: "0 < base \<Longrightarrow> buf_reachable heap (new_Buffer heap base)"
| reach_wrap: "data \<noteq> [] \<Longrightarrow> buf_reachable heap (wrap_Buffer data own)"
| reach_step: "buf_reachable heap b \<Longrightarrow> buf_step heap b b' \<Longrightarrow> buf_reachable heap b'"

inductive_cases buf_stepE: "buf_step heap b b'"

lemma write_bytes_keeps:
  assumes "buf_ok b" and "write_bytes heap b bs = Inr b'"
  shows "buf_ok b'"
proof (cases "bs = []")
  case True
  then show ?thesis using assms by (simp add: write_bytes_def)
next
  case False
  then show ?thesis using write_bytes_ok [OF assms(1) False, of heap] assms(2) by auto
qed

lemma write_bytes_total: "buf_ok b \<Longrightarrow> \<exists>b'. write_bytes heap b bs = Inr b'"
  by (cases "bs = []") (simp add: write_bytes_def, metis write_bytes_ok)

lemma read_file_loop_keeps:
  assumes "buf_ok b" and "read_file_loop heap bytes b = Some (Inr b')"
  shows "buf_ok b'"
  using assms
proof (induction "length bytes" arbitrary: bytes b rule: less_induct)
  case less
  obtain c where c: "write_bytes heap b (take (baseSize b) bytes) = Inr c"
    using write_bytes_total [OF less.prems(1)] by blast
  note ok = write_bytes_keeps [OF less.prems(1) c]
  show ?case
  proof (cases "length bytes < baseSize b")
    case True
    then show ?thesis using less.prems(2) c ok by (simp add: read_file_loop.simps [of heap bytes b])
  next
    case False
    then have "read_file_loop heap (drop (baseSize b) bytes) c = Some (Inr b')"
      using less.prems(2) c by (simp add: read_file_loop.simps [of heap bytes b])
    moreover have "length (drop (baseSize b) bytes) < length bytes"
      using False less.prems(1) by (auto simp: buf_ok_def)
    ultimately show ?thesis using less.hyps ok by blast
  qed
qed

lemma getWriteBuffers_keeps:
  assumes "buf_ok b" and "getWriteBuffers heap b len = Inr (r, b')"
  shows "buf_ok b'"
proof -
  obtain c where "addCapacity heap b len = Inr c" "buf_ok c"
    by (rule addCapacity_ok [OF assms(1), of heap len])
  then show ?thesis
    using assms by (auto simp: getWriteBuffers_def Let_def faults split: if_splits prod.splits)
qed

lemma buf_step_keeps: "buf_step heap b b' \<Longrightarrow> buf_ok b \<Longrightarrow> buf_ok b'"
proof (induction rule: buf_step.induct)
  case (step_endian b val)
  then show ?case by (simp add: setIsLittleEndian_def buf_ok_def)
next
  case (step_readFromFile f b ok b')
  then show ?case
    by (auto simp: readFromFile_def faults intro: read_file_loop_keeps split: option.splits)
qed (auto intro: write_bytes_keeps read_bytes_keeps(1) setPosition_keeps(1) clear_ok(1) getWriteBuffers_keeps)

lemma buf_reachable_ok: "buf_reachable heap b \<Longrightarrow> buf_ok b"
  by (induction rule: buf_reachable.induct) (auto intro: new_Buffer_ok wrap_Buffer_ok buf_step_keeps)

text \<open>
  C8. Whatever sequence of operations a buffer has been through, its cursor pointer agrees
  with its position, every write and every positioning inside the capacity succeeds, and a
  read fails only by throwing \<open>out_of_range\<close> or, when it asks for nothing with the cursor at
  the very end of the capacity, by following the null cursor.
\<close>

theorem buffer_invariant:
  assumes "buf_reachable heap b"
  shows "buf_ok b
    \<and> (\<exists>b'. write_bytes heap b bs = Inr b')
    \<and> (if v \<le> capacity b then \<exists>b'. setPosition b v = Inr b' else setPosition b v = Inl OutOfRange)
    \<and> (if bufSize b - position b < n then read_bytes b n = Inl OutOfRange
       else if position b = capacity b then n = 0 \<and> read_bytes b n = Inl NullDeref
       else \<exists>b'. read_bytes b n = Inr (take n (unread b), b'))"
proof -
  have ok: "buf_ok b" using assms by (rule buf_reachable_ok)
  then have le: "position b \<le> bufSize b" "bufSize b \<le> capacity b" by (simp_all add: buf_ok_def)
  have "n = 0" if "\<not> bufSize b - position b < n" "position b = capacity b" using that le by simp
  moreover have "position b < capacity b" if "position b \<noteq> capacity b" using that le by simp
  ultimately show ?thesis
    using ok write_bytes_total [OF ok, of heap bs] setPosition_ok [OF ok, of v]
      setPosition_beyond [of b v] read_bytes_short [OF ok, of n] read_bytes_ok [OF ok, of n]
      read_bytes_at_end [OF ok]
    by auto
qed

theorem buffer_invariant_witness:
  "read_bytes (new_Buffer (\<lambda>_ _. 0) 4) 1 = Inl OutOfRange"
  using buffer_invariant [OF reach_new [of 4 "\<lambda>_ _. 0"], where n = 1]
  by (simp add: new_Buffer_def)

end
