(* ===== verification/Connection.thy ===== *)
theory Connection imports Codec BufferIo begin

text \<open>
  Buffers at the two ends of a connection. The views of a buffer that \<open>easy/net/Buffer.cc\<close> hands to the calls of
  a socket, used as \<open>examples/echo_server.cc\<close> uses them: get the views, let the kernel take from or put into them,
  and move the position by what it answered. The lemmas show that bytes arrive as they were sent, however the kernel cuts them.
\<close>

section \<open>A connection\<close>

text \<open>
  The sender's buffer, the bytes on their way, and the receiver's buffer. The kernel takes and delivers as
  many bytes of what is asked for as it likes.
\<close>

type_synonym connection = "buffer \<times> u8 list \<times> buffer"

inductive transfer :: "uninit \<Rightarrow> connection \<Rightarrow> connection \<Rightarrow> bool" for heap where
  tr_send: "getReadBuffers b len = Inr (l, iovs) \<Longrightarrow> k \<le> l \<Longrightarrow> setPosition b (position b + k) = Inr b1
    \<Longrightarrow> transfer heap (b, wire, r) (b1, wire @ take k (iov_bytes (nodes b) iovs), r)"
| tr_receive: "getWriteBuffers heap r len = Inr ((l, iovs), r1) \<Longrightarrow> k \<le> l \<Longrightarrow> k \<le> length wire
    \<Longrightarrow> setPosition (recv_into r1 iovs (take k wire)) (position r1 + k) = Inr r2
    \<Longrightarrow> transfer heap (b, wire, r) (b, drop k wire, r2)"

inductive_cases transferE: "transfer heap c c1"

text \<open>What has arrived behind position \<open>p\<close>.\<close>

definition arrived :: "nat \<Rightarrow> buffer \<Rightarrow> u8 list" where
  "arrived p r = drop p (take (position r) (stored r))"

lemma arrived_rest:
  assumes "buf_ok r" and "p \<le> position r"
  shows "drop p (stored r) = arrived p r @ drop (position r) (stored r)"
proof -
  have "position r \<le> length (stored r)" using assms(1) by (simp add: stored_length) (simp add: buf_ok_def)
  then have "drop p (take (position r) (stored r) @ drop (position r) (stored r)) = arrived p r @ drop (position r) (stored r)"
    unfolding drop_append using assms(2) by (simp add: arrived_def)
  then show ?thesis by simp
qed

lemma setPosition_unread:
  assumes "buf_ok b" and "k \<le> length (unread b)"
  obtains b1 where "setPosition b (position b + k) = Inr b1" and "buf_ok b1" and "stored b1 = stored b"
    and "unread b1 = drop k (unread b)"
proof -
  have le: "position b + k \<le> bufSize b" using assms by (auto simp: unread_length buf_ok_def)
  moreover have "bufSize b \<le> capacity b" using assms(1) by (simp add: buf_ok_def)
  ultimately obtain b1 where b1: "setPosition b (position b + k) = Inr b1" using setPosition_ok [OF assms(1)] by force
  note keeps = setPosition_keeps [OF assms(1) b1]
  have "stored b1 = stored b" using keeps(4) le by (simp add: stored_def max_absorb1)
  then show ?thesis using that [of b1] b1 keeps(1,2) by (simp add: unread_def add.commute)
qed

lemma setPosition_stay:
  assumes "buf_ok b"
  obtains b1 where "setPosition b (position b) = Inr b1" and "buf_ok b1" and "stored b1 = stored b"
    and "position b1 = position b" and "endian b1 = endian b"
proof -
  have "position b \<le> length (stored b)" using assms by (simp add: stored_length) (simp add: buf_ok_def)
  then show ?thesis using buf.goto_exact [OF assms, of "position b"] that by blast
qed

text \<open>Receiving never fails, whatever arrives.\<close>

lemma receive_ok:
  assumes "buf_ok r" and "length bs \<le> len"
  obtains iovs r1 r2 where "getWriteBuffers heap r len = Inr ((len, iovs), r1)"
    and "setPosition (recv_into r1 iovs bs) (position r1 + length bs) = Inr r2"
    and "buf_ok r2" and "stored r2 = overwrite (position r) bs (stored r)"
    and "position r2 = position r + length bs" and "endian r2 = endian r"
proof (cases "len = 0")
  case True
  obtain r2 where r2: "setPosition r (position r) = Inr r2" "buf_ok r2" "stored r2 = stored r"
      "position r2 = position r" "endian r2 = endian r"
    by (rule setPosition_stay [OF assms(1)])
  moreover have "recv_into r [] bs = r" by (simp add: recv_into_def)
  moreover have "getWriteBuffers heap r len = Inr ((len, []), r)" using True by (simp add: getWriteBuffers_def)
  moreover have "bs = []" using True assms(2) by simp
  ultimately show ?thesis using that [of "[]" r r2] by simp
next
  case False
  then show ?thesis
    using getWriteBuffers_receive [OF assms(1) _ assms(2), of heap] that by (metis gr0I)
qed

section \<open>Nothing is lost\<close>

definition in_order :: "buffer \<Rightarrow> buffer \<Rightarrow> connection \<Rightarrow> bool" where
  "in_order b0 r0 = (\<lambda>(b, wire, r).
     buf_ok b \<and> buf_ok r \<and> endian r = endian r0 \<and> position r0 \<le> position r
     \<and> take (position r0) (stored r) = take (position r0) (stored r0)
     \<and> arrived (position r0) r @ wire @ unread b = unread b0)"

lemma in_order_start: "buf_ok b0 \<Longrightarrow> buf_ok r0 \<Longrightarrow> in_order b0 r0 (b0, [], r0)"
  by (simp add: in_order_def arrived_def)

lemma in_order_step:
  assumes "transfer heap c c1" and "in_order b0 r0 c"
  shows "in_order b0 r0 c1"
  using assms(1)
proof (cases rule: transfer.cases)
  case (tr_send b len l iovs k b1 wire r)
  have ok: "buf_ok b" using assms(2) tr_send(1) by (simp add: in_order_def)
  have l: "l = min len (length (unread b))" "iov_bytes (nodes b) iovs = take len (unread b)"
    using getReadBuffers_correct [OF ok, of len] tr_send(3) by auto
  then have k: "k \<le> length (unread b)" "take k (iov_bytes (nodes b) iovs) = take k (unread b)"
    using tr_send(4) by (auto simp: min_def split: if_splits)
  obtain b2 where "setPosition b (position b + k) = Inr b2" "buf_ok b2" "unread b2 = drop k (unread b)"
    by (rule setPosition_unread [OF ok k(1)])
  then have "buf_ok b1" "take k (unread b) @ unread b1 = unread b" using tr_send(5) by simp_all
  then show ?thesis using assms(2) tr_send(1,2) k(2) by (simp add: in_order_def)
next
  case (tr_receive r len l iovs r1 k wire r2 b)
  have ok: "buf_ok r" using assms(2) tr_receive(1) by (simp add: in_order_def)
  have "l = len" using tr_receive(3) by (auto simp: getWriteBuffers_def faults Let_def split: if_splits sum.splits prod.splits)
  then have k: "length (take k wire) \<le> len" "length (take k wire) = k" using tr_receive(4,5) by simp_all
  obtain iovs' r1' r2' where "getWriteBuffers heap r len = Inr ((len, iovs'), r1')"
      "setPosition (recv_into r1' iovs' (take k wire)) (position r1' + length (take k wire)) = Inr r2'"
      "buf_ok r2'" "stored r2' = overwrite (position r) (take k wire) (stored r)"
      "position r2' = position r + length (take k wire)" "endian r2' = endian r"
    by (rule receive_ok [OF ok k(1)])
  then have r2: "buf_ok r2" "stored r2 = overwrite (position r) (take k wire) (stored r)"
      "position r2 = position r + length (take k wire)" "endian r2 = endian r"
    using tr_receive(3,6) k(2) by auto
  have p: "position r0 \<le> position r" "position r \<le> length (stored r)"
    using assms(2) tr_receive(1) ok by (auto simp: in_order_def stored_length buf_ok_def)
  have "take (position r2) (stored r2) = take (position r) (stored r) @ take k wire"
    using r2(2,3) p(2) by (simp add: take_overwrite_end del: length_take)
  then have new: "arrived (position r0) r2 = arrived (position r0) r @ take k wire"
    using p by (simp add: arrived_def)
  have "arrived (position r0) r2 @ drop k wire @ unread b
      = arrived (position r0) r @ (take k wire @ drop k wire) @ unread b"
    by (simp only: new append_assoc)
  also have "\<dots> = unread b0" using assms(2) tr_receive(1) by (simp add: in_order_def)
  finally have "arrived (position r0) r2 @ drop k wire @ unread b = unread b0" .
  moreover have "take (position r0) (stored r2) = take (position r0) (stored r)"
    using r2(2) p by (simp add: overwrite_def)
  ultimately show ?thesis using assms(2) tr_receive(1,2) r2 p by (simp add: in_order_def)
qed

lemma in_order_always:
  assumes "(transfer heap)\<^sup>*\<^sup>* (b0, [], r0) c" and "buf_ok b0" and "buf_ok r0"
  shows "in_order b0 r0 c"
  using assms(1) by (induction rule: rtranclp_induct) (auto intro: in_order_start assms in_order_step)

text \<open>It can always go on to its end.\<close>

lemma transfer_ends:
  assumes "buf_ok b" and "buf_ok r"
  shows "\<exists>b1 r1. (transfer heap)\<^sup>*\<^sup>* (b, wire, r) (b1, [], r1) \<and> unread b1 = []"
proof -
  let ?u = "unread b"
  obtain iovs where g: "getReadBuffers b (length ?u) = Inr (length ?u, iovs)" "iov_bytes (nodes b) iovs = ?u"
    using getReadBuffers_correct [OF assms(1), of "length ?u"] by auto
  obtain b1 where b1: "setPosition b (position b + length ?u) = Inr b1" "unread b1 = []"
    using setPosition_unread [OF assms(1), of "length ?u"] by auto
  have "transfer heap (b, wire, r) (b1, wire @ take (length ?u) (iov_bytes (nodes b) iovs), r)"
    by (rule tr_send [OF g(1) order_refl b1(1)])
  then have sent: "transfer heap (b, wire, r) (b1, wire @ ?u, r)" using g(2) by simp
  let ?w = "wire @ ?u"
  obtain iovs2 r1 r2 where "getWriteBuffers heap r (length ?w) = Inr ((length ?w, iovs2), r1)"
      "setPosition (recv_into r1 iovs2 ?w) (position r1 + length ?w) = Inr r2"
    by (rule receive_ok [OF assms(2), of ?w "length ?w"]) auto
  then have "transfer heap (b1, ?w, r) (b1, drop (length ?w) ?w, r2)"
    by (intro tr_receive [where k = "length ?w"]) auto
  then show ?thesis using sent b1(2) by (intro exI [of _ b1] exI [of _ r2]) (auto intro: rtranclp_trans)
qed

section \<open>A string in the stream\<close>

lemma string_written:
  assumes "buf_ok b" and "v \<noteq> []" and "2 + length v \<le> node_room b" and "length v < 2 ^ 16"
  obtains w b0 ys where "writeStringF16 host heap b v = Inr w" and "setPosition w (position b) = Inr b0"
    and "buf_ok b0" and "unread b0 = object_bytes (endian b) (of_nat (length v) :: u16) @ v @ ys"
proof -
  let ?n = "of_nat (length v) :: u16"
  have n: "whole_bytes ?n" "size_of ?n = 2" by (simp_all add: size_of_def)
  have ne: "object_bytes (endian b) ?n \<noteq> []" by (intro object_bytes_nonempty) simp
  have fit: "length (object_bytes (endian b) ?n) + length v \<le> node_room b" using assms(3) n(2) by simp
  obtain s1 s2 s3 ys where s: "write_bytes heap b (object_bytes (endian b) ?n) = Inr s1" "write_bytes heap s1 v = Inr s2"
      "setPosition s2 (position b) = Inr s3" "buf_ok s3" "unread s3 = object_bytes (endian b) ?n @ v @ ys"
    by (rule buf.write2_back [OF assms(1) ne assms(2) fit, of heap])
  have "writeStringF16 host heap b v = Inr s2"
    using s(1,2) put_fixed_bytes [OF n(1), of host "endian b"] by (simp add: writeStringF16_def writeFuint16_def)
  then show ?thesis using that s(3-5) by blast
qed

lemma string_received:
  assumes "buf_ok r" and "v \<noteq> []" and "length v < 2 ^ 16"
    and "unread r = object_bytes (endian r) (of_nat (length v) :: u16) @ v @ ys"
  shows "\<exists>r1. readStringF16 host r = Inr (v, r1)"
proof -
  let ?n = "of_nat (length v) :: u16"
  have n: "whole_bytes ?n" by simp
  obtain r1 where r1: "get_fixed read_bytes host (endian r) r = Inr (?n, r1)" "buf_ok r1" "unread r1 = v @ ys"
    using get_fixed_buffer [OF n assms(1,4) refl, of host] by blast
  have "unat ?n = length v" using assms(3) by (simp add: unat_of_nat take_bit_nat_eq_self)
  moreover obtain r2 where "read_bytes r1 (length v) = Inr (v, r2)"
    using buf.rd_exact [OF r1(2,3) assms(2)] by blast
  ultimately show ?thesis using r1(1) by (simp add: readStringF16_def readFuint16_def)
qed

end
