(* ===== verification/EchoServer.thy ===== *)
theory EchoServer imports Connection begin

text \<open>
  The server of \<open>examples/echo_server.cc\<close>, which prints what its clients send: the loop of \<open>handleClient\<close>
  over a buffer. The answers of the client's \<open>recv\<close> are a function of the kernel's state, and what goes to
  \<open>std::cout\<close> is the result; what is logged is left out.
\<close>

section \<open>The code\<close>

text \<open>An answer with the bytes that came with it.\<close>

type_synonym 'k receiver = "nat \<Rightarrow> 'k \<Rightarrow> (int \<times> u8 list) \<times> 'k"

text \<open>The rest of an iteration after a positive answer.\<close>

definition print_received :: "bool \<Rightarrow> iovec list \<Rightarrow> int \<Rightarrow> u8 list \<Rightarrow> buffer \<Rightarrow> fault + u8 list \<times> buffer" where
  "print_received txt iovs rt bs buff =
     bindE (setPosition (recv_into buff iovs bs) (position buff + nat rt)) (\<lambda>b1.
       bindE (setPosition b1 0) (\<lambda>b2.
         bindE (if txt then toString b2 else toHexString b2) (\<lambda>out. Inr (out, b2))))"

partial_function (option) client_loop ::
    "uninit \<Rightarrow> bool \<Rightarrow> 'k receiver \<Rightarrow> buffer \<Rightarrow> 'k \<Rightarrow> (fault + u8 list \<times> 'k) option" where
  "client_loop heap txt rcv buff k =
     (case getWriteBuffers heap (clear buff) 1024 of
        Inl e \<Rightarrow> Some (Inl e)
      | Inr ((len, iovs), b1) \<Rightarrow>
          (case rcv len k of ((rt, bs), k1) \<Rightarrow>
             if rt \<le> 0 then Some (Inr ([], k1))
             else (case print_received txt iovs rt bs b1 of
                 Inl e \<Rightarrow> Some (Inl e)
               | Inr (out, b2) \<Rightarrow> Option.bind (client_loop heap txt rcv b2 k1) (\<lambda>r.
                   Some (bindE r (\<lambda>(outs, k2). Inr (out @ outs, k2)))))))"

definition handleClient :: "uninit \<Rightarrow> bool \<Rightarrow> 'k receiver \<Rightarrow> 'k \<Rightarrow> (fault + u8 list \<times> 'k) option" where
  "handleClient heap txt rcv k = client_loop heap txt rcv (new_Buffer heap 4096) k"

section \<open>A client\<close>

text \<open>What a client sends until it closes or fails, in the pieces in which it arrives.\<close>

inductive client_sends :: "'k receiver \<Rightarrow> 'k \<Rightarrow> u8 list list \<Rightarrow> 'k \<Rightarrow> bool" for rcv where
  cs_end: "rcv 1024 k = ((rt, bs), k1) \<Longrightarrow> rt \<le> 0 \<Longrightarrow> client_sends rcv k [] k1"
| cs_more: "rcv 1024 k = ((int (length c), c), k1) \<Longrightarrow> 0 < length c \<Longrightarrow> length c \<le> 1024
    \<Longrightarrow> client_sends rcv k1 cs k2 \<Longrightarrow> client_sends rcv k (c # cs) k2"

text \<open>What \<open>recv\<close> promises: a positive answer is the number of bytes, and no more than asked for.\<close>

definition proper :: "'k receiver \<Rightarrow> bool" where
  "proper rcv \<longleftrightarrow> (\<forall>len k rt bs k1. rcv len k = ((rt, bs), k1) \<longrightarrow> 0 < rt \<longrightarrow> rt = int (length bs) \<and> length bs \<le> len)"

definition printed :: "bool \<Rightarrow> u8 list list \<Rightarrow> u8 list" where
  "printed txt cs = concat (map (\<lambda>c. if txt then c else hex_cells 0 c) cs)"

lemma printed_simps [simp]:
  "printed txt [] = []" "printed txt (c # cs) = (if txt then c else hex_cells 0 c) @ printed txt cs"
  by (simp_all add: printed_def)

text \<open>One iteration, whatever the buffer held before.\<close>

lemma one_round:
  assumes "buf_ok b" and "length c \<le> 1024"
  obtains iovs b1 b2 where "getWriteBuffers heap (clear b) 1024 = Inr ((1024, iovs), b1)"
    and "print_received txt iovs (int (length c)) c b1 = Inr (if txt then c else hex_cells 0 c, b2)" and "buf_ok b2"
proof -
  note cl = clear_ok [OF assms(1)]
  obtain iovs b1 r where g: "getWriteBuffers heap (clear b) 1024 = Inr ((1024, iovs), b1)"
      "setPosition (recv_into b1 iovs c) (position b1 + length c) = Inr r" "buf_ok r"
      "stored r = overwrite (position (clear b)) c (stored (clear b))"
    by (rule receive_ok [OF cl(1) assms(2)])
  obtain b2 where b2: "setPosition r 0 = Inr b2" "buf_ok b2" "stored b2 = stored r" "position b2 = 0"
    using buf.goto_exact [OF g(3), of 0] by auto
  have "unread b2 = c" using b2(3,4) g(4) cl(2,3) by (simp add: unread_def overwrite_def)
  then have "print_received txt iovs (int (length c)) c b1 = Inr (if txt then c else hex_cells 0 c, b2)"
    using g(2) b2(1) toString_correct [OF b2(2)] by (simp add: print_received_def)
  then show ?thesis using that g(1) b2(2) by blast
qed

lemma loop_prints:
  assumes "client_sends rcv k cs k2" and "buf_ok b"
  shows "client_loop heap txt rcv b k = Some (Inr (printed txt cs, k2))"
  using assms
proof (induction arbitrary: b rule: client_sends.induct)
  case (cs_end k rt bs k1)
  obtain iovs b1 b2 where "getWriteBuffers heap (clear b) 1024 = Inr ((1024, iovs), b1)"
      "print_received txt iovs (int (length ([] :: u8 list))) [] b1 = Inr (if txt then [] else hex_cells 0 [], b2)" "buf_ok b2"
    by (rule one_round [OF cs_end.prems, of "[]"]) simp
  then show ?case using cs_end.hyps by (simp add: client_loop.simps)
next
  case (cs_more k c k1 cs k2)
  obtain iovs b1 b2 where "getWriteBuffers heap (clear b) 1024 = Inr ((1024, iovs), b1)"
      "print_received txt iovs (int (length c)) c b1 = Inr (if txt then c else hex_cells 0 c, b2)" and b2: "buf_ok b2"
    by (rule one_round [OF cs_more.prems cs_more.hyps(3)])
  then show ?case using cs_more.hyps cs_more.IH [OF b2] by (subst client_loop.simps) simp
qed

lemma loop_ends:
  assumes "client_loop heap txt rcv b k = Some r" and "buf_ok b" and "proper rcv"
  shows "\<exists>cs k2. client_sends rcv k cs k2"
proof -
  have "buf_ok b \<longrightarrow> proper rcv \<longrightarrow> (\<exists>cs k2. client_sends rcv k cs k2)"
  proof (rule client_loop.raw_induct [where
      P = "\<lambda>heap txt rcv b k r. buf_ok b \<longrightarrow> proper rcv \<longrightarrow> (\<exists>cs k2. client_sends rcv k cs k2)", OF _ assms(1)])
    fix loop :: "uninit \<Rightarrow> bool \<Rightarrow> 'a receiver \<Rightarrow> buffer \<Rightarrow> 'a \<Rightarrow> (fault + u8 list \<times> 'a) option" and heap tx rcv b k r
    assume IH: "\<And>heap txt rcv b k r. loop heap txt rcv b k = Some r \<Longrightarrow>
          buf_ok b \<longrightarrow> proper rcv \<longrightarrow> (\<exists>cs k2. client_sends rcv k cs k2)"
      and step: "(case getWriteBuffers heap (clear b) 1024 of
        Inl e \<Rightarrow> Some (Inl e)
      | Inr ((len, iovs), b1) \<Rightarrow>
          (case rcv len k of ((rt, bs), k1) \<Rightarrow>
             if rt \<le> 0 then Some (Inr ([], k1))
             else (case print_received tx iovs rt bs b1 of
                 Inl e \<Rightarrow> Some (Inl e)
               | Inr (out, b2) \<Rightarrow> Option.bind (loop heap tx rcv b2 k1) (\<lambda>r.
                   Some (bindE r (\<lambda>(outs, k2). Inr (out @ outs, k2))))))) = Some r"
    show "buf_ok b \<longrightarrow> proper rcv \<longrightarrow> (\<exists>cs k2. client_sends rcv k cs k2)"
    proof (intro impI)
      assume ok: "buf_ok b" "proper rcv"
      obtain rt c k1 where a: "rcv 1024 k = ((rt, c), k1)" by (metis prod.exhaust)
      show "\<exists>cs k2. client_sends rcv k cs k2"
      proof (cases "rt \<le> 0")
        case True
        have "client_sends rcv k [] k1" by (rule cs_end) (rule a, rule True)
        then show ?thesis by blast
      next
        case False
        then have "0 < rt" by simp
        then have c: "rt = int (length c)" "length c \<le> 1024" using ok(2) a unfolding proper_def by blast+
        obtain iovs b1 b2 where "getWriteBuffers heap (clear b) 1024 = Inr ((1024, iovs), b1)"
            "print_received tx iovs (int (length c)) c b1 = Inr (if tx then c else hex_cells 0 c, b2)" and b2: "buf_ok b2"
          by (rule one_round [OF ok(1) c(2)])
        then have "\<exists>r1. loop heap tx rcv b2 k1 = Some r1" using step a False c(1) by (cases "loop heap tx rcv b2 k1") simp_all
        then obtain cs k2 where more: "client_sends rcv k1 cs k2" using IH b2 ok(2) by blast
        have "client_sends rcv k (c # cs) k2" by (rule cs_more [OF _ _ c(2) more]) (use a c(1) False in simp_all)
        then show ?thesis by blast
      qed
    qed
  qed
  then show ?thesis using assms by blast
qed

end
