(* ===== verification/BufferMemory.thy ===== *)
theory BufferMemory imports Buffer begin

text \<open>
  Who frees what in \<open>easy/net/Buffer.cc\<close>: the nodes of a buffer as objects of their own with the memory they point
  to, made by the constructors and \<open>addCapacity\<close> and given back by \<open>clear\<close> and the destructor. The lemmas show that
  nothing is freed twice, and what is left.
\<close>

section \<open>Allocation\<close>

text \<open>\<open>brk\<close> and all addresses above it were never given out.\<close>

record store =
  brk :: nat
  live :: "nat set"

definition allocate :: "store \<Rightarrow> nat \<times> store" where
  "allocate a = (brk a, \<lparr>brk = brk a + 1, live = insert (brk a) (live a)\<rparr>)"

definition release_block :: "nat \<Rightarrow> store \<Rightarrow> fault + store" where
  "release_block p a = guardE (p \<in> live a) UseAfterFree (Inr (a\<lparr>live := live a - {p}\<rparr>))"

text \<open>The address of a \<open>Node\<close> and its \<open>ptr_\<close>.\<close>

type_synonym chain = "(nat \<times> nat option) list"

definition new_Node :: "store \<Rightarrow> (nat \<times> nat option) \<times> store" where
  "new_Node a = (let (n, a1) = allocate a; (p, a2) = allocate a1 in ((n, Some p), a2))"

definition Node_free :: "nat option \<Rightarrow> store \<Rightarrow> fault + store" where
  "Node_free ptr a = (case ptr of None \<Rightarrow> Inr a | Some p \<Rightarrow> release_block p a)"

text \<open>The loop of \<open>clear\<close> and of the destructor.\<close>

fun free_nodes :: "bool \<Rightarrow> chain \<Rightarrow> store \<Rightarrow> fault + store" where
  "free_nodes own [] a = Inr a"
| "free_nodes own ((n, ptr) # ch) a =
     bindE (if own then Node_free ptr a else Inr a) (\<lambda>a1. bindE (release_block n a1) (free_nodes own ch))"

section \<open>The buffer and its nodes\<close>

type_synonym buffer_store = "buffer \<times> chain \<times> store"

definition construct_Buffer :: "uninit \<Rightarrow> nat \<Rightarrow> store \<Rightarrow> buffer_store" where
  "construct_Buffer heap base_size a =
     (let (nd, a1) = new_Node a in (new_Buffer heap base_size, [nd], a1))"

definition construct_wrapping :: "nat \<Rightarrow> u8 list \<Rightarrow> bool \<Rightarrow> store \<Rightarrow> buffer_store" where
  "construct_wrapping p data own a = (let (n, a1) = allocate a in (wrap_Buffer data own, [(n, Some p)], a1))"

fun link_new :: "nat \<Rightarrow> chain \<Rightarrow> store \<Rightarrow> chain \<times> store" where
  "link_new 0 ch a = (ch, a)"
| "link_new (Suc count) ch a = (let (nd, a1) = new_Node a in link_new count (ch @ [nd]) a1)"

text \<open>\<open>addCapacity\<close> makes as many nodes as the buffer grows by.\<close>

definition grow_nodes :: "uninit \<Rightarrow> nat \<Rightarrow> buffer_store \<Rightarrow> fault + buffer_store" where
  "grow_nodes heap sz = (\<lambda>(b, ch, a). bindE (addCapacity heap b sz) (\<lambda>b1.
     let (ch1, a1) = link_new (length (nodes b1) - length (nodes b)) ch a in Inr (b1, ch1, a1)))"

definition clear_nodes :: "buffer_store \<Rightarrow> fault + buffer_store" where
  "clear_nodes = (\<lambda>(b, ch, a). bindE (free_nodes (owner b) (tl ch) a) (\<lambda>a1. Inr (clear b, take 1 ch, a1)))"

definition destroy_Buffer :: "buffer_store \<Rightarrow> fault + store" where
  "destroy_Buffer = (\<lambda>(b, ch, a). free_nodes (owner b) ch a)"

section \<open>What is held\<close>

definition own_memory :: "bool \<Rightarrow> nat option \<Rightarrow> nat list" where
  "own_memory own ptr = (case ptr of None \<Rightarrow> [] | Some p \<Rightarrow> if own then [p] else [])"

lemma own_memory_simps [simp]:
  "own_memory own None = []" "own_memory True (Some p) = [p]" "own_memory False ptr = []"
  by (simp_all add: own_memory_def split: option.splits)

definition held :: "bool \<Rightarrow> chain \<Rightarrow> nat list" where
  "held own ch = concat (map (\<lambda>(n, ptr). n # own_memory own ptr) ch)"

lemma held_simps [simp]:
  "held own [] = []"
  "held own ((n, ptr) # ch) = n # own_memory own ptr @ held own ch"
  "held own (xs @ ys) = held own xs @ held own ys"
  by (simp_all add: held_def)

lemma release_ok: "p \<in> live a \<Longrightarrow> release_block p a = Inr (a\<lparr>live := live a - {p}\<rparr>)"
  by (simp add: release_block_def guardE_def)

lemma free_memory_ok:
  assumes "set (own_memory own ptr) \<subseteq> live a"
  shows "(if own then Node_free ptr a else Inr a) = Inr (a\<lparr>live := live a - set (own_memory own ptr)\<rparr>)"
  using assms by (cases own; cases ptr) (simp_all add: Node_free_def release_ok)

lemma free_nodes_ok:
  assumes "distinct (held own ch)" and "set (held own ch) \<subseteq> live a"
  shows "free_nodes own ch a = Inr (a\<lparr>live := live a - set (held own ch)\<rparr>)"
  using assms
proof (induction ch arbitrary: a)
  case (Cons x ch)
  obtain n ptr where x: "x = (n, ptr)" by (cases x)
  let ?a1 = "a\<lparr>live := live a - set (own_memory own ptr)\<rparr>"
  let ?a2 = "?a1\<lparr>live := live ?a1 - {n}\<rparr>"
  have "set (own_memory own ptr) \<subseteq> live a" "n \<in> live ?a1" using Cons.prems x by auto
  then have "free_nodes own (x # ch) a = free_nodes own ch ?a2"
    unfolding x by (simp only: free_nodes.simps free_memory_ok bindE_simps release_ok)
  also have "\<dots> = Inr (?a2\<lparr>live := live ?a2 - set (held own ch)\<rparr>)"
    using Cons.prems x by (intro Cons.IH) auto
  also have "\<dots> = Inr (a\<lparr>live := live ?a2 - set (held own ch)\<rparr>)" by simp
  also have "live ?a2 - set (held own ch) = live a - set (held own (x # ch))" unfolding x by auto
  finally show ?case .
qed simp

section \<open>Lives of a buffer\<close>

text \<open>A buffer that has made \<open>n\<close> nodes since its construction.\<close>

inductive lives :: "uninit \<Rightarrow> buffer_store \<Rightarrow> nat \<Rightarrow> buffer_store \<Rightarrow> bool" for heap s0 where
  lv_new: "lives heap s0 0 s0"
| lv_grow: "lives heap s0 n (b, s) \<Longrightarrow> grow_nodes heap sz (b, s) = Inr (b1, s1)
    \<Longrightarrow> lives heap s0 (n + (length (nodes b1) - length (nodes b))) (b1, s1)"
| lv_clear: "lives heap s0 n s \<Longrightarrow> clear_nodes s = Inr s1 \<Longrightarrow> lives heap s0 n s1"
| lv_bytes: "lives heap s0 n (b, s) \<Longrightarrow> owner b1 = owner b \<Longrightarrow> length (nodes b1) = length (nodes b)
    \<Longrightarrow> lives heap s0 n (b1, s)"

definition fresh_above :: "store \<Rightarrow> bool" where
  "fresh_above a \<longleftrightarrow> (\<forall>x \<in> live a. x < brk a)"

text \<open>
  What the buffer will free is its own and alive; the rest is what was there before, without the memory
  that was handed over, and what it has lost: one block for each node it made when it owns nothing.
\<close>

definition kept :: "bool \<Rightarrow> chain \<Rightarrow> store \<Rightarrow> nat set" where
  "kept own ch a = live a - set (held own ch)"

definition memory_ok :: "nat set \<Rightarrow> bool \<Rightarrow> nat \<Rightarrow> buffer_store \<Rightarrow> bool" where
  "memory_ok base own n = (\<lambda>(b, ch, a).
     owner b = own \<and> ch \<noteq> [] \<and> distinct (held own ch) \<and> set (held own ch) \<subseteq> live a \<and> fresh_above a
     \<and> base \<subseteq> kept own ch a \<and> finite (kept own ch a - base) \<and> card (kept own ch a - base) = (if own then 0 else n))"

lemma link_new_ok:
  assumes "distinct (held own ch)" and "set (held own ch) \<subseteq> live a" and "fresh_above a"
    and "link_new k ch a = (ch1, a1)" and "finite (kept own ch a - base)" and "base \<subseteq> kept own ch a" and "ch \<noteq> []"
  shows "distinct (held own ch1) \<and> set (held own ch1) \<subseteq> live a1 \<and> fresh_above a1 \<and> base \<subseteq> kept own ch1 a1 \<and> ch1 \<noteq> []
    \<and> finite (kept own ch1 a1 - base) \<and> card (kept own ch1 a1 - base) = card (kept own ch a - base) + (if own then 0 else k)"
  using assms
proof (induction k arbitrary: ch a)
  case (Suc k)
  define a2 where "a2 = \<lparr>brk = brk a + 2, live = insert (brk a + 1) (insert (brk a) (live a))\<rparr>"
  define ch2 where "ch2 = ch @ [(brk a, Some (brk a + 1))]"
  have new: "new_Node a = ((brk a, Some (brk a + 1)), a2)" by (simp add: new_Node_def allocate_def a2_def)
  have unused: "brk a \<notin> live a" "brk a + 1 \<notin> live a" using Suc.prems(3) by (auto simp: fresh_above_def)
  have h: "held own ch2 = held own ch @ brk a # (if own then [brk a + 1] else [])"
    by (cases own) (simp_all add: ch2_def)
  have k2: "kept own ch2 a2 = (if own then kept own ch a else insert (brk a + 1) (kept own ch a))"
    using unused Suc.prems(2) by (auto simp: kept_def h a2_def)
  have "distinct (held own ch2)" "set (held own ch2) \<subseteq> live a2" "fresh_above a2"
    using Suc.prems(1-3) unused by (auto simp: h a2_def fresh_above_def)
  moreover have "link_new k ch2 a2 = (ch1, a1)" using Suc.prems(4) new by (simp add: ch2_def)
  moreover have "finite (kept own ch2 a2 - base)" "base \<subseteq> kept own ch2 a2"
    using Suc.prems(5,6) by (auto simp: k2 insert_Diff_if)
  moreover have "card (kept own ch2 a2 - base) = card (kept own ch a - base) + (if own then 0 else 1)"
  proof -
    have "brk a + 1 \<notin> base" "brk a + 1 \<notin> kept own ch a" using Suc.prems(6) unused by (auto simp: kept_def)
    then show ?thesis unfolding k2 using Suc.prems(5) by (cases own) (simp_all add: insert_Diff_if)
  qed
  ultimately show ?case using Suc.IH [of ch2 a2] by (simp add: ch2_def)
qed simp

lemma grow_keeps_owner: "grow_nodes heap sz (b, s) = Inr (b1, s1) \<Longrightarrow> owner b1 = owner b"
  by (auto simp: grow_nodes_def addCapacity_def faults Let_def split: prod.splits if_splits)

lemma memory_ok_grow:
  assumes "memory_ok base own n (b, s)" and "grow_nodes heap sz (b, s) = Inr (b1, s1)"
  shows "memory_ok base own (n + (length (nodes b1) - length (nodes b))) (b1, s1)"
proof -
  obtain ch a where s: "s = (ch, a)" by (cases s)
  obtain ch1 a1 where s1: "s1 = (ch1, a1)" by (cases s1)
  have l: "link_new (length (nodes b1) - length (nodes b)) ch a = (ch1, a1)"
    using assms(2) s s1 by (auto simp: grow_nodes_def faults split: prod.splits)
  have ok: "distinct (held own ch)" "set (held own ch) \<subseteq> live a" "fresh_above a" "base \<subseteq> kept own ch a" "ch \<noteq> []"
      "finite (kept own ch a - base)" "card (kept own ch a - base) = (if own then 0 else n)" "owner b = own"
    using assms(1) s by (simp_all add: memory_ok_def)
  show ?thesis
    using link_new_ok [OF ok(1-3) l ok(6,4,5)] ok(7,8) grow_keeps_owner [OF assms(2)] s1
    by (cases own) (simp_all add: memory_ok_def)
qed

lemma memory_ok_clear:
  assumes "memory_ok base own n s" and "clear_nodes s = Inr s1"
  shows "memory_ok base own n s1"
proof -
  obtain b x ch a where s: "s = (b, x # ch, a)"
    using assms(1) by (cases s; cases "fst (snd s)") (auto simp: memory_ok_def)
  obtain m ptr where x: "x = (m, ptr)" by (cases x)
  have d: "distinct (held own ch)" "set (held own ch) \<subseteq> live a" "owner b = own"
    using assms(1) s x by (auto simp: memory_ok_def)
  have "s1 = (clear b, [x], a\<lparr>live := live a - set (held own ch)\<rparr>)"
    using assms(2) s d(3) free_nodes_ok [OF d(1,2)] by (simp add: clear_nodes_def)
  moreover have "kept own [x] (a\<lparr>live := live a - set (held own ch)\<rparr>) = kept own (x # ch) a"
    using x by (auto simp: kept_def)
  moreover have "owner (clear b) = owner b" by (simp add: clear_def)
  ultimately show ?thesis
    using assms(1) s x by (auto simp: memory_ok_def fresh_above_def)
qed

lemma lives_ok: "lives heap s0 n s \<Longrightarrow> memory_ok base own 0 s0 \<Longrightarrow> memory_ok base own n s"
proof (induction rule: lives.induct)
  case (lv_grow n b s sz b1 s1)
  then show ?case using memory_ok_grow by blast
next
  case (lv_clear n s s1)
  then show ?case using memory_ok_clear by blast
next
  case (lv_bytes n b s b1)
  then show ?case by (auto simp: memory_ok_def)
qed

lemma destroy_ok:
  assumes "memory_ok base own n s"
  shows "\<exists>a1. destroy_Buffer s = Inr a1 \<and> base \<subseteq> live a1 \<and> finite (live a1 - base)
    \<and> card (live a1 - base) = (if own then 0 else n)"
proof -
  obtain b ch a where s: "s = (b, ch, a)" by (cases s)
  then have d: "distinct (held own ch)" "set (held own ch) \<subseteq> live a" "owner b = own"
    using assms by (simp_all add: memory_ok_def)
  have "destroy_Buffer s = Inr (a\<lparr>live := kept own ch a\<rparr>)"
    using s d(3) free_nodes_ok [OF d(1,2)] by (simp add: destroy_Buffer_def kept_def)
  then show ?thesis using assms s by (simp add: memory_ok_def)
qed

lemma constructed_ok:
  assumes "fresh_above a"
  shows "memory_ok (live a) True 0 (construct_Buffer heap base_size a)"
proof -
  let ?a = "\<lparr>brk = brk a + 2, live = insert (brk a + 1) (insert (brk a) (live a))\<rparr>"
  have "construct_Buffer heap base_size a = (new_Buffer heap base_size, [(brk a, Some (brk a + 1))], ?a)"
    by (simp add: construct_Buffer_def new_Node_def allocate_def)
  moreover have "kept True [(brk a, Some (brk a + 1))] ?a = live a"
    using assms by (auto simp: kept_def fresh_above_def)
  moreover have "fresh_above ?a" using assms by (auto simp: fresh_above_def)
  ultimately show ?thesis by (simp add: memory_ok_def new_Buffer_def)
qed

lemma wrapping_ok:
  assumes "fresh_above a" and "p \<in> live a"
  shows "memory_ok (if own then live a - {p} else live a) own 0 (construct_wrapping p data own a)"
  using assms
  by (cases own) (auto simp: construct_wrapping_def allocate_def memory_ok_def kept_def fresh_above_def wrap_Buffer_def
      own_memory_def Diff_insert_absorb)

section \<open>Properties\<close>

text \<open>
  C9. A buffer gives back what it took: whatever happened to it, \<open>clear\<close> and the destructor free every block at most
  once, and a buffer that made its own memory leaves exactly what was allocated before. One that wraps a block
  and owns it frees that block with its own; one that does not own it leaves it alone, but also leaves behind, for good, the memory
  of every node it has grown by.
\<close>

theorem buffer_memory:
  assumes "fresh_above a" and "p \<in> live a"
  shows "(lives heap (construct_Buffer heap base_size a) n s \<longrightarrow>
        (\<exists>a1. destroy_Buffer s = Inr a1 \<and> live a1 = live a))
    \<and> (lives heap (construct_wrapping p data True a) n s \<longrightarrow>
        (\<exists>a1. destroy_Buffer s = Inr a1 \<and> live a1 = live a - {p}))
    \<and> (lives heap (construct_wrapping p data False a) n s \<longrightarrow>
        (\<exists>a1. destroy_Buffer s = Inr a1 \<and> live a \<subseteq> live a1 \<and> finite (live a1 - live a) \<and> card (live a1 - live a) = n))"
proof (intro conjI impI)
  assume "lives heap (construct_Buffer heap base_size a) n s"
  from destroy_ok [OF lives_ok [OF this constructed_ok [OF assms(1)]]]
  show "\<exists>a1. destroy_Buffer s = Inr a1 \<and> live a1 = live a" by auto
next
  assume "lives heap (construct_wrapping p data True a) n s"
  from destroy_ok [OF lives_ok [OF this wrapping_ok [OF assms]]]
  show "\<exists>a1. destroy_Buffer s = Inr a1 \<and> live a1 = live a - {p}" by auto
next
  assume "lives heap (construct_wrapping p data False a) n s"
  from destroy_ok [OF lives_ok [OF this wrapping_ok [OF assms]]]
  show "\<exists>a1. destroy_Buffer s = Inr a1 \<and> live a \<subseteq> live a1 \<and> finite (live a1 - live a) \<and> card (live a1 - live a) = n" by auto
qed

theorem buffer_memory_witness:
  "\<exists>s a1. grow_nodes (\<lambda>_ _. 0) 5 (construct_wrapping 3 [1, 2] False \<lparr>brk = 4, live = {3}\<rparr>) = Inr s
     \<and> destroy_Buffer s = Inr a1 \<and> {3} \<subseteq> live a1 \<and> card (live a1 - {3}) = 2"
proof -
  let ?a = "\<lparr>brk = 4, live = {3}\<rparr>"
  let ?s0 = "construct_wrapping 3 [1, 2] False ?a"
  have "map_sum id (\<lambda>(b1, s1). length (nodes b1)) (grow_nodes (\<lambda>_ _. 0) 5 ?s0) = Inr 3"
    by code_simp
  then obtain b1 s1 where g: "grow_nodes (\<lambda>_ _. 0) 5 ?s0 = Inr (b1, s1)" "length (nodes b1) = 3"
    by (cases "grow_nodes (\<lambda>_ _. 0) 5 ?s0") auto
  have "lives (\<lambda>_ _. 0) ?s0 (0 + (length (nodes b1) - length (nodes (fst ?s0)))) (b1, s1)"
    by (rule lv_grow [where s = "snd ?s0"]) (use lv_new g(1) in simp_all)
  moreover have "length (nodes (fst ?s0)) = 1" by (simp add: construct_wrapping_def allocate_def wrap_Buffer_def)
  ultimately have "lives (\<lambda>_ _. 0) ?s0 2 (b1, s1)" using g(2) by (simp add: numeral_2_eq_2)
  then show ?thesis
    using buffer_memory [of ?a 3 "\<lambda>_ _. 0" 0 2 "(b1, s1)" "[1, 2]"] g(1) by (auto simp: fresh_above_def)
qed

end
