(* ===== verification/ServerPath.thy ===== *)
theory ServerPath imports TcpServerState Reactor begin

text \<open>
  The way of a client through the library: a server (\<open>easy/net/TcpServer.cc\<close>) waits in \<open>accept\<close> (\<open>easy/net/Socket.cc\<close>,
  \<open>easy/base/hook.cc\<close>), the idle loop of the reactor (\<open>easy/base/IOManager.cc\<close>) learns that its socket is readable, the fiber goes on,
  and the new socket is handed to a worker. The lemmas are about calls without a timeout, as those of a listening socket are.
\<close>

section \<open>A call without a timeout\<close>

lemma untimed_parks:
  fixes e :: fresh
  assumes "may_block w fd p c" and "in_reactor w fd event" and "\<not> waiting (reactor w) (nat fd) event"
    and "documented_ctl ctl fd" and "f (kern w) = ((-1, EAGAIN), k)" and "getTimeout c so = - 1"
  defines "fr \<equiv> \<lparr>io_fd = fd, io_event = event, io_ms = - 1, io_tinfo = at_tinfo e, io_timer = None\<rparr>"
  obtains m where "do_io ctl e fd f event so w = Some (Inr (Park fr,
        w\<lparr>tinfos := (tinfos w)(at_tinfo e \<mapsto> False), kern := k, errno := EAGAIN, reactor := m\<rparr>))"
    and "in_step m fd" and "iom_ok (reactor w) \<Longrightarrow> iom_ok m"
    and "waiting m (nat fd) event" and "scheds m = scheds (reactor w)"
    and "ctx_of (channels m ! nat fd) event = stored_ctx (self (reactor w)) (running_fiber w) None"
proof -
  let ?w = "w\<lparr>tinfos := (tinfos w)(at_tinfo e \<mapsto> False), kern := k, errno := EAGAIN\<rparr>"
  note r = assms(2) [unfolded in_reactor_def]
  have arm: "arm_timeout e fr ?w = (None, ?w)" by (simp add: arm_timeout_def fr_def)
  have ok: "in_step (reactor ?w) (io_fd fr)" "\<not> waiting (reactor ?w) (nat (io_fd fr)) (io_event fr)"
      "0 \<le> io_fd fr" "io_fd fr < 2 ^ 31" "io_event fr \<in> {READ, WRITE}"
    using r assms(3) by (simp_all add: fr_def)
  have ctl: "documented_ctl ctl (io_fd fr)" using assms(4) by (simp add: fr_def)
  obtain m where m: "await_event ctl fr ?w = Inr (0, ?w\<lparr>reactor := m\<rparr>)" "in_step m (io_fd fr)" "iom_ok (reactor ?w) \<Longrightarrow> iom_ok m"
      "waiting m (nat (io_fd fr)) (io_event fr)" "scheds m = scheds (reactor ?w)"
      "tm m = tm (reactor ?w)" "self m = self (reactor ?w)"
      "ctx_of (channels m ! nat (io_fd fr)) (io_event fr) = stored_ctx (self (reactor ?w)) (running_fiber ?w) None"
    by (rule await_parks [OF ok(1,3,4,5,2) ctl]) blast
  have "do_io_retry ctl e fr f (w\<lparr>tinfos := (tinfos w)(at_tinfo e \<mapsto> False)\<rparr>) = Some (Inr (Park fr, ?w\<lparr>reactor := m\<rparr>))"
    using r arm m(1) assms(5) uninterrupted_now [where f = f and k = "kern w", OF assms(5)]
    by (simp add: do_io_retry_def do_io_wait_def EINTR_def EAGAIN_def fr_def)
  moreover have "do_io ctl e fd f event so w = do_io_retry ctl e fr f (w\<lparr>tinfos := (tinfos w)(at_tinfo e \<mapsto> False)\<rparr>)"
    using assms(1,6) by (simp add: do_io_def may_block_def fr_def)
  ultimately show ?thesis using m(2-5,8) by (intro that [of m]) (simp_all add: fr_def)
qed

lemma untimed_resume:
  assumes "io_timer fr = None" and "tinfos w (io_tinfo fr) = Some False" and "f (kern w) = ((n, er), k)" and "0 \<le> n"
  shows "do_io_resume ctl e fr f w = Some (Inr (Ret n, w\<lparr>kern := k, tinfos := (tinfos w)(io_tinfo fr := None)\<rparr>))"
proof -
  have "uninterrupted f (kern w) = Some ((n, er), k)" by (rule uninterrupted_now [where f = f and k = "kern w", OF assms(3)]) (use assms(4) in simp)
  then show ?thesis
    using assms by (simp add: do_io_resume_def cancel_timer_def timed_out_def do_io_retry_def io_return_def)
qed

section \<open>The reactor delivers the event\<close>

lemma dispatch_waiting:
  assumes "in_step m (int i)" and "waiting m i READ" and "documented_ctl ctl (int i)"
    and "ctx_of (channels m ! i) READ = stored_ctx s g None"
  obtains m1 where "dispatch_channel ctl i READ m = Inr m1" and "scheds m1 = post s (fiber_task g) (scheds m)"
    and "\<not> waiting m1 i READ"
proof -
  have "chan_ok (channels m ! i)" using assms(1,2) waiting_in_table by (auto simp: in_step_def chan_at_def)
  then have alone: "ready_events READ (ch_events (channels m ! i)) AND ch_events (channels m ! i) = READ"
    using registered_event [of "channels m ! i" READ] assms(2) by (simp add: event_alone waiting_def)
  obtain m1 where m1: "dispatch_channel ctl i READ m = Inr m1" "posted m i READ m1" "\<not> waiting m1 i READ"
    by (rule dispatch_one [OF assms(1,3) _ assms(2) alone]) auto
  then show ?thesis
    using assms(4) by (intro that [of m1]) (auto simp: posted_def stored_ctx_def ctx_task_def fiber_task_def)
qed

lemma waiting_not_stop:
  assumes "iom_ok m" and "waiting m i event" and "event \<in> {READ, WRITE}"
  shows "\<not> io_canStop m"
proof -
  have i: "i < length (channels m)" "ch_events (channels m ! i) AND event \<noteq> 0" using assms(2) by (simp_all add: waiting_def)
  let ?n = "\<lambda>j. event_count (ch_events (channels m ! j))"
  have "1 \<le> ?n i" using i(2) assms(3) by (auto simp: event_count_def)
  also have "\<dots> \<le> (\<Sum>j < length (channels m). ?n j)"
    by (rule member_le_sum) (use i(1) in \<open>simp_all add: event_count_def\<close>)
  finally show ?thesis using assms(1) by (simp add: iom_ok_def io_canStop_def pending_events_def)
qed

section \<open>From the system call to the worker\<close>

text \<open>
  C6. A client that connects while a running server waits in \<open>accept\<close> reaches its handler, on a reactor whose count has not
  drifted and where \<open>epoll_ctl\<close> refuses for the listening descriptor only what it documents, \<open>EEXIST\<close> and \<open>ENOENT\<close>: the call
  finds nobody, registers
  the listening socket and yields; the next pass of the reactor's idle loop that learns of the socket does not stop and schedules
  the fiber, once; resumed, the call returns the descriptor, registered; and the loop of the server stores a connected socket on
  it, with the server's receive timeout, and queues one task for it on the worker, behind what was there.
\<close>

theorem client_reaches_handler:
  fixes P :: "'k platform" and m :: "'k net"
  assumes server: "sv_running sv" "sv_io sv = Some io" "objs m p = Some (Tcp x)"
    and call: "may_block (net_hook m) (s_fd x) a c" "getTimeout c SO_RCVTIMEO = - 1"
      "in_reactor (net_hook m) (s_fd x) READ" "\<not> waiting (reactor (net_hook m)) (nat (s_fd x)) READ"
      "iom_ok (reactor (net_hook m))"
    and kernel: "documented_ctl (p_ctl P) (s_fd x)" "k_accept P (s_fd x) (kern (net_hook m)) = ((-1, EAGAIN), k)"
      "es \<noteq> []" "first_events wait (length es) kr [ReadyChannel (nat (s_fd x)) READ] kr1"
      "k_accept P (s_fd x) k1 = ((n, er), k2)"
    and client: "0 \<le> n" "n < 2 ^ 31" "p_fstat P n = Some True" "datas (fds (net_hook m)) \<noteq> []" "fd_ctx (net_hook m) n = None"
  shows "\<exists>fr w1 es1 r1 w2 y m1. accept_begin P p sv m = Inr (Some (Some (Inr (Park fr, w1))))
    \<and> io_idle_pass (p_ctl P) wait es (reactor w1) kr = Some (Inr (False, es1, r1, kr1))
    \<and> scheds r1 = post (self (reactor (net_hook m))) (fiber_task (running_fiber (net_hook m))) (scheds (reactor (net_hook m)))
    \<and> accept_resume (p_fstat P) q (p_ctl P) e fr (k_accept P (s_fd x)) (w1\<lparr>reactor := r1, kern := k1\<rparr>) = Some (Inr (Ret n, w2))
    \<and> accept_end host P S p b n sv (m\<lparr>net_hook := w2\<rparr>) = Inr m1
    \<and> objs m1 b = Some (Tcp y) \<and> s_fd y = n \<and> s_connected y
    \<and> getRecvTimeout y (net_hook m1) = sint (sv_recvTimeout sv)
    \<and> tasks (queues m1 io) = tasks (queues m io) @ [cb_task (Some (HandleClient b))]"
proof -
  let ?w = "net_hook m" and ?f = "k_accept P (s_fd x)" and ?e = "p_fresh P (net_hook m)"
  let ?fr = "\<lparr>io_fd = s_fd x, io_event = READ, io_ms = - 1, io_tinfo = at_tinfo ?e, io_timer = None\<rparr>"
  obtain r where r: "do_io (p_ctl P) ?e (s_fd x) ?f READ SO_RCVTIMEO ?w = Some (Inr (Park ?fr,
        ?w\<lparr>tinfos := (tinfos ?w)(at_tinfo ?e \<mapsto> False), kern := k, errno := EAGAIN, reactor := r\<rparr>))"
      "in_step r (s_fd x)" "iom_ok (reactor ?w) \<Longrightarrow> iom_ok r" "waiting r (nat (s_fd x)) READ" "scheds r = scheds (reactor ?w)"
      "ctx_of (channels r ! nat (s_fd x)) READ = stored_ctx (self (reactor ?w)) (running_fiber ?w) None"
    by (rule untimed_parks [where f = ?f and w = ?w, OF call(1,3,4) kernel(1,2) call(2)]) blast
  have fd: "int (nat (s_fd x)) = s_fd x" using call(3) by (simp add: in_reactor_def)
  have ok: "iom_ok r" using r(3) call(5) .
  let ?w1 = "?w\<lparr>tinfos := (tinfos ?w)(at_tinfo ?e \<mapsto> False), kern := k, errno := EAGAIN, reactor := r\<rparr>"
  obtain r1 where r1: "dispatch_channel (p_ctl P) (nat (s_fd x)) READ r = Inr r1"
      "scheds r1 = post (self (reactor ?w)) (fiber_task (running_fiber ?w)) (scheds r)"
    by (rule dispatch_waiting [of r "nat (s_fd x)" "p_ctl P"]) (use r(2,4,6) kernel(1) fd in auto)
  let ?v = "?w1\<lparr>reactor := r1, kern := k2, tinfos := (tinfos ?w1)(at_tinfo ?e := None)\<rparr>"
  have resumed: "do_io_resume (p_ctl P) e ?fr ?f (?w1\<lparr>reactor := r1, kern := k1\<rparr>) = Some (Inr (Ret n, ?v))"
    by (subst untimed_resume [where n = n and k = k2 and er = er]) (use kernel(5) client(1) in simp_all)
  have v: "fds ?v = fds ?w" "enabled ?v" using call(1) by (simp_all add: may_block_def)
  obtain w2 y w3 d where w2: "accepted (p_fstat P) q (Inr (Ret n, ?v)) = Inr (Ret n, w2)"
      "Socket_accept_return host P x n w2 = Inr (Some y, w3)" "s_fd y = n" "s_connected y"
      "fd_ctx w3 n = Some (q, d)" "enabled w3 = enabled ?v"
    by (rule accept_gives [where w = ?v and P = P and q = q and host = host and x = x, OF client(1,2) _ _ client(3)])
      (use client(4,5) v(1) fd_ctx_fds [OF v(1)] in simp_all)
  let ?u = "snd (setRecvTimeout P (sint (sv_recvTimeout sv)) y w3)"
  have u: "getRecvTimeout y ?u = sint (sv_recvTimeout sv)"
  proof -
    have "fd_ctx ?u (s_fd y) = Some (q, setTimeout d SO_RCVTIMEO (of_int (sint (sv_recvTimeout sv))))"
      unfolding setRecvTimeout_def using w2 v(2) by (intro set_timeout_ctx(1)) simp_all
    then show ?thesis by (simp add: getRecvTimeout_def socket_timeout_def getTimeout_def setTimeout_def)
  qed
  obtain m1 where m1: "post_server (sv_io sv) [HandleClient b] (m\<lparr>objs := (objs m)(b \<mapsto> Tcp y), net_hook := ?u\<rparr>) = Inr m1"
      "objs m1 = (objs m)(b \<mapsto> Tcp y)" "net_hook m1 = ?u"
      "tasks (queues m1 io) = tasks (queues m io) @ [cb_task (Some (HandleClient b))]"
    using post_server_ok [of "[HandleClient b]" "sv_io sv" io "m\<lparr>objs := (objs m)(b \<mapsto> Tcp y), net_hook := ?u\<rparr>"] server(2)
    by auto
  have begin_call: "accept_begin P p sv m = Inr (Some (Some (Inr (Park ?fr, ?w1))))"
    using server(1,3) r(1) by (simp add: accept_begin_def the_obj_def Socket_accept_call_def hook_accept_def accepted_def)
  obtain es1 where pass: "io_idle_pass (p_ctl P) wait es r kr = Some (Inr (False, es1, r1, kr1))"
    using pass_eq [OF waiting_not_stop [OF ok r(4)] kernel(3,4), of "p_ctl P"] r1(1) by simp
  have fin: "accept_end host P S p b n sv (m\<lparr>net_hook := w2\<rparr>) = Inr m1"
    using server(3) w2(2) m1(1) by (simp add: accept_end_def the_obj_def Let_def)
  show ?thesis
    using begin_call pass r1(2) r(5) resumed w2(1,3,4) fin m1(2-4) u
    by (intro exI [of _ ?fr] exI [of _ ?w1] exI [of _ es1] exI [of _ r1] exI [of _ w2] exI [of _ y] exI [of _ m1])
      (simp add: accept_resume_def)
qed

text \<open>A listening socket without a timeout, whose first client comes after the call.\<close>

definition listening_net :: "nat net" where
  "listening_net = example_net\<lparr>objs := (\<lambda>_. Some (Tcp example_sock)),
     net_hook := with_ctx 9 (setTimeout example_socket SO_RCVTIMEO (-1)) example_hook\<rparr>"

definition late_client :: "nat platform" where
  "late_client = example_platform\<lparr>k_accept := (\<lambda>_ k. if k = 0 then ((-1, EAGAIN), 1) else ((6, 0), 2))\<rparr>"

definition client_arrives :: "nat epoll" where
  "client_arrives mx k = ((1, 0), [ReadyChannel 5 READ], k)"

theorem client_reaches_handler_witness:
  "\<exists>fr w1 es1 r1 w2 y m1. accept_begin late_client 2 (example_server\<lparr>sv_running := True\<rparr>) listening_net = Inr (Some (Some (Inr (Park fr, w1))))
    \<and> io_idle_pass linux_ctl client_arrives (resizeRevent 32 []) (reactor w1) 0 = Some (Inr (False, es1, r1, 0))
    \<and> accept_resume (\<lambda>_. Some True) 4 linux_ctl example_fresh fr (k_accept late_client 5) (w1\<lparr>reactor := r1, kern := 1\<rparr>) = Some (Inr (Ret 6, w2))
    \<and> accept_end EASY_LITTLE_ENDIAN late_client undefined 2 3 6 (example_server\<lparr>sv_running := True\<rparr>) (listening_net\<lparr>net_hook := w2\<rparr>) = Inr m1
    \<and> objs m1 3 = Some (Tcp y) \<and> getRecvTimeout y (net_hook m1) = 3000"
proof -
  have server: "sv_running (example_server\<lparr>sv_running := True\<rparr>)" "sv_io (example_server\<lparr>sv_running := True\<rparr>) = Some 1"
      "objs listening_net 2 = Some (Tcp example_sock)" "sint (sv_recvTimeout (example_server\<lparr>sv_running := True\<rparr>)) = 3000"
    by (simp_all add: example_server_def new_TcpServer_def listening_net_def)
  let ?w = "net_hook listening_net"
  have w: "?w = with_ctx 9 (setTimeout example_socket SO_RCVTIMEO (-1)) example_hook" by (simp add: listening_net_def)
  have "fd_ctx ?w 5 = Some (9, setTimeout example_socket SO_RCVTIMEO (-1))"
    unfolding w by (rule fd_ctx_with_ctx [OF example_ctx])
  then have block: "may_block ?w (s_fd example_sock) 9 (setTimeout example_socket SO_RCVTIMEO (-1))"
    by (simp add: may_block_def example_sock_def)
      (simp add: w with_ctx_def example_hook_def setTimeout_def example_socket_def)
  have t: "getTimeout (setTimeout example_socket SO_RCVTIMEO (-1)) SO_RCVTIMEO = - 1"
    by (simp add: getTimeout_def setTimeout_def)
  have r: "reactor ?w = example_iom" "in_io ?w" "kern ?w = 0" by (simp_all add: w with_ctx_def example_hook_def)
  have "tmgr_ok (tm example_iom)" by (simp add: example_iom_def new_IOManager_def new_TimerManager_ok)
  then have reactor: "in_reactor ?w (s_fd example_sock) READ"
    using r iom_ok_in_step [OF example_iom_ok] by (simp add: in_reactor_def example_sock_def)
  have ok: "iom_ok (reactor ?w)" using r(1) example_iom_ok by simp
  have quiet: "\<not> waiting (reactor ?w) (nat (s_fd example_sock)) READ" by (simp add: r example_not_waiting)
  have ctl: "documented_ctl (p_ctl late_client) (s_fd example_sock)" "p_ctl late_client = linux_ctl"
      "p_fstat late_client = (\<lambda>_. Some True)"
    by (simp_all add: late_client_def example_platform_def)
  have acc: "k_accept late_client (s_fd example_sock) (kern ?w) = ((-1, EAGAIN), 1)"
      "k_accept late_client (s_fd example_sock) 1 = ((6, 0), 2)"
    by (simp_all add: late_client_def r)
  have es: "resizeRevent 32 [] \<noteq> []" by (simp add: resizeRevent_def)
  have "first_events client_arrives (length (resizeRevent 32 [])) 0 (take (nat 1) [ReadyChannel 5 READ]) 0"
    by (rule fe_now [where e = 0]) (simp_all add: client_arrives_def)
  then have ev: "first_events client_arrives (length (resizeRevent 32 [])) 0 [ReadyChannel (nat (s_fd example_sock)) READ] 0"
    by (simp add: example_sock_def)
  have new: "p_fstat late_client 6 = Some True" "datas (fds ?w) \<noteq> []" "fd_ctx ?w 6 = None"
    by (simp_all add: ctl(3) w with_ctx_def example_hook_def fd_ctx_def getFdCtx_read_def fd_index_def)
  show ?thesis
    using client_reaches_handler [where q = 4 and e = example_fresh and host = EASY_LITTLE_ENDIAN and S = undefined and b = 3,
        OF server(1-3) block t reactor quiet ok ctl(1) acc(1) es ev acc(2) _ _ new]
    unfolding ctl(2,3) server(4) by (fastforce simp: example_sock_def)
qed

end
