(* ===== verification/EchoMain.thy ===== *)
theory EchoMain imports EchoServer TcpServerState begin

text \<open>
  The start of \<open>examples/echo_server.cc\<close>: \<open>main\<close> reads its argument and schedules \<open>run\<close>, which binds the server, trying
  again after two seconds as long as it fails, and starts it. Time passes in \<open>sleep\<close>, which is hooked: what other
  fibers and the kernel do meanwhile is an argument.
\<close>

section \<open>The code\<close>

text \<open>The variable \<open>type\<close>, \<open>None\<close> when the program only says how it is used: \<open>strcmp\<close> compares all of the first argument.\<close>

definition main_type :: "str list \<Rightarrow> int option" where
  "main_type argv = (if length argv < 2 then None else Some (if argv ! 1 = chars ''-b'' then 2 else 1))"

text \<open>\<open>EchoServer(type)\<close>: three times the reactor of the calling thread.\<close>

definition new_EchoServer :: "nat \<Rightarrow> u64 \<Rightarrow> server" where
  "new_EchoServer io read_timeout = new_TcpServer (Some io) (Some io) (Some io) read_timeout"

text \<open>\<open>alloc m\<close> is where the allocator puts the next socket.\<close>

partial_function (option) bind_until ::
    "byte_order \<Rightarrow> 'k platform \<Rightarrow> 'k probe \<Rightarrow> (nat \<Rightarrow> bool) \<Rightarrow> ('k net \<Rightarrow> nat) \<Rightarrow> ('k net \<Rightarrow> 'k net) \<Rightarrow> address \<Rightarrow>
     server \<Rightarrow> 'k net \<Rightarrow> (fault + server \<times> 'k net) option" where
  "bind_until host P probe held alloc sleep a sv m =
     (case server_bind_one host P probe held (alloc m) a False sv m of
        Inl e \<Rightarrow> Some (Inl e)
      | Inr (ok, fails, sv1, m1) \<Rightarrow>
          if ok then Some (Inr (sv1, m1)) else bind_until host P probe held alloc sleep a sv1 (sleep m1))"

definition echo_run ::
    "byte_order \<Rightarrow> 'k platform \<Rightarrow> 'k probe \<Rightarrow> (nat \<Rightarrow> bool) \<Rightarrow> ('k net \<Rightarrow> nat) \<Rightarrow> ('k net \<Rightarrow> 'k net) \<Rightarrow> resolver \<Rightarrow>
     nat \<Rightarrow> u64 \<Rightarrow> 'k net \<Rightarrow> (fault + server \<times> 'k net) option" where
  "echo_run host P probe held alloc sleep resolve io read_timeout m =
     (case LookupAny host resolve (chars ''0.0.0.0:12345'') of
        Inl e \<Rightarrow> Some (Inl e)
      | Inr None \<Rightarrow> Some (Inl NullDeref)
      | Inr (Some a) \<Rightarrow>
          map_option (\<lambda>r. bindE r (\<lambda>(sv, m1). bindE (server_start sv m1) (\<lambda>(_, sv1, m2). Inr (sv1, m2))))
            (bind_until host P probe held alloc sleep a (new_EchoServer io read_timeout) m))"

section \<open>One attempt\<close>

definition attempt_works :: "byte_order \<Rightarrow> 'k platform \<Rightarrow> 'k probe \<Rightarrow> address \<Rightarrow> 'k net \<Rightarrow> bool" where
  "attempt_works host P probe a m \<longleftrightarrow> (case bind_one host P probe False a (net_hook m) of Inr (Some x, _) \<Rightarrow> True | _ \<Rightarrow> False)"

text \<open>The state before the attempt after \<open>i\<close> failed ones.\<close>

fun before_attempt ::
    "byte_order \<Rightarrow> 'k platform \<Rightarrow> 'k probe \<Rightarrow> ('k net \<Rightarrow> 'k net) \<Rightarrow> address \<Rightarrow> nat \<Rightarrow> 'k net \<Rightarrow> 'k net" where
  "before_attempt host P probe sleep a 0 m = m"
| "before_attempt host P probe sleep a (Suc i) m =
     before_attempt host P probe sleep a i
       (sleep (case bind_one host P probe False a (net_hook m) of Inr (_, w) \<Rightarrow> m\<lparr>net_hook := w\<rparr> | Inl _ \<Rightarrow> m))"

lemma attempt_ok:
  fixes m :: "'k net"
  assumes "platform_ok P" and "probe_ok probe" and "hook_ok (net_hook m)" and "sv_socks sv = []" and "\<not> sv_ssl sv"
  obtains x w where "attempt_works host P probe a m" and "listens P False a x"
    and "server_bind_one host P probe held n a False sv m
      = Inr (True, [], sv\<lparr>sv_socks := [n]\<rparr>, m\<lparr>objs := (objs m)(n \<mapsto> x), net_hook := w\<rparr>)"
  | w where "\<not> attempt_works host P probe a m" and "hook_ok w"
    and "bind_one host P probe False a (net_hook m) = Inr (None, w)"
    and "server_bind_one host P probe held n a False sv m = Inr (False, [a], sv, m\<lparr>net_hook := w\<rparr>)"
proof -
  obtain r w where r: "bind_one host P probe False a (net_hook m) = Inr (r, w)" "hook_ok w"
      "\<forall>x. r = Some x \<longrightarrow> listens P False a x \<and> fd_ok (s_fd (any_base x))"
    using bind_one_ok [OF assms(1-3)] by blast
  have none: "stored n [] f = f" for f by (rule ext) (auto simp: stored_def)
  have one: "stored n [x] f = f(n \<mapsto> x)" for x f by (rule ext) (auto simp: stored_def)
  have same: "sv\<lparr>sv_ssl := False, sv_socks := ps\<rparr> = sv\<lparr>sv_socks := ps\<rparr>" for ps using assms(5) by simp
  have stays: "sv\<lparr>sv_socks := []\<rparr> = sv" using assms(4) by simp
  show ?thesis
  proof (cases r)
    case None
    then show ?thesis
      using r assms(4) stays same [of "[]"]
      by (intro that(2) [of w]) (simp_all add: attempt_works_def server_bind_one_def server_bind_def none)
  next
    case (Some x)
    then show ?thesis
      using r assms(4) same [of "[n]"]
      by (intro that(1) [of x w]) (simp_all add: attempt_works_def server_bind_one_def server_bind_def one)
  qed
qed

text \<open>The loop ends with the first attempt that works, and only with one.\<close>

definition waits :: "('k net \<Rightarrow> 'k net) \<Rightarrow> bool" where
  "waits sleep \<longleftrightarrow> (\<forall>m. hook_ok (net_hook m) \<longrightarrow> hook_ok (net_hook (sleep m)))"

lemma bind_until_first:
  fixes m :: "'k net"
  assumes "platform_ok P" and "probe_ok probe" and "waits sleep" and "sv_socks sv = []" and "\<not> sv_ssl sv"
    and "attempt_works host P probe a (before_attempt host P probe sleep a i m)"
    and "\<forall>j < i. \<not> attempt_works host P probe a (before_attempt host P probe sleep a j m)" and "hook_ok (net_hook m)"
  defines "m1 \<equiv> before_attempt host P probe sleep a i m"
  shows "\<exists>x w. bind_until host P probe held alloc sleep a sv m
      = Some (Inr (sv\<lparr>sv_socks := [alloc m1]\<rparr>, m1\<lparr>objs := (objs m1)(alloc m1 \<mapsto> x), net_hook := w\<rparr>)) \<and> listens P False a x"
  using assms(6-8) unfolding m1_def
proof (induction i arbitrary: m)
  case 0
  show ?case
    by (rule attempt_ok [where n = "alloc m" and m = m and sv = sv and a = a and host = host and held = held, OF assms(1,2) 0(3) assms(4,5)])
      (use 0(1) in \<open>auto simp: bind_until.simps simp del: fun_upd_apply\<close>)
next
  case (Suc i)
  have "\<not> attempt_works host P probe a m" using Suc.prems(2) by force
  then obtain w where w: "hook_ok w" "bind_one host P probe False a (net_hook m) = Inr (None, w)"
      "server_bind_one host P probe held (alloc m) a False sv m = Inr (False, [a], sv, m\<lparr>net_hook := w\<rparr>)"
    using attempt_ok [where n = "alloc m" and m = m and sv = sv and a = a and host = host and held = held,
        OF assms(1,2) Suc.prems(3) assms(4,5)] by metis
  let ?m = "sleep (m\<lparr>net_hook := w\<rparr>)"
  have ok: "hook_ok (net_hook ?m)" using assms(3) w(1) by (simp add: waits_def)
  have "before_attempt host P probe sleep a (Suc j) m = before_attempt host P probe sleep a j ?m" for j using w(2) by simp
  moreover from this have "\<forall>j < i. \<not> attempt_works host P probe a (before_attempt host P probe sleep a j ?m)"
    using Suc.prems(2) by (metis Suc_less_eq)
  ultimately show ?case
    using Suc.IH [of ?m] Suc.prems(1) ok w(3) by (subst bind_until.simps) (simp del: fun_upd_apply)
qed

lemma bind_until_ends:
  fixes m :: "'k net"
  assumes "bind_until host P probe held alloc sleep a sv m = Some r" and "platform_ok P" and "probe_ok probe" and "waits sleep"
    and "sv_socks sv = []" and "\<not> sv_ssl sv" and "hook_ok (net_hook m)"
  shows "\<exists>i. attempt_works host P probe a (before_attempt host P probe sleep a i m)"
proof -
  have "platform_ok P \<longrightarrow> probe_ok probe \<longrightarrow> waits sleep \<longrightarrow> sv_socks sv = [] \<longrightarrow> \<not> sv_ssl sv \<longrightarrow> hook_ok (net_hook m)
      \<longrightarrow> (\<exists>i. attempt_works host P probe a (before_attempt host P probe sleep a i m))"
  proof (rule bind_until.raw_induct [where Pa = "\<lambda>((((((((host, P), probe), held), alloc), sleep), a), sv), m) r.
      platform_ok P \<longrightarrow> probe_ok probe \<longrightarrow> waits sleep \<longrightarrow> sv_socks sv = [] \<longrightarrow> \<not> sv_ssl sv \<longrightarrow> hook_ok (net_hook m)
      \<longrightarrow> (\<exists>i. attempt_works host P probe a (before_attempt host P probe sleep a i m))",
      unfolded prod.case, OF _ assms(1)], intro impI)
    fix loop :: "byte_order \<Rightarrow> 'k platform \<Rightarrow> 'k probe \<Rightarrow> (nat \<Rightarrow> bool) \<Rightarrow> ('k net \<Rightarrow> nat) \<Rightarrow> ('k net \<Rightarrow> 'k net) \<Rightarrow> address \<Rightarrow>
         server \<Rightarrow> 'k net \<Rightarrow> (fault + server \<times> 'k net) option"
      and host P probe held alloc sleep a sv m r
    assume IH: "\<And>host P probe held alloc sleep a sv m r. loop host P probe held alloc sleep a sv m = Some r \<Longrightarrow>
          platform_ok P \<longrightarrow> probe_ok probe \<longrightarrow> waits sleep \<longrightarrow> sv_socks sv = [] \<longrightarrow> \<not> sv_ssl sv \<longrightarrow> hook_ok (net_hook m)
          \<longrightarrow> (\<exists>i. attempt_works host P probe a (before_attempt host P probe sleep a i m))"
      and step: "(case server_bind_one host P probe held (alloc m) a False sv m of
        Inl e \<Rightarrow> Some (Inl e)
      | Inr (ok, fails, sv1, m1) \<Rightarrow>
          if ok then Some (Inr (sv1, m1)) else loop host P probe held alloc sleep a sv1 (sleep m1)) = Some r"
      and ok: "platform_ok P" "probe_ok probe" "waits sleep" "sv_socks sv = []" "\<not> sv_ssl sv" "hook_ok (net_hook m)"
    show "\<exists>i. attempt_works host P probe a (before_attempt host P probe sleep a i m)"
    proof (cases "attempt_works host P probe a m")
      case True
      then show ?thesis by (intro exI [of _ 0]) simp
    next
      case False
      then obtain w where w: "hook_ok w" "bind_one host P probe False a (net_hook m) = Inr (None, w)"
          "server_bind_one host P probe held (alloc m) a False sv m = Inr (False, [a], sv, m\<lparr>net_hook := w\<rparr>)"
        using attempt_ok [where n = "alloc m" and m = m and sv = sv and a = a and host = host and held = held, OF ok(1,2,6,4,5)]
        by metis
      let ?m = "sleep (m\<lparr>net_hook := w\<rparr>)"
      have "hook_ok (net_hook ?m)" using ok(3) w(1) by (simp add: waits_def)
      moreover have "loop host P probe held alloc sleep a sv ?m = Some r" using step w(3) by simp
      ultimately obtain i where "attempt_works host P probe a (before_attempt host P probe sleep a i ?m)"
        using IH ok(1-5) by blast
      then show ?thesis using w(2) by (intro exI [of _ "Suc i"]) simp
    qed
  qed
  then show ?thesis using assms(2-7) by blast
qed

section \<open>Property\<close>

text \<open>
  C30. The example server comes up: \<open>run\<close> returns exactly when, after any number of failed attempts with two seconds of anything in between,
  the kernel grants one; then the server runs with a single socket, which listens on the address, and one task that accepts on it is queued
  behind what the reactor had, the failed attempts having left no socket. When the resolver gives no address \<open>run\<close> dereferences a null pointer.
\<close>

theorem server_comes_up:
  fixes m :: "'k net"
  assumes "platform_ok P" and "probe_ok probe" and "waits sleep" and "hook_ok (net_hook m)"
  shows "(LookupAny host resolve (chars ''0.0.0.0:12345'') = Inr None \<longrightarrow>
        echo_run host P probe held alloc sleep resolve io rt m = Some (Inl NullDeref))
    \<and> (\<forall>a. LookupAny host resolve (chars ''0.0.0.0:12345'') = Inr (Some a) \<longrightarrow>
        (echo_run host P probe held alloc sleep resolve io rt m \<noteq> None
          \<longleftrightarrow> (\<exists>i. attempt_works host P probe a (before_attempt host P probe sleep a i m)))
      \<and> (\<forall>i m1. m1 = before_attempt host P probe sleep a i m \<and> attempt_works host P probe a m1
            \<and> (\<forall>j < i. \<not> attempt_works host P probe a (before_attempt host P probe sleep a j m)) \<longrightarrow>
          (\<exists>x sv m2. echo_run host P probe held alloc sleep resolve io rt m = Some (Inr (sv, m2))
            \<and> sv_running sv \<and> sv_socks sv = [alloc m1] \<and> objs m2 = (objs m1)(alloc m1 \<mapsto> x) \<and> listens P False a x
            \<and> tasks (queues m2 io) = tasks (queues m1 io) @ [cb_task (Some (StartAccept (alloc m1)))])))"
proof (intro conjI allI impI)
  assume "LookupAny host resolve (chars ''0.0.0.0:12345'') = Inr None"
  then show "echo_run host P probe held alloc sleep resolve io rt m = Some (Inl NullDeref)" by (simp add: echo_run_def)
next
  fix a
  assume a: "LookupAny host resolve (chars ''0.0.0.0:12345'') = Inr (Some a)"
  let ?sv = "new_EchoServer io rt" and ?works = "\<lambda>i. attempt_works host P probe a (before_attempt host P probe sleep a i m)"
  have sv: "sv_socks ?sv = []" "\<not> sv_ssl ?sv" "sv_accept ?sv = Some io" "\<not> sv_running ?sv"
    by (simp_all add: new_EchoServer_def new_TcpServer_def)
  note first = bind_until_first [where sv = ?sv and a = a and m = m, OF assms(1-3) sv(1,2) _ _ assms(4)]
  show "echo_run host P probe held alloc sleep resolve io rt m \<noteq> None \<longleftrightarrow> (\<exists>i. ?works i)"
  proof
    assume "echo_run host P probe held alloc sleep resolve io rt m \<noteq> None"
    then obtain r where "bind_until host P probe held alloc sleep a ?sv m = Some r" using a by (auto simp: echo_run_def)
    then show "\<exists>i. ?works i" by (rule bind_until_ends [OF _ assms(1-3) sv(1,2) assms(4)])
  next
    assume "\<exists>i. ?works i"
    then obtain i where "?works i" "\<forall>j < i. \<not> ?works j" using exists_least_iff [of ?works] by blast
    from first [OF this] show "echo_run host P probe held alloc sleep resolve io rt m \<noteq> None" using a by (auto simp: echo_run_def)
  qed
  fix i m1
  assume m1: "m1 = before_attempt host P probe sleep a i m \<and> attempt_works host P probe a m1 \<and> (\<forall>j < i. \<not> ?works j)"
  then obtain x w where x: "bind_until host P probe held alloc sleep a ?sv m
      = Some (Inr (?sv\<lparr>sv_socks := [alloc m1]\<rparr>, m1\<lparr>objs := (objs m1)(alloc m1 \<mapsto> x), net_hook := w\<rparr>))" "listens P False a x"
    using first [of host i held alloc] by blast
  let ?m = "m1\<lparr>objs := (objs m1)(alloc m1 \<mapsto> x), net_hook := w\<rparr>"
  obtain m2 where "post_server (Some io) [StartAccept (alloc m1)] ?m = Inr m2" "objs m2 = objs ?m"
      "tasks (queues m2 io) = tasks (queues m1 io) @ [cb_task (Some (StartAccept (alloc m1)))]"
    using post_server_ok [of "[StartAccept (alloc m1)]" "Some io" io ?m] by auto
  then show "\<exists>x sv m2. echo_run host P probe held alloc sleep resolve io rt m = Some (Inr (sv, m2))
      \<and> sv_running sv \<and> sv_socks sv = [alloc m1] \<and> objs m2 = (objs m1)(alloc m1 \<mapsto> x) \<and> listens P False a x
      \<and> tasks (queues m2 io) = tasks (queues m1 io) @ [cb_task (Some (StartAccept (alloc m1)))]"
    using a x sv(3,4) by (intro exI [of _ x] exI [of _ "?sv\<lparr>sv_socks := [alloc m1], sv_running := True\<rparr>"] exI [of _ m2])
      (simp add: echo_run_def server_start_def del: fun_upd_apply)
qed

text \<open>A resolver that knows \<open>0.0.0.0:12345\<close>, and a kernel that has no descriptor to give until time has passed.\<close>

definition one_address :: resolver where
  "one_address nd service = Some [Some ([2, 0, 0x30, 0x39] @ replicate 12 0)]"

definition full_at_first :: "nat platform" where
  "full_at_first = example_platform\<lparr>k_socket := (\<lambda>_ _ _ k. if k = 0 then ((-1, 23), k) else ((5, 0), k))\<rparr>"

definition time_passes :: "nat net \<Rightarrow> nat net" where
  "time_passes m = m\<lparr>net_hook := (net_hook m)\<lparr>kern := 1\<rparr>\<rparr>"

lemma one_address_found:
  "LookupAny EASY_LITTLE_ENDIAN one_address (chars ''0.0.0.0:12345'')
     = Inr (Some (V4 \<lparr>sin_family = 2, sin_port = 14640, s_addr = 0, sin_zero = [0, 0, 0, 0, 0, 0, 0, 0]\<rparr>))"
  by code_simp

lemma first_attempt:
  "bind_one EASY_LITTLE_ENDIAN full_at_first no_answer False (V4 a) (net_hook example_net)
     = Inr (None, (net_hook example_net)\<lparr>errno := 23\<rparr>)"
  by (simp add: bind_one_def any_bind_def created_def CreateTCP_def new_Socket_def Socket_bind_def Socket_bind_check_def Socket_isValid_def
      newSock_def hook_socket_def sys_def full_at_first_def example_net_def example_hook_def any_close_def Socket_close_def result_of_def)

lemma second_attempt:
  "\<exists>x w. bind_one EASY_LITTLE_ENDIAN full_at_first no_answer False (V4 a) ((net_hook example_net)\<lparr>errno := 23, kern := 1\<rparr>)
     = Inr (Some x, w)"
  by (simp add: bind_one_def any_bind_def created_def CreateTCP_def new_Socket_def Socket_bind_def Socket_bind_check_def Socket_isValid_def
      newSock_def hook_socket_def sys_def full_at_first_def example_platform_def example_net_def example_hook_def any_close_def Socket_close_def result_of_def
      register_fd_def getFdCtx_def getFdCtx_read_def fd_index_def nth_append Socket_bind_finish_def getLocalAddress_def answered_address_def Let_def
      Socket_listen_def initSock_def setOption_def hook_setsockopt_def split: prod.splits)

theorem server_comes_up_witness:
  "\<exists>x sv m2. echo_run EASY_LITTLE_ENDIAN full_at_first no_answer (\<lambda>_. False) (\<lambda>_. 4) time_passes one_address 1 3000 example_net = Some (Inr (sv, m2))
     \<and> sv_running sv \<and> sv_socks sv = [4] \<and> objs m2 4 = Some x \<and> tasks (queues m2 1) = [cb_task (Some (StartAccept 4))]"
proof -
  let ?s = "\<lparr>sin_family = 2, sin_port = 14640, s_addr = 0, sin_zero = [0, 0, 0, 0, 0, 0, 0, 0]\<rparr>"
  let ?a = "V4 ?s"
  let ?before = "\<lambda>i. before_attempt EASY_LITTLE_ENDIAN full_at_first no_answer time_passes ?a i example_net"
  let ?works = "attempt_works EASY_LITTLE_ENDIAN full_at_first no_answer ?a"
  have P: "platform_ok full_at_first" by (simp add: platform_ok_def full_at_first_def fd_ok_def)
  have w: "waits time_passes" by (simp add: waits_def time_passes_def hook_ok_def)
  have m: "hook_ok (net_hook example_net)" using example_net_ok by (simp add: net_ok_def)
  have one: "?before 1 = example_net\<lparr>net_hook := (net_hook example_net)\<lparr>errno := 23, kern := 1\<rparr>\<rparr>"
    using first_attempt [of ?s] by (simp add: time_passes_def)
  have "\<not> ?works (?before 0)" using first_attempt [of ?s] by (simp add: attempt_works_def)
  moreover obtain x w where "bind_one EASY_LITTLE_ENDIAN full_at_first no_answer False ?a (net_hook (?before 1)) = Inr (Some x, w)"
    using second_attempt [of ?s] unfolding one by auto
  then have "?works (?before 1)" unfolding attempt_works_def by simp
  ultimately have "?works (?before 1) \<and> (\<forall>j < 1. \<not> ?works (?before j))" by simp
  moreover have "tasks (queues (?before 1) 1) = []" unfolding one by (simp add: example_net_def)
  ultimately show ?thesis
    using server_comes_up [OF P no_answer_ok w m, of EASY_LITTLE_ENDIAN one_address "\<lambda>_. False" "\<lambda>_. 4" 1 3000] one_address_found
    by (fastforce simp del: before_attempt.simps)
qed

end
