(* ===== verification/WorkerPool.thy ===== *)
theory WorkerPool imports Scheduler "HOL-Library.Multiset" begin

text \<open>
  All workers of a scheduler at once (\<open>easy/base/Scheduler.cc\<close>). Between two actions on what the threads share a worker is at a
  place of its loop with what it has in its hands; each action is a function, and the threads' actions come in any order, with tasks
  posted and fibers doing anything in between. Alone, the actions of a worker are \<open>run_once\<close>.
\<close>

section \<open>The actions of a worker\<close>

text \<open>Where a worker is in \<open>run\<close>; \<open>None\<close> instead of a task is the idle fiber's turn.\<close>

datatype 'c place =
    AtTake
  | AtTest "'c task option"
  | AtReady "'c task" nat
  | Resuming "'c task option" nat
  | InFiber "'c task option" nat
  | Settled "'c task option"
  | Left "'c task option"

text \<open>\<open>take\<close> under the lock; \<open>ex\<close> is what it reads of the fibers' states, which others change meanwhile.\<close>

definition act_take :: "(nat \<Rightarrow> bool) \<Rightarrow> int \<Rightarrow> ('c, 'k) world \<Rightarrow> fault + 'c place \<times> ('c, 'k) world" where
  "act_take ex tid w = bindE (take_task ex tid (sch w)) (\<lambda>(r, s). Inr (AtTest r, w\<lparr>sch := s\<rparr>))"

text \<open>The tests behind it, up to the increment of a counter of threads or to the end of the iteration.\<close>

definition act_test :: "nat \<Rightarrow> nat \<Rightarrow> nat \<Rightarrow> 'c task option \<Rightarrow> ('c, 'k) world \<Rightarrow> fault + 'c place \<times> ('c, 'k) world" where
  "act_test default_size idle fresh task w =
     bindE (getf (fib w) (Some idle)) (\<lambda>i.
       if finish i then Inr (Left task, w)
       else case task of
         None \<Rightarrow> Inr (Resuming None idle, with_idle 1 w)
       | Some t \<Rightarrow>
           bindE (task_to_fiber default_size fresh t w) (\<lambda>(p, w1).
             case p of None \<Rightarrow> Inr (AtTake, w1)
             | Some p \<Rightarrow> bindE (getf (fib w1) (Some p)) (\<lambda>f. Inr (if finish f then AtTake else AtReady t p, w1))))"

definition act_activate :: "'c task \<Rightarrow> nat \<Rightarrow> ('c, 'k) world \<Rightarrow> fault + 'c place \<times> ('c, 'k) world" where
  "act_activate t p w = Inr (Resuming (Some t) p, with_active 1 w)"

text \<open>\<open>handleFiber\<close>: the switch to the fiber, what is made of its state after the switch back, and the counter.\<close>

definition act_resume :: "'c task option \<Rightarrow> nat \<Rightarrow> ('c, 'k) world \<Rightarrow> fault + 'c place \<times> ('c, 'k) world" where
  "act_resume task p w =
     bindE (sched_resume (thr w) (fib w) p) (\<lambda>(th, fb). Inr (InFiber task p, w\<lparr>thr := th, fib := fb\<rparr>))"

definition act_settle :: "('c sched \<Rightarrow> 'c sched) \<Rightarrow> 'c task option \<Rightarrow> nat \<Rightarrow> ('c, 'k) world \<Rightarrow> fault + 'c place \<times> ('c, 'k) world" where
  "act_settle wk task p w =
     bindE (getf (fib w) (Some p)) (\<lambda>f.
       Inr (Settled task,
         if state f \<in> {INIT, EXEC, HOLD} then w\<lparr>fib := setf (fib w) p (f\<lparr>state := HOLD\<rparr>)\<rparr>
         else if state f = READY then w\<lparr>sch := schedule wk (sch w) (fiber_task p)\<rparr> else w))"

definition act_leave :: "'c task option \<Rightarrow> ('c, 'k) world \<Rightarrow> fault + 'c place \<times> ('c, 'k) world" where
  "act_leave task w = Inr (AtTake, if task = None then with_idle (-1) w else with_active (-1) w)"

section \<open>One worker alone\<close>

text \<open>The actions from \<open>Resuming\<close> to the end of the iteration, with what the fiber does while it runs.\<close>

definition turn_fiber ::
    "(nat \<Rightarrow> ('c, 'k) world \<Rightarrow> fault + ('c, 'k) world) \<Rightarrow> ('c sched \<Rightarrow> 'c sched) \<Rightarrow> 'c task option \<Rightarrow> nat \<Rightarrow> ('c, 'k) world \<Rightarrow> fault + ('c, 'k) world" where
  "turn_fiber body wk task p w =
     bindE (act_resume task p w) (\<lambda>(_, w1).
     bindE (body p w1) (\<lambda>w2.
     bindE (act_settle wk task p w2) (\<lambda>(_, w3).
     bindE (act_leave task w3) (\<lambda>(_, w4). Inr w4))))"

definition turn ::
    "(nat \<Rightarrow> ('c, 'k) world \<Rightarrow> fault + ('c, 'k) world) \<Rightarrow> ('c sched \<Rightarrow> 'c sched) \<Rightarrow> nat \<Rightarrow> int \<Rightarrow> nat \<Rightarrow> nat \<Rightarrow>
     ('c, 'k) world \<Rightarrow> fault + bool \<times> ('c, 'k) world" where
  "turn body wk n tid idle fresh w =
     bindE (act_take (exec_state (fib w)) tid w) (\<lambda>(a, w1).
     bindE (act_test n idle fresh (case a of AtTest task \<Rightarrow> task | _ \<Rightarrow> None) w1) (\<lambda>(a, w2). case a of
         Left _ \<Rightarrow> Inr (False, w2)
       | Resuming task p \<Rightarrow> bindE (turn_fiber body wk task p w2) (\<lambda>w3. Inr (True, w3))
       | AtReady t p \<Rightarrow> bindE (act_activate t p w2) (\<lambda>(_, w3).
           bindE (turn_fiber body wk (Some t) p w3) (\<lambda>w4. Inr (True, w4)))
       | _ \<Rightarrow> Inr (True, w2)))"

lemma handle_turn:
  "bindE (handleFiber body wk p w) (\<lambda>w'. Inr (True, (if task = None then with_idle (-1) w' else with_active (-1) w')))
     = bindE (turn_fiber body wk task p w) (\<lambda>w'. Inr (True, w'))"
proof -
  have settle: "(case state f of INIT \<Rightarrow> a | EXEC \<Rightarrow> a | HOLD \<Rightarrow> a | READY \<Rightarrow> b | TERM_state \<Rightarrow> c | EXCEPT \<Rightarrow> c)
      = (if state f \<in> {INIT, EXEC, HOLD} then a else if state f = READY then b else c)"
    for f :: "'a job fiber" and a b c :: "('a, 'b) world"
    by (cases "state f") simp_all
  show ?thesis
    by (simp add: handleFiber_def turn_fiber_def act_resume_def act_settle_def act_leave_def settle bindE_def
        split: sum.splits prod.splits)
qed

lemma turn_fiber_same: "turn_fiber body wk (Some t) p w = turn_fiber body wk (Some u) p w"
  by (simp add: turn_fiber_def act_resume_def act_settle_def act_leave_def bindE_def split: sum.splits prod.splits)

text \<open>
  The actions of a worker are those of its loop: one after the other, without any other thread in between, they do what
  one iteration of \<open>run\<close> does, whatever the fibers do and wherever it fails.
\<close>

theorem turn_is_run_once: "turn body wk n tid idle fresh w = run_once body wk n tid idle fresh w"
proof -
  have idle: "bindE (handleFiber body wk p v) (\<lambda>w'. Inr (True, with_idle (-1) w'))
      = bindE (turn_fiber body wk None p v) (\<lambda>w'. Inr (True, w'))" for p and v :: "('a, 'b) world"
    using handle_turn [of body wk p v None] by simp
  define g where "g = turn_fiber body wk (Some undefined)"
  have same: "turn_fiber body wk (Some t) p v = g p v" for t p v
    unfolding g_def by (rule turn_fiber_same)
  have active: "bindE (handleFiber body wk p v) (\<lambda>w'. Inr (True, with_active (-1) w'))
      = bindE (g p v) (\<lambda>w'. Inr (True, w'))" for p and v :: "('a, 'b) world"
    using handle_turn [of body wk p v "Some undefined"] by (simp add: g_def)
  show ?thesis
    unfolding turn_def run_once_def act_take_def act_test_def act_activate_def Let_def idle active
    by (simp add: bindE_def same split: sum.splits prod.splits option.splits)
qed

section \<open>All workers\<close>

text \<open>
  Each thread has its place and its thread-local pointers; \<open>posted\<close> collects the tasks ever queued, \<open>handled\<close> those whose turn is over:
  both are not in the code.
\<close>

record ('c, 'k) pool =
  place :: "int \<Rightarrow> 'c place"
  pointers :: "int \<Rightarrow> thread"
  shared_fib :: "'c job fibers"
  shared_sch :: "'c sched"
  shared_outside :: 'k
  posted :: "'c task multiset"
  handled :: "'c task multiset"

definition seen :: "('c, 'k) pool \<Rightarrow> int \<Rightarrow> ('c, 'k) world" where
  "seen s tid = \<lparr>thr = pointers s tid, fib = shared_fib s, sch = shared_sch s, outside = shared_outside s\<rparr>"

definition moved :: "int \<Rightarrow> 'c place \<Rightarrow> ('c, 'k) world \<Rightarrow> ('c, 'k) pool \<Rightarrow> ('c, 'k) pool" where
  "moved tid a w s = s\<lparr>place := (place s)(tid := a), pointers := (pointers s)(tid := thr w), shared_fib := fib w, shared_sch := sch w,
     shared_outside := outside w\<rparr>"

text \<open>The task a worker holds at a place.\<close>

fun in_hand :: "'c place \<Rightarrow> 'c task option" where
  "in_hand AtTake = None"
| "in_hand (AtTest task) = task"
| "in_hand (AtReady t p) = Some t"
| "in_hand (Resuming task p) = task"
| "in_hand (InFiber task p) = task"
| "in_hand (Settled task) = task"
| "in_hand (Left task) = task"

definition hand :: "'c place \<Rightarrow> 'c task multiset" where
  "hand a = (case in_hand a of None \<Rightarrow> {#} | Some t \<Rightarrow> {#t#})"

text \<open>Tasks as \<open>schedule\<close> makes them: a fiber or a callback, not both.\<close>

definition one_kind :: "'c task \<Rightarrow> bool" where
  "one_kind t \<longleftrightarrow> task_fiber t = None \<or> task_cb t = None"

text \<open>
  The actions of the threads in \<open>W\<close>, and what goes on around them: somebody posts a task, the fibers that run change themselves, other fibers and
  the pointers of their threads in any way, \<open>start\<close> and \<open>stop\<close> set the flag.
\<close>

inductive pool_step :: "nat \<Rightarrow> (int \<Rightarrow> nat) \<Rightarrow> int set \<Rightarrow> ('c, 'k) pool \<Rightarrow> ('c, 'k) pool \<Rightarrow> bool" for n idle W where
  ps_take: "tid \<in> W \<Longrightarrow> place s tid = AtTake \<Longrightarrow> act_take ex tid (seen s tid) = Inr (a, w)
    \<Longrightarrow> pool_step n idle W s (moved tid a w s)"
| ps_test: "tid \<in> W \<Longrightarrow> place s tid = AtTest task \<Longrightarrow> act_test n (idle tid) fresh task (seen s tid) = Inr (a, w)
    \<Longrightarrow> pool_step n idle W s ((moved tid a w s)\<lparr>handled := handled s + (if a = AtTake then hand (AtTest task) else {#})\<rparr>)"
| ps_activate: "tid \<in> W \<Longrightarrow> place s tid = AtReady t p \<Longrightarrow> act_activate t p (seen s tid) = Inr (a, w)
    \<Longrightarrow> pool_step n idle W s (moved tid a w s)"
| ps_resume: "tid \<in> W \<Longrightarrow> place s tid = Resuming task p \<Longrightarrow> act_resume task p (seen s tid) = Inr (a, w)
    \<Longrightarrow> pool_step n idle W s (moved tid a w s)"
| ps_settle: "tid \<in> W \<Longrightarrow> place s tid = InFiber task p \<Longrightarrow> act_settle io_weakup task p (seen s tid) = Inr (a, w)
    \<Longrightarrow> pool_step n idle W s ((moved tid a w s)\<lparr>posted := posted s + mset (drop (length (tasks (shared_sch s))) (tasks (sch w)))\<rparr>)"
| ps_leave: "tid \<in> W \<Longrightarrow> place s tid = Settled task \<Longrightarrow> act_leave task (seen s tid) = Inr (a, w)
    \<Longrightarrow> pool_step n idle W s ((moved tid a w s)\<lparr>handled := handled s + hand (Settled task)\<rparr>)"
| ps_post: "one_kind t \<Longrightarrow> pool_step n idle W s
    (s\<lparr>shared_sch := schedule io_weakup (shared_sch s) t, posted := posted s + (if null_task t then {#} else {#t#})\<rparr>)"
| ps_fibers: "pool_step n idle W s (s\<lparr>shared_fib := fb, pointers := th, shared_outside := k\<rparr>)"
| ps_running: "pool_step n idle W s (s\<lparr>shared_sch := (shared_sch s)\<lparr>running := b\<rparr>\<rparr>)"

inductive pool_reachable :: "nat \<Rightarrow> (int \<Rightarrow> nat) \<Rightarrow> int set \<Rightarrow> ('c, 'k) pool \<Rightarrow> bool" for n idle W where
  pr_start: "activeThreadNums (shared_sch s) = 0 \<Longrightarrow> idleThreadNums (shared_sch s) = 0 \<Longrightarrow> tasks (shared_sch s) = []
    \<Longrightarrow> (\<forall>tid. place s tid = AtTake) \<Longrightarrow> posted s = {#} \<Longrightarrow> handled s = {#} \<Longrightarrow> pool_reachable n idle W s"
| pr_step: "pool_reachable n idle W s \<Longrightarrow> pool_step n idle W s s' \<Longrightarrow> pool_reachable n idle W s'"

section \<open>The invariant\<close>

fun active_at :: "'c place \<Rightarrow> bool" where
  "active_at (Resuming task p) = (task \<noteq> None)"
| "active_at (InFiber task p) = (task \<noteq> None)"
| "active_at (Settled task) = (task \<noteq> None)"
| "active_at _ = False"

fun idle_at :: "'c place \<Rightarrow> bool" where
  "idle_at (Resuming task p) = (task = None)"
| "idle_at (InFiber task p) = (task = None)"
| "idle_at (Settled task) = (task = None)"
| "idle_at _ = False"

definition pinned_ok :: "int \<Rightarrow> 'c place \<Rightarrow> bool" where
  "pinned_ok tid a \<longleftrightarrow> (\<forall>t. in_hand a = Some t \<longrightarrow> (threadId t = -1 \<or> threadId t = tid) \<and> \<not> null_task t \<and> one_kind t)"

definition queued_ok :: "'c sched \<Rightarrow> bool" where
  "queued_ok s \<longleftrightarrow> (\<forall>t \<in> set (tasks s). \<not> null_task t \<and> one_kind t)"

definition pool_ok :: "int set \<Rightarrow> ('c, 'k) pool \<Rightarrow> bool" where
  "pool_ok W s \<longleftrightarrow> queued_ok (shared_sch s) \<and> (\<forall>tid. pinned_ok tid (place s tid))
     \<and> posted s = mset (tasks (shared_sch s)) + (\<Sum>tid\<in>W. hand (place s tid)) + handled s
     \<and> activeThreadNums (shared_sch s) = (\<Sum>tid\<in>W. of_bool (active_at (place s tid)))
     \<and> idleThreadNums (shared_sch s) = (\<Sum>tid\<in>W. of_bool (idle_at (place s tid)))"

text \<open>What an action of the thread \<open>tid\<close> does to the books: \<open>new\<close> tasks are posted, \<open>done\<close> ones are over.\<close>

definition booked ::
    "int \<Rightarrow> 'c place \<Rightarrow> ('c, 'k) world \<Rightarrow> 'c place \<Rightarrow> ('c, 'k) world \<Rightarrow> 'c task multiset \<Rightarrow> 'c task multiset \<Rightarrow> bool" where
  "booked tid a w a' w' new over \<longleftrightarrow> (queued_ok (sch w) \<and> pinned_ok tid a \<longrightarrow> queued_ok (sch w') \<and> pinned_ok tid a')
     \<and> mset (tasks (sch w')) + hand a' + over = mset (tasks (sch w)) + hand a + new
     \<and> activeThreadNums (sch w') + of_bool (active_at a) = activeThreadNums (sch w) + of_bool (active_at a')
     \<and> idleThreadNums (sch w') + of_bool (idle_at a) = idleThreadNums (sch w) + of_bool (idle_at a')"

lemma sum_moved:
  fixes f :: "'b \<Rightarrow> 'c::comm_monoid_add"
  assumes "finite W" and "k \<in> W"
  shows "(\<Sum>i\<in>W. f ((g(k := a)) i)) + f (g k) = (\<Sum>i\<in>W. f (g i)) + f a"
proof -
  have "(\<Sum>i\<in>W. f ((g(k := a)) i)) = f a + (\<Sum>i\<in>W - {k}. f (g i))"
    using assms by (simp add: sum.remove [of W k])
  moreover have "(\<Sum>i\<in>W. f (g i)) = f (g k) + (\<Sum>i\<in>W - {k}. f (g i))" using assms by (simp add: sum.remove [of W k])
  ultimately show ?thesis by (simp add: ac_simps)
qed

lemma booked_ok:
  assumes "finite W" and "pool_ok W s" and "tid \<in> W" and "booked tid (place s tid) (seen s tid) a w new over"
    and "place s' = (place s)(tid := a)" and "shared_sch s' = sch w" and "posted s' = posted s + new" and "handled s' = handled s + over"
  shows "pool_ok W s'"
proof -
  let ?h = "\<lambda>f. \<Sum>i\<in>W. f (place s i)" and ?h' = "\<lambda>f. \<Sum>i\<in>W. f (place s' i)"
  note pl = assms(5-8)
  have old: "sch (seen s tid) = shared_sch s" by (simp add: seen_def)
  note b = assms(4) [unfolded booked_def old]
  have sums: "(\<Sum>i\<in>W. hand (place s' i)) + hand (place s tid) = (\<Sum>i\<in>W. hand (place s i)) + hand a"
    "(\<Sum>i\<in>W. of_bool (active_at (place s' i))) + of_bool (active_at (place s tid))
      = (\<Sum>i\<in>W. of_bool (active_at (place s i))) + (of_bool (active_at a) :: int)"
    "(\<Sum>i\<in>W. of_bool (idle_at (place s' i))) + of_bool (idle_at (place s tid))
      = (\<Sum>i\<in>W. of_bool (idle_at (place s i))) + (of_bool (idle_at a) :: int)"
    unfolding pl(1) by (rule sum_moved [OF assms(1,3)])+
  have "queued_ok (shared_sch s')" "\<forall>i. pinned_ok i (place s' i)"
    using b assms(2) by (auto simp: pl pool_ok_def)
  moreover have "posted s' = mset (tasks (shared_sch s')) + (\<Sum>i\<in>W. hand (place s' i)) + handled s'"
  proof -
    have "posted s' + hand (place s tid) = (mset (tasks (shared_sch s)) + hand (place s tid) + new) + (\<Sum>i\<in>W. hand (place s i)) + handled s"
      using assms(2) by (simp add: pl pool_ok_def ac_simps)
    also have "\<dots> = (mset (tasks (sch w)) + hand a + over) + (\<Sum>i\<in>W. hand (place s i)) + handled s" using b by simp
    also have "\<dots> = mset (tasks (sch w)) + ((\<Sum>i\<in>W. hand (place s i)) + hand a) + handled s'" by (simp add: pl ac_simps)
    also have "\<dots> = mset (tasks (sch w)) + (\<Sum>i\<in>W. hand (place s' i)) + handled s' + hand (place s tid)"
      using sums(1) by (simp add: ac_simps)
    finally show ?thesis by (simp add: pl)
  qed
  moreover have "activeThreadNums (shared_sch s') = (\<Sum>i\<in>W. of_bool (active_at (place s' i)))"
    using b sums(2) assms(2) by (simp add: pl pool_ok_def)
  moreover have "idleThreadNums (shared_sch s') = (\<Sum>i\<in>W. of_bool (idle_at (place s' i)))"
    using b sums(3) assms(2) by (simp add: pl pool_ok_def)
  ultimately show ?thesis by (simp add: pool_ok_def)
qed

text \<open>Each action keeps the books.\<close>

lemma queued_ok_queue: "queued_ok s \<Longrightarrow> queue_ok s"
  by (simp add: queued_ok_def queue_ok_def)

lemma booked_take:
  assumes "act_take ex tid w = Inr (a, w')" and "queued_ok (sch w)"
  shows "booked tid AtTake w a w' {#} {#}"
proof (rule take_task_cases [OF queued_ok_queue [OF assms(2)], of ex tid])
  assume "take_task ex tid (sch w) = Inr (None, sch w)"
  then show ?thesis using assms(1) by (auto simp: act_take_def booked_def hand_def pinned_ok_def)
next
  fix pre t post
  assume *: "tasks (sch w) = pre @ t # post" "eligible ex tid t" "\<not> null_task t"
    "take_task ex tid (sch w) = Inr (Some t, (sch w)\<lparr>tasks := pre @ post\<rparr>)"
  then have "a = AtTest (Some t)" "w' = w\<lparr>sch := (sch w)\<lparr>tasks := pre @ post\<rparr>\<rparr>" using assms(1) by (auto simp: act_take_def)
  then show ?thesis using * by (auto simp: booked_def hand_def pinned_ok_def eligible_def queued_ok_def)
qed

lemma task_to_fiber_sch: "task_to_fiber n fresh t w = Inr (p, w1) \<Longrightarrow> sch w1 = sch w"
  by (auto simp: task_to_fiber_def faults split: if_splits)

lemma booked_test:
  assumes "act_test n idle fresh task w = Inr (a, w')"
  shows "booked tid (AtTest task) w a w' {#} (if a = AtTake then hand (AtTest task) else {#})"
proof -
  consider (left) "a = Left task" "w' = w" | (idle) "task = None" "a = Resuming None idle" "w' = with_idle 1 w"
    | (over) t where "task = Some t" "a = AtTake" "sch w' = sch w" | (ready) t p where "task = Some t" "a = AtReady t p" "sch w' = sch w"
  proof (cases task)
    case None
    then show ?thesis using assms that(1,2) by (auto simp: act_test_def bindE_eq_Inr split: if_splits)
  next
    case (Some t)
    show ?thesis
    proof (cases "a = Left task \<and> w' = w")
      case False
      then obtain p w1 where p: "task_to_fiber n fresh t w = Inr (p, w1)"
          "(case p of None \<Rightarrow> Inr (AtTake, w1)
             | Some p \<Rightarrow> bindE (getf (fib w1) (Some p)) (\<lambda>f. Inr (if finish f then AtTake else AtReady t p, w1))) = Inr (a, w')"
        using assms Some by (auto simp: act_test_def bindE_eq_Inr split: if_splits)
      then have "sch w' = sch w" "a = AtTake \<or> (\<exists>q. a = AtReady t q)"
        using task_to_fiber_sch [OF p(1)] by (auto simp: bindE_eq_Inr split: option.splits if_splits)
      then show ?thesis using Some that(3,4) by blast
    qed (use that(1) in blast)
  qed
  then show ?thesis
    by cases (simp_all add: booked_def hand_def pinned_ok_def queued_ok_def with_idle_def)
qed

lemma booked_activate: "act_activate t p w = Inr (a, w') \<Longrightarrow> booked tid (AtReady t p) w a w' {#} {#}"
  by (auto simp: act_activate_def booked_def hand_def pinned_ok_def queued_ok_def with_active_def)

lemma booked_resume: "act_resume task p w = Inr (a, w') \<Longrightarrow> booked tid (Resuming task p) w a w' {#} {#}"
  by (auto simp: act_resume_def faults booked_def hand_def pinned_ok_def)

lemma booked_settle:
  assumes "act_settle io_weakup task p w = Inr (a, w')"
  shows "booked tid (InFiber task p) w a w' (mset (drop (length (tasks (sch w))) (tasks (sch w')))) {#}"
proof -
  have a: "a = Settled task" using assms by (auto simp: act_settle_def faults)
  have "sch w' = sch w \<or> sch w' = schedule io_weakup (sch w) (fiber_task p)"
    using assms by (auto simp: act_settle_def faults split: if_splits)
  then show ?thesis
  proof
    assume "sch w' = sch w"
    then show ?thesis by (simp add: booked_def hand_def pinned_ok_def a)
  next
    assume w': "sch w' = schedule io_weakup (sch w) (fiber_task p)"
    have "\<not> null_task (fiber_task p)" "one_kind (fiber_task p)" by (simp_all add: null_task_def one_kind_def fiber_task_def)
    then show ?thesis by (auto simp: booked_def hand_def pinned_ok_def queued_ok_def a w' sched_simp)
  qed
qed

lemma booked_leave: "act_leave task w = Inr (a, w') \<Longrightarrow> booked tid (Settled task) w a w' {#} (hand (Settled task))"
  by (auto simp: act_leave_def booked_def hand_def pinned_ok_def queued_ok_def with_idle_def with_active_def split: if_splits)

lemma pool_step_ok:
  assumes "pool_step n idle W s s'" and "finite W" and "pool_ok W s"
  shows "pool_ok W s'"
  using assms(1)
proof cases
  case (ps_take tid ex a w)
  have "queued_ok (sch (seen s tid))" using assms(3) by (simp add: pool_ok_def seen_def)
  from booked_take [OF ps_take(4) this] show ?thesis
    using ps_take by (intro booked_ok [OF assms(2,3) ps_take(2)]) (simp_all add: moved_def)
next
  case (ps_test tid task fresh a w)
  from booked_test [OF ps_test(4)] show ?thesis
    using ps_test by (intro booked_ok [OF assms(2,3) ps_test(2)]) (simp_all add: moved_def)
next
  case (ps_activate tid t p a w)
  from booked_activate [OF ps_activate(4)] show ?thesis
    using ps_activate by (intro booked_ok [OF assms(2,3) ps_activate(2)]) (simp_all add: moved_def)
next
  case (ps_resume tid task p a w)
  from booked_resume [OF ps_resume(4)] show ?thesis
    using ps_resume by (intro booked_ok [OF assms(2,3) ps_resume(2)]) (simp_all add: moved_def)
next
  case (ps_settle tid task p a w)
  from booked_settle [OF ps_settle(4)] show ?thesis
    using ps_settle by (intro booked_ok [OF assms(2,3) ps_settle(2)]) (simp_all add: moved_def seen_def)
next
  case (ps_leave tid task a w)
  from booked_leave [OF ps_leave(4)] show ?thesis
    using ps_leave by (intro booked_ok [OF assms(2,3) ps_leave(2)]) (simp_all add: moved_def)
next
  case (ps_post t)
  then show ?thesis
    using assms(3) by (auto simp: pool_ok_def queued_ok_def sched_simp ac_simps)
qed (use assms(3) in \<open>simp_all add: pool_ok_def queued_ok_def\<close>)

lemma pool_always_ok:
  assumes "pool_reachable n idle W s" and "finite W"
  shows "pool_ok W s"
  using assms(1)
proof induction
  case (pr_start s)
  then show ?case by (simp add: pool_ok_def queued_ok_def pinned_ok_def hand_def)
next
  case (pr_step s s')
  then show ?case using pool_step_ok [OF _ assms(2)] by blast
qed

section \<open>Properties\<close>

lemma sum_of_bool_pos:
  fixes f :: "'b \<Rightarrow> bool"
  assumes "finite W"
  shows "0 < (\<Sum>i\<in>W. of_bool (f i) :: int) \<longleftrightarrow> (\<exists>i\<in>W. f i)" and "(\<Sum>i\<in>W. of_bool (f i) :: int) = 0 \<longleftrightarrow> (\<forall>i\<in>W. \<not> f i)"
proof -
  have eq: "(\<Sum>i\<in>W. of_bool (f i) :: int) = int (card {i \<in> W. f i})" using assms by (simp add: Int_def)
  show "0 < (\<Sum>i\<in>W. of_bool (f i) :: int) \<longleftrightarrow> (\<exists>i\<in>W. f i)" "(\<Sum>i\<in>W. of_bool (f i) :: int) = 0 \<longleftrightarrow> (\<forall>i\<in>W. \<not> f i)"
    unfolding eq using assms by (auto simp: card_gt_0_iff)
qed

lemma size_hand: "size (hand a) \<le> 1"
  by (simp add: hand_def split: option.splits)

text \<open>
  C15. The workers share the queue: in every state that any number of workers lead to, in any order of their actions and whatever is posted and the
  fibers do in between, every task ever posted is queued, in the hands of one worker, or over, and no task is in two of these places; a
  task pinned to a thread is in no other worker's hands; no assertion of \<open>take\<close> and of the loop on the shape of a task fails; there is an idle thread exactly when
  a worker is in its idle fiber's turn, and \<open>canStop\<close> means that the queue is empty and no worker is in the turn of a
  task. When all have left, all tasks but those in the queue and at most one for each worker are over.
\<close>

theorem workers_share_queue:
  assumes "pool_reachable n idle W s" and "finite W"
  shows "posted s = mset (tasks (shared_sch s)) + (\<Sum>tid\<in>W. hand (place s tid)) + handled s
    \<and> (\<forall>tid t. in_hand (place s tid) = Some t \<longrightarrow> threadId t = -1 \<or> threadId t = tid)
    \<and> (\<forall>ex tid. \<exists>r. act_take ex tid (seen s tid) = Inr r)
    \<and> (\<forall>tid t fresh. in_hand (place s tid) = Some t \<and> n \<noteq> 0 \<longrightarrow> (\<exists>p w. task_to_fiber n fresh t (seen s tid) = Inr (Some p, w)))
    \<and> (hasIdleThread (shared_sch s) \<longleftrightarrow> (\<exists>tid\<in>W. idle_at (place s tid)))
    \<and> (canStop (shared_sch s) \<longrightarrow> tasks (shared_sch s) = [] \<and> (\<forall>tid\<in>W. \<not> active_at (place s tid)))
    \<and> size (posted s) \<le> length (tasks (shared_sch s)) + card W + size (handled s)"
proof -
  have ok: "pool_ok W s" by (rule pool_always_ok [OF assms])
  have take: "\<exists>r. act_take ex tid (seen s tid) = Inr r" for ex tid
  proof -
    have "queue_ok (shared_sch s)" using ok by (simp add: pool_ok_def queued_ok_queue)
    then show ?thesis
      by (cases rule: take_task_cases [where ex = ex and tid = tid]) (simp_all add: act_take_def seen_def)
  qed
  have kind: "\<exists>p w. task_to_fiber n fresh t (seen s tid) = Inr (Some p, w)" if "in_hand (place s tid) = Some t" "n \<noteq> 0" for tid t fresh
  proof -
    have "\<not> null_task t" "one_kind t" using ok that(1) by (auto simp: pool_ok_def pinned_ok_def)
    then show ?thesis
      using that(2) by (auto simp: null_task_def one_kind_def task_to_fiber_def NewFiber_def)
  qed
  have "size (\<Sum>tid\<in>W. hand (place s tid)) \<le> card W"
    using sum_mono [of W "\<lambda>tid. size (hand (place s tid))" "\<lambda>_. 1", OF size_hand] by simp
  then have "size (posted s) \<le> length (tasks (shared_sch s)) + card W + size (handled s)" using ok by (simp add: pool_ok_def)
  then show ?thesis
    using ok take kind sum_of_bool_pos [OF assms(2)]
    by (simp add: pool_ok_def pinned_ok_def hasIdleThread_def canStop_def)
qed

text \<open>Two workers, 1 and 2, with their scheduler fibers and idle fibers, and a suspended fiber 5.\<close>

definition two_fibers :: "nat job fibers" where
  "two_fibers = \<lparr>heap = (\<lambda>p. if p = 5 then Some (example_fiber (Job 0))
       else if p = 11 \<or> p = 12 then Some example_root else if p = 21 \<or> p = 22 then Some ((example_fiber (Job 0))\<lparr>state := HOLD\<rparr>) else None),
     numsCreated = 3, fiber_count = 5\<rparr>"

definition stage :: "nat place \<Rightarrow> nat place \<Rightarrow> nat task list \<Rightarrow> int \<Rightarrow> nat task multiset \<Rightarrow> (nat, unit) pool" where
  "stage a b ts active po =
     \<lparr>place = (\<lambda>_. AtTake)(1 := a, 2 := b), pointers = (\<lambda>tid. example_thread (if tid = 1 then 11 else 12)), shared_fib = two_fibers,
      shared_sch = three_tasks\<lparr>tasks := ts, activeThreadNums := active\<rparr>, shared_outside = (), posted = po, handled = {#}\<rparr>"

definition idle_of :: "int \<Rightarrow> nat" where
  "idle_of tid = (if tid = 1 then 21 else 22)"

abbreviation "five \<equiv> (fiber_task 5 :: nat task)"

definition part :: "nat \<Rightarrow> nat task list \<Rightarrow> int \<Rightarrow> (nat, unit) world" where
  "part r ts active = \<lparr>thr = example_thread r, fib = two_fibers, sch = three_tasks\<lparr>tasks := ts, activeThreadNums := active\<rparr>, outside = ()\<rparr>"

lemma stage_simps:
  "seen (stage a b ts act po) 1 = part 11 ts act" "seen (stage a b ts act po) 2 = part 12 ts act"
  "place (stage a b ts act po) 1 = a" "place (stage a b ts act po) 2 = b"
  "moved 1 a' (part 11 ts' act') (stage a b ts act po) = stage a' b ts' act' po"
  "moved 2 b' (part 12 ts' act') (stage a b ts act po) = stage a b' ts' act' po"
  by (auto simp: seen_def stage_def part_def moved_def)

lemma stage_acts:
  "act_take (exec_state two_fibers) tid (part r (five # ts) act) = Inr (AtTest (Some five), part r ts act)"
  "act_test 8 (idle_of tid) fresh (Some five) (part r ts act) = Inr (AtReady five 5, part r ts act)"
  "act_activate five 5 (part r ts act) = Inr (Resuming (Some five) 5, part r ts (act + 1))"
proof -
  have heap: "heap two_fibers 5 = Some (example_fiber (Job 0))" "heap two_fibers (idle_of tid) = Some ((example_fiber (Job 0))\<lparr>state := HOLD\<rparr>)"
    by (simp_all add: two_fibers_def idle_of_def)
  have f: "\<not> finish (example_fiber (Job (0::nat)))" "\<not> finish ((example_fiber (Job (0::nat)))\<lparr>state := HOLD\<rparr>)" "\<not> exec_state two_fibers 5"
    by (simp_all add: finish_def example_fiber_def exec_state_def heap)
  show "act_take (exec_state two_fibers) tid (part r (five # ts) act) = Inr (AtTest (Some five), part r ts act)"
    using f(3) by (simp add: act_take_def take_task_def part_def fiber_task_def Let_def three_tasks_def)
  show "act_test 8 (idle_of tid) fresh (Some five) (part r ts act) = Inr (AtReady five 5, part r ts act)"
    using f by (simp add: act_test_def task_to_fiber_def fiber_task_def part_def getf_simps heap)
  show "act_activate five 5 (part r ts act) = Inr (Resuming (Some five) 5, part r ts (act + 1))"
    by (simp add: act_activate_def with_active_def part_def three_tasks_def)
qed

lemma stage_post: "pool_step 8 idle_of {1, 2} (stage a b ts act po) (stage a b (ts @ [five]) act (po + {#five#}))"
  using ps_post [of five 8 idle_of "{1, 2}" "stage a b ts act po"]
  by (simp add: stage_def one_kind_def null_task_def fiber_task_def schedule_def scheduleNonBlock_def io_weakup_def hasIdleThread_def
      three_tasks_def split: if_splits)

lemma stage_steps:
  fixes b :: "nat place"
  defines "S \<equiv> pool_step 8 idle_of {1, 2}"
  shows "S (stage AtTake b (five # ts) act po) (stage (AtTest (Some five)) b ts act po)"
    and "S (stage b AtTake (five # ts) act po) (stage b (AtTest (Some five)) ts act po)"
    and "S (stage (AtTest (Some five)) b ts act po) (stage (AtReady five 5) b ts act po)"
    and "S (stage b (AtTest (Some five)) ts act po) (stage b (AtReady five 5) ts act po)"
    and "S (stage (AtReady five 5) b ts act po) (stage (Resuming (Some five) 5) b ts (act + 1) po)"
    and "S (stage b (AtReady five 5) ts act po) (stage b (Resuming (Some five) 5) ts (act + 1) po)"
proof -
  have w: "(1::int) \<in> {1, 2}" "(2::int) \<in> {1, 2}" by simp_all
  have same: "(stage a b ts act po)\<lparr>handled := handled (stage c d us i po)\<rparr> = stage a b ts act po" for a b c d ts us act i po
    by (simp add: stage_def)
  note t1 = ps_take [where tid = 1 and s = "stage AtTake b (five # ts) act po" and n = 8 and idle = idle_of, OF w(1), unfolded stage_simps]
    and t2 = ps_take [where tid = 2 and s = "stage b AtTake (five # ts) act po" and n = 8 and idle = idle_of, OF w(2), unfolded stage_simps]
    and c1 = ps_test [where tid = 1 and s = "stage (AtTest (Some five)) b ts act po" and n = 8 and idle = idle_of, OF w(1), unfolded stage_simps]
    and c2 = ps_test [where tid = 2 and s = "stage b (AtTest (Some five)) ts act po" and n = 8 and idle = idle_of, OF w(2), unfolded stage_simps]
    and a1 = ps_activate [where tid = 1 and s = "stage (AtReady five 5) b ts act po" and n = 8 and idle = idle_of, OF w(1), unfolded stage_simps]
    and a2 = ps_activate [where tid = 2 and s = "stage b (AtReady five 5) ts act po" and n = 8 and idle = idle_of, OF w(2), unfolded stage_simps]
  show "S (stage AtTake b (five # ts) act po) (stage (AtTest (Some five)) b ts act po)"
    using t1 [OF refl stage_acts(1)] unfolding S_def stage_simps .
  show "S (stage b AtTake (five # ts) act po) (stage b (AtTest (Some five)) ts act po)"
    using t2 [OF refl stage_acts(1)] unfolding S_def stage_simps .
  show "S (stage (AtTest (Some five)) b ts act po) (stage (AtReady five 5) b ts act po)"
    using c1 [OF refl stage_acts(2)] unfolding S_def stage_simps by (simp add: same)
  show "S (stage b (AtTest (Some five)) ts act po) (stage b (AtReady five 5) ts act po)"
    using c2 [OF refl stage_acts(2)] unfolding S_def stage_simps by (simp add: same)
  show "S (stage (AtReady five 5) b ts act po) (stage (Resuming (Some five) 5) b ts (act + 1) po)"
    using a1 [OF refl stage_acts(3)] unfolding S_def stage_simps .
  show "S (stage b (AtReady five 5) ts act po) (stage b (Resuming (Some five) 5) ts (act + 1) po)"
    using a2 [OF refl stage_acts(3)] unfolding S_def stage_simps .
qed

abbreviation "raced \<equiv> stage (Resuming (Some five) 5) (Resuming (Some five) 5) [] 2 {#five, five#}"

text \<open>Both workers take a task for the fiber before either has resumed it.\<close>

lemma both_hold_it:
  "pool_reachable 8 idle_of {1, 2} raced"
proof -
  let ?R = "pool_reachable 8 idle_of {1, 2}"
  note step = pr_step
  have "?R (stage AtTake AtTake [] 0 {#})"
    by (rule pr_start) (simp_all add: stage_def three_tasks_def)
  from step [OF step [OF this stage_post] stage_post] have "?R (stage AtTake AtTake [five, five] 0 {#five, five#})" by simp
  from step [OF step [OF this stage_steps(1)] stage_steps(2)] have "?R (stage (AtTest (Some five)) (AtTest (Some five)) [] 0 {#five, five#})" .
  from step [OF step [OF this stage_steps(3)] stage_steps(4)] have "?R (stage (AtReady five 5) (AtReady five 5) [] 0 {#five, five#})" .
  from step [OF step [OF this stage_steps(5)] stage_steps(6)] show ?thesis by simp
qed

text \<open>
  A fiber that is queued twice can be taken by two workers: \<open>take\<close> leaves alone what is in \<open>EXEC\<close>, but the state is only set when the
  fiber is resumed, after the lock has been released. The second to resume it fails the assertion of \<open>sched_resume\<close>.
\<close>

theorem fiber_taken_twice:
  "\<exists>(s :: (nat, unit) pool). pool_reachable 8 idle_of {1, 2} s \<and> place s 1 = Resuming (Some five) 5 \<and> place s 2 = Resuming (Some five) 5
     \<and> (\<exists>a w. act_resume (Some five) 5 (seen s 1) = Inr (a, w)
          \<and> act_resume (Some five) 5 (seen (moved 1 a w s) 2) = Inl AssertFail)"
proof -
  let ?s = raced
  have s: "seen ?s 1 = part 11 [] 2" by (rule stage_simps)
  have heap: "in_scheduler (example_thread 11) two_fibers 11" "heap two_fibers 5 = Some (example_fiber (Job 0))"
    by (simp_all add: two_fibers_def in_scheduler_def example_thread_def example_root_def)
  obtain th fb where r: "sched_resume (example_thread 11) two_fibers 5 = Inr (th, fb)" "in_fiber th fb 11 5"
    by (rule sched_resume_ok [OF heap]) (simp_all add: example_world)
  obtain f where f: "heap fb 5 = Some f" "state f = EXEC" using r(2) by (auto simp: in_fiber_def)
  let ?w = "(part 11 [] 2)\<lparr>thr := th, fib := fb\<rparr>"
  have "act_resume (Some five) 5 (seen ?s 1) = Inr (InFiber (Some five) 5, ?w)"
    using r(1) unfolding s by (simp add: act_resume_def part_def)
  moreover have "act_resume (Some five) 5 (seen (moved 1 (InFiber (Some five) 5) ?w ?s) 2) = Inl AssertFail"
    using f by (simp add: act_resume_def seen_def moved_def sched_resume_def resume_from_def getf_simps)
  ultimately show ?thesis using both_hold_it by (intro exI [of _ ?s]) (simp add: stage_simps)
qed

theorem workers_share_queue_witness:
  "posted raced
     = (\<Sum>tid\<in>{1, 2}. hand (place raced tid))
   \<and> \<not> canStop (shared_sch raced)"
proof -
  have "tasks (shared_sch raced) = []"
      "handled raced = {#}"
      "active_at (place raced 1)"
    by (simp_all add: stage_def)
  then show ?thesis using workers_share_queue [OF both_hold_it] by auto
qed

section \<open>Waking\<close>

lemma weakups_schedule:
  assumes "\<not> null_task t"
  shows "weakups (schedule io_weakup s t) = weakups s + (if tasks s = [] \<and> hasIdleThread s then 1 else 0)"
  using assms by (auto simp: schedule_def scheduleNonBlock_def null_task_def io_weakup_def hasIdleThread_def)

text \<open>The worker has found the queue empty and is about to count itself idle.\<close>

lemma goes_idle:
  "act_test 8 (idle_of tid) fresh None (part r ts act) = Inr (Resuming None (idle_of tid), with_idle 1 (part r ts act))"
proof -
  have "heap two_fibers (idle_of tid) = Some ((example_fiber (Job 0))\<lparr>state := HOLD\<rparr>)" by (simp add: two_fibers_def idle_of_def)
  then show ?thesis by (simp add: act_test_def part_def getf_simps finish_def)
qed

lemma task_and_nobody_awake:
  obtains s :: "(nat, unit) pool" where "pool_reachable 8 idle_of {1} s" and "tasks (shared_sch s) = [five]" and "weakups (shared_sch s) = 0"
    and "place s 1 = InFiber None 21"
proof -
  let ?R = "pool_reachable 8 idle_of {1}" and ?v = "with_idle 1 (part 11 [five] 0)"
  note in_pool = stage_simps
  have "?R (stage AtTake AtTake [] 0 {#})"
    by (rule pr_start) (simp_all add: stage_def three_tasks_def)
  moreover have "act_take (exec_state two_fibers) 1 (part 11 [] 0) = Inr (AtTest None, part 11 [] 0)"
    by (simp add: act_take_def take_task_def part_def three_tasks_def)
  note ps_take [where tid = 1 and W = "{1}" and s = "stage AtTake AtTake [] 0 {#}" and n = 8 and idle = idle_of,
      OF singletonI, unfolded in_pool, OF refl this]
  ultimately have "?R (stage (AtTest None) AtTake [] 0 {#})" using pr_step unfolding in_pool by blast
  moreover have "pool_step 8 idle_of {1} (stage (AtTest None) AtTake [] 0 {#}) (stage (AtTest None) AtTake [five] 0 {#five#})"
    using ps_post [of five 8 idle_of "{1}" "stage (AtTest None) AtTake [] 0 {#}"]
    by (simp add: stage_def one_kind_def null_task_def fiber_task_def schedule_def scheduleNonBlock_def io_weakup_def hasIdleThread_def
        three_tasks_def)
  ultimately have posted: "?R (stage (AtTest None) AtTake [five] 0 {#five#})" by (rule pr_step)
  let ?s = "stage (AtTest None) AtTake [five] 0 {#five#}"
  let ?t = "(moved 1 (Resuming None 21) ?v ?s)\<lparr>handled := handled ?s + {#}\<rparr>"
  have "pool_step 8 idle_of {1} ?s ?t"
    using ps_test [where tid = 1 and W = "{1}" and s = ?s and n = 8 and idle = idle_of, OF singletonI, unfolded in_pool, OF refl goes_idle]
    by (simp add: idle_of_def)
  with posted have t: "?R ?t" by (rule pr_step)
  have seen: "seen ?t 1 = ?v" "place ?t 1 = Resuming None 21" by (simp_all add: seen_def moved_def with_idle_def part_def)
  have heap: "in_scheduler (example_thread 11) two_fibers 11" "heap two_fibers 21 = Some ((example_fiber (Job 0))\<lparr>state := HOLD\<rparr>)"
    by (simp_all add: two_fibers_def in_scheduler_def example_thread_def example_root_def)
  obtain th fb where "sched_resume (example_thread 11) two_fibers 21 = Inr (th, fb)"
    by (rule sched_resume_ok [OF heap]) (simp_all add: example_world)
  then have "act_resume None 21 ?v = Inr (InFiber None 21, ?v\<lparr>thr := th, fib := fb\<rparr>)"
    by (simp add: act_resume_def with_idle_def part_def)
  from ps_resume [where tid = 1 and W = "{1}" and s = ?t and n = 8 and idle = idle_of, OF singletonI, unfolded seen, OF refl this]
  have "?R (moved 1 (InFiber None 21) (?v\<lparr>thr := th, fib := fb\<rparr>) ?t)" using t pr_step by blast
  then show ?thesis by (rule that) (simp_all add: moved_def with_idle_def part_def three_tasks_def)
qed

text \<open>
  C16. Who is woken by a new task: exactly one byte is written to the pipe when the queue was empty and some worker is in its idle
  fiber's turn, and nobody is told otherwise. So a task that comes after the only worker has found the queue empty and before it has counted itself idle
  wakes nobody: the worker goes on into the idle fiber with the task in the queue and nothing in the pipe.
\<close>

theorem new_task_wakes:
  assumes "pool_reachable n idle W s" and "finite W" and "\<not> null_task t"
  shows "weakups (schedule io_weakup (shared_sch s) t) = weakups (shared_sch s)
      + (if tasks (shared_sch s) = [] \<and> (\<exists>tid\<in>W. idle_at (place s tid)) then 1 else 0)
    \<and> (\<exists>(s1 :: (nat, unit) pool). pool_reachable 8 idle_of {1} s1 \<and> tasks (shared_sch s1) = [five] \<and> weakups (shared_sch s1) = 0
         \<and> place s1 1 = InFiber None 21)"
proof -
  have "hasIdleThread (shared_sch s) \<longleftrightarrow> (\<exists>tid\<in>W. idle_at (place s tid))"
    using pool_always_ok [OF assms(1,2)] sum_of_bool_pos(1) [OF assms(2)] by (simp add: pool_ok_def hasIdleThread_def)
  moreover obtain s1 :: "(nat, unit) pool" where "pool_reachable 8 idle_of {1} s1" "tasks (shared_sch s1) = [five]"
      "weakups (shared_sch s1) = 0" "place s1 1 = InFiber None 21"
    by (rule task_and_nobody_awake)
  ultimately show ?thesis using weakups_schedule [OF assms(3)] by auto
qed

theorem new_task_wakes_witness:
  "weakups (schedule io_weakup (shared_sch raced) five) = 0"
proof -
  have "\<not> null_task five" by (simp add: null_task_def fiber_task_def)
  moreover have "\<not> (\<exists>tid\<in>{1, 2}. idle_at (place raced tid))"
      "weakups (shared_sch raced) = 0"
    by (simp_all add: stage_def three_tasks_def)
  ultimately show ?thesis using new_task_wakes [OF both_hold_it] by simp
qed

end
