(* ===== verification/Statics.thy ===== *)
theory Statics imports Prelude begin

text \<open>
  Objects that are made once: the instances of \<open>easy/base/Singleton.h\<close>, and the table of the original functions that \<open>HookInit\<close> of
  \<open>easy/base/hook.cc\<close> fills before anything is hooked.
\<close>

section \<open>Singletons\<close>

text \<open>A static variable of a function: the first call makes the object, of which the others get the address.\<close>

definition GetInstance :: "('k \<Rightarrow> nat \<times> 'k) \<Rightarrow> nat option \<times> 'k \<Rightarrow> nat \<times> nat option \<times> 'k" where
  "GetInstance make s =
     (case s of
        (Some v, k) \<Rightarrow> (v, Some v, k)
      | (None, k) \<Rightarrow> (let (v, k1) = make k in (v, Some v, k1)))"

text \<open>With a \<open>shared_ptr\<close> each call adds a holder to the static one.\<close>

definition GetInstance_ptr :: "('k \<Rightarrow> nat \<times> 'k) \<Rightarrow> (nat \<times> nat) option \<times> 'k \<Rightarrow> nat \<times> (nat \<times> nat) option \<times> 'k" where
  "GetInstance_ptr make s =
     (case s of
        (Some (v, holders), k) \<Rightarrow> (v, Some (v, holders + 1), k)
      | (None, k) \<Rightarrow> (let (v, k1) = make k in (v, Some (v, 2), k1)))"

fun instances :: "('k \<Rightarrow> nat \<times> 'k) \<Rightarrow> nat \<Rightarrow> nat option \<times> 'k \<Rightarrow> nat list \<times> nat option \<times> 'k" where
  "instances make 0 s = ([], s)"
| "instances make (Suc n) s =
     (let (v, s1) = GetInstance make s; (vs, s2) = instances make n s1 in (v # vs, s2))"

lemma instances_made: "instances make n (Some v, k) = (replicate n v, Some v, k)"
  by (induction n) (simp_all add: GetInstance_def)

text \<open>However often it is asked for there is one instance, made by the first call.\<close>

lemma one_instance: "instances make (Suc n) (None, k) = (replicate (Suc n) (fst (make k)), Some (fst (make k)), snd (make k))"
  by (simp add: GetInstance_def instances_made split: prod.splits)

section \<open>The original functions\<close>

definition HOOK_FUN :: "str list" where
  "HOOK_FUN = map chars [''sleep'', ''usleep'', ''nanosleep'', ''socket'', ''connect'', ''accept'', ''read'', ''readv'', ''recv'',
     ''recvfrom'', ''recvmsg'', ''write'', ''writev'', ''send'', ''sendto'', ''sendmsg'', ''close'', ''fcntl'', ''ioctl'',
     ''getsockopt'', ''setsockopt'']"

record 'f hook_table =
  isInited :: bool
  originals :: "str \<Rightarrow> 'f option"

definition no_originals :: "'f hook_table" where
  "no_originals = \<lparr>isInited = False, originals = (\<lambda>_. None)\<rparr>"

text \<open>\<open>dlsym\<close> gives null for a name it does not know. The flag is looked at and never set.\<close>

definition HookInit :: "(str \<Rightarrow> 'f option) \<Rightarrow> 'f hook_table \<Rightarrow> 'f hook_table" where
  "HookInit dlsym t =
     (if isInited t then t
      else t\<lparr>originals := foldl (\<lambda>m nm. m(nm := dlsym nm)) (originals t) HOOK_FUN\<rparr>)"

text \<open>A call of an original function.\<close>

definition original :: "'f hook_table \<Rightarrow> str \<Rightarrow> fault + 'f" where
  "original t nm = (case originals t nm of None \<Rightarrow> Inl NullDeref | Some f \<Rightarrow> Inr f)"

lemma foldl_upd: "foldl (\<lambda>m nm. m(nm := f nm)) g xs = (\<lambda>nm. if nm \<in> set xs then f nm else g nm)"
  by (induction xs arbitrary: g) (auto simp: fun_eq_iff)

text \<open>
  Before \<open>HookInit\<close> every hooked name calls a null pointer; after it each calls what \<open>dlsym\<close> found, and a second call
  looks all of them up again.
\<close>

lemma originals_found:
  assumes "nm \<in> set HOOK_FUN"
  shows "original no_originals nm = Inl NullDeref"
    and "dlsym nm = Some f \<Longrightarrow> original (HookInit dlsym no_originals) nm = Inr f"
    and "dlsym2 nm = Some g \<Longrightarrow> original (HookInit dlsym2 (HookInit dlsym no_originals)) nm = Inr g"
  using assms by (simp_all add: original_def HookInit_def no_originals_def foldl_upd)

end
