(* ===== verification/Backtraces.thy ===== *)
theory Backtraces imports Prelude begin

text \<open>
  \<open>easy/base/common.cc\<close>, \<open>common.h\<close>: the text of a backtrace, as \<open>EASY_ASSERT\<close> prints it, and the lookup of a parameter with a default. What
  \<open>backtrace_symbols\<close> gives and \<open>__cxa_demangle\<close> are arguments. The lemma shows what a symbol that is not demangled becomes.
\<close>

text \<open>A conversion \<open>%[\<close> or \<open>%s\<close> of \<open>sscanf\<close>: characters as long as they are of the set, at least one.\<close>

definition scan_set :: "(u8 \<Rightarrow> bool) \<Rightarrow> nat option \<Rightarrow> str \<Rightarrow> (str \<times> str) option" where
  "scan_set ok width s =
     (let x = (case width of None \<Rightarrow> takeWhile ok s | Some n \<Rightarrow> take n (takeWhile ok s)) in
      if x = [] then None else Some (x, drop (length x) s))"

definition blank :: "u8 \<Rightarrow> bool" where
  "blank c \<longleftrightarrow> c = 0x20 \<or> 0x09 \<le> c \<and> c \<le> 0x0D"

text \<open>The two formats \<open>"%*[^(]%*[^_]%255[^)+]"\<close> and \<open>"%255s"\<close>.\<close>

definition scan_mangled :: "str \<Rightarrow> str option" where
  "scan_mangled s =
     Option.bind (scan_set (\<lambda>c. c \<noteq> 0x28) None s) (\<lambda>(_, s1).
       Option.bind (scan_set (\<lambda>c. c \<noteq> 0x5F) None s1) (\<lambda>(_, s2).
         map_option fst (scan_set (\<lambda>c. c \<noteq> 0x29 \<and> c \<noteq> 0x2B) (Some 255) s2)))"

definition scan_word :: "str \<Rightarrow> str option" where
  "scan_word s = map_option fst (scan_set (\<lambda>c. \<not> blank c) (Some 255) (dropWhile blank s))"

text \<open>\<open>rt\<close> is a string of 256 characters that \<open>sscanf\<close> writes into.\<close>

definition demangle :: "(str \<Rightarrow> str option) \<Rightarrow> str \<Rightarrow> str" where
  "demangle cxa s =
     (let m = scan_mangled s;
          rt = (case m of None \<Rightarrow> replicate 256 0 | Some x \<Rightarrow> overwrite 0 (x @ [0]) (replicate 256 0)) in
      case Option.bind m cxa of
        Some v \<Rightarrow> v
      | None \<Rightarrow> (case scan_word s of None \<Rightarrow> s | Some x \<Rightarrow> overwrite 0 (x @ [0]) rt))"

text \<open>\<open>symbols\<close> is \<open>None\<close> when they could not be made; a negative \<open>skip\<close> reads in front of them.\<close>

definition Backtrace :: "(str \<Rightarrow> str option) \<Rightarrow> str list option \<Rightarrow> int \<Rightarrow> str list \<Rightarrow> fault + str list" where
  "Backtrace cxa symbols skip bt =
     (case symbols of
        None \<Rightarrow> Inr bt
      | Some ss \<Rightarrow> guardE (0 \<le> skip) OutOfBounds (Inr (bt @ map (demangle cxa) (drop (nat skip) ss))))"

definition BacktraceToString :: "(str \<Rightarrow> str option) \<Rightarrow> str list option \<Rightarrow> int \<Rightarrow> str \<Rightarrow> fault + str" where
  "BacktraceToString cxa symbols skip pre =
     bindE (Backtrace cxa symbols skip []) (\<lambda>bt. Inr (concat (map (\<lambda>l. pre @ l @ [0x0A]) bt)))"

definition GetParamValue :: "(str \<Rightarrow> fault + 'v) \<Rightarrow> ('k \<Rightarrow> str option) \<Rightarrow> 'k \<Rightarrow> 'v \<Rightarrow> 'v" where
  "GetParamValue cast m k d = (case m k of None \<Rightarrow> d | Some s \<Rightarrow> (case cast s of Inl e \<Rightarrow> d | Inr v \<Rightarrow> v))"

text \<open>A symbol that is not demangled is printed as its first word with zeros up to 256 characters.\<close>

lemma undemangled:
  assumes "scan_mangled s = None" and "s \<noteq> []" and "\<forall>c \<in> set s. \<not> blank c" and "length s \<le> 255"
  shows "demangle cxa s = s @ replicate (256 - length s) 0"
proof -
  have start: "dropWhile blank s = s" using assms(2,3) by (cases s) auto
  have all: "takeWhile (\<lambda>c. \<not> blank c) s = s" using assms(3) by simp
  have "scan_word s = Some s" unfolding scan_word_def scan_set_def start all using assms(2,4) by simp
  moreover have "0 # replicate (255 - length s) 0 = replicate (256 - length s) (0 :: u8)"
    using assms(4) by (simp flip: replicate_Suc add: Suc_diff_le)
  ultimately show ?thesis
    using assms(1) by (simp add: demangle_def overwrite_def)
qed

end
