(* ===== verification/Spec2Isabelle.thy ===== *)
theory Spec2Isabelle imports LogReload TcpServerState Guards Threads Worker Reactor EchoServer
  BufferMemory ConnectTimeout ServerPath EchoMain WorkerPool Statics
  Backtraces begin

text \<open>
  This development models \<open>easy\<close>, a C++ library for network servers: fibers that a pool of threads runs, a
  reactor that resumes them when a descriptor is ready or a timer expires, system calls that are hooked so that code which
  looks blocking yields its fiber instead, and on top of it sockets, byte buffers, a TCP server, logging and
  configuration. File names are those under \<open>src/\<close>.

  \<^bold>\<open>The parts and how they interact.\<close> A \<open>Scheduler\<close> keeps a queue of tasks, each a fiber or a callback; its worker threads take
  them and switch into their \<open>Fiber\<close>s. An \<open>IOManager\<close> is a scheduler whose idle fiber waits with \<open>epoll\<close>; it keeps a \<open>Channel\<close>
  for each descriptor with who waits to read or write, and is a \<open>TimerManager\<close> too. A hooked call (\<open>hook.cc\<close>) asks
  \<open>FdManager\<close> about its descriptor; when it would block it registers with the reactor, arms a timer and yields, and the event or the
  timer puts its fiber on the queue again. \<open>Socket\<close> and \<open>TcpServer\<close> call the hooked calls; \<open>Buffer\<close> hands its memory to
  them as views. \<open>Logger\<close> writes records through formatters to appenders and is set up by a listener of a \<open>Config\<close> variable.

  \<^bold>\<open>How the code is modelled.\<close> A class with values is a record, an enumeration a datatype; an object that is shared through pointers lives in a
  store from addresses to records. An operation is a function from the state before to a value of \<open>fault + result \<times> state\<close>, where a \<open>fault\<close> is
  undefined behaviour, an exception or a failed assertion, so that its absence is something to prove. \<open>size_t\<close> is \<open>nat\<close> where it counts
  memory, with subtraction wrapped by \<open>sub64\<close>; the integers that are stored or sent are words of their width. A loop
  that need not end is a \<open>partial_function\<close> and \<open>None\<close> is that it does not; there is no fuel anywhere. What the kernel, the resolver, OpenSSL,
  yaml-cpp, the clock and uninitialised memory do are arguments. A call that waits is split where it yields: what it does
  before, with the variables it keeps as a value, and what it does with the answer.

  \<^bold>\<open>Theories.\<close>
  \<^item> \<open>Prelude\<close>: faults, sequencing, machine integers, blocks of memory and the lemmas on lists all others share. \<open>OrderedSet\<close>:
    \<open>std::set\<close> over a comparison, as the interface \<open>ordered_set\<close>, which the timers (\<open>timer_set\<close>) and strings (\<open>str_order\<close>) meet.
  \<^item> \<open>Endian\<close> (\<open>net/Endian.h\<close>), \<open>ByteStream\<close>, \<open>Buffer\<close>, \<open>Codec\<close>, \<open>BufferIo\<close> (\<open>net/Buffer.cc\<close>): the interfaces \<open>byte_source\<close> and
    \<open>byte_cursor\<close> carry every decoder and encoder; the buffer meets them (\<open>buf\<close>), from which the round trips follow. \<open>buf_ok\<close> is its
    invariant, kept by all operations; \<open>stored\<close> and \<open>unread\<close> are its abstract view. \<open>BufferMemory\<close>: which blocks a buffer allocates and frees.
    \<open>Connection\<close>: two buffers at the ends of a connection.
  \<^item> \<open>Timestamp\<close>, \<open>Timer\<close> (\<open>base/Timestamp.h\<close>, \<open>base/Timer.cc\<close>): timers in a store, the set of them, the timer descriptor; what fires and when.
  \<^item> \<open>Fiber\<close>, \<open>Scheduler\<close>, \<open>Worker\<close>, \<open>WorkerPool\<close> (\<open>base/Fiber.cc\<close>, \<open>base/Scheduler.cc\<close>): context switches between fibers; the queue, whose interface
    for those who post is \<open>task_queue\<close>; one iteration of a worker, and the worker from \<open>run\<close> to its return, with what the callbacks it runs do
    to a state outside. In \<open>WorkerPool\<close> any number of workers act in
    any order; alone, the actions of one are an iteration.
  \<^item> \<open>Channel\<close>, \<open>IOManager\<close>, \<open>Reactor\<close> (\<open>base/Channel.cc\<close>, \<open>base/IOManager.cc\<close>): the operations on events with the invariant \<open>iom_ok\<close> of a reactor whose views agree, the dispatch of what a wait
    delivers, every state these lead to with late reports, racing \<open>grow\<close>s and descriptors closed behind the reactor, where the views differ by a known amount, and the idle loop
    with the wait itself. Of \<open>epoll_ctl\<close> the theorems need at most \<open>documented_ctl\<close>: for the descriptor in question it refuses what it documents
    (\<open>EEXIST\<close>, \<open>ENOENT\<close>) and nothing else.
  \<^item> \<open>Locks\<close>, \<open>Guards\<close>, \<open>Threads\<close> (\<open>base/Mutex.h\<close>, \<open>Mutex.cc\<close>, \<open>Condition.cc\<close>, \<open>Atomic.h\<close>, \<open>Thread.cc\<close>, \<open>EASY_CHECK\<close> of \<open>Macro.h\<close>): the interface
    \<open>lock_contract\<close> is what a guard needs of a lock; mutex, spin lock and read-write lock meet it.
    A thread is a relation of steps of its constructor, its own function and its owner, in any order.
  \<^item> \<open>FdManager\<close>, \<open>Hook\<close>, \<open>HookCalls\<close> (\<open>base/FdManager.cc\<close>, \<open>base/hook.cc\<close>): descriptor contexts; every hooked call over the reactor and the timers.
    \<open>ConnectTimeout\<close>: \<open>connect\<close> with the configuration variable its timeout is a copy of.
  \<^item> \<open>Address\<close>, \<open>AddressLookup\<close> (\<open>net/Address.cc\<close>), \<open>Socket\<close>, \<open>SocketState\<close>, \<open>SslSocket\<close> (\<open>net/Socket.cc\<close>), \<open>TcpServer\<close>,
    \<open>TcpServerState\<close> (\<open>net/TcpServer.cc\<close>), \<open>EchoServer\<close>, \<open>EchoMain\<close> (\<open>examples/echo_server.cc\<close>). \<open>ServerPath\<close>: a client's way from
    the waiting \<open>accept\<close> through the reactor to the worker.
  \<^item> \<open>LogLevel\<close>, \<open>LogFormatter\<close>, \<open>Logger\<close>, \<open>LogDispatch\<close>, \<open>LogConfig\<close>, \<open>LogReload\<close> (\<open>base/Log*.cc\<close>, \<open>base/Logger.cc\<close>): patterns, records, loggers and appenders
    in two stores with the invariant \<open>logs_wired\<close> (\<open>logs_ok\<close> when no null formatter was set), and the listener that carries a configuration over, against what its definitions say.
  \<^item> \<open>Yaml\<close>, \<open>Config\<close> (\<open>base/Config.h\<close>, \<open>base/Config.cc\<close>), \<open>Env\<close>, \<open>FileUtil\<close>: conversions, variables with listeners, loading documents; arguments and paths. \<open>Backtraces\<close> (\<open>base/common.cc\<close>). \<open>Statics\<close> (\<open>base/Singleton.h\<close>, \<open>HookInit\<close>).

  \<^bold>\<open>What the theorems show.\<close> Invariants by rule induction over every order of operations: reactor, buffer, loggers, connected sockets, guards,
  a thread's life, the tasks of a pool of workers. Functional behaviour on every branch: timers, the queue, binding and accepting, loading documents, patterns. Round trips: integers,
  strings, containers, arguments, timeouts. Equivalence of a hooked call with the original one. Termination: a worker leaves, a server comes up, logging ends, a client reaches its handler and is served. Memory: a buffer frees what it took.
  In this theory, across components: a string crosses a connection, and the server of the example prints what it receives.
  Where the code departs from what it means to do the theorems state what it does, so several describe a defect.

  \<^bold>\<open>Granularity of concurrency.\<close> The operations of one component are taken one at a time, as its lock makes them; where the code lets go of a
  lock or reads before it takes it the operation is split and the steps in between are any others (the table of descriptors, the channels, the timers,
  a fiber that publishes its state before it has switched, a worker between \<open>take\<close> and the counters). Memory is sequentially consistent.

  \<^bold>\<open>Not modelled.\<close> \<open>noncopyable.h\<close>, \<open>copyable.h\<close> and the logging macros but \<open>ELOG_LEVEL\<close> and \<open>ELOG_FMT_LEVEL\<close> hold no behaviour of their own, as the
  declarations in the headers; the fiber's stack allocators are calls of \<open>mmap\<close> and \<open>malloc\<close>; the text that the components log about themselves has no effect on
  them. Sizes of memory are assumed to be
  such that \<open>double\<close> holds them exactly (below \<open>2 ^ 53\<close>), which only \<open>addCapacity\<close> depends on.
\<close>

section \<open>Properties across components\<close>

text \<open>
  C5. A string crosses a connection. The string is not empty, its length fits the 16 bit prefix, prefix and string fit together into what is left of the node the
  sending buffer's cursor is in (\<open>write\<close> drops what does not fit a node, without telling), and the two buffers are set to the same
  byte order, whatever the byte orders of the hosts. Then, written with its length by \<open>writeStringF16\<close> on one host, sent in pieces of any
  size from the views of one buffer and received in pieces of any size into the views of another, it is read back by
  \<open>readStringF16\<close> on the other host. In every intermediate state what has arrived, what is on its way and what
  is still to be sent are together what was written, behind what the receiver had; no call on the buffers fails, and
  the transfer can always be brought to its end.
\<close>

theorem string_crosses:
  assumes "buf_ok b" and "buf_ok r0" and "endian r0 = endian b"
    and "v \<noteq> []" and "2 + length v \<le> node_room b" and "length v < 2 ^ 16"
  shows "\<exists>w b0. writeStringF16 host ms b v = Inr w \<and> setPosition w (position b) = Inr b0
    \<and> (\<forall>b1 wire r. (transfer mr)\<^sup>*\<^sup>* (b0, [], r0) (b1, wire, r) \<longrightarrow>
        arrived (position r0) r @ wire @ unread b1 = unread b0
      \<and> take (position r0) (Buffer.stored r) = take (position r0) (Buffer.stored r0)
      \<and> (\<forall>len. (\<exists>x. getReadBuffers b1 len = Inr x) \<and> (\<exists>x. getWriteBuffers mr r len = Inr x))
      \<and> (\<exists>b2 r2. (transfer mr)\<^sup>*\<^sup>* (b1, wire, r) (b2, [], r2) \<and> unread b2 = [])
      \<and> (wire = [] \<and> unread b1 = [] \<longrightarrow>
          (\<exists>r1 r2. setPosition r (position r0) = Inr r1 \<and> readStringF16 host' r1 = Inr (v, r2))))"
proof -
  obtain w b0 ys where w: "writeStringF16 host ms b v = Inr w" "setPosition w (position b) = Inr b0" "buf_ok b0"
      "unread b0 = object_bytes (endian b) (of_nat (length v) :: u16) @ v @ ys"
    by (rule string_written [OF assms(1,4-6)])
  have calls: "(\<exists>x. getReadBuffers b1 len = Inr x) \<and> (\<exists>x. getWriteBuffers mr r len = Inr x)"
    if "buf_ok b1" "buf_ok r" for b1 r len
    using getReadBuffers_correct [OF that(1), of len] receive_ok [OF that(2), of "[]" len mr] by (metis le0 list.size(3))
  have reads: "\<exists>r1 r2. setPosition r (position r0) = Inr r1 \<and> readStringF16 host' r1 = Inr (v, r2)"
    if "in_order b0 r0 (b1, [], r)" "unread b1 = []" for b1 r
  proof -
    have r: "buf_ok r" "endian r = endian b" "position r0 \<le> position r" "arrived (position r0) r = unread b0"
      using that assms(3) by (auto simp: in_order_def)
    have le: "position r \<le> length (Buffer.stored r)" using r(1) by (simp add: stored_length) (simp add: buf_ok_def)
    then obtain r1 where r1: "setPosition r (position r0) = Inr r1" "buf_ok r1" "Buffer.stored r1 = Buffer.stored r"
        "position r1 = position r0" "endian r1 = endian r"
      using buf.goto_exact [OF r(1), of "position r0"] r(3) by auto
    have "unread r1 = arrived (position r0) r @ drop (position r) (Buffer.stored r)"
      using r1(3,4) arrived_rest [OF r(1,3)] by (simp add: unread_def)
    then have "unread r1 = object_bytes (endian r1) (of_nat (length v) :: u16) @ v @ (ys @ drop (position r) (Buffer.stored r))"
      using r(2,4) r1(5) w(4) by simp
    then show ?thesis using string_received [OF r1(2) assms(4,6)] r1(1) by blast
  qed
  have each: "arrived (position r0) r @ wire @ unread b1 = unread b0
      \<and> take (position r0) (Buffer.stored r) = take (position r0) (Buffer.stored r0)
      \<and> (\<forall>len. (\<exists>x. getReadBuffers b1 len = Inr x) \<and> (\<exists>x. getWriteBuffers mr r len = Inr x))
      \<and> (\<exists>b2 r2. (transfer mr)\<^sup>*\<^sup>* (b1, wire, r) (b2, [], r2) \<and> unread b2 = [])
      \<and> (wire = [] \<and> unread b1 = [] \<longrightarrow>
          (\<exists>r1 r2. setPosition r (position r0) = Inr r1 \<and> readStringF16 host' r1 = Inr (v, r2)))"
    if "(transfer mr)\<^sup>*\<^sup>* (b0, [], r0) (b1, wire, r)" for b1 wire r
  proof -
    have ord: "in_order b0 r0 (b1, wire, r)" by (rule in_order_always [OF that w(3) assms(2)])
    then have ok: "buf_ok b1" "buf_ok r" by (simp_all add: in_order_def)
    have "arrived (position r0) r @ wire @ unread b1 = unread b0
        \<and> take (position r0) (Buffer.stored r) = take (position r0) (Buffer.stored r0)"
      using ord by (simp add: in_order_def)
    then show ?thesis using ord calls [OF ok] transfer_ends [OF ok, of mr wire] reads [of b1 r] by blast
  qed
  show ?thesis by (intro exI [of _ w] exI [of _ b0] conjI w(1,2) allI impI each)
qed

theorem string_crosses_witness:
  "\<exists>w b0. writeStringF16 EASY_LITTLE_ENDIAN (\<lambda>_ _. 0) (new_Buffer (\<lambda>_ _. 0) 16) [0x68, 0x69] = Inr w \<and> setPosition w 0 = Inr b0
     \<and> (\<exists>b1 r1 r2 r3. (transfer (\<lambda>_ _. 0))\<^sup>*\<^sup>* (b0, [], new_Buffer (\<lambda>_ _. 0) 3) (b1, [], r1)
          \<and> setPosition r1 0 = Inr r2 \<and> readStringF16 EASY_BIG_ENDIAN r2 = Inr ([0x68, 0x69], r3))"
proof -
  let ?b = "new_Buffer (\<lambda>_ _. 0) 16" and ?r = "new_Buffer (\<lambda>_ _. 0) 3" and ?v = "[0x68, 0x69] :: u8 list"
  have ok: "buf_ok ?b" "buf_ok ?r" "endian ?r = endian ?b" "2 + length ?v \<le> node_room ?b" "position ?r = 0" "position ?b = 0"
    using new_Buffer_ok [of 16 "\<lambda>_ _. 0"] new_Buffer_ok [of 3 "\<lambda>_ _. 0"] by (simp_all add: new_Buffer_def node_room_def)
  note crosses = string_crosses [OF ok(1-3) _ ok(4), of EASY_LITTLE_ENDIAN "\<lambda>_ _. 0" "\<lambda>_ _. 0" EASY_BIG_ENDIAN]
  obtain w b0 where w: "writeStringF16 EASY_LITTLE_ENDIAN (\<lambda>_ _. 0) ?b ?v = Inr w" "setPosition w 0 = Inr b0"
    and t: "\<And>b1 wire r. (transfer (\<lambda>_ _. 0))\<^sup>*\<^sup>* (b0, [], ?r) (b1, wire, r) \<Longrightarrow>
        (\<exists>b2 r2. (transfer (\<lambda>_ _. 0))\<^sup>*\<^sup>* (b1, wire, r) (b2, [], r2) \<and> unread b2 = [])
      \<and> (wire = [] \<and> unread b1 = [] \<longrightarrow>
          (\<exists>r1 r2. setPosition r 0 = Inr r1 \<and> readStringF16 EASY_BIG_ENDIAN r1 = Inr (?v, r2)))"
    using crosses ok(5,6) by auto
  obtain b2 r2 where e: "(transfer (\<lambda>_ _. 0))\<^sup>*\<^sup>* (b0, [], ?r) (b2, [], r2)" "unread b2 = []"
    using t [OF rtranclp.rtrancl_refl] by blast
  then show ?thesis using w t [OF e(1)] by blast
qed

text \<open>
  C31. The server of the example prints what its clients send: \<open>handleClient\<close> ends exactly when the client closes or its
  connection fails, and then it has printed what came, in text mode byte for byte and otherwise in the cells
  of \<open>toHexString\<close> piece by piece, whatever memory the buffer was given. No call on the buffer fails.
\<close>

theorem echo_prints_received:
  assumes "proper rcv"
  shows "(handleClient ms txt rcv k = Some r) = (\<exists>cs k1. client_sends rcv k cs k1 \<and> r = Inr (printed txt cs, k1))"
proof
  have ok: "buf_ok (new_Buffer ms 4096)" by (rule new_Buffer_ok) simp
  assume r: "handleClient ms txt rcv k = Some r"
  then obtain cs k1 where "client_sends rcv k cs k1"
    using loop_ends [OF _ ok assms] unfolding handleClient_def by blast
  then show "\<exists>cs k1. client_sends rcv k cs k1 \<and> r = Inr (printed txt cs, k1)"
    using loop_prints [OF _ ok] r unfolding handleClient_def by (metis option.inject)
next
  have ok: "buf_ok (new_Buffer ms 4096)" by (rule new_Buffer_ok) simp
  assume "\<exists>cs k1. client_sends rcv k cs k1 \<and> r = Inr (printed txt cs, k1)"
  then obtain cs k1 where "client_sends rcv k cs k1" and r: "r = Inr (printed txt cs, k1)" by blast
  then show "handleClient ms txt rcv k = Some r"
    unfolding handleClient_def r by (intro loop_prints ok)
qed

text \<open>A client with bytes to send, of which \<open>recv\<close> gives as many as there are.\<close>

theorem echo_prints_received_witness:
  "handleClient (\<lambda>_ _. 0) False (\<lambda>len k. ((int (length (take len k)), take len k), drop len k)) [0x41, 0x42]
     = Some (Inr ([0x30, 0x41, 0x20, 0x30, 0x42, 0x20], []))"
proof -
  let ?rcv = "\<lambda>len k. ((int (length (take len k)), take len k), drop len k) :: (int \<times> u8 list) \<times> u8 list"
  have p: "proper ?rcv" by (simp add: proper_def)
  have "client_sends ?rcv [] [] []" by (rule cs_end [where rt = 0 and bs = "[]"]) simp_all
  then have "client_sends ?rcv [0x41, 0x42] [[0x41, 0x42]] []" by (intro cs_more) simp_all
  then show ?thesis using echo_prints_received [OF p, of _ False] by (fastforce simp: hex_cell_def)
qed

end
